(* ===== verification/Prelude.thy ===== *)
theory Prelude
  imports Main "HOL-Library.Word" "HOL-Library.List_Lexorder" "HOL-Library.Product_Lexorder"
begin

text \<open>
  Shared vocabulary of the development: bytes and machine words, errors as values of a sum
  type, the ordered associative containers of the C++ standard library (\<open>std::map\<close> and
  \<open>std::multimap\<close>) as key-sorted association lists, and the list facts the components share.
\<close>

unbundle bit_operations_syntax

named_theorems codec_simps \<open>round-trip equations of the binary codecs\<close>
named_theorems store_simps \<open>read-over-write equations of the stores\<close>

type_synonym byte = "8 word"
type_synonym bytes = "byte list"
type_synonym u32 = "32 word"
type_synonym u64 = "64 word"

section \<open>Exceptions as values\<close>

text \<open>Every \<open>throw\<close> of the modelled sources, and the two ways in which a C++ program can go
  wrong without one: a failed \<open>assert\<close> and an access that the language leaves undefined.\<close>

datatype exn =
    Truncated_datagram
  | Count_exceeds_datagram
  | Unknown_datagram_type
  | Bad_magic
  | Unsupported_proof_version
  | Unsupported_snapshot_version
  | Out_of_range
  | Lmdb_failure
  | Lmdb_map_full
  | Lmdb_store_full
  | Unknown_clock_event
  | Bad_index_value
  | Bad_version_record
  | Unsupported_store_version
  | Bad_function_call
  | Bad_peer_address
  | Key_failure
  | File_failure
  | Random_failure
  | Simulation_error
  | Assertion_failed
  | Undefined_behaviour
  | Diverges

type_synonym 'a result = "exn + 'a"

text \<open>The errors a C++ caller can catch, as opposed to an abort, undefined behaviour or a loop.\<close>

definition catchable :: "exn \<Rightarrow> bool" where
  "catchable e \<longleftrightarrow> e \<notin> {Assertion_failed, Undefined_behaviour, Diverges}"

definition bindE :: "'a result \<Rightarrow> ('a \<Rightarrow> 'b result) \<Rightarrow> 'b result" where
  "bindE r f = (case r of Inl e \<Rightarrow> Inl e | Inr x \<Rightarrow> f x)"

lemma bindE_simps [simp]:
  "bindE (Inl e) f = Inl e"
  "bindE (Inr x) f = f x"
  by (simp_all add: bindE_def)

lemma bindE_eq_Inr [simp]: "bindE r f = Inr y \<longleftrightarrow> (\<exists>x. r = Inr x \<and> f x = Inr y)"
  by (cases r) auto

lemma bindE_eq_Inl: "bindE r f = Inl e \<longleftrightarrow> r = Inl e \<or> (\<exists>x. r = Inr x \<and> f x = Inl e)"
  by (cases r) auto

lemma bindE_assoc: "bindE (bindE r f) g = bindE r (\<lambda>x. bindE (f x) g)"
  by (cases r) auto

text \<open>A loop over a list whose body may throw.\<close>

fun foldE :: "('a \<Rightarrow> 's \<Rightarrow> 's result) \<Rightarrow> 'a list \<Rightarrow> 's \<Rightarrow> 's result" where
  "foldE f [] s = Inr s"
| "foldE f (x # xs) s = bindE (f x s) (foldE f xs)"

lemma foldE_invariant:
  assumes "foldE f xs s = Inr t" and "P s"
    and "\<And>x s t. x \<in> set xs \<Longrightarrow> P s \<Longrightarrow> f x s = Inr t \<Longrightarrow> P t"
  shows "P t"
  using assms
proof (induction xs arbitrary: s)
  case Nil
  then show ?case by simp
next
  case (Cons x xs)
  then obtain u where "f x s = Inr u" "foldE f xs u = Inr t" by auto
  with Cons show ?case by (metis list.set_intros)
qed

lemma foldE_append: "foldE f (xs @ ys) s = bindE (foldE f xs s) (foldE f ys)"
  by (induction xs arbitrary: s) (simp_all add: bindE_def split: sum.split)

lemma foldE_no_error:
  assumes "P s"
    and "\<And>x s. x \<in> set xs \<Longrightarrow> P s \<Longrightarrow> \<exists>t. f x s = Inr t \<and> P t"
  shows "\<exists>t. foldE f xs s = Inr t \<and> P t"
  using assms
proof (induction xs arbitrary: s)
  case Nil
  then show ?case by simp
next
  case (Cons x xs)
  then obtain u where u: "f x s = Inr u" "P u" by force
  with Cons.IH [of u] Cons.prems show ?case by auto
qed

text \<open>What holds of the result whenever there is one, with a rule per construct.\<close>

definition post :: "('a \<Rightarrow> bool) \<Rightarrow> 'a result \<Rightarrow> bool" where
  "post P r \<longleftrightarrow> (case r of Inl _ \<Rightarrow> True | Inr x \<Rightarrow> P x)"

lemma post_simps [simp]: "post P (Inl e)" "post P (Inr x) \<longleftrightarrow> P x"
  by (simp_all add: post_def)

lemma postD: "post P r \<Longrightarrow> r = Inr x \<Longrightarrow> P x"
  by simp

lemma postI: "(\<And>x. r = Inr x \<Longrightarrow> P x) \<Longrightarrow> post P r"
  by (cases r) auto

lemma post_bind: "post Q r \<Longrightarrow> (\<And>x. Q x \<Longrightarrow> post P (f x)) \<Longrightarrow> post P (bindE r f)"
  by (cases r) auto

lemma post_bind_any: "(\<And>x. r = Inr x \<Longrightarrow> post P (f x)) \<Longrightarrow> post P (bindE r f)"
  by (cases r) auto

lemma post_foldE:
  assumes "P s" and "\<And>x s. x \<in> set xs \<Longrightarrow> P s \<Longrightarrow> post P (f x s)"
  shows "post P (foldE f xs s)"
  using assms
proof (induction xs arbitrary: s)
  case (Cons x xs)
  have "post P (f x s)" using Cons.prems by simp
  then show ?case using Cons by (auto intro!: post_bind [of P])
qed simp

section \<open>Ordered maps\<close>

text \<open>\<open>std::map\<close> iterates in key order, and the node's traffic depends on that order, so a map
  is an association list kept strictly sorted by key.\<close>

type_synonym ('k, 'v) omap = "('k \<times> 'v) list"

definition om_ok :: "('k::linorder, 'v) omap \<Rightarrow> bool" where
  "om_ok m \<longleftrightarrow> sorted_wrt (<) (map fst m)"

fun om_find :: "'k \<Rightarrow> ('k, 'v) omap \<Rightarrow> 'v option" where
  "om_find k [] = None"
| "om_find k ((a, v) # m) = (if k = a then Some v else om_find k m)"

fun om_put :: "'k::linorder \<Rightarrow> 'v \<Rightarrow> ('k, 'v) omap \<Rightarrow> ('k, 'v) omap" where
  "om_put k v [] = [(k, v)]"
| "om_put k v ((a, w) # m) =
     (if k < a then (k, v) # (a, w) # m
      else if k = a then (k, v) # m
      else (a, w) # om_put k v m)"

definition om_emplace :: "'k::linorder \<Rightarrow> 'v \<Rightarrow> ('k, 'v) omap \<Rightarrow> ('k, 'v) omap" where
  "om_emplace k v m = (case om_find k m of None \<Rightarrow> om_put k v m | Some _ \<Rightarrow> m)"

definition om_erase :: "'k \<Rightarrow> ('k, 'v) omap \<Rightarrow> ('k, 'v) omap" where
  "om_erase k m = filter (\<lambda>(a, _). a \<noteq> k) m"

lemma om_ok_Nil [simp]: "om_ok []"
  by (simp add: om_ok_def)

lemma om_ok_Cons: "om_ok ((a, v) # m) \<longleftrightarrow> (\<forall>(b, _) \<in> set m. a < b) \<and> om_ok m"
  by (auto simp: om_ok_def)

lemma om_find_conv: "om_find k m = map_of m k"
  by (induction m) auto

lemma om_find_None: "om_find k m = None \<longleftrightarrow> k \<notin> fst ` set m"
  by (simp add: om_find_conv map_of_eq_None_iff)

lemma om_find_in: "om_find k m = Some v \<Longrightarrow> (k, v) \<in> set m"
  by (simp add: om_find_conv map_of_SomeD)

lemma om_ok_distinct: "om_ok m \<Longrightarrow> distinct (map fst m)"
  by (auto simp: om_ok_def strict_sorted_iff)

lemma om_find_iff: "om_ok m \<Longrightarrow> om_find k m = Some v \<longleftrightarrow> (k, v) \<in> set m"
  by (simp add: om_find_conv om_ok_distinct)

lemma om_find_put: "om_find k (om_put j v m) = (if k = j then Some v else om_find k m)"
  by (induction m) auto

lemma fst_set_om_put: "fst ` set (om_put k v m) = insert k (fst ` set m)"
proof (rule set_eqI)
  fix a
  show "a \<in> fst ` set (om_put k v m) \<longleftrightarrow> a \<in> insert k (fst ` set m)"
    using om_find_None [of a "om_put k v m"] om_find_None [of a m]
    by (auto simp: om_find_put split: if_splits)
qed

lemma set_om_put_subset: "set (om_put k v m) \<subseteq> insert (k, v) (set m)"
  by (induction m) (auto split: if_splits)

lemma om_ok_put [simp]: "om_ok m \<Longrightarrow> om_ok (om_put k v m)"
proof (induction m)
  case Nil
  then show ?case by (simp add: om_ok_Cons)
next
  case (Cons p m)
  then show ?case
    using set_om_put_subset [of k v m]
    by (cases p) (fastforce simp: om_ok_Cons)
qed

lemma om_find_erase: "om_find k (om_erase j m) = (if k = j then None else om_find k m)"
  by (induction m) (auto simp: om_erase_def)

lemma om_ok_erase [simp]: "om_ok m \<Longrightarrow> om_ok (om_erase k m)"
  unfolding om_erase_def
  by (induction m) (auto simp: om_ok_Cons split: prod.splits)

lemma om_find_emplace:
  "om_find k (om_emplace j v m) =
     (if k = j \<and> om_find j m = None then Some v else om_find k m)"
  by (auto simp: om_emplace_def om_find_put split: option.splits)

lemma om_ok_emplace [simp]: "om_ok m \<Longrightarrow> om_ok (om_emplace k v m)"
  by (auto simp: om_emplace_def split: option.splits)

lemmas om_find_simps = om_find_put om_find_erase om_find_emplace

lemma set_om_put: "om_ok m \<Longrightarrow> set (om_put k v m) = insert (k, v) {(a, w) \<in> set m. a \<noteq> k}"
  by (rule set_eqI)
    (auto simp flip: om_find_iff [OF om_ok_put] om_find_iff simp: om_find_put split: if_splits)

lemma set_om_emplace_subset: "set (om_emplace k v m) \<subseteq> insert (k, v) (set m)"
  using set_om_put_subset [of k v m] by (auto simp: om_emplace_def split: option.splits)

lemma om_put_snoc: "\<forall>a \<in> fst ` set m. a < k \<Longrightarrow> om_put k v m = m @ [(k, v)]"
  by (induction m) auto

lemma om_put_same_keys: "om_ok m \<Longrightarrow> om_find k m \<noteq> None \<Longrightarrow> map fst (om_put k v m) = map fst m"
proof (induction m)
  case Nil
  then show ?case by simp
next
  case (Cons p m)
  then show ?case by (cases p) (force simp: om_ok_Cons dest: om_find_in)
qed

lemma om_put_idem: "om_ok m \<Longrightarrow> om_find k m = Some v \<Longrightarrow> om_put k v m = m"
proof (induction m)
  case Nil
  then show ?case by simp
next
  case (Cons p m)
  then show ?case by (cases p) (force simp: om_ok_Cons dest: om_find_in)
qed

text \<open>Ordered maps are determined by their lookups.\<close>

lemma om_eqI:
  assumes "om_ok m" "om_ok n" "\<And>k. om_find k m = om_find k n"
  shows "m = n"
proof -
  have "set m = set n"
    using assms by (metis om_find_iff set_eqI surj_pair)
  then show ?thesis
    using assms by (intro map_sorted_distinct_set_unique [where f = fst])
      (auto simp: om_ok_def strict_sorted_iff inj_on_def dest: om_ok_distinct
         eq_key_imp_eq_value simp flip: om_find_iff)
qed

lemma om_ok_filter: "om_ok m \<Longrightarrow> om_ok (filter P m)"
  by (auto simp: om_ok_def sorted_wrt_map intro: sorted_wrt_filter)

lemma om_ok_append_iff:
  "om_ok (xs @ ys) \<longleftrightarrow> om_ok xs \<and> om_ok ys \<and> (\<forall>(a, _) \<in> set xs. \<forall>(b, _) \<in> set ys. a < b)"
  by (fastforce simp: om_ok_def sorted_wrt_append)

lemma foldl_om_put: "om_ok (m @ xs) \<Longrightarrow> foldl (\<lambda>m (k, v). om_put k v m) m xs = m @ xs"
proof (induction xs arbitrary: m)
  case (Cons x xs)
  obtain k v where x: "x = (k, v)" by fastforce
  have "\<forall>a \<in> fst ` set m. a < k" using Cons.prems by (fastforce simp: x om_ok_append_iff)
  then have "om_put k v m = m @ [(k, v)]" by (rule om_put_snoc)
  then show ?case using Cons by (simp add: x)
qed simp

text \<open>Encoding the keys by a strictly monotone function and the values by any function commutes with the
  operations of a map.\<close>

definition om_encode :: "('k \<Rightarrow> 'a) \<Rightarrow> ('v \<Rightarrow> 'b) \<Rightarrow> ('k, 'v) omap \<Rightarrow> ('a, 'b) omap" where
  "om_encode f g m = map (\<lambda>(k, v). (f k, g v)) m"

lemma om_encode_simps [simp]:
  "om_encode f g [] = []" "om_encode f g ((k, v) # m) = (f k, g v) # om_encode f g m"
  "om_encode f g (m @ n) = om_encode f g m @ om_encode f g n" "length (om_encode f g m) = length m"
  "om_encode f g m = [] \<longleftrightarrow> m = []"
  by (simp_all add: om_encode_def)

lemma om_put_encode:
  fixes f :: "'k::linorder \<Rightarrow> 'a::linorder"
  assumes "\<And>a b. a \<in> A \<Longrightarrow> b \<in> A \<Longrightarrow> f a < f b \<longleftrightarrow> a < b" "insert k (fst ` set m) \<subseteq> A"
  shows "om_put (f k) (g v) (om_encode f g m) = om_encode f g (om_put k v m)"
  using assms(2)
proof (induction m)
  case (Cons p m)
  obtain a w where p: "p = (a, w)" by fastforce
  have "f k < f a \<longleftrightarrow> k < a" "f a < f k \<longleftrightarrow> a < k" using assms(1) Cons.prems p by auto
  moreover from this have "f k = f a \<longleftrightarrow> k = a" by (metis linorder_less_linear less_irrefl)
  ultimately show ?case using Cons by (simp add: p)
qed simp

lemma om_find_encode: "inj_on f (insert k (fst ` set m)) \<Longrightarrow> om_find (f k) (om_encode f g m) = map_option g (om_find k m)"
proof (induction m)
  case (Cons p m)
  then show ?case by (cases p) (auto dest: inj_onD intro: inj_on_subset)
qed simp

lemma om_erase_encode:
  assumes "inj_on f (insert k (fst ` set m))"
  shows "om_erase (f k) (om_encode f g m) = om_encode f g (om_erase k m)"
proof -
  have "f a = f k \<longleftrightarrow> a = k" if "(a, v) \<in> set m" for a v
    using assms inj_on_eq_iff [of f "insert k (fst ` set m)" a k] that by force
  then show ?thesis by (force simp: om_erase_def om_encode_def filter_map o_def intro!: arg_cong [of _ _ "map _"] filter_cong)
qed

lemma om_put_put [simp]: "om_put k v (om_put k w m) = om_put k v m"
  by (induction m) auto

section \<open>Ordered multimaps\<close>

text \<open>\<open>std::multimap::emplace\<close> inserts behind the elements with an equivalent key.\<close>

type_synonym ('k, 'v) mmap = "('k \<times> 'v) list"

fun mm_emplace :: "'k::linorder \<Rightarrow> 'v \<Rightarrow> ('k, 'v) mmap \<Rightarrow> ('k, 'v) mmap" where
  "mm_emplace k v [] = [(k, v)]"
| "mm_emplace k v ((a, w) # m) =
     (if k < a then (k, v) # (a, w) # m else (a, w) # mm_emplace k v m)"

definition mm_range :: "'k \<Rightarrow> ('k, 'v) mmap \<Rightarrow> 'v list" where
  "mm_range k m = map snd (filter (\<lambda>(a, _). a = k) m)"

lemma set_mm_emplace [simp]: "set (mm_emplace k v m) = insert (k, v) (set m)"
  by (induction m) (auto split: if_splits)

lemma set_mm_range: "v \<in> set (mm_range k m) \<longleftrightarrow> (k, v) \<in> set m"
  by (force simp: mm_range_def)

section \<open>Lists\<close>

definition vector_resize :: "nat \<Rightarrow> 'a \<Rightarrow> 'a list \<Rightarrow> 'a list" where
  "vector_resize n x xs = take n xs @ replicate (n - length xs) x"

lemma length_vector_resize [simp]: "length (vector_resize n x xs) = n"
  by (simp add: vector_resize_def)

lemma take_append_length [simp]: "take (length xs) (xs @ ys) = xs"
  by simp

lemma append_eq_same_length:
  "length xs = length ys \<Longrightarrow> xs @ us = ys @ vs \<longleftrightarrow> xs = ys \<and> us = vs"
  by simp

section \<open>Big-endian words\<close>

text \<open>The loops \<open>for (shift = 8 * (n - 1); shift >= 0; shift -= 8)\<close> that write a word byte by
  byte, and the loop \<open>v = (v << 8) | b\<close> that reads it back.\<close>

primrec be_list :: "nat \<Rightarrow> 'a::len word \<Rightarrow> bytes" where
  "be_list 0 v = []"
| "be_list (Suc n) v = ucast (drop_bit (8 * n) v AND 0xFF) # be_list n v"

definition be_fold :: "bytes \<Rightarrow> 'a::len word" where
  "be_fold bs = foldl (\<lambda>v b. push_bit 8 v OR ucast b) 0 bs"

lemma length_be_list [simp]: "length (be_list n v) = n"
  by (induction n) auto

lemma and_0xFF: "(x :: 'a::len word) AND 0xFF = take_bit 8 x"
  by (simp add: take_bit_eq_mask mask_eq_exp_minus_1)

lemma be_fold_step:
  fixes v :: "'a::len word"
  shows "push_bit (8 * n) (push_bit 8 a OR ucast (ucast (take_bit 8 (drop_bit (8 * n) v)) :: byte))
           OR take_bit (8 * n) v
         = push_bit (8 * Suc n) a OR take_bit (8 * Suc n) v" (is "?l = ?r")
proof (rule bit_word_eqI)
  fix k
  assume k: "k < LENGTH('a)"
  consider "k < 8 * n" | "8 * n \<le> k" "k < 8 * n + 8" | "8 * n + 8 \<le> k"
    by linarith
  then show "bit ?l k = bit ?r k"
  proof cases
    case 1
    then show ?thesis using k by (auto simp: bit_simps)
  next
    case 2
    then have "8 * n + (k - 8 * n) = k" by simp
    with 2 show ?thesis using k by (auto simp: bit_simps)
  next
    case 3
    then have "k - 8 * n - 8 = k - (8 * n + 8)" by simp
    with 3 show ?thesis using k by (auto simp: bit_simps add.commute)
  qed
qed

lemma foldl_be_list:
  "foldl (\<lambda>v b. push_bit 8 v OR ucast b) a (be_list n v) = push_bit (8 * n) a OR take_bit (8 * n) v"
proof (induction n arbitrary: a)
  case 0
  then show ?case by simp
next
  case (Suc n)
  show ?case by (simp only: be_list.simps foldl_Cons Suc.IH and_0xFF be_fold_step)
qed

lemma be_fold_be_list: "8 * n = LENGTH('a) \<Longrightarrow> be_fold (be_list n v) = (v :: 'a::len word)"
  by (simp add: be_fold_def foldl_be_list)

lemma be_list_inj: "8 * n = LENGTH('a) \<Longrightarrow> be_list n v = be_list n w \<longleftrightarrow> v = (w :: 'a::len word)"
  by (metis be_fold_be_list)

text \<open>Big-endian words compare like the numbers they stand for.\<close>

lemma be_list_digit: "unat (ucast (drop_bit (8 * n) (v :: 'a::len word) AND 0xFF) :: byte) = unat v div 256 ^ n mod 256"
proof -
  have "unat (ucast (drop_bit (8 * n) v AND 0xFF) :: byte) = take_bit 8 (unat (drop_bit (8 * n) v))"
    by (simp add: and_0xFF unsigned_ucast_eq unsigned_take_bit_eq)
  also have "unat (drop_bit (8 * n) v) = drop_bit (8 * n) (unat v)"
    by (simp only: unsigned_drop_bit_eq take_bit_nat_eq_self unsigned_less)
  also have "take_bit 8 (drop_bit (8 * n) (unat v)) = unat v div 256 ^ n mod 256"
    by (simp add: take_bit_eq_mod drop_bit_eq_div power_mult)
  finally show ?thesis .
qed

lemma digit_split: "(x :: nat) mod 256 ^ Suc n = 256 ^ n * (x div 256 ^ n mod 256) + x mod 256 ^ n"
  using mod_mult2_eq [of x "256 ^ n" 256] by (simp add: mult.commute)

lemma digits_less:
  fixes a b r s B :: nat
  assumes "r < B" "s < B"
  shows "B * a + r < B * b + s \<longleftrightarrow> a < b \<or> a = b \<and> r < s"
proof (cases a b rule: linorder_cases)
  case less
  then have "B * a + B \<le> B * b" by (metis Suc_leI mult_Suc_right mult_le_mono2 add.commute)
  then show ?thesis using assms less by simp
next
  case greater
  then have "B * b + B \<le> B * a" by (metis Suc_leI mult_Suc_right mult_le_mono2 add.commute)
  then show ?thesis using assms greater by simp
qed simp

lemma be_list_less:
  fixes v w :: "'a::len word"
  shows "be_list n v < be_list n w \<longleftrightarrow> unat v mod 256 ^ n < unat w mod 256 ^ n"
proof (induction n)
  case (Suc n)
  have "be_list (Suc n) v < be_list (Suc n) w \<longleftrightarrow>
      unat v div 256 ^ n mod 256 < unat w div 256 ^ n mod 256 \<or>
      unat v div 256 ^ n mod 256 = unat w div 256 ^ n mod 256 \<and> be_list n v < be_list n w"
    unfolding be_list.simps Cons_less_Cons word_less_nat_alt be_list_digit
    by (metis be_list_digit unsigned_word_eqI)
  then show ?case unfolding digit_split Suc by (simp only: digits_less mod_less_divisor zero_less_power zero_less_numeral)
qed simp

end
