(* ===== verification/Domain.thy ===== *)
theory Domain
  imports Prelude
begin

text \<open>
  The domain model of \<open>src/core/domain/types.hpp\<close>: node identities, events, clock events, the
  event chain that is the proof object, and the records of the three discoveries. A
  \<open>Timestamp\<close> is an \<open>int64_t\<close>; it is kept as the 64-bit pattern that is hashed and sent, and
  read as a signed number (\<open>sint\<close>) wherever the code compares it.
\<close>

section \<open>Node identities\<close>

datatype NodeId = NodeId (node_bytes: bytes)

text \<open>\<open>std::array<uint8_t, 16>\<close>: the array's length is part of its C++ type, here a predicate.\<close>

definition wf_node_id :: "NodeId \<Rightarrow> bool" where
  "wf_node_id i \<longleftrightarrow> length (node_bytes i) = 16"

text \<open>The implicit constructor from \<open>uint64_t\<close>: big-endian in the low eight bytes.\<close>

definition node_id_of_u64 :: "u64 \<Rightarrow> NodeId" where
  "node_id_of_u64 v =
     NodeId (foldl (\<lambda>bs i. bs[15 - i := ucast (drop_bit (8 * i) v)]) (replicate 16 0) [0..<8])"

definition is_zero :: "NodeId \<Rightarrow> bool" where
  "is_zero i \<longleftrightarrow> node_bytes i = replicate 16 0"

definition hex_digits :: string where
  "hex_digits = ''0123456789abcdef''"

definition hex_byte :: "byte \<Rightarrow> string" where
  "hex_byte b = [hex_digits ! unat (drop_bit 4 b), hex_digits ! unat (b AND 0x0F)]"

text \<open>\<open>operator<<\<close>: the two characters 0x and 32 hexadecimal digits.\<close>

definition show_node_id :: "NodeId \<Rightarrow> string" where
  "show_node_id i = ''0x'' @ concat (map hex_byte (node_bytes i))"

text \<open>The defaulted \<open>operator<=>\<close> compares the bytes lexicographically; it orders every
  \<open>std::map\<close> keyed by a node.\<close>

instantiation NodeId :: linorder
begin

definition less_eq_NodeId :: "NodeId \<Rightarrow> NodeId \<Rightarrow> bool" where
  "less_eq_NodeId a b \<longleftrightarrow> node_bytes a \<le> node_bytes b"

definition less_NodeId :: "NodeId \<Rightarrow> NodeId \<Rightarrow> bool" where
  "less_NodeId a b \<longleftrightarrow> node_bytes a < node_bytes b"

instance
  by standard (auto simp: less_eq_NodeId_def less_NodeId_def intro: NodeId.expand)

end

lemma wf_node_id_of_u64 [simp]: "wf_node_id (node_id_of_u64 v)"
  by (simp add: wf_node_id_def node_id_of_u64_def upt_rec)

lemma ucast_low_byte: "ucast ((x :: u64) AND 0xFF) = (ucast x :: byte)"
  by (rule bit_word_eqI) (auto simp: and_0xFF bit_simps)

lemma node_bytes_of_u64: "node_bytes (node_id_of_u64 v) = replicate 8 0 @ be_list 8 v"
proof -
  have b: "be_list 8 v = map (\<lambda>s. ucast (drop_bit s v)) [56, 48, 40, 32, 24, 16, 8, 0]"
    by (simp add: numeral_eq_Suc ucast_low_byte)
  have "foldl (\<lambda>bs i. bs[15 - i := f i]) (replicate 16 0) [0..<8] = replicate 8 0 @ map f [7, 6, 5, 4, 3, 2, 1, 0]"
    for f :: "nat \<Rightarrow> byte"
    by (simp add: upt_rec) (simp add: numeral_eq_Suc)
  then show ?thesis by (simp add: node_id_of_u64_def b)
qed

lemma node_id_of_u64_inj [simp]: "node_id_of_u64 v = node_id_of_u64 w \<longleftrightarrow> v = w"
proof
  assume "node_id_of_u64 v = node_id_of_u64 w"
  then have "be_list 8 v = be_list 8 w" using node_bytes_of_u64 by (metis same_append_eq)
  then show "v = w" by (simp add: be_list_inj)
qed simp

section \<open>Time\<close>

type_synonym Salt = u64
type_synonym EventHash = bytes
type_synonym Signature = bytes
type_synonym Timestamp = u64
type_synonym Duration = u64

record TimeRange =
  tr_lo :: Timestamp
  tr_hi :: Timestamp

definition TimeRange_all :: TimeRange where
  "TimeRange_all = \<lparr>tr_lo = 0x8000000000000000, tr_hi = 0x7FFFFFFFFFFFFFFF\<rparr>"

definition tr_contains :: "TimeRange \<Rightarrow> Timestamp \<Rightarrow> bool" where
  "tr_contains r t \<longleftrightarrow> sint (tr_lo r) \<le> sint t \<and> sint t \<le> sint (tr_hi r)"

lemma TimeRange_all_contains: "tr_contains TimeRange_all t"
proof -
  have "- (2 ^ 63) \<le> sint t" "sint t < 2 ^ 63"
    using sint_greater_eq [of t] sint_less [of t] by simp_all
  then show ?thesis by (simp add: TimeRange_all_def tr_contains_def)
qed

section \<open>Events and chains\<close>

record EventReference =
  ref_creator :: NodeId
  ref_hash :: EventHash

record Event =
  ev_creator :: NodeId
  ev_hash :: EventHash
  ev_data :: bytes
  ev_salt :: Salt
  ev_refs :: "EventReference list"
  ev_signature :: Signature

record ClockEvent =
  ce_creator :: NodeId
  ce_hash :: EventHash
  ce_chain :: u32
  ce_timestamp :: Timestamp
  ce_salt :: Salt
  ce_refs :: "EventReference list"
  ce_signature :: Signature

text \<open>A clock event of this node: it also carries the reverse cross-links learned from
  notifications. Assigning one to a \<open>ClockEvent\<close> slices it (\<open>ClockEvent.truncate\<close>).\<close>

record LocalClockEvent = ClockEvent +
  lce_referencing :: "EventReference list"

abbreviation slice :: "LocalClockEvent \<Rightarrow> ClockEvent" where
  "slice \<equiv> ClockEvent.truncate"

lemma slice_simps [simp]:
  "ce_creator (slice c) = ce_creator c"
  "ce_hash (slice c) = ce_hash c"
  "ce_chain (slice c) = ce_chain c"
  "ce_timestamp (slice c) = ce_timestamp c"
  "ce_salt (slice c) = ce_salt c"
  "ce_refs (slice c) = ce_refs c"
  "ce_signature (slice c) = ce_signature c"
  by (simp_all add: ClockEvent.truncate_def)

record EventChain =
  ch_event :: Event
  ch_lower :: "ClockEvent list"
  ch_upper :: "ClockEvent list"

definition ref_of_event :: "Event \<Rightarrow> EventReference" where
  "ref_of_event e = \<lparr>ref_creator = ev_creator e, ref_hash = ev_hash e\<rparr>"

definition ref_of_clock :: "'a ClockEvent_scheme \<Rightarrow> EventReference" where
  "ref_of_clock c = \<lparr>ref_creator = ce_creator c, ref_hash = ce_hash c\<rparr>"

lemma ref_of_clock_slice [simp]: "ref_of_clock (slice c) = ref_of_clock c"
  by (simp add: ref_of_clock_def)

lemma ref_sel [simp]:
  "ref_creator (ref_of_event e) = ev_creator e" "ref_hash (ref_of_event e) = ev_hash e"
  "ref_creator (ref_of_clock c) = ce_creator c" "ref_hash (ref_of_clock c) = ce_hash c"
  by (simp_all add: ref_of_event_def ref_of_clock_def)

section \<open>The overlay\<close>

record Neighbor =
  nb_node_id :: NodeId
  nb_last_hashes :: "EventHash list"

record TimedRoute =
  rt_validity :: TimeRange
  rt_next_hops :: "NodeId list"

type_synonym TimedRouteTable = "(NodeId, TimedRoute list) omap"

section \<open>Discoveries\<close>

datatype DiscoveryState = in_progress | completed | aborted

text \<open>\<open>enum class Order : int\<close> is an integer type: a parsed proof may carry any value.\<close>

type_synonym Order = int

definition order_before :: Order where "order_before = - 1"
definition order_undetermined :: Order where "order_undetermined = 0"
definition order_after :: Order where "order_after = 1"

lemmas order_defs = order_before_def order_undetermined_def order_after_def

record EventChainDiscovery =
  cd_start_time :: Timestamp
  cd_end_time :: Timestamp
  cd_originator :: NodeId
  cd_event :: Event
  cd_range :: TimeRange
  cd_chain :: EventChain
  cd_state :: DiscoveryState

record EventBoundsDiscovery =
  bd_start_time :: Timestamp
  bd_end_time :: Timestamp
  bd_event :: Event
  bd_lower :: Timestamp
  bd_upper :: Timestamp
  bd_state :: DiscoveryState

record EventOrderDiscovery =
  od_start_time :: Timestamp
  od_end_time :: Timestamp
  od_event1 :: Event
  od_event2 :: Event
  od_order :: Order
  od_state :: DiscoveryState

end
