(* ===== verification/Wire.thy ===== *)
theory Wire
  imports Domain
begin

text \<open>
  The length-prefixed binary codec of \<open>src/core/wire/codec.hpp\<close>. A method of \<open>Writer\<close> is the
  byte string it appends to the buffer. A method of \<open>Reader\<close> is a function from the unread
  suffix of the buffer (from \<open>pos_\<close> on) to a value and the new suffix, or the exception it
  throws. The codec laws are stated once, in the locales \<open>codec\<close> and \<open>counted_codec\<close>, and
  every object of the wire format interprets them.
\<close>

section \<open>Writer\<close>

definition w_u8 :: "byte \<Rightarrow> bytes" where
  "w_u8 v = [v]"

definition w_u64 :: "u64 \<Rightarrow> bytes" where
  "w_u64 v = map (\<lambda>shift. ucast (drop_bit shift v AND 0xFF)) [56, 48, 40, 32, 24, 16, 8, 0]"

definition w_u32 :: "u32 \<Rightarrow> bytes" where
  "w_u32 v = map (\<lambda>shift. ucast (drop_bit shift v AND 0xFF)) [24, 16, 8, 0]"

definition w_node_id :: "NodeId \<Rightarrow> bytes" where
  "w_node_id i = node_bytes i"

definition w_blob :: "bytes \<Rightarrow> bytes" where
  "w_blob b = w_u32 (of_nat (length b)) @ b"

text \<open>The count-prefixed loops of \<open>refs\<close>, \<open>chain\<close> and \<open>node_ids\<close>.\<close>

definition w_counted :: "('a \<Rightarrow> bytes) \<Rightarrow> 'a list \<Rightarrow> bytes" where
  "w_counted enc xs = w_u32 (of_nat (length xs)) @ concat (map enc xs)"

definition w_ref :: "EventReference \<Rightarrow> bytes" where
  "w_ref r = w_node_id (ref_creator r) @ w_blob (ref_hash r)"

definition w_refs :: "EventReference list \<Rightarrow> bytes" where
  "w_refs rs = w_counted w_ref rs"

definition w_event :: "Event \<Rightarrow> bytes" where
  "w_event e = w_node_id (ev_creator e) @ w_blob (ev_hash e) @ w_blob (ev_data e) @
     w_u64 (ev_salt e) @ w_refs (ev_refs e) @ w_blob (ev_signature e)"

definition w_clock_event :: "'a ClockEvent_scheme \<Rightarrow> bytes" where
  "w_clock_event c = w_node_id (ce_creator c) @ w_blob (ce_hash c) @ w_u64 (ucast (ce_chain c)) @
     w_u64 (ce_timestamp c) @ w_u64 (ce_salt c) @ w_refs (ce_refs c) @ w_blob (ce_signature c)"

definition w_chain :: "EventChain \<Rightarrow> bytes" where
  "w_chain ch = w_event (ch_event ch) @ w_counted w_clock_event (ch_lower ch) @
     w_counted w_clock_event (ch_upper ch)"

definition w_time_range :: "TimeRange \<Rightarrow> bytes" where
  "w_time_range r = w_u64 (tr_lo r) @ w_u64 (tr_hi r)"

definition w_node_ids :: "NodeId list \<Rightarrow> bytes" where
  "w_node_ids ids = w_counted w_node_id ids"

section \<open>Reader\<close>

type_synonym 'a reader = "bytes \<Rightarrow> ('a \<times> bytes) result"

definition r_return :: "'a \<Rightarrow> 'a reader" where
  "r_return x b = Inr (x, b)"

definition r_throw :: "exn \<Rightarrow> 'a reader" where
  "r_throw e b = Inl e"

definition r_bind :: "'a reader \<Rightarrow> ('a \<Rightarrow> 'b reader) \<Rightarrow> 'b reader" where
  "r_bind d f b = bindE (d b) (\<lambda>(x, b'). f x b')"

text \<open>\<open>need(n)\<close> followed by the consumption of \<open>n\<close> bytes.\<close>

definition r_take :: "nat \<Rightarrow> bytes reader" where
  "r_take n b = (if length b < n then Inl Truncated_datagram else Inr (take n b, drop n b))"

definition r_u8 :: "byte reader" where
  "r_u8 = r_bind (r_take 1) (\<lambda>b. r_return (hd b))"

definition r_u64 :: "u64 reader" where
  "r_u64 = r_bind (r_take 8) (\<lambda>b. r_return (be_fold b))"

definition r_u32 :: "u32 reader" where
  "r_u32 = r_bind (r_take 4) (\<lambda>b. r_return (be_fold b))"

definition r_node_id :: "NodeId reader" where
  "r_node_id = r_bind (r_take 16) (\<lambda>b. r_return (NodeId b))"

definition r_blob :: "bytes reader" where
  "r_blob = r_bind r_u32 (\<lambda>n. r_take (unat n))"

definition ensure_count :: "u32 \<Rightarrow> nat \<Rightarrow> unit reader" where
  "ensure_count n min_elem_bytes b =
     (if unat n > length b div min_elem_bytes then Inl Count_exceeds_datagram else Inr ((), b))"

fun r_many :: "'a reader \<Rightarrow> nat \<Rightarrow> 'a list reader" where
  "r_many d 0 b = Inr ([], b)"
| "r_many d (Suc n) b = r_bind d (\<lambda>x. r_bind (r_many d n) (\<lambda>xs. r_return (x # xs))) b"

definition r_counted :: "'a reader \<Rightarrow> nat \<Rightarrow> 'a list reader" where
  "r_counted d m = r_bind r_u32 (\<lambda>n. r_bind (ensure_count n m) (\<lambda>_. r_many d (unat n)))"

definition r_ref :: "EventReference reader" where
  "r_ref = r_bind r_node_id (\<lambda>c. r_bind r_blob (\<lambda>h.
     r_return \<lparr>ref_creator = c, ref_hash = h\<rparr>))"

definition r_refs :: "EventReference list reader" where
  "r_refs = r_counted r_ref 20"

definition r_event :: "Event reader" where
  "r_event = r_bind r_node_id (\<lambda>c. r_bind r_blob (\<lambda>h. r_bind r_blob (\<lambda>d. r_bind r_u64 (\<lambda>s.
     r_bind r_refs (\<lambda>rs. r_bind r_blob (\<lambda>sg.
     r_return \<lparr>ev_creator = c, ev_hash = h, ev_data = d, ev_salt = s, ev_refs = rs,
       ev_signature = sg\<rparr>))))))"

definition r_clock_event :: "ClockEvent reader" where
  "r_clock_event = r_bind r_node_id (\<lambda>c. r_bind r_blob (\<lambda>h. r_bind r_u64 (\<lambda>l.
     r_bind r_u64 (\<lambda>t. r_bind r_u64 (\<lambda>s. r_bind r_refs (\<lambda>rs. r_bind r_blob (\<lambda>sg.
     r_return \<lparr>ce_creator = c, ce_hash = h, ce_chain = ucast l, ce_timestamp = t, ce_salt = s,
       ce_refs = rs, ce_signature = sg\<rparr>)))))))"

definition r_chain :: "EventChain reader" where
  "r_chain = r_bind r_event (\<lambda>e. r_bind (r_counted r_clock_event 44) (\<lambda>lo.
     r_bind (r_counted r_clock_event 44) (\<lambda>hi.
     r_return \<lparr>ch_event = e, ch_lower = lo, ch_upper = hi\<rparr>)))"

definition r_time_range :: "TimeRange reader" where
  "r_time_range = r_bind r_u64 (\<lambda>lo. r_bind r_u64 (\<lambda>hi. r_return \<lparr>tr_lo = lo, tr_hi = hi\<rparr>))"

definition r_node_ids :: "NodeId list reader" where
  "r_node_ids = r_counted r_node_id 16"

definition r_at_end :: "bytes \<Rightarrow> bool" where
  "r_at_end b \<longleftrightarrow> b = []"

section \<open>Locality of readers\<close>

text \<open>A reader is local when a successful read depends only on the bytes it consumes: it
  returns a suffix of its input, and more input behind that changes nothing.\<close>

definition local_reader :: "'a reader \<Rightarrow> bool" where
  "local_reader d \<longleftrightarrow>
     (\<forall>b x r. d b = Inr (x, r) \<longrightarrow> (\<exists>p. b = p @ r) \<and> (\<forall>s. d (b @ s) = Inr (x, r @ s)))"

named_theorems local_intros \<open>composition rules for local readers\<close>

lemma local_readerD:
  assumes "local_reader d" "d b = Inr (x, r)"
  shows "\<exists>p. b = p @ r" "d (b @ s) = Inr (x, r @ s)"
  using assms by (auto simp: local_reader_def)

lemma local_return [local_intros]: "local_reader (r_return x)"
  by (auto simp: local_reader_def r_return_def)

lemma local_throw [local_intros]: "local_reader (r_throw e)"
  by (auto simp: local_reader_def r_throw_def)

lemma local_take [local_intros]: "local_reader (r_take n)"
  unfolding local_reader_def r_take_def by (auto split: if_splits intro: append_take_drop_id [symmetric])

lemma local_bind [local_intros]:
  assumes d: "local_reader d" and f: "\<And>x. local_reader (f x)"
  shows "local_reader (r_bind d f)"
  unfolding local_reader_def
proof (intro allI impI conjI)
  fix b y r s
  assume "r_bind d f b = Inr (y, r)"
  then obtain x m where x: "d b = Inr (x, m)" and y: "f x m = Inr (y, r)"
    by (auto simp: r_bind_def)
  obtain p q where "b = p @ m" "m = q @ r"
    using local_readerD(1) [OF d x] local_readerD(1) [OF f y] by blast
  then show "\<exists>p. b = p @ r" by auto
  show "r_bind d f (b @ s) = Inr (y, r @ s)"
    by (simp add: r_bind_def local_readerD(2) [OF d x] local_readerD(2) [OF f y])
qed

lemma local_ensure_count [local_intros]: "local_reader (ensure_count n m)"
  unfolding local_reader_def ensure_count_def
  by (auto split: if_splits simp: not_less intro: le_trans [OF _ div_le_mono])

lemma local_many [local_intros]: "local_reader d \<Longrightarrow> local_reader (r_many d n)"
proof (induction n)
  case 0
  have "r_many d 0 = r_return []" by (rule ext) (simp add: r_return_def)
  then show ?case by (simp add: local_return)
next
  case (Suc n)
  have "r_many d (Suc n) = r_bind d (\<lambda>x. r_bind (r_many d n) (\<lambda>xs. r_return (x # xs)))"
    by (rule ext) simp
  with Suc show ?case by (auto intro!: local_intros)
qed

lemma local_u8 [local_intros]: "local_reader r_u8"
  unfolding r_u8_def by (intro local_intros)

lemma local_u64 [local_intros]: "local_reader r_u64"
  unfolding r_u64_def by (intro local_intros)

lemma local_u32 [local_intros]: "local_reader r_u32"
  unfolding r_u32_def by (intro local_intros)

lemma local_node_id [local_intros]: "local_reader r_node_id"
  unfolding r_node_id_def by (intro local_intros)

lemma local_blob [local_intros]: "local_reader r_blob"
  unfolding r_blob_def by (intro local_intros)

lemma local_counted [local_intros]: "local_reader d \<Longrightarrow> local_reader (r_counted d m)"
  unfolding r_counted_def by (intro local_intros)

lemma local_refs [local_intros]: "local_reader r_refs"
  unfolding r_refs_def r_ref_def by (intro local_intros)

lemma local_event [local_intros]: "local_reader r_event"
  unfolding r_event_def by (intro local_intros)

lemma local_clock_event [local_intros]: "local_reader r_clock_event"
  unfolding r_clock_event_def by (intro local_intros)

lemma local_chain [local_intros]: "local_reader r_chain"
  unfolding r_chain_def by (intro local_intros)

lemma local_time_range [local_intros]: "local_reader r_time_range"
  unfolding r_time_range_def by (intro local_intros)

lemma local_node_ids [local_intros]: "local_reader r_node_ids"
  unfolding r_node_ids_def by (intro local_intros)

section \<open>The codec contract\<close>

locale codec =
  fixes enc :: "'a \<Rightarrow> bytes"
    and dec :: "'a reader"
    and wf :: "'a \<Rightarrow> bool"
  assumes dec_local: "local_reader dec"
    and dec_enc: "wf x \<Longrightarrow> dec (enc x) = Inr (x, [])"
begin

lemma dec_enc_append: "wf x \<Longrightarrow> dec (enc x @ r) = Inr (x, r)"
  using local_readerD(2) [OF dec_local dec_enc] by fastforce

lemma enc_prefix_free:
  assumes "wf x" "wf y" "enc x @ r = enc y @ s"
  shows "x = y \<and> r = s"
  by (metis assms dec_enc_append sum.inject(2) prod.inject)

lemma enc_inj: "wf x \<Longrightarrow> wf y \<Longrightarrow> enc x = enc y \<Longrightarrow> x = y"
  by (metis dec_enc sum.inject(2) prod.inject)

lemma dec_truncated:
  assumes "wf x" "enc x = p @ q" "q \<noteq> []"
  shows "\<exists>e. dec p = Inl e"
proof (cases "dec p")
  case (Inr a)
  then obtain y r where "dec p = Inr (y, r)" by (cases a) auto
  then have "dec (enc x) = Inr (y, r @ q)"
    using assms(2) local_readerD(2) [OF dec_local] by metis
  with dec_enc [OF assms(1)] assms(3) show ?thesis by simp
qed simp

lemma many_enc:
  "list_all wf xs \<Longrightarrow> r_many dec (length xs) (concat (map enc xs) @ r) = Inr (xs, r)"
  by (induction xs) (simp_all add: r_bind_def r_return_def dec_enc_append)

end

text \<open>Elements with a positive minimum size can be sent as a count-prefixed list: the reader's
  plausibility check on the count never rejects a list that is really there.\<close>

locale counted_codec = codec enc dec wf
  for enc :: "'a \<Rightarrow> bytes" and dec :: "'a reader" and wf :: "'a \<Rightarrow> bool" +
  fixes m :: nat
  assumes m_pos: "0 < m"
    and min_size: "wf x \<Longrightarrow> m \<le> length (enc x)"
begin

lemma concat_min_size: "list_all wf xs \<Longrightarrow> length xs * m \<le> length (concat (map enc xs))"
proof (induction xs)
  case (Cons x xs)
  then show ?case using min_size [of x] by simp
qed simp

end

lemma w_u32_conv: "w_u32 v = be_list 4 v"
  by (simp add: w_u32_def numeral_eq_Suc)

lemma w_u64_conv: "w_u64 v = be_list 8 v"
  by (simp add: w_u64_def numeral_eq_Suc)

lemma length_w_u32 [simp]: "length (w_u32 v) = 4"
  by (simp add: w_u32_def)

lemma length_w_u64 [simp]: "length (w_u64 v) = 8"
  by (simp add: w_u64_def)

interpretation u32c: codec w_u32 r_u32 "\<lambda>_. True"
  by (unfold_locales, rule local_u32)
    (simp add: r_u32_def r_bind_def r_take_def r_return_def w_u32_conv be_fold_be_list)

interpretation u64c: codec w_u64 r_u64 "\<lambda>_. True"
  by (unfold_locales, rule local_u64)
    (simp add: r_u64_def r_bind_def r_take_def r_return_def w_u64_conv be_fold_be_list)

interpretation u8c: codec w_u8 r_u8 "\<lambda>_. True"
  by (unfold_locales, rule local_u8) (simp add: r_u8_def r_bind_def r_take_def r_return_def w_u8_def)

abbreviation short :: "'a list \<Rightarrow> bool" where
  "short xs \<equiv> length xs < 2 ^ 32"

lemma unat_count [simp]: "short xs \<Longrightarrow> unat (of_nat (length xs) :: u32) = length xs"
  by (simp add: unat_of_nat take_bit_nat_eq_self)

sublocale counted_codec \<subseteq>
  lst: codec "w_counted enc" "r_counted dec m" "\<lambda>xs. short xs \<and> list_all wf xs"
proof
  show "local_reader (r_counted dec m)"
    by (intro local_intros dec_local)
  fix xs
  assume xs: "short xs \<and> list_all wf xs"
  have "length xs \<le> length (concat (map enc xs)) div m"
    using xs concat_min_size [of xs] m_pos by (simp add: less_eq_div_iff_mult_less_eq)
  then show "r_counted dec m (w_counted enc xs) = Inr (xs, [])"
    using xs many_enc [of xs "[]"]
    by (simp add: r_counted_def w_counted_def r_bind_def u32c.dec_enc_append ensure_count_def)
qed

section \<open>The wire objects\<close>

text \<open>What an object must satisfy to be encodable: identities of 16 bytes (which the C++ type
  guarantees) and fewer than \<open>2 ^ 32\<close> elements in every sequence (the 32-bit length prefix).\<close>

definition wf_ref :: "EventReference \<Rightarrow> bool" where
  "wf_ref r \<longleftrightarrow> wf_node_id (ref_creator r) \<and> short (ref_hash r)"

definition wf_event :: "Event \<Rightarrow> bool" where
  "wf_event e \<longleftrightarrow> wf_node_id (ev_creator e) \<and> short (ev_hash e) \<and> short (ev_data e) \<and>
     (short (ev_refs e) \<and> list_all wf_ref (ev_refs e)) \<and> short (ev_signature e)"

definition wf_clock_event :: "'a ClockEvent_scheme \<Rightarrow> bool" where
  "wf_clock_event c \<longleftrightarrow> wf_node_id (ce_creator c) \<and> short (ce_hash c) \<and>
     (short (ce_refs c) \<and> list_all wf_ref (ce_refs c)) \<and> short (ce_signature c)"

definition wf_chain :: "EventChain \<Rightarrow> bool" where
  "wf_chain ch \<longleftrightarrow> wf_event (ch_event ch) \<and>
     (short (ch_lower ch) \<and> list_all wf_clock_event (ch_lower ch)) \<and>
     (short (ch_upper ch) \<and> list_all wf_clock_event (ch_upper ch))"

lemmas reader_defs = r_bind_def r_return_def

interpretation idc: counted_codec w_node_id r_node_id wf_node_id 16
  by (unfold_locales, rule local_node_id)
    (simp_all add: r_node_id_def reader_defs r_take_def w_node_id_def wf_node_id_def)

interpretation blobc: codec w_blob r_blob short
  by (unfold_locales, rule local_blob)
    (simp add: r_blob_def w_blob_def r_bind_def u32c.dec_enc_append r_take_def)

lemma length_w_blob [simp]: "length (w_blob b) = 4 + length b"
  by (simp add: w_blob_def)

lemma length_w_node_id: "wf_node_id i \<Longrightarrow> length (w_node_id i) = 16"
  by (simp add: w_node_id_def wf_node_id_def)

interpretation refc: counted_codec w_ref r_ref wf_ref 20
proof
  show "local_reader r_ref"
    unfolding r_ref_def by (intro local_intros)
  fix r
  assume "wf_ref r"
  then show "r_ref (w_ref r) = Inr (r, [])" "20 \<le> length (w_ref r)"
    by (simp_all add: wf_ref_def w_ref_def r_ref_def reader_defs idc.dec_enc_append blobc.dec_enc
        length_w_node_id)
qed simp

lemma refs_dec_enc_append:
  "short rs \<and> list_all wf_ref rs \<Longrightarrow> r_refs (w_refs rs @ b) = Inr (rs, b)"
  unfolding r_refs_def w_refs_def by (rule refc.lst.dec_enc_append)

lemmas codec_leaves [codec_simps] =
  u8c.dec_enc u8c.dec_enc_append u32c.dec_enc u32c.dec_enc_append u64c.dec_enc u64c.dec_enc_append
  idc.dec_enc idc.dec_enc_append idc.lst.dec_enc idc.lst.dec_enc_append
  blobc.dec_enc blobc.dec_enc_append refs_dec_enc_append

lemma length_w_refs: "4 \<le> length (w_refs rs)"
  by (simp add: w_refs_def w_counted_def)

interpretation eventc: codec w_event r_event wf_event
proof
  show "local_reader r_event" by (rule local_event)
  fix e
  assume "wf_event e"
  then show "r_event (w_event e) = Inr (e, [])"
    by (simp add: wf_event_def w_event_def r_event_def reader_defs codec_simps)
qed

text \<open>\<open>static_cast<uint32_t>\<close> undoes the widening of the chain number.\<close>

lemma ucast_ucast_chain [simp]: "ucast (ucast (l :: u32) :: u64) = l"
  by (rule ucast_up_ucast_id) (simp add: is_up)

interpretation clockc: counted_codec w_clock_event r_clock_event
    "wf_clock_event :: ClockEvent \<Rightarrow> bool" 44
proof
  show "local_reader r_clock_event" by (rule local_clock_event)
  fix c :: ClockEvent
  assume "wf_clock_event c"
  then show "r_clock_event (w_clock_event c) = Inr (c, [])" "44 \<le> length (w_clock_event c)"
    using length_w_refs [of "ce_refs c"]
    by (simp_all add: wf_clock_event_def w_clock_event_def r_clock_event_def reader_defs codec_simps
        length_w_node_id)
qed simp

lemmas codec_clock [codec_simps] =
  eventc.dec_enc eventc.dec_enc_append clockc.dec_enc clockc.dec_enc_append
  clockc.lst.dec_enc clockc.lst.dec_enc_append

interpretation chainc: codec w_chain r_chain wf_chain
proof
  show "local_reader r_chain" by (rule local_chain)
  fix ch
  assume "wf_chain ch"
  then show "r_chain (w_chain ch) = Inr (ch, [])"
    by (simp add: wf_chain_def w_chain_def r_chain_def reader_defs codec_simps)
qed

interpretation rangec: codec w_time_range r_time_range "\<lambda>_. True"
  by (unfold_locales, rule local_time_range)
    (simp add: r_time_range_def w_time_range_def reader_defs codec_simps)

interpretation idsc: codec w_node_ids r_node_ids "\<lambda>ids. short ids \<and> list_all wf_node_id ids"
  unfolding w_node_ids_def r_node_ids_def by (rule idc.lst.codec_axioms)

lemmas codec_chain [codec_simps] =
  chainc.dec_enc chainc.dec_enc_append rangec.dec_enc rangec.dec_enc_append
  idsc.dec_enc idsc.dec_enc_append

section \<open>Bounded allocation\<close>

text \<open>The number of elements a count-prefixed list can have is bounded by the bytes that are
  really there, whatever the prefix claims.\<close>

lemma counted_bounded:
  assumes "r_counted d m b = Inr (xs, r)"
  shows "length xs * m \<le> length b"
proof -
  have many: "length ys = n" if "r_many d n c = Inr (ys, q)" for n c ys q
    using that by (induction n arbitrary: c ys q) (auto simp: reader_defs)
  obtain n b' where n: "r_u32 b = Inr (n, b')"
    and e: "unat n \<le> length b' div m" and xs: "r_many d (unat n) b' = Inr (xs, r)"
    using assms by (auto simp: r_counted_def r_bind_def ensure_count_def split: if_splits)
  have "length xs * m \<le> length b' div m * m"
    using many [OF xs] e by simp
  also have "\<dots> \<le> length b'" by simp
  also have "\<dots> \<le> length b"
    using local_readerD(1) [OF local_u32 n] by auto
  finally show ?thesis .
qed

lemma counted_implausible:
  assumes "length b div m < unat n"
  shows "r_counted d m (w_u32 n @ b) = Inl Count_exceeds_datagram"
  using assms by (simp add: r_counted_def r_bind_def codec_simps ensure_count_def)

section \<open>What a successful read guarantees\<close>

text \<open>\<open>reads d Q\<close>: whenever \<open>d\<close> succeeds with a value \<open>x\<close> after consuming \<open>n\<close> bytes, \<open>Q x n\<close>
  holds; when \<open>d\<close> fails, it throws an exception the caller can catch.\<close>

definition reads :: "'a reader \<Rightarrow> ('a \<Rightarrow> nat \<Rightarrow> bool) \<Rightarrow> bool" where
  "reads d Q \<longleftrightarrow>
     (\<forall>b. case d b of Inr (x, r) \<Rightarrow> length r \<le> length b \<and> Q x (length b - length r)
        | Inl e \<Rightarrow> catchable e)"

named_theorems reads_intros \<open>what the readers of the wire objects guarantee\<close>

lemma reads_weaken: "reads d Q \<Longrightarrow> (\<And>x n. Q x n \<Longrightarrow> R x n) \<Longrightarrow> reads d R"
  by (fastforce simp: reads_def split: sum.splits)

lemma reads_return: "Q x 0 \<Longrightarrow> reads (r_return x) Q"
  by (simp add: reads_def r_return_def)

lemma reads_bind:
  assumes "reads d Q" and "\<And>x m. Q x m \<Longrightarrow> reads (f x) (\<lambda>y n. R y (m + n))"
  shows "reads (r_bind d f) R"
  unfolding reads_def
proof
  fix b
  show "case r_bind d f b of Inr (x, r) \<Rightarrow> length r \<le> length b \<and> R x (length b - length r)
    | Inl e \<Rightarrow> catchable e"
  proof (cases "d b")
    case (Inl e)
    then show ?thesis using assms(1) by (force simp: reads_def r_bind_def split: sum.splits)
  next
    case (Inr xr)
    then obtain x r where x: "d b = Inr (x, r)" by (cases xr) auto
    with assms(1) have q: "length r \<le> length b" "Q x (length b - length r)"
      by (auto simp: reads_def split: sum.splits)
    show ?thesis
    proof (cases "f x r")
      case (Inl e)
      then show ?thesis using assms(2) [OF q(2)] x by (force simp: reads_def r_bind_def split: sum.splits)
    next
      case (Inr ys)
      then obtain y s where y: "f x r = Inr (y, s)" by (cases ys) auto
      then have "length s \<le> length r" "R y (length b - length r + (length r - length s))"
        using assms(2) [OF q(2)] by (auto simp: reads_def split: sum.splits)
      then show ?thesis using x y q by (simp add: r_bind_def)
    qed
  qed
qed

lemma reads_throw: "catchable e \<Longrightarrow> reads (r_throw e) Q"
  by (simp add: reads_def r_throw_def)

lemma reads_take: "reads (r_take k) (\<lambda>b n. length b = k \<and> n = k)"
  by (auto simp: reads_def r_take_def catchable_def)

lemma reads_ensure: "reads (ensure_count c m) (\<lambda>_ n. n = 0)"
  by (auto simp: reads_def ensure_count_def catchable_def)

lemma reads_many:
  assumes "reads d (\<lambda>x n. W x \<and> n = length (enc x))"
  shows "reads (r_many d k) (\<lambda>xs n. length xs = k \<and> list_all W xs \<and> n = length (concat (map enc xs)))"
proof (induction k)
  case 0
  then show ?case by (simp add: reads_def)
next
  case (Suc k)
  have "reads (r_bind d (\<lambda>x. r_bind (r_many d k) (\<lambda>xs. r_return (x # xs))))
      (\<lambda>xs n. length xs = Suc k \<and> list_all W xs \<and> n = length (concat (map enc xs)))"
    by (rule reads_bind [OF assms], rule reads_bind [OF Suc], rule reads_return) auto
  then show ?case by (simp add: reads_def)
qed

lemma reads_u8 [reads_intros]: "reads r_u8 (\<lambda>x n. n = 1)"
  unfolding r_u8_def by (rule reads_bind [OF reads_take], rule reads_return) simp

lemma reads_u32 [reads_intros]: "reads r_u32 (\<lambda>x n. n = 4)"
  unfolding r_u32_def by (rule reads_bind [OF reads_take], rule reads_return) simp

lemma reads_u64 [reads_intros]: "reads r_u64 (\<lambda>x n. n = 8)"
  unfolding r_u64_def by (rule reads_bind [OF reads_take], rule reads_return) simp

lemma reads_node_id [reads_intros]: "reads r_node_id (\<lambda>x n. wf_node_id x \<and> n = length (w_node_id x))"
  unfolding r_node_id_def
  by (rule reads_bind [OF reads_take], rule reads_return) (simp add: wf_node_id_def w_node_id_def)

lemma unat_u32_less: "unat (n :: u32) < 2 ^ 32"
  using unsigned_less [of n] by simp

lemma reads_blob [reads_intros]: "reads r_blob (\<lambda>x n. short x \<and> n = length (w_blob x))"
  unfolding r_blob_def
  by (rule reads_bind [OF reads_u32], rule reads_weaken [OF reads_take]) (auto simp: unat_u32_less [simplified])

lemma reads_counted:
  assumes "reads d (\<lambda>x n. W x \<and> n = length (enc x))"
  shows "reads (r_counted d k) (\<lambda>xs n. (short xs \<and> list_all W xs) \<and> n = length (w_counted enc xs))"
  unfolding r_counted_def
  by (rule reads_bind [OF reads_u32], rule reads_bind [OF reads_ensure], rule reads_weaken [OF reads_many [OF assms]])
    (auto simp: w_counted_def unat_u32_less [simplified])

lemma reads_ref [reads_intros]: "reads r_ref (\<lambda>x n. wf_ref x \<and> n = length (w_ref x))"
  unfolding r_ref_def
  by (rule reads_bind [OF reads_node_id], rule reads_bind [OF reads_blob], rule reads_return)
    (simp add: wf_ref_def w_ref_def)

lemmas reads_refs [reads_intros] = reads_counted [OF reads_ref, of 20, folded r_refs_def w_refs_def]

lemma reads_event [reads_intros]: "reads r_event (\<lambda>x n. wf_event x \<and> n = length (w_event x))"
  unfolding r_event_def
  by (rule reads_bind, rule reads_intros)+ (rule reads_return, simp add: wf_event_def w_event_def)

lemma reads_clock_event [reads_intros]:
  "reads r_clock_event (\<lambda>x n. wf_clock_event x \<and> n = length (w_clock_event x))"
  unfolding r_clock_event_def
  by (rule reads_bind, rule reads_intros)+ (rule reads_return, simp add: wf_clock_event_def w_clock_event_def)

lemmas reads_clock_events [reads_intros] = reads_counted [OF reads_clock_event, of 44]

lemma reads_chain [reads_intros]: "reads r_chain (\<lambda>x n. wf_chain x \<and> n = length (w_chain x))"
  unfolding r_chain_def
  by (rule reads_bind, rule reads_intros)+ (rule reads_return, simp add: wf_chain_def w_chain_def)

lemma reads_time_range [reads_intros]: "reads r_time_range (\<lambda>x n. n = length (w_time_range x))"
  unfolding r_time_range_def
  by (rule reads_bind, rule reads_intros)+ (rule reads_return, simp add: w_time_range_def)

lemmas reads_node_ids [reads_intros] =
  reads_counted [OF reads_node_id, of 16, folded r_node_ids_def w_node_ids_def]

end
