(* ===== verification/Packets.thy ===== *)
theory Packets
  imports Wire
begin

text \<open>
  The three LOTI datagrams of \<open>src/core/wire/packets.hpp\<close> and \<open>packets.cpp\<close>: a type byte,
  the sender's identity, and the payload.
\<close>

record ClockNotification =
  cn_chain :: u32
  cn_last_hash :: EventHash
  cn_neighbor_last_hash :: EventHash

record ChainRequest =
  rq_originator :: NodeId
  rq_event :: EventReference
  rq_range :: TimeRange
  rq_hop_limit :: u32
  rq_path :: "NodeId list"

record ChainResponse =
  rs_originator :: NodeId
  rs_chain :: EventChain
  rs_path :: "NodeId list"

datatype Payload =
    Clock_notification ClockNotification
  | Chain_request ChainRequest
  | Chain_response ChainResponse

record Datagram =
  dg_sender :: NodeId
  dg_payload :: Payload

text \<open>\<open>enum class Type : uint8_t\<close>.\<close>

definition type_clock_notification :: byte where "type_clock_notification = 0"
definition type_chain_request :: byte where "type_chain_request = 1"
definition type_chain_response :: byte where "type_chain_response = 2"

lemmas type_defs =
  type_clock_notification_def type_chain_request_def type_chain_response_def

section \<open>Encoding\<close>

definition write_header :: "byte \<Rightarrow> NodeId \<Rightarrow> bytes" where
  "write_header type sender = w_u8 type @ w_node_id sender"

definition encode_clock_notification :: "NodeId \<Rightarrow> ClockNotification \<Rightarrow> bytes" where
  "encode_clock_notification sender m =
     write_header type_clock_notification sender @ w_u64 (ucast (cn_chain m)) @
     w_blob (cn_last_hash m) @ w_blob (cn_neighbor_last_hash m)"

definition encode_chain_request :: "NodeId \<Rightarrow> ChainRequest \<Rightarrow> bytes" where
  "encode_chain_request sender m =
     write_header type_chain_request sender @ w_node_id (rq_originator m) @
     w_node_id (ref_creator (rq_event m)) @ w_blob (ref_hash (rq_event m)) @
     w_time_range (rq_range m) @ w_u64 (ucast (rq_hop_limit m)) @ w_node_ids (rq_path m)"

definition encode_chain_response :: "NodeId \<Rightarrow> ChainResponse \<Rightarrow> bytes" where
  "encode_chain_response sender m =
     write_header type_chain_response sender @ w_node_id (rs_originator m) @
     w_chain (rs_chain m) @ w_node_ids (rs_path m)"

definition encode :: "Datagram \<Rightarrow> bytes" where
  "encode d = (case dg_payload d of
       Clock_notification m \<Rightarrow> encode_clock_notification (dg_sender d) m
     | Chain_request m \<Rightarrow> encode_chain_request (dg_sender d) m
     | Chain_response m \<Rightarrow> encode_chain_response (dg_sender d) m)"

section \<open>Decoding\<close>

definition sender_of :: "bytes \<Rightarrow> NodeId option" where
  "sender_of datagram =
     (if length datagram < 1 + 16 then None
      else Some (NodeId (map (\<lambda>i. datagram ! (1 + i)) [0..<16])))"

definition r_clock_notification :: "ClockNotification reader" where
  "r_clock_notification = r_bind r_u64 (\<lambda>l. r_bind r_blob (\<lambda>h. r_bind r_blob (\<lambda>g.
     r_return \<lparr>cn_chain = ucast l, cn_last_hash = h, cn_neighbor_last_hash = g\<rparr>)))"

definition r_chain_request :: "ChainRequest reader" where
  "r_chain_request = r_bind r_node_id (\<lambda>o'. r_bind r_node_id (\<lambda>c. r_bind r_blob (\<lambda>h.
     r_bind r_time_range (\<lambda>tr. r_bind r_u64 (\<lambda>hl. r_bind r_node_ids (\<lambda>p.
     r_return \<lparr>rq_originator = o', rq_event = \<lparr>ref_creator = c, ref_hash = h\<rparr>, rq_range = tr,
       rq_hop_limit = ucast hl, rq_path = p\<rparr>))))))"

definition r_chain_response :: "ChainResponse reader" where
  "r_chain_response = r_bind r_node_id (\<lambda>o'. r_bind r_chain (\<lambda>ch. r_bind r_node_ids (\<lambda>p.
     r_return \<lparr>rs_originator = o', rs_chain = ch, rs_path = p\<rparr>)))"

definition r_payload :: "byte \<Rightarrow> Payload reader" where
  "r_payload type =
     (if type = type_clock_notification
        then r_bind r_clock_notification (\<lambda>m. r_return (Clock_notification m))
      else if type = type_chain_request
        then r_bind r_chain_request (\<lambda>m. r_return (Chain_request m))
      else if type = type_chain_response
        then r_bind r_chain_response (\<lambda>m. r_return (Chain_response m))
      else r_throw Unknown_datagram_type)"

definition r_datagram :: "Datagram reader" where
  "r_datagram = r_bind r_u8 (\<lambda>type. r_bind r_node_id (\<lambda>sender. r_bind (r_payload type) (\<lambda>p.
     r_return \<lparr>dg_sender = sender, dg_payload = p\<rparr>)))"

text \<open>\<open>decode\<close> ignores whatever follows the payload: it never asks for \<open>at_end()\<close>.\<close>

definition decode :: "bytes \<Rightarrow> Datagram result" where
  "decode datagram = bindE (r_datagram datagram) (\<lambda>(d, _). Inr d)"

section \<open>Well-formed datagrams\<close>

definition wf_path :: "NodeId list \<Rightarrow> bool" where
  "wf_path ids \<longleftrightarrow> short ids \<and> list_all wf_node_id ids"

fun wf_payload :: "Payload \<Rightarrow> bool" where
  "wf_payload (Clock_notification m) \<longleftrightarrow> short (cn_last_hash m) \<and> short (cn_neighbor_last_hash m)"
| "wf_payload (Chain_request m) \<longleftrightarrow>
     wf_node_id (rq_originator m) \<and> wf_ref (rq_event m) \<and> wf_path (rq_path m)"
| "wf_payload (Chain_response m) \<longleftrightarrow>
     wf_node_id (rs_originator m) \<and> wf_chain (rs_chain m) \<and> wf_path (rs_path m)"

definition wf_datagram :: "Datagram \<Rightarrow> bool" where
  "wf_datagram d \<longleftrightarrow> wf_node_id (dg_sender d) \<and> wf_payload (dg_payload d)"

lemma local_payload [local_intros]: "local_reader (r_payload type)"
  unfolding r_payload_def r_clock_notification_def r_chain_request_def r_chain_response_def
  by (simp split: if_splits) (intro conjI impI local_intros)

lemma local_datagram [local_intros]: "local_reader r_datagram"
  unfolding r_datagram_def by (intro local_intros)

lemmas payload_readers =
  r_payload_def r_clock_notification_def r_chain_request_def r_chain_response_def

lemmas payload_writers =
  encode_def encode_clock_notification_def encode_chain_request_def encode_chain_response_def
  write_header_def

interpretation datagramc: codec encode r_datagram wf_datagram
proof
  show "local_reader r_datagram" by (rule local_datagram)
  fix d
  assume "wf_datagram d"
  then show "r_datagram (encode d) = Inr (d, [])"
    by (cases "dg_payload d")
      (simp_all add: wf_datagram_def wf_path_def wf_ref_def r_datagram_def payload_readers
        payload_writers type_defs reader_defs codec_simps)
qed

section \<open>What a decoded datagram satisfies\<close>

lemma reads_payloads:
  assumes "wf_node_id s"
  shows "reads r_clock_notification (\<lambda>m n. wf_payload (Clock_notification m) \<and>
      17 + n = length (encode_clock_notification s m))"
    and "reads r_chain_request (\<lambda>m n. wf_payload (Chain_request m) \<and>
      17 + n = length (encode_chain_request s m))"
    and "reads r_chain_response (\<lambda>m n. wf_payload (Chain_response m) \<and>
      17 + n = length (encode_chain_response s m))"
  unfolding r_clock_notification_def r_chain_request_def r_chain_response_def
  by ((rule reads_bind, rule reads_intros)+, rule reads_return,
      simp add: payload_writers length_w_node_id [OF assms] w_u8_def wf_path_def wf_ref_def)+

lemma reads_payload:
  assumes "wf_node_id s"
  shows "reads (r_payload t) (\<lambda>p n. wf_payload p \<and>
    17 + n = length (encode \<lparr>dg_sender = s, dg_payload = p\<rparr>))"
  unfolding r_payload_def
  by (auto simp: catchable_def encode_def split: if_splits
      intro!: reads_throw reads_return reads_bind [OF reads_payloads(1) [OF assms]]
        reads_bind [OF reads_payloads(2) [OF assms]] reads_bind [OF reads_payloads(3) [OF assms]])

lemma reads_datagram: "reads r_datagram (\<lambda>d n. wf_datagram d \<and> n = length (encode d))"
  unfolding r_datagram_def
  by (rule reads_bind [OF reads_u8], rule reads_bind [OF reads_node_id], rule reads_bind,
      rule reads_payload, blast, rule reads_return)
    (auto simp: wf_datagram_def w_node_id_def wf_node_id_def)

lemma sender_of_decoded: "decode b = Inr d \<Longrightarrow> sender_of b = Some (dg_sender d)"
  by (auto simp: decode_def r_datagram_def r_u8_def r_node_id_def r_take_def reader_defs
      sender_of_def nth_append intro!: nth_equalityI split: if_splits)

section \<open>Properties\<close>

text \<open>A small notification, for the concrete instances below.\<close>

definition sample_datagram :: Datagram where
  "sample_datagram = \<lparr>dg_sender = node_id_of_u64 7,
     dg_payload = Clock_notification \<lparr>cn_chain = 1, cn_last_hash = [1, 2], cn_neighbor_last_hash = []\<rparr>\<rparr>"

lemma wf_sample_datagram [simp]: "wf_datagram sample_datagram"
  by (simp add: sample_datagram_def wf_datagram_def)

lemma encode_not_Nil [simp]: "encode d \<noteq> []"
  by (simp add: payload_writers w_u8_def split: Payload.split)

text \<open>C17: Every datagram a node can build survives the wire: decoding its encoding yields the
  same sender and payload, whatever bytes follow it in the buffer.\<close>

theorem decode_encode:
  assumes "wf_datagram d"
  shows "decode (encode d @ rest) = Inr d"
  using datagramc.dec_enc_append [OF assms] by (simp add: decode_def)

theorem decode_encode_witness:
  "wf_datagram sample_datagram \<and> decode (encode sample_datagram @ [0xFF]) = Inr sample_datagram"
  using decode_encode [of sample_datagram "[0xFF]"] by simp

text \<open>Truncation is always detected: no proper prefix of an encoded datagram decodes.\<close>

lemma decode_truncated:
  assumes "wf_datagram d" and "encode d = p @ q" and "q \<noteq> []"
  shows "\<exists>e. decode p = Inl e"
  using datagramc.dec_truncated [OF assms] by (auto simp: decode_def)

text \<open>Whatever bytes arrive, a datagram that decodes is well formed (16-byte identities,
  sequences that can be encoded again), never takes more space than the bytes that arrived, whatever
  counts they claim, and has the sender that \<open>sender_of\<close> reads off the header for the transport's
  source check.\<close>

lemma decode_sound:
  assumes "decode b = Inr d"
  shows "wf_datagram d \<and> length (encode d) \<le> length b \<and> sender_of b = Some (dg_sender d)"
  using reads_datagram assms sender_of_decoded [OF assms]
  by (fastforce simp: reads_def decode_def split: sum.splits)

text \<open>Decoding arbitrary bytes is total: it yields a datagram or throws one of the exceptions
  the receive path catches, and never aborts, reads out of bounds or loops.\<close>

theorem decode_total:
  "(\<exists>d. decode b = Inr d) \<or> (\<exists>e. decode b = Inl e \<and> catchable e)"
proof (cases "r_datagram b")
  case (Inl e)
  then show ?thesis using reads_datagram by (auto simp: reads_def decode_def dest!: spec [of _ b])
next
  case (Inr d)
  then show ?thesis by (auto simp: decode_def split: prod.split)
qed

end
