(* ===== verification/Sha256.thy ===== *)
theory Sha256
  imports Domain
begin

text \<open>
  SHA-256 as \<open>src/core/hash/picosha2.hpp\<close> computes it: 32-bit arithmetic carried out in
  64-bit words (\<open>unsigned long\<close>) with explicit masks, the message length kept as four 16-bit
  digits, and the padding written into a stack buffer by \<open>finish\<close>. The second half of the
  theory gives the textbook algorithm (FIPS 180-4: 32-bit words, the padded message cut into
  blocks) and shows that the two agree on every message.
\<close>

section \<open>The block function\<close>

type_synonym word_t = u64

definition mask_8bit :: "byte \<Rightarrow> byte" where
  "mask_8bit x = x AND 0xff"

definition mask_32bit :: "word_t \<Rightarrow> word_t" where
  "mask_32bit x = x AND 0xffffffff"

text \<open>The table, row by row as in the source.\<close>

definition add_constant :: "word_t list" where
  "add_constant = concat [
    [0x428a2f98, 0x71374491, 0xb5c0fbcf, 0xe9b5dba5, 0x3956c25b, 0x59f111f1],
    [0x923f82a4, 0xab1c5ed5, 0xd807aa98, 0x12835b01, 0x243185be, 0x550c7dc3],
    [0x72be5d74, 0x80deb1fe, 0x9bdc06a7, 0xc19bf174, 0xe49b69c1, 0xefbe4786],
    [0x0fc19dc6, 0x240ca1cc, 0x2de92c6f, 0x4a7484aa, 0x5cb0a9dc, 0x76f988da],
    [0x983e5152, 0xa831c66d, 0xb00327c8, 0xbf597fc7, 0xc6e00bf3, 0xd5a79147],
    [0x06ca6351, 0x14292967, 0x27b70a85, 0x2e1b2138, 0x4d2c6dfc, 0x53380d13],
    [0x650a7354, 0x766a0abb, 0x81c2c92e, 0x92722c85, 0xa2bfe8a1, 0xa81a664b],
    [0xc24b8b70, 0xc76c51a3, 0xd192e819, 0xd6990624, 0xf40e3585, 0x106aa070],
    [0x19a4c116, 0x1e376c08, 0x2748774c, 0x34b0bcb5, 0x391c0cb3, 0x4ed8aa4a],
    [0x5b9cca4f, 0x682e6ff3, 0x748f82ee, 0x78a5636f, 0x84c87814, 0x8cc70208],
    [0x90befffa, 0xa4506ceb, 0xbef9a3f7, 0xc67178f2]]"

definition initial_message_digest :: "word_t list" where
  "initial_message_digest = [
    0x6a09e667, 0xbb67ae85, 0x3c6ef372, 0xa54ff53a,
    0x510e527f, 0x9b05688c, 0x1f83d9ab, 0x5be0cd19]"

definition sha_ch :: "word_t \<Rightarrow> word_t \<Rightarrow> word_t \<Rightarrow> word_t" where
  "sha_ch x y z = (x AND y) XOR (NOT x AND z)"

definition sha_maj :: "word_t \<Rightarrow> word_t \<Rightarrow> word_t \<Rightarrow> word_t" where
  "sha_maj x y z = (x AND y) XOR (x AND z) XOR (y AND z)"

definition rotr :: "word_t \<Rightarrow> nat \<Rightarrow> word_t" where
  "rotr x n = mask_32bit (drop_bit n x OR push_bit (32 - n) x)"

definition shr :: "word_t \<Rightarrow> nat \<Rightarrow> word_t" where
  "shr x n = drop_bit n x"

definition bsig0 :: "word_t \<Rightarrow> word_t" where
  "bsig0 x = rotr x 2 XOR rotr x 13 XOR rotr x 22"

definition bsig1 :: "word_t \<Rightarrow> word_t" where
  "bsig1 x = rotr x 6 XOR rotr x 11 XOR rotr x 25"

definition ssig0 :: "word_t \<Rightarrow> word_t" where
  "ssig0 x = rotr x 7 XOR rotr x 18 XOR shr x 3"

definition ssig1 :: "word_t \<Rightarrow> word_t" where
  "ssig1 x = rotr x 17 XOR rotr x 19 XOR shr x 10"

text \<open>The message schedule: the array \<open>w[64]\<close>, zero-filled, its first 16 words loaded from the
  block, the others computed in place.\<close>

definition load_word :: "bytes \<Rightarrow> nat \<Rightarrow> word_t" where
  "load_word blk i =
     push_bit 24 (ucast (mask_8bit (blk ! (i * 4)))) OR
     push_bit 16 (ucast (mask_8bit (blk ! (i * 4 + 1)))) OR
     push_bit 8 (ucast (mask_8bit (blk ! (i * 4 + 2)))) OR
     ucast (mask_8bit (blk ! (i * 4 + 3)))"

definition load_words :: "bytes \<Rightarrow> word_t list" where
  "load_words blk = foldl (\<lambda>w i. w[i := load_word blk i]) (replicate 64 0) [0..<16]"

definition extend_words :: "word_t list \<Rightarrow> word_t list" where
  "extend_words w0 =
     foldl (\<lambda>w i. w[i := mask_32bit (ssig1 (w ! (i - 2)) + w ! (i - 7) + ssig0 (w ! (i - 15)) +
       w ! (i - 16))]) w0 [16..<64]"

type_synonym 'a regs = "'a \<times> 'a \<times> 'a \<times> 'a \<times> 'a \<times> 'a \<times> 'a \<times> 'a"

definition hash_round :: "word_t list \<Rightarrow> word_t regs \<Rightarrow> nat \<Rightarrow> word_t regs" where
  "hash_round w = (\<lambda>(a, b, c, d, e, f, g, h) i.
     (let temp1 = h + bsig1 e + sha_ch e f g + add_constant ! i + w ! i;
          temp2 = bsig0 a + sha_maj a b c
      in (mask_32bit (temp1 + temp2), a, b, c, mask_32bit (d + temp1), e, f, g)))"

definition regs_of :: "'a list \<Rightarrow> 'a regs" where
  "regs_of m = (m ! 0, m ! 1, m ! 2, m ! 3, m ! 4, m ! 5, m ! 6, m ! 7)"

definition list_of_regs :: "'a regs \<Rightarrow> 'a list" where
  "list_of_regs = (\<lambda>(a, b, c, d, e, f, g, h). [a, b, c, d, e, f, g, h])"

definition hash256_block :: "word_t list \<Rightarrow> bytes \<Rightarrow> word_t list" where
  "hash256_block message_digest blk =
     (let w = extend_words (load_words blk);
          r = foldl (hash_round w) (regs_of message_digest) [0..<64]
      in map mask_32bit (map2 (+) message_digest (list_of_regs r)))"

section \<open>The incremental hasher\<close>

record hash256_one_by_one =
  hs_buffer :: bytes
  hs_digits :: "word_t list"
  hs_h :: "word_t list"

definition hs_init :: hash256_one_by_one where
  "hs_init = \<lparr>hs_buffer = [], hs_digits = replicate 4 0, hs_h = initial_message_digest\<rparr>"

text \<open>The carry loop of \<open>add_to_data_length\<close>, which stops at the first digit without overflow.\<close>

fun add_carry :: "nat list \<Rightarrow> word_t \<Rightarrow> word_t list \<Rightarrow> word_t list" where
  "add_carry [] carry ds = ds"
| "add_carry (i # is) carry ds =
     (let v = ds ! i + carry
      in if v \<ge> 65536 then add_carry is (drop_bit 16 v) (ds[i := v AND 65535])
         else ds[i := v])"

definition add_to_data_length :: "word_t \<Rightarrow> word_t list \<Rightarrow> word_t list" where
  "add_to_data_length n ds = add_carry [0..<4] 0 (ds[0 := ds ! 0 + n])"

function process_blocks :: "word_t list \<Rightarrow> bytes \<Rightarrow> word_t list \<times> bytes" where
  "process_blocks h buf =
     (if 64 \<le> length buf then process_blocks (hash256_block h (take 64 buf)) (drop 64 buf)
      else (h, buf))"
  by pat_completeness auto
termination
  by (relation "measure (\<lambda>(h, buf). length buf)") auto

declare process_blocks.simps [simp del]

definition hs_process :: "bytes \<Rightarrow> hash256_one_by_one \<Rightarrow> hash256_one_by_one" where
  "hs_process data s =
     (let ds = add_to_data_length (of_nat (length data)) (hs_digits s);
          (h, buf) = process_blocks (hs_h s) (hs_buffer s @ data)
      in \<lparr>hs_buffer = buf, hs_digits = ds, hs_h = h\<rparr>)"

text \<open>The multiplication by eight of \<open>write_data_bit_length\<close>, least significant digit first.\<close>

fun bit_digits :: "word_t \<Rightarrow> word_t list \<Rightarrow> word_t list" where
  "bit_digits carry [] = []"
| "bit_digits carry (d # ds) =
     ((push_bit 3 d OR carry) AND 65535) # bit_digits (drop_bit (16 - 3) d AND 65535) ds"

definition write_data_bit_length :: "word_t list \<Rightarrow> bytes" where
  "write_data_bit_length ds =
     concat (map (\<lambda>d. [ucast (drop_bit 8 d), ucast d]) (rev (bit_digits 0 ds)))"

text \<open>The buffer \<open>temp\<close> after the padding byte has been stored.\<close>

definition pad_temp :: "bytes \<Rightarrow> bytes" where
  "pad_temp buf = (buf @ replicate (64 - length buf) 0)[length buf := 0x80]"

definition hs_finish :: "hash256_one_by_one \<Rightarrow> hash256_one_by_one" where
  "hs_finish s =
     (let remains = length (hs_buffer s); temp = pad_temp (hs_buffer s);
          len = write_data_bit_length (hs_digits s)
      in if remains > 55
         then let h = hash256_block (hs_h s) temp;
                  temp' = replicate 60 0 @ drop 60 temp
              in s\<lparr>hs_h := hash256_block h (take 56 temp' @ len)\<rparr>
         else s\<lparr>hs_h := hash256_block (hs_h s) (take 56 temp @ len)\<rparr>)"

definition get_hash_bytes :: "hash256_one_by_one \<Rightarrow> bytes" where
  "get_hash_bytes s =
     concat (map (\<lambda>x. map (\<lambda>i. mask_8bit (ucast (drop_bit (24 - 8 * i) x))) [0..<4]) (hs_h s))"

definition sha256 :: "bytes \<Rightarrow> EventHash" where
  "sha256 data = get_hash_bytes (hs_finish (hs_process data hs_init))"

section \<open>FIPS 180-4\<close>

definition fips_Ch :: "u32 \<Rightarrow> u32 \<Rightarrow> u32 \<Rightarrow> u32" where
  "fips_Ch x y z = (x AND y) XOR (NOT x AND z)"

definition fips_Maj :: "u32 \<Rightarrow> u32 \<Rightarrow> u32 \<Rightarrow> u32" where
  "fips_Maj x y z = (x AND y) XOR (x AND z) XOR (y AND z)"

definition fips_S0 :: "u32 \<Rightarrow> u32" where
  "fips_S0 x = word_rotr 2 x XOR word_rotr 13 x XOR word_rotr 22 x"

definition fips_S1 :: "u32 \<Rightarrow> u32" where
  "fips_S1 x = word_rotr 6 x XOR word_rotr 11 x XOR word_rotr 25 x"

definition fips_s0 :: "u32 \<Rightarrow> u32" where
  "fips_s0 x = word_rotr 7 x XOR word_rotr 18 x XOR drop_bit 3 x"

definition fips_s1 :: "u32 \<Rightarrow> u32" where
  "fips_s1 x = word_rotr 17 x XOR word_rotr 19 x XOR drop_bit 10 x"

definition fips_K :: "u32 list" where
  "fips_K = map ucast add_constant"

definition fips_H0 :: "u32 list" where
  "fips_H0 = map ucast initial_message_digest"

text \<open>The schedule \<open>W\<close> grows by one word per step from the block's sixteen big-endian words.\<close>

definition fips_W :: "bytes \<Rightarrow> nat \<Rightarrow> u32 list" where
  "fips_W blk n =
     foldl (\<lambda>W t. W @ [fips_s1 (W ! (t - 2)) + W ! (t - 7) + fips_s0 (W ! (t - 15)) + W ! (t - 16)])
       (map (\<lambda>i. be_fold (take 4 (drop (i * 4) blk))) [0..<16]) [16..<n]"

definition fips_round :: "u32 list \<Rightarrow> u32 regs \<Rightarrow> nat \<Rightarrow> u32 regs" where
  "fips_round W = (\<lambda>(a, b, c, d, e, f, g, h) t.
     (let T1 = h + fips_S1 e + fips_Ch e f g + fips_K ! t + W ! t;
          T2 = fips_S0 a + fips_Maj a b c
      in (T1 + T2, a, b, c, d + T1, e, f, g)))"

definition fips_compress :: "u32 list \<Rightarrow> bytes \<Rightarrow> u32 list" where
  "fips_compress H blk =
     map2 (+) H (list_of_regs (foldl (fips_round (fips_W blk 64)) (regs_of H) [0..<64]))"

text \<open>Padding: a one bit, zeros up to 8 bytes short of a block, the length in bits.\<close>

definition fips_pad :: "bytes \<Rightarrow> bytes" where
  "fips_pad m = m @ [0x80] @ replicate ((119 - length m mod 64) mod 64) 0 @
     be_list 8 (of_nat (8 * length m) :: u64)"

function fips_blocks :: "u32 list \<Rightarrow> bytes \<Rightarrow> u32 list" where
  "fips_blocks H m =
     (if 64 \<le> length m then fips_blocks (fips_compress H (take 64 m)) (drop 64 m) else H)"
  by pat_completeness auto
termination
  by (relation "measure (\<lambda>(H, m). length m)") auto

declare fips_blocks.simps [simp del]

definition fips_sha256 :: "bytes \<Rightarrow> bytes" where
  "fips_sha256 m = concat (map (be_list 4) (fips_blocks fips_H0 (fips_pad m)))"

section \<open>Masked 64-bit arithmetic is 32-bit arithmetic\<close>

abbreviation lo32 :: "word_t \<Rightarrow> u32" where
  "lo32 \<equiv> ucast"

definition small :: "word_t \<Rightarrow> bool" where
  "small x \<longleftrightarrow> (\<forall>n. bit x n \<longrightarrow> n < 32)"

lemma mask_32bit_conv: "mask_32bit x = take_bit 32 x"
  by (simp add: mask_32bit_def take_bit_eq_mask mask_eq_exp_minus_1)

lemma small_mask [simp]: "small (mask_32bit x)"
  by (auto simp: small_def mask_32bit_conv bit_simps)

lemma lo_mask [simp]: "lo32 (mask_32bit x) = lo32 x"
  by (rule bit_word_eqI) (auto simp: mask_32bit_conv bit_simps)

lemma lo_add [simp]: "lo32 (x + y) = lo32 x + lo32 y"
proof (transfer, goal_cases)
  case (1 x y)
  show ?case
    using take_bit_add [of 32 "take_bit 64 x" "take_bit 64 y"] take_bit_add [of 32 x y] by simp
qed

lemma lo_and [simp]: "lo32 (x AND y) = lo32 x AND lo32 y"
  by (rule bit_word_eqI) (auto simp: bit_simps)

lemma lo_xor [simp]: "lo32 (x XOR y) = lo32 x XOR lo32 y"
  by (rule bit_word_eqI) (auto simp: bit_simps)

lemma lo_not [simp]: "lo32 (NOT x) = NOT (lo32 x)"
  by (rule bit_word_eqI) (auto simp: bit_simps)

lemma lo_shr: "small x \<Longrightarrow> lo32 (shr x n) = drop_bit n (lo32 x)"
  by (rule bit_word_eqI) (auto simp: shr_def bit_simps small_def)

lemma lo_rotr:
  assumes "small x" "0 < n" "n < 32"
  shows "lo32 (rotr x n) = word_rotr n (lo32 x)"
proof (rule bit_word_eqI)
  fix k
  assume k: "k < LENGTH(32)"
  show "bit (lo32 (rotr x n)) k = bit (word_rotr n (lo32 x)) k"
  proof (cases "k + n < 32")
    case True
    with assms k show ?thesis
      by (auto simp: rotr_def mask_32bit_conv bit_simps small_def bit_word_rotr_iff add.commute)
  next
    case False
    then have "(k + n) mod 32 = k + n - 32" "k - (32 - n) = k + n - 32"
      using assms k by (auto simp: mod_if)
    with assms k False show ?thesis
      by (auto simp: rotr_def mask_32bit_conv bit_simps small_def bit_word_rotr_iff)
  qed
qed

lemma lo_funs:
  assumes "small x"
  shows "lo32 (bsig0 x) = fips_S0 (lo32 x)" "lo32 (bsig1 x) = fips_S1 (lo32 x)"
    "lo32 (ssig0 x) = fips_s0 (lo32 x)" "lo32 (ssig1 x) = fips_s1 (lo32 x)"
  using assms
  by (simp_all add: bsig0_def bsig1_def ssig0_def ssig1_def fips_S0_def fips_S1_def fips_s0_def
      fips_s1_def lo_rotr lo_shr)

lemma lo_ch_maj:
  "lo32 (sha_ch x y z) = fips_Ch (lo32 x) (lo32 y) (lo32 z)"
  "lo32 (sha_maj x y z) = fips_Maj (lo32 x) (lo32 y) (lo32 z)"
  by (simp_all add: sha_ch_def sha_maj_def fips_Ch_def fips_Maj_def)

section \<open>The block function agrees with the standard\<close>

lemma mask_8bit_id [simp]: "mask_8bit x = x"
  by (rule bit_word_eqI) (auto simp: mask_8bit_def bit_simps and_0xFF)

lemma small_load: "small (load_word blk i)"
  by (auto simp: small_def load_word_def bit_simps dest: bit_imp_le_length)

lemma lo_load:
  assumes "i * 4 + 4 \<le> length blk"
  shows "lo32 (load_word blk i) = be_fold (take 4 (drop (i * 4) blk))"
proof -
  have "take 4 (drop (i * 4) blk) = [blk ! (i * 4), blk ! (i * 4 + 1), blk ! (i * 4 + 2), blk ! (i * 4 + 3)]"
    using assms by (intro nth_equalityI) (auto simp: nth_Cons numeral_eq_Suc less_Suc_eq split: nat.splits)
  then show ?thesis
    unfolding be_fold_def load_word_def
    apply simp
    apply (rule bit_word_eqI)
    apply (auto simp: bit_simps)
    done
qed

lemma nth_foldl_update_other:
  "\<forall>i \<in> set is. j \<noteq> i \<Longrightarrow> foldl (\<lambda>w i. w[i := f w i]) w is ! j = w ! j"
  by (induction "is" arbitrary: w) auto

lemma length_foldl_update [simp]: "length (foldl (\<lambda>w i. w[i := f w i]) w is) = length w"
  by (induction "is" arbitrary: w) auto

lemma load_words_nth: "i < 16 \<Longrightarrow> load_words blk ! i = load_word blk i"
proof -
  have "foldl (\<lambda>w i. w[i := g i]) w [0..<n] ! i = g i" if "i < n" "n \<le> length w" for g :: "nat \<Rightarrow> word_t" and n w
    using that by (induction n) (auto simp: nth_list_update less_Suc_eq)
  then show "i < 16 \<Longrightarrow> load_words blk ! i = load_word blk i"
    by (simp add: load_words_def)
qed

definition words_upto :: "bytes \<Rightarrow> nat \<Rightarrow> word_t list" where
  "words_upto blk n = foldl (\<lambda>w i. w[i := mask_32bit (ssig1 (w ! (i - 2)) + w ! (i - 7) + ssig0 (w ! (i - 15)) +
       w ! (i - 16))]) (load_words blk) [16..<n]"

lemma length_load_words [simp]: "length (load_words blk) = 64"
  by (simp add: load_words_def)

lemma schedule_agrees:
  assumes "length blk = 64" "16 \<le> n" "n \<le> 64"
  shows "length (fips_W blk n) = n \<and> length (words_upto blk n) = 64 \<and>
    (\<forall>i<n. small (words_upto blk n ! i) \<and> lo32 (words_upto blk n ! i) = fips_W blk n ! i)"
  using assms(2,3)
proof (induction n rule: dec_induct)
  case base
  then show ?case
    using assms by (auto simp: fips_W_def words_upto_def load_words_nth small_load lo_load)
next
  case (step n)
  let ?w = "words_upto blk n" and ?W = "fips_W blk n"
  let ?x = "mask_32bit (ssig1 (?w ! (n - 2)) + ?w ! (n - 7) + ssig0 (?w ! (n - 15)) + ?w ! (n - 16))"
  let ?X = "fips_s1 (?W ! (n - 2)) + ?W ! (n - 7) + fips_s0 (?W ! (n - 15)) + ?W ! (n - 16)"
  have IH: "length ?W = n" "length ?w = 64" "\<And>i. i < n \<Longrightarrow> small (?w ! i) \<and> lo32 (?w ! i) = ?W ! i"
    using step by auto
  have w: "words_upto blk (Suc n) = ?w[n := ?x]" and W: "fips_W blk (Suc n) = ?W @ [?X]"
    using step(1) by (simp_all add: words_upto_def fips_W_def)
  have "lo32 ?x = ?X"
    using step(1) IH by (simp add: lo_funs)
  then show ?case
    using IH step(1,4) by (auto simp: w W nth_append nth_list_update less_Suc_eq)
qed

fun map_regs :: "('a \<Rightarrow> 'b) \<Rightarrow> 'a regs \<Rightarrow> 'b regs" where
  "map_regs f (a, b, c, d, e, f', g, h) = (f a, f b, f c, f d, f e, f f', f g, f h)"

fun small_regs :: "word_t regs \<Rightarrow> bool" where
  "small_regs (a, b, c, d, e, f, g, h) \<longleftrightarrow>
     small a \<and> small b \<and> small c \<and> small d \<and> small e \<and> small f \<and> small g \<and> small h"

lemma length_add_constant: "length add_constant = 64"
  by (simp add: add_constant_def)

lemma round_agrees:
  assumes "small_regs r" "i < 64" "lo32 (w ! i) = W ! i"
  shows "small_regs (hash_round w r i) \<and>
    map_regs lo32 (hash_round w r i) = fips_round W (map_regs lo32 r) i"
  using assms
  by (cases r)
    (auto simp: hash_round_def fips_round_def Let_def lo_funs lo_ch_maj fips_K_def length_add_constant)

lemma rounds_agree:
  assumes "small_regs r" "n \<le> 64" "\<And>i. i < 64 \<Longrightarrow> lo32 (w ! i) = W ! i"
  shows "small_regs (foldl (hash_round w) r [0..<n]) \<and>
    map_regs lo32 (foldl (hash_round w) r [0..<n]) = foldl (fips_round W) (map_regs lo32 r) [0..<n]"
  using assms(2)
proof (induction n)
  case (Suc n)
  then show ?case
    using round_agrees [of "foldl (hash_round w) r [0..<n]" n w W] assms(3) by simp
qed (use assms in simp)

definition digest_ok :: "word_t list \<Rightarrow> bool" where
  "digest_ok h \<longleftrightarrow> length h = 8 \<and> list_all small h"

lemma length8E:
  assumes "length xs = 8"
  obtains a b c d e f g h where "xs = [a, b, c, d, e, f, g, h]"
  using assms by (auto simp: length_Suc_conv numeral_eq_Suc)

lemma block_agrees:
  assumes "digest_ok h" "length blk = 64"
  shows "digest_ok (hash256_block h blk) \<and>
    map lo32 (hash256_block h blk) = fips_compress (map lo32 h) blk"
proof -
  from assms(1) obtain a b c d e f g k where h: "h = [a, b, c, d, e, f, g, k]"
    by (auto simp: digest_ok_def elim: length8E)
  let ?w = "words_upto blk 64"
  obtain a' b' c' d' e' f' g' k' where
    r: "foldl (hash_round ?w) (regs_of h) [0..<64] = (a', b', c', d', e', f', g', k')"
    by (rule small_regs.cases)
  have regs: "regs_of (map lo32 h) = map_regs lo32 (regs_of h)" "small_regs (regs_of h)"
    using assms(1) by (auto simp: h regs_of_def digest_ok_def nth_Cons numeral_eq_Suc)
  have "map_regs lo32 (foldl (hash_round ?w) (regs_of h) [0..<64]) =
      foldl (fips_round (fips_W blk 64)) (map_regs lo32 (regs_of h)) [0..<64]"
    using rounds_agree [OF regs(2), of 64 ?w "fips_W blk 64"] schedule_agrees [OF assms(2), of 64]
    by auto
  then have R: "foldl (fips_round (fips_W blk 64)) (regs_of (map lo32 h)) [0..<64] =
      (lo32 a', lo32 b', lo32 c', lo32 d', lo32 e', lo32 f', lo32 g', lo32 k')"
    by (simp add: r regs)
  have w: "extend_words (load_words blk) = ?w"
    by (simp only: extend_words_def words_upto_def)
  show ?thesis
    unfolding hash256_block_def Let_def fips_compress_def w r R
    by (simp add: h list_of_regs_def digest_ok_def)
qed

section \<open>The length field\<close>

lemma and_0xFFFF: "(x :: word_t) AND 65535 = take_bit 16 x"
  by (simp add: take_bit_eq_mask mask_eq_exp_minus_1)

lemma ge_0x10000: "65536 \<le> (x :: word_t) \<longleftrightarrow> drop_bit 16 x \<noteq> 0"
proof -
  have "drop_bit 16 x = 0 \<longleftrightarrow> unat (drop_bit 16 x) = 0"
    by (rule unat_eq_zero [symmetric])
  also have "unat (drop_bit 16 x) = unat x div 65536"
    by (simp only: unat_drop_bit_eq) (simp add: drop_bit_eq_div)
  also have "\<dots> = 0 \<longleftrightarrow> unat x < 65536" by (simp add: div_eq_0_iff)
  finally show ?thesis by (simp add: word_le_nat_alt not_less)
qed

lemma be_list_8:
  "be_list 8 v = [ucast (take_bit 8 (drop_bit 56 v)), ucast (take_bit 8 (drop_bit 48 v)),
     ucast (take_bit 8 (drop_bit 40 v)), ucast (take_bit 8 (drop_bit 32 v)),
     ucast (take_bit 8 (drop_bit 24 v)), ucast (take_bit 8 (drop_bit 16 v)),
     ucast (take_bit 8 (drop_bit 8 v)), ucast (take_bit 8 v)]"
proof -
  have "be_list 8 v = map (\<lambda>s. ucast (take_bit 8 (drop_bit s v))) [56, 48, 40, 32, 24, 16, 8, 0]"
    by (simp add: numeral_eq_Suc and_0xFF)
  then show ?thesis by simp
qed

lemma byte_eqI:
  assumes "\<And>k. k \<in> {0, 1, 2, 3, 4, 5, 6, 7} \<Longrightarrow> bit x k = bit (y :: byte) k"
  shows "x = y"
proof (rule bit_word_eqI)
  fix k assume "k < LENGTH(8)"
  then have "k \<in> {0, 1, 2, 3, 4, 5, 6, 7}" by auto
  then show "bit x k = bit y k" by (rule assms)
qed

lemma bits_of_length:
  "write_data_bit_length
     [take_bit 16 n, take_bit 16 (drop_bit 16 n), take_bit 16 (drop_bit 32 n), drop_bit 48 n] =
   be_list 8 (push_bit 3 n)"
  unfolding write_data_bit_length_def be_list_8 bit_digits.simps and_0xFFFF
    rev.simps append.simps list.map concat.simps list.inject
  by (intro conjI; (rule byte_eqI)?; (auto simp: bit_simps)?)

lemma take_bit_16_small: "drop_bit 16 (x :: word_t) = 0 \<Longrightarrow> take_bit 16 x = x"
  using bits_ident [of 16 x] by simp

lemma data_length_digits:
  "add_to_data_length n (replicate 4 0) =
     [take_bit 16 n, take_bit 16 (drop_bit 16 n), take_bit 16 (drop_bit 32 n), drop_bit 48 n]"
proof -
  have l: "[0..<4] = [0, 1, 2, 3]" "replicate 4 (0 :: word_t) = [0, 0, 0, 0]"
    by (simp_all add: upt_rec numeral_eq_Suc)
  have z: "drop_bit 16 (drop_bit 16 n) = drop_bit 32 n" "drop_bit 16 (drop_bit 32 n) = drop_bit 48 n"
    "drop_bit 16 (drop_bit 48 n) = 0"
    by (rule bit_word_eqI; simp add: bit_simps)+
  have "take_bit 16 n = n" if "drop_bit 16 n = 0" 
    by (rule take_bit_16_small that)+
  moreover have "drop_bit 16 n = 0 \<Longrightarrow> drop_bit 32 n = 0" "drop_bit 32 n = 0 \<Longrightarrow> drop_bit 48 n = 0"
    using z by (metis drop_bit_of_0)+
  moreover have "take_bit 16 (drop_bit 48 n) = drop_bit 48 n"
    by (rule take_bit_16_small) (rule z)
  moreover have "drop_bit 32 n = 0 \<Longrightarrow> take_bit 16 (drop_bit 16 n) = drop_bit 16 n"
    "drop_bit 48 n = 0 \<Longrightarrow> take_bit 16 (drop_bit 32 n) = drop_bit 32 n"
    by (rule take_bit_16_small; simp add: z)+
  ultimately show ?thesis
    unfolding add_to_data_length_def l
    by (auto simp: Let_def and_0xFFFF ge_0x10000 z)
qed

section \<open>The whole digest\<close>

lemma process_blocks_agrees:
  assumes "digest_ok h"
  shows "digest_ok (fst (process_blocks h m)) \<and>
    snd (process_blocks h m) = drop (length m div 64 * 64) m \<and>
    fips_blocks (map lo32 h) (m @ p) =
      fips_blocks (map lo32 (fst (process_blocks h m))) (snd (process_blocks h m) @ p)"
  using assms
proof (induction h m rule: process_blocks.induct)
  case (1 h m)
  show ?case
  proof (cases "64 \<le> length m")
    case True
    then have d: "digest_ok (hash256_block h (take 64 m))"
      "fips_compress (map lo32 h) (take 64 m) = map lo32 (hash256_block h (take 64 m))"
      using block_agrees [OF 1(2), of "take 64 m"] by auto
    have "length m div 64 * 64 = (length m - 64) div 64 * 64 + 64"
      using True by (simp add: le_div_geq)
    then show ?thesis
      using 1(1) [OF True d(1)] True
      by (simp add: process_blocks.simps [of h m] fips_blocks.simps [of _ "m @ p"] d(2) add.commute)
  next
    case False
    then show ?thesis using 1(2) by (simp add: process_blocks.simps [of h m])
  qed
qed

lemma fips_blocks_1: "length b = 64 \<Longrightarrow> fips_blocks H (b @ m) = fips_blocks (fips_compress H b) m"
  by (simp add: fips_blocks.simps [of H])

lemma fips_blocks_Nil: "fips_blocks H [] = H"
  by (simp add: fips_blocks.simps)

lemma get_hash_bytes_conv: "get_hash_bytes s = concat (map (be_list 4) (map lo32 (hs_h s)))"
proof -
  have "map (\<lambda>i. mask_8bit (ucast (drop_bit (24 - 8 * i) x))) [0..<4] = be_list 4 (lo32 x)" for x :: word_t
  proof -
    have "[0..<4] = [0, 1, 2, 3 :: nat]" by (simp add: upt_rec)
    moreover have "be_list 4 (lo32 x) = [ucast (take_bit 8 (drop_bit 24 (lo32 x))), ucast (take_bit 8 (drop_bit 16 (lo32 x))),
      ucast (take_bit 8 (drop_bit 8 (lo32 x))), ucast (take_bit 8 (lo32 x))]"
    proof -
      have "be_list 4 (lo32 x) = map (\<lambda>s. ucast (take_bit 8 (drop_bit s (lo32 x)))) [24, 16, 8, 0]"
        by (simp add: numeral_eq_Suc and_0xFF)
      then show ?thesis by simp
    qed
    ultimately show ?thesis
      by (simp only: list.map list.inject mask_8bit_id)
        (intro conjI; (rule byte_eqI)?; (auto simp: bit_simps)?)
  qed
  then show ?thesis by (simp add: get_hash_bytes_def o_def)
qed

lemma pad_temp_short:
  assumes "length buf < 64"
  shows "pad_temp buf = buf @ 0x80 # replicate (63 - length buf) 0"
proof -
  have "replicate (64 - length buf) (0 :: byte) = 0 # replicate (63 - length buf) 0"
    using assms by (simp flip: replicate_Suc add: Suc_diff_le)
  then show ?thesis by (simp add: pad_temp_def list_update_append)
qed

lemma hs_finish_agrees:
  fixes n :: nat
  assumes h: "digest_ok (hs_h s)" and r: "length (hs_buffer s) = n mod 64"
    and len: "length (write_data_bit_length (hs_digits s)) = 8"
  shows "digest_ok (hs_h (hs_finish s)) \<and> map lo32 (hs_h (hs_finish s)) =
    fips_blocks (map lo32 (hs_h s)) (hs_buffer s @ [0x80] @ replicate ((119 - n mod 64) mod 64) 0 @
      write_data_bit_length (hs_digits s))"
proof (cases "length (hs_buffer s) > 55")
  case True
  let ?b = "hs_buffer s" and ?l = "write_data_bit_length (hs_digits s)"
  have lt: "length ?b < 64" using r by simp
  have "(119 - n mod 64) mod 64 = 63 - length ?b + 56"
    using True lt unfolding r by simp
  then have p: "?b @ [0x80] @ replicate ((119 - n mod 64) mod 64) 0 @ ?l = pad_temp ?b @ (replicate 56 0 @ ?l)"
    by (simp only: pad_temp_short [OF lt] replicate_add) simp
  have l: "length (pad_temp ?b) = 64" using lt by (simp add: pad_temp_short)
  have f: "hs_h (hs_finish s) = hash256_block (hash256_block (hs_h s) (pad_temp ?b)) (replicate 56 0 @ ?l)"
    using True by (simp add: hs_finish_def Let_def)
  show ?thesis
    unfolding p f using fips_blocks_1 [of "replicate 56 0 @ ?l" _ "[]"]
      block_agrees [OF h l] block_agrees [of "hash256_block (hs_h s) (pad_temp ?b)" "replicate 56 0 @ ?l"] len
    by (simp add: fips_blocks_1 l fips_blocks_Nil)
next
  case False
  let ?b = "hs_buffer s" and ?l = "write_data_bit_length (hs_digits s)"
  have lt: "length ?b < 64" using r by simp
  have "(119 - n mod 64) mod 64 = 55 - length ?b"
    using False mod_less [of "55 - length ?b" 64] mod_add_self2 [of "55 - length ?b" 64]
    by (simp flip: r add: add.commute)
  moreover have "take 56 (pad_temp ?b) = ?b @ 0x80 # replicate (55 - length ?b) 0"
  proof -
    have "take (56 - length ?b) (0x80 # replicate (63 - length ?b) 0) = (0x80 :: byte) # replicate (55 - length ?b) 0"
      using False by (simp add: take_Cons' min_def)
    then show ?thesis using False by (simp only: pad_temp_short [OF lt] take_append) simp
  qed
  ultimately have p: "?b @ [0x80] @ replicate ((119 - n mod 64) mod 64) 0 @ ?l = (take 56 (pad_temp ?b) @ ?l) @ []"
    by simp
  have l: "length (take 56 (pad_temp ?b) @ ?l) = 64" using lt len by (simp add: pad_temp_short)
  have f: "hs_h (hs_finish s) = hash256_block (hs_h s) (take 56 (pad_temp ?b) @ ?l)"
    using False by (simp add: hs_finish_def Let_def)
  show ?thesis
    unfolding p f using block_agrees [OF h l] by (simp only: fips_blocks_1 [OF l] fips_blocks_Nil)
qed

lemma digest_ok_init: "digest_ok initial_message_digest"
proof -
  have "map mask_32bit initial_message_digest = initial_message_digest"
    by (simp add: initial_message_digest_def mask_32bit_def)
  then have "list_all small initial_message_digest"
    by (metis (no_types) length_map list_all_length nth_map small_mask)
  then show ?thesis by (simp add: digest_ok_def initial_message_digest_def)
qed

lemma sha256_eq_fips: "sha256 m = fips_sha256 m"
proof -
  let ?s = "hs_process m hs_init"
  define pb where "pb = process_blocks initial_message_digest m"
  have s: "?s = \<lparr>hs_buffer = snd pb, hs_digits = add_to_data_length (of_nat (length m)) (replicate 4 0), hs_h = fst pb\<rparr>"
    by (simp add: hs_process_def hs_init_def pb_def split: prod.split)
  have len: "write_data_bit_length (hs_digits ?s) = be_list 8 (of_nat (8 * length m) :: u64)"
    by (simp add: s data_length_digits bits_of_length push_bit_eq_mult mult.commute)
  note pba = process_blocks_agrees [OF digest_ok_init, of m, folded pb_def]
  have "length (hs_buffer ?s) = length m mod 64" "digest_ok (hs_h ?s)"
    using pba by (auto simp: s minus_div_mult_eq_mod)
  moreover have "length (write_data_bit_length (hs_digits ?s)) = 8" by (simp only: len length_be_list)
  ultimately have "map lo32 (hs_h (hs_finish ?s)) = fips_blocks (map lo32 (fst pb)) (snd pb @ [0x80] @
      replicate ((119 - length m mod 64) mod 64) 0 @ be_list 8 (of_nat (8 * length m) :: u64))"
    using hs_finish_agrees [of ?s "length m"] unfolding len unfolding s hash256_one_by_one.simps by blast
  also have "\<dots> = fips_blocks fips_H0 (fips_pad m)"
    unfolding fips_H0_def fips_pad_def using pba by metis
  finally show ?thesis by (simp only: sha256_def fips_sha256_def get_hash_bytes_conv)
qed

lemma length_sha256 [simp]: "length (sha256 m) = 32"
proof -
  have "length (fips_compress H b) = 8" if "length H = 8" for H b
    using that by (auto simp: fips_compress_def list_of_regs_def split: prod.split)
  then have "length H = 8 \<Longrightarrow> length (fips_blocks H p) = 8" for H p
    by (induction H p rule: fips_blocks.induct) (subst fips_blocks.simps, simp)
  then have "length (fips_blocks fips_H0 (fips_pad m)) = 8"
    by (simp add: fips_H0_def initial_message_digest_def)
  then show ?thesis
    by (simp add: sha256_eq_fips fips_sha256_def length_concat o_def sum_list_triv)
qed

text \<open>The digest computed in masked 64-bit arithmetic with digit-wise length bookkeeping is the
  SHA-256 digest of the standard, for every message, and it always has 32 bytes.\<close>

lemma sha256_meets_fips: "sha256 m = fips_sha256 m \<and> length (sha256 m) = 32"
  by (simp add: sha256_eq_fips flip: sha256_eq_fips)

section \<open>The constants\<close>

text \<open>The first \<open>n\<close>-th-root bits: \<open>k\<close> holds the first 32 bits of the fractional part of the
  \<open>n\<close>-th root of \<open>p\<close>.\<close>

definition root_bits :: "nat \<Rightarrow> int \<Rightarrow> word_t \<Rightarrow> bool" where
  "root_bits n p k \<longleftrightarrow>
     list_ex (\<lambda>r. (r * 2 ^ 32 + uint k) ^ n \<le> p * 2 ^ (32 * n) \<and>
       p * 2 ^ (32 * n) < (r * 2 ^ 32 + uint k + 1) ^ n) [1, 2, 3, 4, 5, 6, 7]"

text \<open>The primes up to \<open>m < 361\<close>, by trial division: the divisors up to 17 are enough.\<close>

definition primes_upto :: "int \<Rightarrow> int list" where
  "primes_upto m = filter (\<lambda>n. list_all (\<lambda>d. n < d * d \<or> n mod d \<noteq> 0)
     [2, 3, 5, 7, 11, 13, 17]) [2..m]"

text \<open>The 64 round constants are the first 32 bits of the fractional parts of the cube roots of
  the first 64 primes, and the initial digest those of the square roots of the first 8 primes, as
  the standard defines them.\<close>

theorem sha256_constants:
  "list_all2 (root_bits 3) (primes_upto 311) add_constant \<and>
   list_all2 (root_bits 2) (primes_upto 19) initial_message_digest"
  by code_simp

end
