(* ===== verification/Hashing.thy ===== *)
theory Hashing
  imports Sha256 Wire
begin

text \<open>
  \<open>src/core/hash/hashing.cpp\<close> and the byte writer of \<open>serializer.hpp\<close>: the bytes that are hashed
  for an event and for a clock event, and the accounted sizes. The lemmas say which fields the
  hash commits to. The reader of a clock event's preimage exists as soon as every referenced hash
  is a digest (32 bytes); without that, and for events in general, the preimage is ambiguous, and
  the last section gives the collisions.
\<close>

section \<open>The canonical byte writer\<close>

definition write_u64_be :: "u64 \<Rightarrow> bytes" where
  "write_u64_be v = map (\<lambda>shift. ucast (drop_bit shift v AND 0xFF)) [56, 48, 40, 32, 24, 16, 8, 0]"

definition write_node_id :: "NodeId \<Rightarrow> bytes" where
  "write_node_id i = node_bytes i"

definition write_refs :: "EventReference list \<Rightarrow> bytes" where
  "write_refs refs = concat (map (\<lambda>r. write_node_id (ref_creator r) @ ref_hash r) refs)"

section \<open>Hashes\<close>

definition event_preimage :: "Event \<Rightarrow> bytes" where
  "event_preimage e = ev_data e @ write_u64_be (ev_salt e) @ write_refs (ev_refs e)"

definition calculate_event_hash :: "Event \<Rightarrow> EventHash" where
  "calculate_event_hash e = sha256 (event_preimage e)"

definition clock_event_preimage :: "'a ClockEvent_scheme \<Rightarrow> bytes" where
  "clock_event_preimage c = write_u64_be (ucast (ce_chain c)) @ write_u64_be (ce_timestamp c) @
     write_u64_be (ce_salt c) @ write_refs (ce_refs c)"

definition calculate_clock_event_hash :: "'a ClockEvent_scheme \<Rightarrow> EventHash" where
  "calculate_clock_event_hash c = sha256 (clock_event_preimage c)"

definition kHashBytes :: nat where "kHashBytes = 32"
definition kNodeIdBytes :: nat where "kNodeIdBytes = 16"
definition kSaltBytes :: nat where "kSaltBytes = 8"
definition kTimestampBytes :: nat where "kTimestampBytes = 8"
definition kChainBytes :: nat where "kChainBytes = 8"
definition kRefBytes :: nat where "kRefBytes = kNodeIdBytes + kHashBytes"

definition event_size_bytes :: "Event \<Rightarrow> nat" where
  "event_size_bytes e =
     kNodeIdBytes + kHashBytes + kSaltBytes + kRefBytes * length (ev_refs e)"

definition clock_event_size_bytes :: "'a ClockEvent_scheme \<Rightarrow> nat" where
  "clock_event_size_bytes c = kNodeIdBytes + kHashBytes + kChainBytes + kTimestampBytes +
     kSaltBytes + kRefBytes * length (ce_refs c)"

lemmas size_consts = kHashBytes_def kNodeIdBytes_def kSaltBytes_def kTimestampBytes_def
  kChainBytes_def kRefBytes_def

section \<open>What the preimages determine\<close>

lemma write_u64_be_conv: "write_u64_be v = be_list 8 v"
  by (simp add: write_u64_be_def numeral_eq_Suc)

lemma length_write_u64_be [simp]: "length (write_u64_be v) = 8"
  by (simp add: write_u64_be_conv)

lemma write_u64_be_inj [simp]: "write_u64_be v = write_u64_be w \<longleftrightarrow> v = w"
  by (simp add: write_u64_be_conv be_list_inj)

text \<open>A reference whose hash is a digest occupies exactly 48 bytes.\<close>

definition digest_ref :: "EventReference \<Rightarrow> bool" where
  "digest_ref r \<longleftrightarrow> wf_node_id (ref_creator r) \<and> length (ref_hash r) = kHashBytes"

lemma digest_ref_inj:
  assumes "digest_ref r" "digest_ref s"
    "write_node_id (ref_creator r) @ ref_hash r @ x = write_node_id (ref_creator s) @ ref_hash s @ y"
  shows "r = s \<and> x = y"
  using assms
  by (cases r, cases s, cases "ref_creator r", cases "ref_creator s")
    (simp add: digest_ref_def wf_node_id_def write_node_id_def size_consts)

lemma write_refs_inj:
  "list_all digest_ref rs \<Longrightarrow> list_all digest_ref ss \<Longrightarrow> write_refs rs = write_refs ss \<Longrightarrow> rs = ss"
proof (induction rs arbitrary: ss)
  case Nil
  then show ?case
    by (cases ss) (auto simp: write_refs_def digest_ref_def size_consts)
next
  case (Cons r rs)
  then obtain s ss' where ss: "ss = s # ss'"
    by (cases ss) (auto simp: write_refs_def digest_ref_def size_consts)
  with Cons.prems have "r = s \<and> write_refs rs = write_refs ss'"
    by (intro digest_ref_inj) (auto simp: write_refs_def)
  with Cons ss show ?case by simp
qed

lemma length_write_refs:
  "list_all digest_ref rs \<Longrightarrow> length (write_refs rs) = kRefBytes * length rs"
  by (induction rs)
    (auto simp: write_refs_def digest_ref_def size_consts wf_node_id_def write_node_id_def)

text \<open>The fields of a clock event that its hash commits to.\<close>

definition clock_content :: "'a ClockEvent_scheme \<Rightarrow> u32 \<times> Timestamp \<times> Salt \<times> EventReference list" where
  "clock_content c = (ce_chain c, ce_timestamp c, ce_salt c, ce_refs c)"

lemma clock_event_preimage_inj:
  assumes "list_all digest_ref (ce_refs c)" "list_all digest_ref (ce_refs d)"
    "clock_event_preimage c = clock_event_preimage d"
  shows "clock_content c = clock_content d"
proof -
  have "(ucast (ce_chain c) :: u64) = ucast (ce_chain d)" "ce_timestamp c = ce_timestamp d"
    "ce_salt c = ce_salt d" "write_refs (ce_refs c) = write_refs (ce_refs d)"
    using assms(3) by (simp_all add: clock_event_preimage_def)
  moreover from this(1) have "ce_chain c = ce_chain d" by (metis ucast_ucast_chain)
  ultimately show ?thesis
    using assms(1,2) by (simp add: clock_content_def write_refs_inj)
qed

lemma clock_hash_content_only:
  "clock_content c = clock_content d \<Longrightarrow> calculate_clock_event_hash c = calculate_clock_event_hash d"
  by (simp add: clock_content_def calculate_clock_event_hash_def clock_event_preimage_def)

lemma clock_hash_slice [simp]: "calculate_clock_event_hash (slice c) = calculate_clock_event_hash c"
  by (simp add: calculate_clock_event_hash_def clock_event_preimage_def)

lemma event_preimage_inj:
  assumes "list_all digest_ref (ev_refs e)" "list_all digest_ref (ev_refs f)"
    "length (ev_data e) = length (ev_data f)" "event_preimage e = event_preimage f"
  shows "ev_data e = ev_data f \<and> ev_salt e = ev_salt f \<and> ev_refs e = ev_refs f"
  using assms by (auto simp: event_preimage_def intro: write_refs_inj)

lemma length_hashes [simp]:
  "length (calculate_event_hash e) = 32" "length (calculate_clock_event_hash c) = 32"
  by (simp_all add: calculate_event_hash_def calculate_clock_event_hash_def)

text \<open>The hash of a clock event commits to its chain number, timestamp, salt and references:
  among clock events whose references hold digests, two have the same preimage exactly when these
  fields agree, and the hash of any clock event ignores every other field (its creator, its
  signature, its stored hash, the reverse links).\<close>

lemma clock_hash_commits:
  assumes "list_all digest_ref (ce_refs c)" "list_all digest_ref (ce_refs d)"
  shows "clock_event_preimage c = clock_event_preimage d \<longleftrightarrow>
    ce_chain c = ce_chain d \<and> ce_timestamp c = ce_timestamp d \<and> ce_salt c = ce_salt d \<and>
    ce_refs c = ce_refs d"
  using clock_event_preimage_inj [OF assms]
  by (auto simp: clock_content_def clock_event_preimage_def)

text \<open>The accounted size of a clock event is the size of what is hashed plus its creator and
  its digest, so the accounting follows the bytes (for references that hold digests).\<close>

theorem clock_event_size_accounts:
  assumes "list_all digest_ref (ce_refs c)"
  shows "clock_event_size_bytes c = kNodeIdBytes + kHashBytes + length (clock_event_preimage c)"
  using length_write_refs [OF assms]
  by (simp add: clock_event_size_bytes_def clock_event_preimage_def size_consts)

section \<open>Ambiguous preimages\<close>

text \<open>Neither hash has a domain tag and the fields of an event are not length-prefixed, so the
  following objects share a preimage (and hence a hash) although their contents differ.\<close>

definition event_of_clock :: "ClockEvent \<Rightarrow> Event" where
  "event_of_clock c = \<lparr>ev_creator = ce_creator c, ev_hash = ce_hash c,
     ev_data = write_u64_be (ucast (ce_chain c)) @ write_u64_be (ce_timestamp c),
     ev_salt = ce_salt c, ev_refs = ce_refs c, ev_signature = ce_signature c\<rparr>"

text \<open>C23: Events and clock events are not separated: every clock event read as an event whose
  content is its chain number and timestamp has the same hash, so the hash and the signature of
  the one are those of the other.\<close>

theorem event_clock_hash_confusion:
  "calculate_event_hash (event_of_clock c) = calculate_clock_event_hash c"
  by (simp add: calculate_event_hash_def calculate_clock_event_hash_def event_preimage_def
      clock_event_preimage_def event_of_clock_def)

text \<open>The content and the salt of an event run into each other: moving the salt into the content
  and the first reference's creator into the salt keeps the preimage.\<close>

definition event_shift :: "Event \<Rightarrow> Event" where
  "event_shift e = e\<lparr>ev_data := ev_data e @ write_u64_be (ev_salt e), ev_salt := 0,
     ev_refs := [\<lparr>ref_creator = node_id_of_u64 0, ref_hash = []\<rparr>]\<rparr>"

lemma event_content_ambiguous:
  assumes "ev_refs e = [\<lparr>ref_creator = node_id_of_u64 0, ref_hash = replicate 8 0\<rparr>]"
  shows "calculate_event_hash (event_shift e) = calculate_event_hash e"
  using assms
  by (simp add: calculate_event_hash_def event_preimage_def event_shift_def write_refs_def
      write_node_id_def node_id_of_u64_def write_u64_be_def upt_rec numeral_eq_Suc)

end
