(* ===== verification/Validate.thy ===== *)
theory Validate
  imports Hashing "HOL-Library.Sublist"
begin

text \<open>
  Chain validation, \<open>src/core/validate/chain.cpp\<close>: the one trust check that live discovery and
  offline proof verification share. The signature check of the \<open>Signer\<close> port is the parameter
  \<open>verify\<close>. The executable walk \<open>verify_chain\<close> is shown to decide a declarative specification
  (\<open>chain_sound\<close>), and the specification to give the commitment chain that makes the proof
  object tamper evident.
\<close>

section \<open>The walk\<close>

type_synonym verifier = "bytes \<Rightarrow> Signature \<Rightarrow> NodeId \<Rightarrow> bool"

record ChainResult =
  cr_ok :: bool
  cr_reason :: string
  cr_lower :: Timestamp
  cr_upper :: Timestamp

definition fail_result :: "string \<Rightarrow> ChainResult" where
  "fail_result why = \<lparr>cr_ok = False, cr_reason = why, cr_lower = 0, cr_upper = 0\<rparr>"

fun references :: "EventReference list \<Rightarrow> EventReference \<Rightarrow> bool" where
  "references [] target = False"
| "references (r # rs) target = (if r = target then True else references rs target)"

text \<open>The loop over the lower bound; \<open>None\<close> is \<open>have_prev == false\<close>. An early return of the
  function is \<open>Inl\<close> of its reason.\<close>

fun walk_lower :: "verifier \<Rightarrow> EventReference option \<Rightarrow> ClockEvent list \<Rightarrow> string + EventReference option" where
  "walk_lower verify prev [] = Inr prev"
| "walk_lower verify prev (ce # ces) =
     (if calculate_clock_event_hash ce \<noteq> ce_hash ce
        then Inl ''lower-bound clock event hash mismatch''
      else if \<not> verify (ce_hash ce) (ce_signature ce) (ce_creator ce)
        then Inl ''lower-bound clock event signature invalid''
      else if (case prev of None \<Rightarrow> False | Some p \<Rightarrow> \<not> references (ce_refs ce) p)
        then Inl ''lower bound is not linked''
      else walk_lower verify (Some (ref_of_clock ce)) ces)"

fun walk_upper :: "verifier \<Rightarrow> EventReference \<Rightarrow> ClockEvent list \<Rightarrow> string + EventReference" where
  "walk_upper verify prev [] = Inr prev"
| "walk_upper verify prev (ce # ces) =
     (if calculate_clock_event_hash ce \<noteq> ce_hash ce
        then Inl ''upper-bound clock event hash mismatch''
      else if \<not> verify (ce_hash ce) (ce_signature ce) (ce_creator ce)
        then Inl ''upper-bound clock event signature invalid''
      else if \<not> references (ce_refs ce) prev
        then Inl ''upper bound is not linked''
      else walk_upper verify (ref_of_clock ce) ces)"

text \<open>\<open>EventReference{}\<close>, the initial value of \<open>prev\<close>.\<close>

definition null_ref :: EventReference where
  "null_ref = \<lparr>ref_creator = NodeId (replicate 16 0), ref_hash = []\<rparr>"

definition verify_chain :: "EventChain \<Rightarrow> NodeId \<Rightarrow> verifier \<Rightarrow> ChainResult" where
  "verify_chain chain reference verify =
     (if ch_lower chain = [] \<or> ch_upper chain = []
        then fail_result ''chain missing an enclosing bound''
      else if ce_creator (hd (ch_lower chain)) \<noteq> reference
        then fail_result ''first clock event is not the reference node's''
      else if ce_creator (last (ch_upper chain)) \<noteq> reference
        then fail_result ''last clock event is not the reference node's''
      else case walk_lower verify None (ch_lower chain) of
        Inl why \<Rightarrow> fail_result why
      | Inr prev \<Rightarrow>
        (if calculate_event_hash (ch_event chain) \<noteq> ev_hash (ch_event chain)
           then fail_result ''event hash mismatch''
         else if \<not> references (ev_refs (ch_event chain)) (case prev of None \<Rightarrow> null_ref | Some p \<Rightarrow> p)
           then fail_result ''event does not reference the lower bound''
         else if \<not> verify (ev_hash (ch_event chain)) (ev_signature (ch_event chain))
             (ev_creator (ch_event chain))
           then fail_result ''event signature invalid''
         else case walk_upper verify (ref_of_event (ch_event chain)) (ch_upper chain) of
           Inl why \<Rightarrow> fail_result why
         | Inr _ \<Rightarrow>
           (let lower = ce_timestamp (hd (ch_lower chain));
                upper = ce_timestamp (last (ch_upper chain))
            in if sint upper < sint lower
               then \<lparr>cr_ok = False,
                 cr_reason = ''inverted interval (upper bound earlier than lower bound)'',
                 cr_lower = lower, cr_upper = upper\<rparr>
               else \<lparr>cr_ok = True, cr_reason = [], cr_lower = lower, cr_upper = upper\<rparr>)))"

section \<open>The specification\<close>

text \<open>A sound chain, element by element: one link per clock event and one for the event, each
  with its identity, what it refers to, the bytes its hash commits to, and its signature.\<close>

record link =
  ln_ref :: EventReference
  ln_refs :: "EventReference list"
  ln_preimage :: bytes
  ln_signature :: Signature

definition link_of_clock :: "ClockEvent \<Rightarrow> link" where
  "link_of_clock c = \<lparr>ln_ref = ref_of_clock c, ln_refs = ce_refs c,
     ln_preimage = clock_event_preimage c, ln_signature = ce_signature c\<rparr>"

definition link_of_event :: "Event \<Rightarrow> link" where
  "link_of_event e = \<lparr>ln_ref = ref_of_event e, ln_refs = ev_refs e,
     ln_preimage = event_preimage e, ln_signature = ev_signature e\<rparr>"

definition chain_links :: "EventChain \<Rightarrow> link list" where
  "chain_links ch =
     map link_of_clock (ch_lower ch) @ [link_of_event (ch_event ch)] @ map link_of_clock (ch_upper ch)"

text \<open>A link is authentic when its stored hash is the hash of its content and is signed by its
  creator; a list of links is linked when each refers to the one before it.\<close>

definition authentic :: "verifier \<Rightarrow> link \<Rightarrow> bool" where
  "authentic verify l \<longleftrightarrow> ref_hash (ln_ref l) = sha256 (ln_preimage l) \<and>
     verify (ref_hash (ln_ref l)) (ln_signature l) (ref_creator (ln_ref l))"

definition linked :: "link list \<Rightarrow> bool" where
  "linked ls \<longleftrightarrow> (\<forall>i. Suc i < length ls \<longrightarrow> ln_ref (ls ! i) \<in> set (ln_refs (ls ! Suc i)))"

definition chain_sound :: "EventChain \<Rightarrow> NodeId \<Rightarrow> verifier \<Rightarrow> bool" where
  "chain_sound ch reference verify \<longleftrightarrow>
     ch_lower ch \<noteq> [] \<and> ch_upper ch \<noteq> [] \<and>
     ref_creator (ln_ref (hd (chain_links ch))) = reference \<and>
     ref_creator (ln_ref (last (chain_links ch))) = reference \<and>
     (\<forall>l \<in> set (chain_links ch). authentic verify l) \<and> linked (chain_links ch) \<and>
     sint (ce_timestamp (hd (ch_lower ch))) \<le> sint (ce_timestamp (last (ch_upper ch)))"

section \<open>The walk decides the specification\<close>

lemma references_iff [simp]: "references rs t \<longleftrightarrow> t \<in> set rs"
  by (induction rs) auto

lemma linked_simps [simp]:
  "linked []" "linked [l]"
  "linked (l # m # ls) \<longleftrightarrow> ln_ref l \<in> set (ln_refs m) \<and> linked (m # ls)"
  by (auto simp: linked_def nth_Cons split: nat.splits)

lemma linked_append:
  "xs \<noteq> [] \<Longrightarrow> ys \<noteq> [] \<Longrightarrow>
   linked (xs @ ys) \<longleftrightarrow> linked xs \<and> linked ys \<and> ln_ref (last xs) \<in> set (ln_refs (hd ys))"
proof (induction xs rule: induct_list012)
  case (2 x)
  then show ?case by (cases ys) auto
qed auto

lemma authentic_clock [simp]:
  "authentic verify (link_of_clock c) \<longleftrightarrow> calculate_clock_event_hash c = ce_hash c \<and>
     verify (ce_hash c) (ce_signature c) (ce_creator c)"
  by (auto simp: authentic_def link_of_clock_def calculate_clock_event_hash_def)

lemma authentic_event [simp]:
  "authentic verify (link_of_event e) \<longleftrightarrow> calculate_event_hash e = ev_hash e \<and>
     verify (ev_hash e) (ev_signature e) (ev_creator e)"
  by (auto simp: authentic_def link_of_event_def calculate_event_hash_def)

lemma link_sel [simp]:
  "ln_ref (link_of_clock c) = ref_of_clock c" "ln_refs (link_of_clock c) = ce_refs c"
  "ln_ref (link_of_event e) = ref_of_event e" "ln_refs (link_of_event e) = ev_refs e"
  "ln_preimage (link_of_clock c) = clock_event_preimage c"
  "ln_preimage (link_of_event e) = event_preimage e"
  by (simp_all add: link_of_clock_def link_of_event_def)

lemma linked_hd:
  "ces \<noteq> [] \<Longrightarrow> linked (l # map link_of_clock ces) \<longleftrightarrow>
     ln_ref l \<in> set (ce_refs (hd ces)) \<and> linked (map link_of_clock ces)"
  by (cases ces) auto

lemma walk_upper_iff:
  "(\<exists>q. walk_upper verify (ln_ref l) ces = Inr q) \<longleftrightarrow>
   (\<forall>c \<in> set ces. authentic verify (link_of_clock c)) \<and> linked (l # map link_of_clock ces)"
proof (induction ces arbitrary: l)
  case (Cons c ces)
  show ?case using Cons [of "link_of_clock c"] by auto
qed simp

lemma walk_lower_Some:
  "walk_lower verify (Some (ln_ref l)) ces = Inr q \<longleftrightarrow>
   (\<forall>c \<in> set ces. authentic verify (link_of_clock c)) \<and> linked (l # map link_of_clock ces) \<and>
   q = Some (ln_ref (last (l # map link_of_clock ces)))"
proof (induction ces arbitrary: l)
  case (Cons c ces)
  show ?case using Cons [of "link_of_clock c"] by auto
qed auto

lemma walk_lower_iff:
  "ces \<noteq> [] \<Longrightarrow> walk_lower verify None ces = Inr q \<longleftrightarrow>
   (\<forall>c \<in> set ces. authentic verify (link_of_clock c)) \<and> linked (map link_of_clock ces) \<and>
   q = Some (ref_of_clock (last ces))"
proof (cases ces)
  case (Cons c cs)
  then show ?thesis
    using walk_lower_Some [of verify "link_of_clock c" cs q] by (auto simp: last_map)
qed simp

lemma walk_lower_reason: "walk_lower verify p ces = Inl why \<Longrightarrow> why \<noteq> []"
  by (induction verify p ces rule: walk_lower.induct) (auto split: if_splits)

lemma walk_upper_reason: "walk_upper verify p ces = Inl why \<Longrightarrow> why \<noteq> []"
  by (induction verify p ces rule: walk_upper.induct) (auto split: if_splits)

lemmas walk_reasons = walk_lower_reason walk_upper_reason

lemma chain_sound_alt:
  assumes "ch_lower ch \<noteq> []" "ch_upper ch \<noteq> []"
  shows "chain_sound ch reference verify \<longleftrightarrow>
    ce_creator (hd (ch_lower ch)) = reference \<and> ce_creator (last (ch_upper ch)) = reference \<and>
    walk_lower verify None (ch_lower ch) = Inr (Some (ref_of_clock (last (ch_lower ch)))) \<and>
    authentic verify (link_of_event (ch_event ch)) \<and>
    ref_of_clock (last (ch_lower ch)) \<in> set (ev_refs (ch_event ch)) \<and>
    (\<exists>q. walk_upper verify (ref_of_event (ch_event ch)) (ch_upper ch) = Inr q) \<and>
    sint (ce_timestamp (hd (ch_lower ch))) \<le> sint (ce_timestamp (last (ch_upper ch)))"
  using assms walk_upper_iff [of verify "link_of_event (ch_event ch)" "ch_upper ch"]
  by (auto simp: chain_sound_def chain_links_def walk_lower_iff linked_append linked_hd last_map
      hd_map hd_append ball_Un)

lemma verify_chain_cases:
  "verify_chain ch reference verify =
     \<lparr>cr_ok = True, cr_reason = [], cr_lower = ce_timestamp (hd (ch_lower ch)),
       cr_upper = ce_timestamp (last (ch_upper ch))\<rparr> \<and> chain_sound ch reference verify \<or>
   \<not> cr_ok (verify_chain ch reference verify) \<and> cr_reason (verify_chain ch reference verify) \<noteq> [] \<and>
   \<not> chain_sound ch reference verify"
proof (cases "ch_lower ch = [] \<or> ch_upper ch = []")
  case True
  then show ?thesis by (auto simp: verify_chain_def fail_result_def chain_sound_def)
next
  case False
  then have "walk_lower verify None (ch_lower ch) = Inr q \<Longrightarrow> q = Some (ref_of_clock (last (ch_lower ch)))" for q
    by (simp add: walk_lower_iff)
  then show ?thesis
    using False chain_sound_alt [of ch reference verify]
    by (auto simp: verify_chain_def fail_result_def Let_def split: sum.splits dest: walk_reasons)
qed

lemma verify_chain_ok: "cr_ok (verify_chain ch reference verify) \<longleftrightarrow> chain_sound ch reference verify"
  using verify_chain_cases [of ch reference verify] by auto

section \<open>Properties\<close>

text \<open>C2: The validation walk decides exactly the declarative specification: it accepts a chain if
  and only if the chain is sound (both bounds present, both ends of the reference node, every
  element's hash recomputed and signed, every element referring to the one before it, interval not
  inverted); it then returns the reference node's two timestamps, and it gives a reason exactly
  when it rejects.\<close>

theorem verify_chain_decides:
  "(cr_ok (verify_chain ch reference verify) \<longleftrightarrow> chain_sound ch reference verify) \<and>
   (verify_chain ch reference verify =
      \<lparr>cr_ok = True, cr_reason = [], cr_lower = ce_timestamp (hd (ch_lower ch)),
        cr_upper = ce_timestamp (last (ch_upper ch))\<rparr> \<longleftrightarrow> chain_sound ch reference verify) \<and>
   (cr_reason (verify_chain ch reference verify) = [] \<longleftrightarrow> chain_sound ch reference verify)"
  using verify_chain_cases [of ch reference verify] by auto

lemma write_refs_sublist:
  assumes "r \<in> set rs"
  shows "sublist (write_node_id (ref_creator r) @ ref_hash r) (write_refs rs)"
proof -
  obtain a b where "rs = a @ r # b" using assms by (auto dest: split_list)
  then have "write_refs rs = write_refs a @ (write_node_id (ref_creator r) @ ref_hash r) @ write_refs b"
    by (simp add: write_refs_def)
  then show ?thesis unfolding sublist_def by blast
qed

lemma sublist_within: "sublist x y \<Longrightarrow> sublist x (p @ y)"
  unfolding sublist_def by (metis append_assoc)

lemma preimage_refs:
  assumes "l \<in> set (chain_links ch)" "sublist x (write_refs (ln_refs l))"
  shows "sublist x (ln_preimage l)"
  using assms
  by (auto simp: chain_links_def clock_event_preimage_def event_preimage_def intro!: sublist_within)

text \<open>An accepted chain is a commitment chain: the hash of each element is computed over bytes
  that contain the creator and the hash of the element before it, from the reference node's lower
  clock event through the event to the reference node's upper clock event.\<close>

lemma verify_chain_commits:
  assumes "cr_ok (verify_chain ch reference verify)" and "Suc i < length (chain_links ch)"
  shows "ref_hash (ln_ref (chain_links ch ! Suc i)) = sha256 (ln_preimage (chain_links ch ! Suc i)) \<and>
    sublist (node_bytes (ref_creator (ln_ref (chain_links ch ! i))) @
      ref_hash (ln_ref (chain_links ch ! i))) (ln_preimage (chain_links ch ! Suc i))"
proof -
  let ?l = "chain_links ch ! Suc i"
  have s: "chain_sound ch reference verify" using assms(1) by (simp add: verify_chain_ok)
  have "?l \<in> set (chain_links ch)" using assms(2) by simp
  moreover from this have "authentic verify ?l" using s by (simp add: chain_sound_def)
  moreover have "ln_ref (chain_links ch ! i) \<in> set (ln_refs ?l)"
    using s assms(2) by (simp add: chain_sound_def linked_def)
  ultimately show ?thesis
    using preimage_refs [of ?l ch, OF _ write_refs_sublist]
    by (simp add: authentic_def write_node_id_def)
qed

text \<open>A concrete sound chain: node 1 ticks, node 2 publishes on top of the tick, node 1 ticks
  again on top of the event.\<close>

definition sample_tick :: "Timestamp \<Rightarrow> EventReference list \<Rightarrow> Signature \<Rightarrow> ClockEvent" where
  "sample_tick t rs sg =
     (let c = \<lparr>ce_creator = node_id_of_u64 1, ce_hash = [], ce_chain = 0, ce_timestamp = t,
        ce_salt = 5, ce_refs = rs, ce_signature = sg\<rparr>
      in c\<lparr>ce_hash := calculate_clock_event_hash c\<rparr>)"

definition sample_event :: "EventReference list \<Rightarrow> Signature \<Rightarrow> Event" where
  "sample_event rs sg =
     (let e = \<lparr>ev_creator = node_id_of_u64 2, ev_hash = [], ev_data = [1, 2, 3], ev_salt = 6,
        ev_refs = rs, ev_signature = sg\<rparr>
      in e\<lparr>ev_hash := calculate_event_hash e\<rparr>)"

definition sample_chain :: "Timestamp \<Rightarrow> Timestamp \<Rightarrow> Signature \<Rightarrow> EventChain" where
  "sample_chain t u sg =
     (let lo = sample_tick t [] sg; e = sample_event [ref_of_clock lo] sg;
          hi = sample_tick u [ref_of_event e] sg
      in \<lparr>ch_event = e, ch_lower = [lo], ch_upper = [hi]\<rparr>)"

lemma sample_tick_simps [simp]:
  "calculate_clock_event_hash (sample_tick t rs sg) = ce_hash (sample_tick t rs sg)"
  "ce_creator (sample_tick t rs sg) = node_id_of_u64 1" "ce_timestamp (sample_tick t rs sg) = t"
  "ce_refs (sample_tick t rs sg) = rs"
  "length (ce_hash (sample_tick t rs sg)) = 32" "ce_signature (sample_tick t rs sg) = sg"
  by (simp_all add: sample_tick_def Let_def calculate_clock_event_hash_def clock_event_preimage_def)

lemma sample_event_simps [simp]:
  "calculate_event_hash (sample_event rs sg) = ev_hash (sample_event rs sg)"
  "ev_creator (sample_event rs sg) = node_id_of_u64 2" "ev_refs (sample_event rs sg) = rs"
  "length (ev_hash (sample_event rs sg)) = 32" "ev_data (sample_event rs sg) = [1, 2, 3]"
  by (simp_all add: sample_event_def Let_def calculate_event_hash_def event_preimage_def)

lemma sample_chain_sound:
  assumes "sint t \<le> sint u"
  shows "chain_sound (sample_chain t u sg) (node_id_of_u64 1) (\<lambda>_ _ _. True)"
  using assms by (simp add: chain_sound_def sample_chain_def chain_links_def Let_def)

lemma sample_chain_ok:
  "sint t \<le> sint u \<Longrightarrow>
   cr_ok (verify_chain (sample_chain t u sg) (node_id_of_u64 1) (\<lambda>_ _ _. True))"
  by (simp add: verify_chain_ok sample_chain_sound)

text \<open>Two chains whose elements carry the same identities: no element of one has a preimage that
  collides with the preimage of the corresponding element of the other.\<close>

definition no_collision :: "link list \<Rightarrow> link list \<Rightarrow> bool" where
  "no_collision ls ls' \<longleftrightarrow> list_all2 (\<lambda>l l'. sha256 (ln_preimage l) = sha256 (ln_preimage l') \<longrightarrow>
     ln_preimage l = ln_preimage l') ls ls'"

definition digest_refs :: "EventChain \<Rightarrow> bool" where
  "digest_refs ch \<longleftrightarrow> list_all (\<lambda>l. list_all digest_ref (ln_refs l)) (chain_links ch)"

lemma preimages_agree:
  assumes "chain_sound ch r verify" "chain_sound ch' r verify"
    and "map ln_ref (chain_links ch) = map ln_ref (chain_links ch')"
    and "no_collision (chain_links ch) (chain_links ch')"
  shows "map ln_preimage (chain_links ch) = map ln_preimage (chain_links ch')"
proof (rule nth_equalityI)
  show l: "length (map ln_preimage (chain_links ch)) = length (map ln_preimage (chain_links ch'))"
    using assms(3) by (metis length_map)
  fix i
  assume i: "i < length (map ln_preimage (chain_links ch))"
  let ?l = "chain_links ch ! i" and ?l' = "chain_links ch' ! i"
  have "ln_ref ?l = ln_ref ?l'" using assms(3) i l by (metis length_map nth_map)
  moreover have "authentic verify ?l" "authentic verify ?l'"
    using assms(1,2) i l by (auto simp: chain_sound_def)
  ultimately have "sha256 (ln_preimage ?l) = sha256 (ln_preimage ?l')"
    by (simp add: authentic_def)
  then show "map ln_preimage (chain_links ch) ! i = map ln_preimage (chain_links ch') ! i"
    using assms(4) i l by (auto simp: no_collision_def list_all2_conv_all_nth)
qed

lemma contents_agree:
  assumes "list_all (\<lambda>c. list_all digest_ref (ce_refs c)) cs" "list_all (\<lambda>c. list_all digest_ref (ce_refs c)) cs'"
    "map clock_event_preimage cs = map clock_event_preimage cs'"
  shows "map clock_content cs = map clock_content (cs' :: ClockEvent list)"
proof (rule nth_equalityI)
  show "length (map clock_content cs) = length (map clock_content cs')"
    using assms(3) by (metis length_map)
  fix i assume "i < length (map clock_content cs)"
  then show "map clock_content cs ! i = map clock_content cs' ! i"
    using assms clock_event_preimage_inj [of "cs ! i" "cs' ! i"]
    by (simp add: list_all_length) (metis length_map nth_map)
qed


lemma sample_hashes:
  "sg \<noteq> [] \<Longrightarrow> ce_hash (sample_tick t rs sg) = ce_hash (sample_tick t rs [])"
  "sg \<noteq> [] \<Longrightarrow> ev_hash (sample_event rs sg) = ev_hash (sample_event rs [])"
  by (simp_all add: sample_tick_def sample_event_def Let_def calculate_clock_event_hash_def
      clock_event_preimage_def calculate_event_hash_def event_preimage_def)

lemma sample_preimages:
  "sg \<noteq> [] \<Longrightarrow> clock_event_preimage (sample_tick t rs sg) = clock_event_preimage (sample_tick t rs [])"
  "sg \<noteq> [] \<Longrightarrow> event_preimage (sample_event rs sg) = event_preimage (sample_event rs [])"
  by (simp_all add: sample_tick_def sample_event_def Let_def clock_event_preimage_def event_preimage_def)


end
