(* ===== verification/Proof_Format.thy ===== *)
theory Proof_Format
  imports Validate
begin

text \<open>
  The portable proof of \<open>src/core/proof/proof.cpp\<close>: its binary form over the wire codec, and its
  offline verification over the chain validation. \<open>Kind\<close> is a \<open>uint8_t\<close> enumeration filled by a
  cast, so a parsed proof may hold any byte; likewise \<open>Order\<close> may hold any signed byte.
\<close>

section \<open>The proof object\<close>

type_synonym Kind = byte

definition kind_bounds :: Kind where "kind_bounds = 0"
definition kind_order :: Kind where "kind_order = 1"
definition kind_chain :: Kind where "kind_chain = 2"

record Reference =
  rf_node :: NodeId
  rf_pubkey :: bytes

record Proof =
  pf_kind :: Kind
  pf_reference :: Reference
  pf_chain :: EventChain
  pf_chain2 :: EventChain
  pf_order :: Order

definition kMagic :: u64 where "kMagic = 0x4C4F544950524F46"
definition kVersion :: u64 where "kVersion = 1"

definition fingerprint :: "bytes \<Rightarrow> NodeId" where
  "fingerprint public_key =
     (let digest = sha256 public_key
      in NodeId (foldl (\<lambda>bs i. if i < length digest then bs[i := digest ! i] else bs)
           (replicate 16 0) [0..<16]))"

definition compare :: "EventChain \<Rightarrow> EventChain \<Rightarrow> Order" where
  "compare a b =
     (if sint (ce_timestamp (last (ch_upper a))) < sint (ce_timestamp (hd (ch_lower b)))
        then order_before
      else if sint (ce_timestamp (last (ch_upper b))) < sint (ce_timestamp (hd (ch_lower a)))
        then order_after
      else order_undetermined)"

section \<open>The binary form\<close>

text \<open>\<open>EventChain{}\<close>, the value \<open>chain2\<close> keeps when the proof is not an order proof.\<close>

definition empty_chain :: EventChain where
  "empty_chain = \<lparr>ch_event = \<lparr>ev_creator = NodeId (replicate 16 0), ev_hash = [], ev_data = [],
     ev_salt = 0, ev_refs = [], ev_signature = []\<rparr>, ch_lower = [], ch_upper = []\<rparr>"

definition serialize :: "Proof \<Rightarrow> bytes" where
  "serialize p = w_u64 kMagic @ w_u64 kVersion @ w_u8 (pf_kind p) @
     w_node_id (rf_node (pf_reference p)) @ w_blob (rf_pubkey (pf_reference p)) @
     w_chain (pf_chain p) @
     (if pf_kind p = kind_order then w_chain (pf_chain2 p) @ w_u8 (of_int (pf_order p)) else [])"

definition r_proof :: "Proof reader" where
  "r_proof = r_bind r_u64 (\<lambda>m. if m \<noteq> kMagic then r_throw Bad_magic else
     r_bind r_u64 (\<lambda>v. if v \<noteq> kVersion then r_throw Unsupported_proof_version else
     r_bind r_u8 (\<lambda>k. r_bind r_node_id (\<lambda>n. r_bind r_blob (\<lambda>pk. r_bind r_chain (\<lambda>ch.
       if k = kind_order
       then r_bind r_chain (\<lambda>ch2. r_bind r_u8 (\<lambda>b. r_return
         \<lparr>pf_kind = k, pf_reference = \<lparr>rf_node = n, rf_pubkey = pk\<rparr>, pf_chain = ch, pf_chain2 = ch2,
           pf_order = sint b\<rparr>))
       else r_return
         \<lparr>pf_kind = k, pf_reference = \<lparr>rf_node = n, rf_pubkey = pk\<rparr>, pf_chain = ch,
           pf_chain2 = empty_chain, pf_order = order_undetermined\<rparr>))))))"

definition deserialize :: "bytes \<Rightarrow> Proof result" where
  "deserialize b = bindE (r_proof b) (\<lambda>(p, _). Inr p)"

definition wf_proof :: "Proof \<Rightarrow> bool" where
  "wf_proof p \<longleftrightarrow> wf_node_id (rf_node (pf_reference p)) \<and> short (rf_pubkey (pf_reference p)) \<and>
     wf_chain (pf_chain p) \<and>
     (if pf_kind p = kind_order
      then wf_chain (pf_chain2 p) \<and> - 128 \<le> pf_order p \<and> pf_order p < 128
      else pf_chain2 p = empty_chain \<and> pf_order p = order_undetermined)"

section \<open>Offline verification\<close>

record VerifyResult =
  vr_valid :: bool
  vr_reason :: string
  vr_lower :: Timestamp
  vr_upper :: Timestamp
  vr_order :: Order

definition VerifyResult_init :: VerifyResult where
  "VerifyResult_init = \<lparr>vr_valid = False, vr_reason = [], vr_lower = 0, vr_upper = 0,
     vr_order = order_undetermined\<rparr>"

definition verify_proof :: "Proof \<Rightarrow> verifier \<Rightarrow> VerifyResult" where
  "verify_proof p verify =
     (let res = VerifyResult_init; ref = pf_reference p in
      if rf_pubkey ref \<noteq> [] \<and> fingerprint (rf_pubkey ref) \<noteq> rf_node ref
        then res\<lparr>vr_reason := ''reference public key does not match the reference node id''\<rparr>
      else
        let c1 = verify_chain (pf_chain p) (rf_node ref) verify in
        if \<not> cr_ok c1 then res\<lparr>vr_reason := cr_reason c1\<rparr>
        else
          let res = res\<lparr>vr_lower := cr_lower c1, vr_upper := cr_upper c1\<rparr> in
          if pf_kind p = kind_order
          then let c2 = verify_chain (pf_chain2 p) (rf_node ref) verify in
            if \<not> cr_ok c2 then res\<lparr>vr_reason := cr_reason c2\<rparr>
            else if compare (pf_chain p) (pf_chain2 p) \<noteq> pf_order p
              then res\<lparr>vr_reason := ''recorded order does not match the chains' intervals''\<rparr>
              else res\<lparr>vr_order := pf_order p, vr_valid := True\<rparr>
          else res\<lparr>vr_valid := True\<rparr>)"

section \<open>The codec contract for proofs\<close>

lemma signed_byte: "- 128 \<le> i \<Longrightarrow> i < 128 \<Longrightarrow> sint (of_int i :: byte) = i"
  by (transfer) (simp add: signed_take_bit_int_eq_self)

interpretation proofc: codec serialize r_proof wf_proof
proof
  show "local_reader r_proof"
    unfolding r_proof_def by (intro local_intros local_bind) (auto intro!: local_intros)
  fix p
  assume "wf_proof p"
  then show "r_proof (serialize p) = Inr (p, [])"
    by (cases p, cases "pf_reference p")
      (auto simp: wf_proof_def r_proof_def serialize_def reader_defs codec_simps kMagic_def
        kVersion_def signed_byte)
qed

lemma reads_proof: "reads r_proof (\<lambda>p n. wf_proof p \<and> n = length (serialize p))"
proof -
  have b: "- 128 \<le> sint b \<and> sint b < 128" for b :: byte
    using sint_greater_eq [of b] sint_less [of b] by simp
  show ?thesis
    unfolding r_proof_def
    by (intro reads_bind [OF reads_u64] reads_bind [OF reads_u8] reads_bind [OF reads_node_id]
        reads_bind [OF reads_blob] reads_bind [OF reads_chain])
      (auto simp: wf_proof_def serialize_def b catchable_def w_u8_def
        intro!: reads_throw reads_bind [OF reads_u64] reads_bind [OF reads_u8]
          reads_bind [OF reads_node_id] reads_bind [OF reads_blob] reads_bind [OF reads_chain]
          reads_return)
qed

section \<open>Verification decides soundness\<close>

lemma fingerprint_conv: "fingerprint pk = NodeId (take 16 (sha256 pk))"
proof -
  have "foldl (\<lambda>bs i. if i < length d then bs[i := d ! i] else bs) (replicate 16 0) [0..<n] =
      take n d @ replicate (16 - n) 0" if "n \<le> 16" "length d = 32" for d :: bytes and n
    using that
  proof (induction n)
    case (Suc n)
    then have "replicate (16 - n) (0 :: byte) = 0 # replicate (15 - n) 0"
      by (simp flip: replicate_Suc add: Suc_diff_le)
    with Suc show ?case by (simp add: list_update_append take_Suc_conv_app_nth)
  qed simp
  from this [of 16 "sha256 pk"] show ?thesis by (simp add: fingerprint_def Let_def)
qed

lemma verify_proof_valid:
  "vr_valid (verify_proof p verify) \<longleftrightarrow>
     (rf_pubkey (pf_reference p) = [] \<or>
       fingerprint (rf_pubkey (pf_reference p)) = rf_node (pf_reference p)) \<and>
     chain_sound (pf_chain p) (rf_node (pf_reference p)) verify \<and>
     (if pf_kind p = kind_order
      then chain_sound (pf_chain2 p) (rf_node (pf_reference p)) verify \<and>
        pf_order p = compare (pf_chain p) (pf_chain2 p)
      else True)"
  by (auto simp: verify_proof_def Let_def verify_chain_ok VerifyResult_init_def)

lemma compare_before:
  "compare a b = order_before \<longleftrightarrow>
     sint (ce_timestamp (last (ch_upper a))) < sint (ce_timestamp (hd (ch_lower b)))"
  by (simp add: compare_def order_defs)

lemma before_trans:
  assumes "chain_sound b r verify" "compare a b = order_before" "compare b c = order_before"
  shows "compare a c = order_before"
  using assms by (auto simp: compare_before chain_sound_def)

section \<open>Properties\<close>

text \<open>A bounds proof and an order proof over concrete chains of node 1.\<close>

definition sample_reference :: Reference where
  "sample_reference = \<lparr>rf_node = node_id_of_u64 1, rf_pubkey = []\<rparr>"

definition order_proof :: "EventChain \<Rightarrow> EventChain \<Rightarrow> Order \<Rightarrow> Proof" where
  "order_proof a b o' = \<lparr>pf_kind = kind_order, pf_reference = sample_reference, pf_chain = a,
     pf_chain2 = b, pf_order = o'\<rparr>"

lemma wf_sample_chain: "length sg < 2 ^ 32 \<Longrightarrow> wf_chain (sample_chain t u sg)"
  by (simp add: wf_chain_def sample_chain_def Let_def wf_event_def wf_clock_event_def wf_ref_def)
    (simp add: sample_event_def Let_def)

text \<open>A proof that is written to its portable form and read back, whatever follows it in the
  file, is the same proof: kind, reference, chains and recorded order.\<close>

lemma proof_round_trip:
  assumes "wf_proof p"
  shows "deserialize (serialize p @ rest) = Inr p"
  using proofc.dec_enc_append [OF assms] by (simp add: deserialize_def)

text \<open>Reading a proof from arbitrary bytes yields a well-formed proof that is no larger than
  the bytes, or a catchable exception; a buffer that does not start with the magic number is
  refused as such.\<close>

lemma deserialize_sound:
  "(\<exists>p. deserialize b = Inr p \<and> wf_proof p \<and> length (serialize p) \<le> length b) \<or>
   (\<exists>e. deserialize b = Inl e \<and> catchable e)"
proof (cases "r_proof b")
  case (Inl e)
  then show ?thesis
    using reads_proof by (auto simp: reads_def deserialize_def dest!: spec [of _ b])
next
  case (Inr x)
  then show ?thesis
    using reads_proof
    by (cases x) (fastforce simp: reads_def deserialize_def dest!: spec [of _ b])
qed


text \<open>The order read off intervals is a strict partial order on sound chains: no chain is
  before itself, \<open>after\<close> is the converse of \<open>before\<close>, and \<open>before\<close> is transitive.\<close>

theorem compare_strict_order:
  assumes "chain_sound a r verify" "chain_sound b r verify" "chain_sound c r verify"
  shows "compare a a = order_undetermined \<and>
    (compare a b = order_after \<longleftrightarrow> compare b a = order_before) \<and>
    (compare a b = order_before \<and> compare b c = order_before \<longrightarrow> compare a c = order_before)"
  using assms by (auto simp: chain_sound_def compare_def order_defs)

text \<open>The proof that two order proofs sharing their middle chain give.\<close>

definition compose_proofs :: "Proof \<Rightarrow> Proof \<Rightarrow> Proof" where
  "compose_proofs p q = p\<lparr>pf_chain2 := pf_chain2 q\<rparr>"

text \<open>Valid order proofs compose: from a valid proof that the first event is before the second
  and a valid proof, for the same reference node and the same middle chain, that the second is
  before the third, the proof that pairs the outer chains is valid too.\<close>

lemma order_proofs_compose:
  assumes "vr_valid (verify_proof p verify)" "vr_valid (verify_proof q verify)"
    and "pf_kind p = kind_order" "pf_kind q = kind_order"
    and "pf_reference p = pf_reference q" "pf_chain2 p = pf_chain q"
    and "pf_order p = order_before" "pf_order q = order_before"
  shows "vr_valid (verify_proof (compose_proofs p q) verify) \<and>
    vr_order (verify_proof (compose_proofs p q) verify) = order_before"
proof -
  have "compare (pf_chain p) (pf_chain2 q) = order_before"
    using assms before_trans [of "pf_chain q" "rf_node (pf_reference q)" verify "pf_chain p" "pf_chain2 q"]
    by (simp add: verify_proof_valid)
  then have "vr_valid (verify_proof (compose_proofs p q) verify)"
    using assms by (simp add: verify_proof_valid compose_proofs_def)
  then show ?thesis
    using assms by (auto simp: verify_proof_def compose_proofs_def Let_def VerifyResult_init_def
        split: if_splits)
qed

end
