(* ===== verification/Routing.thy ===== *)
theory Routing
  imports Domain "HOL-Library.Multiset"
begin

text \<open>
  The forwarding policies of \<open>src/core/routing/discovery_router.hpp\<close>. A router yields the ordered
  candidate next hops for a destination and a context; the random one also draws from the \<open>Rng\<close>
  port, here the stream \<open>salt\<close> of its successive values together with the number drawn so far. What
  the node relies on is the contract of the locale \<open>router\<close>: every candidate is a known neighbor,
  and none is repeated.
\<close>

section \<open>The routers\<close>

record RouteContext =
  rc_range :: TimeRange

definition static_next_hops ::
    "(NodeId, Neighbor) omap \<Rightarrow> (NodeId, NodeId) omap \<Rightarrow> NodeId \<Rightarrow> RouteContext \<Rightarrow> NodeId list" where
  "static_next_hops neighbors routes destination ctx =
     (case om_find destination routes of
        None \<Rightarrow> []
      | Some hop \<Rightarrow> (case om_find hop neighbors of None \<Rightarrow> [] | Some _ \<Rightarrow> [hop]))"

text \<open>The lambda \<open>collect\<close>, on the pair of \<open>out\<close> and \<open>seen\<close>.\<close>

definition collect ::
    "NodeId \<Rightarrow> (NodeId, Neighbor) omap \<Rightarrow> NodeId list \<times> NodeId set \<Rightarrow> EventReference list \<Rightarrow>
     NodeId list \<times> NodeId set" where
  "collect self neighbors st refs =
     foldl (\<lambda>(out, seen) r.
       if ref_creator r \<noteq> self \<and> om_find (ref_creator r) neighbors \<noteq> None \<and> ref_creator r \<notin> seen
       then (out @ [ref_creator r], insert (ref_creator r) seen) else (out, seen)) st refs"

definition history_next_hops ::
    "NodeId \<Rightarrow> LocalClockEvent list \<Rightarrow> (NodeId, Neighbor) omap \<Rightarrow> NodeId \<Rightarrow> RouteContext \<Rightarrow> NodeId list" where
  "history_next_hops self clock_events neighbors destination ctx =
     fst (foldl (\<lambda>st ce.
       if \<not> tr_contains (rc_range ctx) (ce_timestamp ce) then st
       else collect self neighbors (collect self neighbors st (ce_refs ce)) (lce_referencing ce))
       ([], {}) clock_events)"

definition overlaps :: "TimeRange \<Rightarrow> TimeRange \<Rightarrow> bool" where
  "overlaps a b \<longleftrightarrow> sint (tr_lo a) \<le> sint (tr_hi b) \<and> sint (tr_lo b) \<le> sint (tr_hi a)"

definition routing_table_next_hops ::
    "TimedRouteTable \<Rightarrow> (NodeId \<Rightarrow> RouteContext \<Rightarrow> NodeId list) \<Rightarrow> NodeId \<Rightarrow> RouteContext \<Rightarrow> NodeId list" where
  "routing_table_next_hops table fallback destination ctx =
     (let crosslinked = fallback destination ctx in
      case om_find destination table of
        None \<Rightarrow> crosslinked
      | Some routes \<Rightarrow>
        (let directed = fst (foldl (\<lambda>st route.
           if \<not> overlaps (rt_validity route) (rc_range ctx) then st
           else foldl (\<lambda>(directed, added) hop.
             if hop \<in> set crosslinked \<and> hop \<notin> added
             then (directed @ [hop], insert hop added) else (directed, added)) st (rt_next_hops route))
           ([], {}) routes)
         in if directed = [] then crosslinked else directed))"

definition swap_at :: "nat \<Rightarrow> nat \<Rightarrow> 'a list \<Rightarrow> 'a list" where
  "swap_at i j xs = xs[i := xs ! j, j := xs ! i]"

text \<open>The partial Fisher--Yates loop. The result is the sample and the number of values drawn.\<close>

definition sample_loop :: "(nat \<Rightarrow> Salt) \<Rightarrow> nat \<Rightarrow> nat \<Rightarrow> NodeId list \<Rightarrow> NodeId list \<times> nat" where
  "sample_loop salt n k cand =
     foldl (\<lambda>(cand, n) i.
       (let j = i + unat (salt n) mod (length cand - i) in (swap_at i j cand, Suc n)))
       (cand, n) [0..<k]"

definition probabilistic_next_hops ::
    "(NodeId \<Rightarrow> RouteContext \<Rightarrow> NodeId list) \<Rightarrow> (nat \<Rightarrow> Salt) \<Rightarrow> nat \<Rightarrow> nat \<Rightarrow> NodeId \<Rightarrow> RouteContext \<Rightarrow>
     NodeId list \<times> nat" where
  "probabilistic_next_hops inner salt n k destination ctx =
     (let cand = inner destination ctx in
      if k = 0 \<or> length cand \<le> k then (cand, n)
      else let (cand', n') = sample_loop salt n k cand in (take k cand', n'))"

section \<open>The contract\<close>

locale router =
  fixes next_hops :: "NodeId \<Rightarrow> RouteContext \<Rightarrow> NodeId list"
    and neighbors :: "(NodeId, Neighbor) omap"
  assumes known: "set (next_hops d ctx) \<subseteq> fst ` set neighbors"
    and distinct: "distinct (next_hops d ctx)"
begin

lemma resolves: "hop \<in> set (next_hops d ctx) \<Longrightarrow> \<exists>nb. om_find hop neighbors = Some nb"
  using known by (metis om_find_None option.exhaust subsetD)

lemma at_most_neighbors: "length (next_hops d ctx) \<le> length neighbors"
proof -
  have "length (next_hops d ctx) = card (set (next_hops d ctx))"
    using distinct by (simp add: distinct_card)
  also have "\<dots> \<le> card (fst ` set neighbors)" using known by (simp add: card_mono)
  also have "\<dots> \<le> length neighbors"
    by (metis card_length length_map list.set_map)
  finally show ?thesis .
qed

end

interpretation static: router "static_next_hops neighbors routes" neighbors for neighbors routes
proof
  fix d ctx
  show "distinct (static_next_hops neighbors routes d ctx)"
    by (auto simp: static_next_hops_def split: option.splits)
  show "set (static_next_hops neighbors routes d ctx) \<subseteq> fst ` set neighbors"
    by (auto simp: static_next_hops_def split: option.splits) (metis om_find_None option.distinct(1))
qed

section \<open>Collecting without repetition\<close>

text \<open>The state of a loop that appends to \<open>out\<close> what is not in \<open>seen\<close> yet.\<close>

definition gathered :: "'a list \<times> 'a set \<Rightarrow> 'a set \<Rightarrow> bool" where
  "gathered st S \<longleftrightarrow> snd st = S \<and> distinct (fst st) \<and> set (fst st) = S"

lemma gathered_init [simp]: "gathered ([], {}) {}"
  by (simp add: gathered_def)

lemma gathered_foldl:
  assumes "\<And>st S x. gathered st S \<Longrightarrow> gathered (g st x) (S \<union> F x)" and "gathered st S"
  shows "gathered (foldl g st xs) (S \<union> \<Union> (F ` set xs))"
  using assms(2)
proof (induction xs arbitrary: st S)
  case (Cons x xs)
  from Cons.IH [OF assms(1) [OF Cons.prems, of x]] show ?case by (simp add: Un_assoc)
qed simp

section \<open>The history router\<close>

lemma collect_spec:
  assumes "gathered st S"
  shows "gathered (collect self nbs st refs)
    (S \<union> {x. x \<noteq> self \<and> om_find x nbs \<noteq> None \<and> x \<in> ref_creator ` set refs})"
proof -
  have "gathered (collect self nbs st refs) (S \<union> (\<Union>r \<in> set refs.
      if ref_creator r \<noteq> self \<and> om_find (ref_creator r) nbs \<noteq> None then {ref_creator r} else {}))"
    unfolding collect_def
    by (rule gathered_foldl [OF _ assms]) (auto simp: gathered_def split: prod.splits)
  also have "(\<Union>r \<in> set refs. if ref_creator r \<noteq> self \<and> om_find (ref_creator r) nbs \<noteq> None
      then {ref_creator r} else {}) = {x. x \<noteq> self \<and> om_find x nbs \<noteq> None \<and> x \<in> ref_creator ` set refs}"
    by (auto split: if_splits)
  finally show ?thesis .
qed

definition crosslinked :: "LocalClockEvent \<Rightarrow> NodeId set" where
  "crosslinked ce = ref_creator ` (set (ce_refs ce) \<union> set (lce_referencing ce))"

lemma history_spec:
  "distinct (history_next_hops self cs nbs d ctx)"
  "set (history_next_hops self cs nbs d ctx) = {x. x \<noteq> self \<and> om_find x nbs \<noteq> None \<and>
     (\<exists>ce \<in> set cs. tr_contains (rc_range ctx) (ce_timestamp ce) \<and> x \<in> crosslinked ce)}"
proof -
  let ?K = "\<lambda>S. {x. x \<noteq> self \<and> om_find x nbs \<noteq> None \<and> x \<in> S}"
  let ?g = "\<lambda>st ce. if \<not> tr_contains (rc_range ctx) (ce_timestamp ce) then st
       else collect self nbs (collect self nbs st (ce_refs ce)) (lce_referencing ce)"
  let ?F = "\<lambda>ce. if tr_contains (rc_range ctx) (ce_timestamp ce) then ?K (crosslinked ce) else {}"
  have "gathered (?g st ce) (S \<union> ?F ce)" if "gathered st S" for st S ce
  proof (cases "tr_contains (rc_range ctx) (ce_timestamp ce)")
    case True
    have "?K (ref_creator ` set (ce_refs ce)) \<union> ?K (ref_creator ` set (lce_referencing ce)) = ?K (crosslinked ce)"
      by (auto simp: crosslinked_def)
    then show ?thesis
      using True collect_spec [OF collect_spec [OF that, of self nbs "ce_refs ce"], of self nbs "lce_referencing ce"]
      by (simp add: Un_assoc)
  qed (use that in simp)
  from gathered_foldl [of ?g ?F, OF this gathered_init, of cs]
  have "gathered (foldl ?g ([], {}) cs) (\<Union> (?F ` set cs))" by simp
  then show "distinct (history_next_hops self cs nbs d ctx)"
    "set (history_next_hops self cs nbs d ctx) = {x. x \<noteq> self \<and> om_find x nbs \<noteq> None \<and>
     (\<exists>ce \<in> set cs. tr_contains (rc_range ctx) (ce_timestamp ce) \<and> x \<in> crosslinked ce)}"
    by (auto simp: gathered_def history_next_hops_def split: if_splits)
qed

interpretation history: router "history_next_hops self cs neighbors" neighbors for self cs neighbors
  by unfold_locales (auto simp: history_spec om_find_None)

section \<open>The routing table\<close>

text \<open>The next hops that some route valid in the window names, among the cross-linked ones.\<close>

definition directed_hops :: "TimedRoute list \<Rightarrow> TimeRange \<Rightarrow> NodeId set \<Rightarrow> NodeId set" where
  "directed_hops routes rng cl =
     {hop \<in> cl. \<exists>route \<in> set routes. overlaps (rt_validity route) rng \<and> hop \<in> set (rt_next_hops route)}"

lemma directed_fold:
  "gathered (foldl (\<lambda>st route.
       if \<not> overlaps (rt_validity route) rng then st
       else foldl (\<lambda>(directed, added) hop.
         if hop \<in> cl \<and> hop \<notin> added
         then (directed @ [hop], insert hop added) else (directed, added)) st (rt_next_hops route))
       ([], {}) routes) (directed_hops routes rng cl)"
proof -
  let ?h = "\<lambda>(directed, added) hop. if hop \<in> cl \<and> hop \<notin> added
         then (directed @ [hop], insert hop added) else (directed, added)"
  let ?g = "\<lambda>st route. if \<not> overlaps (rt_validity route) rng then st else foldl ?h st (rt_next_hops route)"
  let ?F = "\<lambda>route. if overlaps (rt_validity route) rng then cl \<inter> set (rt_next_hops route) else {}"
  have h: "gathered (foldl ?h st hops) (S \<union> (cl \<inter> set hops))" if "gathered st S" for st S hops
  proof -
    have "gathered (foldl ?h st hops) (S \<union> (\<Union>x \<in> set hops. if x \<in> cl then {x} else {}))"
      by (rule gathered_foldl [OF _ that]) (auto simp: gathered_def split: prod.splits)
    also have "(\<Union>x \<in> set hops. if x \<in> cl then {x} else {}) = cl \<inter> set hops"
      by (auto split: if_splits)
    finally show ?thesis .
  qed
  have "gathered (?g st route) (S \<union> ?F route)" if "gathered st S" for st S route
    using that h by simp
  from gathered_foldl [of ?g ?F, OF this gathered_init, of routes]
  have "gathered (foldl ?g ([], {}) routes) (\<Union> (?F ` set routes))" by simp
  also have "\<Union> (?F ` set routes) = directed_hops routes rng cl"
    by (auto simp: directed_hops_def split: if_splits)
  finally show ?thesis .
qed

lemma routing_table_spec:
  assumes "distinct (fallback d ctx)"
  shows "distinct (routing_table_next_hops table fallback d ctx)"
    "set (routing_table_next_hops table fallback d ctx) =
      (let routes = (case om_find d table of None \<Rightarrow> [] | Some rs \<Rightarrow> rs);
           directed = directed_hops routes (rc_range ctx) (set (fallback d ctx))
       in if directed = {} then set (fallback d ctx) else directed)"
proof -
  note g = directed_fold [of "rc_range ctx" "set (fallback d ctx)", unfolded gathered_def]
  show "distinct (routing_table_next_hops table fallback d ctx)"
    using assms g by (auto simp: routing_table_next_hops_def Let_def split: option.splits)
  show "set (routing_table_next_hops table fallback d ctx) =
      (let routes = (case om_find d table of None \<Rightarrow> [] | Some rs \<Rightarrow> rs);
           directed = directed_hops routes (rc_range ctx) (set (fallback d ctx))
       in if directed = {} then set (fallback d ctx) else directed)"
  proof (cases "om_find d table")
    case None
    then show ?thesis by (simp add: routing_table_next_hops_def Let_def directed_hops_def)
  next
    case (Some routes)
    let ?D = "directed_hops routes (rc_range ctx) (set (fallback d ctx))"
    have c: "set (if xs = [] then fallback d ctx else xs) =
        (if ?D = {} then set (fallback d ctx) else ?D)" if "set xs = ?D" for xs
      using that by (cases xs) auto
    show ?thesis
      using c g [of routes] by (simp only: routing_table_next_hops_def Let_def Some option.case)
  qed
qed

lemma routing_table_subset:
  assumes "distinct (fallback d ctx)"
  shows "set (routing_table_next_hops table fallback d ctx) \<subseteq> set (fallback d ctx)"
  unfolding routing_table_spec(2) [of fallback, OF assms] by (auto simp: Let_def directed_hops_def)

interpretation table: router "routing_table_next_hops table (history_next_hops self cs neighbors)" neighbors
  for table self cs neighbors
proof
  fix d ctx
  show "distinct (routing_table_next_hops table (history_next_hops self cs neighbors) d ctx)"
    by (rule routing_table_spec(1)) (rule history.distinct)
  show "set (routing_table_next_hops table (history_next_hops self cs neighbors) d ctx) \<subseteq> fst ` set neighbors"
    using routing_table_subset [OF history.distinct] history.known by fast
qed

section \<open>Sampling\<close>

lemma mset_swap_at: "i < length xs \<Longrightarrow> j < length xs \<Longrightarrow> mset (swap_at i j xs) = mset xs"
  by (simp add: swap_at_def mset_swap)

lemma length_swap_at [simp]: "length (swap_at i j xs) = length xs"
  by (simp add: swap_at_def)

lemma sample_loop_spec:
  assumes "k \<le> length cand"
  shows "mset (fst (sample_loop salt n k cand)) = mset cand \<and>
    snd (sample_loop salt n k cand) = n + k"
  using assms
proof (induction k)
  case 0
  then show ?case by (simp add: sample_loop_def)
next
  case (Suc k)
  obtain c m where cm: "sample_loop salt n k cand = (c, m)" by fastforce
  with Suc have c: "mset c = mset cand" "m = n + k" by auto
  then have l: "length c = length cand" by (metis size_mset)
  have "k + unat (salt m) mod (length c - k) < length c"
    using Suc.prems l by (metis Suc_le_lessD add.commute less_diff_conv mod_less_divisor zero_less_diff)
  then have "mset (swap_at k (k + unat (salt m) mod (length c - k)) c) = mset c"
    using Suc.prems l by (intro mset_swap_at) auto
  then show ?case
    using cm c by (simp add: sample_loop_def Let_def)
qed

lemma probabilistic_spec:
  "mset (fst (probabilistic_next_hops inner salt n k d ctx)) \<subseteq># mset (inner d ctx)"
    "length (fst (probabilistic_next_hops inner salt n k d ctx)) =
      (if k = 0 then length (inner d ctx) else min k (length (inner d ctx)))"
proof -
  obtain c m where cm: "sample_loop salt n k (inner d ctx) = (c, m)" by fastforce
  have "mset c = mset (inner d ctx)" if "k \<le> length (inner d ctx)"
    using sample_loop_spec [OF that, of salt n] cm by simp
  moreover from this have "length c = length (inner d ctx)" if "k \<le> length (inner d ctx)"
    using that by (metis size_mset)
  moreover have "mset (take k c) \<subseteq># mset c"
    by (metis append_take_drop_id mset_append mset_subset_eq_add_left)
  ultimately show "mset (fst (probabilistic_next_hops inner salt n k d ctx)) \<subseteq># mset (inner d ctx)"
    "length (fst (probabilistic_next_hops inner salt n k d ctx)) =
      (if k = 0 then length (inner d ctx) else min k (length (inner d ctx)))"
    by (auto simp: probabilistic_next_hops_def Let_def cm)
qed

lemma distinct_sub_mset:
  assumes "mset xs \<subseteq># mset ys" "distinct ys"
  shows "distinct xs" "set xs \<subseteq> set ys"
proof -
  have "count (mset xs) x \<le> count (mset ys) x" for x
    using assms(1) by (rule mset_subset_eq_count)
  moreover have "count (mset ys) x \<le> 1" for x
    using assms(2) by (simp add: distinct_count_atmost_1)
  ultimately have "count (mset xs) x \<le> 1" for x by (meson le_trans)
  then show "distinct xs"
    by (simp add: distinct_count_atmost_1) (metis One_nat_def count_greater_eq_one_iff le_antisym not_in_iff set_mset_mset)
  show "set xs \<subseteq> set ys" using assms(1) by (metis mset_subset_eqD set_mset_mset subsetI)
qed

text \<open>The whole stack of the flood policy: history, routing table, width cap.\<close>

definition flood_next_hops ::
    "TimedRouteTable \<Rightarrow> NodeId \<Rightarrow> LocalClockEvent list \<Rightarrow> (NodeId, Neighbor) omap \<Rightarrow> (nat \<Rightarrow> Salt) \<Rightarrow> nat \<Rightarrow>
     nat \<Rightarrow> NodeId \<Rightarrow> RouteContext \<Rightarrow> NodeId list \<times> nat" where
  "flood_next_hops table self cs neighbors salt n k =
     probabilistic_next_hops (routing_table_next_hops table (history_next_hops self cs neighbors)) salt n k"

interpretation flood: router "\<lambda>d ctx. fst (flood_next_hops table self cs neighbors salt n k d ctx)" neighbors
  for table self cs neighbors salt n k
proof
  fix d ctx
  note sub = probabilistic_spec(1) [of "routing_table_next_hops table (history_next_hops self cs neighbors)"
      salt n k d ctx, folded flood_next_hops_def]
  note ds = distinct_sub_mset [OF sub table.distinct]
  show "distinct (fst (flood_next_hops table self cs neighbors salt n k d ctx))" by (rule ds(1))
  show "set (fst (flood_next_hops table self cs neighbors salt n k d ctx)) \<subseteq> fst ` set neighbors"
    using ds(2) table.known by fast
qed

section \<open>Properties\<close>

text \<open>Time-dependent candidates: the history router returns, without repetition, exactly the known
  neighbors other than the node itself that some live clock event stamped inside the window
  references or is referenced by.\<close>

lemma history_exact:
  "distinct (history_next_hops self cs neighbors d ctx) \<and>
   (x \<in> set (history_next_hops self cs neighbors d ctx) \<longleftrightarrow>
     x \<noteq> self \<and> om_find x neighbors \<noteq> None \<and>
     (\<exists>ce \<in> set cs. sint (tr_lo (rc_range ctx)) \<le> sint (ce_timestamp ce) \<and>
        sint (ce_timestamp ce) \<le> sint (tr_hi (rc_range ctx)) \<and>
        x \<in> ref_creator ` (set (ce_refs ce) \<union> set (lce_referencing ce))))"
  by (simp add: history_spec tr_contains_def crosslinked_def conj_assoc)

text \<open>The routing table directs the flood without ever leaving the neighbor history: it returns the
  cross-linked hops that a route valid in the window names, and the whole history when there is
  none.\<close>

lemma routing_table_directs:
  assumes "distinct (fallback d ctx)" and "om_find d table = Some routes"
  shows "set (routing_table_next_hops table fallback d ctx) =
    (if \<exists>hop \<in> set (fallback d ctx). \<exists>route \<in> set routes.
          overlaps (rt_validity route) (rc_range ctx) \<and> hop \<in> set (rt_next_hops route)
     then {hop \<in> set (fallback d ctx). \<exists>route \<in> set routes.
          overlaps (rt_validity route) (rc_range ctx) \<and> hop \<in> set (rt_next_hops route)}
     else set (fallback d ctx))"
  unfolding routing_table_spec(2) [of fallback, OF assms(1)]
  by (auto simp: Let_def assms(2) directed_hops_def)

text \<open>The fan-out of the flood policy is bounded: whatever the random values, the candidates are
  distinct, are known neighbors, are drawn from the candidates of the routing table, and their
  number is the width \<open>k\<close> or all of them when there are fewer (or when \<open>k\<close> is zero).\<close>

lemma flood_fan_out:
  "distinct (fst (flood_next_hops table self cs neighbors salt n k d ctx)) \<and>
   set (fst (flood_next_hops table self cs neighbors salt n k d ctx)) \<subseteq>
     set (routing_table_next_hops table (history_next_hops self cs neighbors) d ctx) \<inter>
     fst ` set neighbors \<and>
   length (fst (flood_next_hops table self cs neighbors salt n k d ctx)) =
     (let m = length (routing_table_next_hops table (history_next_hops self cs neighbors) d ctx)
      in if k = 0 then m else min k m)"
  using flood.distinct [of table self cs neighbors salt n k d ctx]
    flood.known [of table self cs neighbors salt n k d ctx]
    distinct_sub_mset(2) [OF probabilistic_spec(1)
      [of "routing_table_next_hops table (history_next_hops self cs neighbors)" salt n k d ctx]
      table.distinct]
    probabilistic_spec(2) [of "routing_table_next_hops table (history_next_hops self cs neighbors)"
      salt n k d ctx]
  by (auto simp: flood_next_hops_def Let_def)

end
