(* ===== verification/Store_Spec.thy ===== *)
theory Store_Spec
  imports Domain
begin

text \<open>
  The contract of the store port (\<open>src/core/ports/store.hpp\<close>). What a store holds is abstracted
  to two logs: the events in the order of publication, and the live local clock events with
  their sequence numbers, ascending. Everything else a store keeps (the hash indexes, the reverse
  index, the chain tips and rings) is determined by the logs. The locale \<open>dag_store\<close> states what
  an implementation promises and derives what its clients use.
\<close>

section \<open>The abstract log\<close>

record dag =
  dag_events :: "Event list"
  dag_clocks :: "(nat \<times> LocalClockEvent) list"
  dag_next :: nat

definition dag_ok :: "dag \<Rightarrow> bool" where
  "dag_ok d \<longleftrightarrow> om_ok (dag_clocks d) \<and> (\<forall>(q, c) \<in> set (dag_clocks d). q < dag_next d)"

definition chain_of :: "u32 \<Rightarrow> (nat \<times> LocalClockEvent) list \<Rightarrow> (nat \<times> LocalClockEvent) list" where
  "chain_of l cs = filter (\<lambda>(q, c). ce_chain c = l) cs"

definition referencing_of :: "EventHash \<Rightarrow> (nat \<times> LocalClockEvent) list \<Rightarrow> (nat \<times> LocalClockEvent) list" where
  "referencing_of h cs = filter (\<lambda>(q, c). h \<in> ref_hash ` set (ce_refs c)) cs"

definition dag_add_event :: "Event \<Rightarrow> dag \<Rightarrow> dag" where
  "dag_add_event e d = d\<lparr>dag_events := dag_events d @ [e]\<rparr>"

definition dag_add_clock :: "LocalClockEvent \<Rightarrow> dag \<Rightarrow> dag" where
  "dag_add_clock c d = d\<lparr>dag_clocks := dag_clocks d @ [(dag_next d, c)], dag_next := Suc (dag_next d)\<rparr>"

text \<open>The sequence numbers a ring of capacity \<open>keep\<close> has to give up, oldest first.\<close>

definition overdue :: "u32 \<Rightarrow> nat \<Rightarrow> (nat \<times> LocalClockEvent) list \<Rightarrow> nat list" where
  "overdue l keep cs =
     (if keep = 0 then [] else map fst (take (length (chain_of l cs) - keep) (chain_of l cs)))"

definition dag_prune :: "u32 \<Rightarrow> nat \<Rightarrow> dag \<Rightarrow> dag" where
  "dag_prune l keep d =
     d\<lparr>dag_clocks := filter (\<lambda>(q, c). q \<notin> set (overdue l keep (dag_clocks d))) (dag_clocks d)\<rparr>"

lemma chain_of_append [simp]: "chain_of l (xs @ ys) = chain_of l xs @ chain_of l ys"
  by (simp add: chain_of_def)

lemma referencing_of_append [simp]:
  "referencing_of h (xs @ ys) = referencing_of h xs @ referencing_of h ys"
  by (simp add: referencing_of_def)

lemma set_chain_of: "(q, c) \<in> set (chain_of l cs) \<longleftrightarrow> (q, c) \<in> set cs \<and> ce_chain c = l"
  by (auto simp: chain_of_def)

lemma set_referencing_of:
  "(q, c) \<in> set (referencing_of h cs) \<longleftrightarrow> (q, c) \<in> set cs \<and> (\<exists>r \<in> set (ce_refs c). ref_hash r = h)"
  by (auto simp: referencing_of_def)

lemma in_fst_image: "q \<in> fst ` A \<longleftrightarrow> (\<exists>c. (q, c) \<in> A)"
  by force

lemma fst_referencing_of:
  "q \<in> fst ` set (referencing_of h cs) \<longleftrightarrow>
     (\<exists>c. (q, c) \<in> set cs \<and> (\<exists>r \<in> set (ce_refs c). ref_hash r = h))"
  by (simp add: in_fst_image set_referencing_of)

lemma om_ok_chain_of: "om_ok cs \<Longrightarrow> om_ok (chain_of l cs)"
  by (simp add: chain_of_def om_ok_filter)

text \<open>Pruning keeps the newest \<open>keep\<close> entries of the pruned chain, and all of the others.\<close>

lemma chain_of_prune_other:
  assumes "l' \<noteq> l" "om_ok cs"
  shows "chain_of l' (filter (\<lambda>(q, c). q \<notin> set (overdue l keep cs)) cs) = chain_of l' cs"
proof -
  have "q \<notin> set (overdue l keep cs)" if "(q, c) \<in> set cs" "ce_chain c = l'" for q c
  proof
    assume "q \<in> set (overdue l keep cs)"
    then obtain c' where "(q, c') \<in> set (chain_of l cs)"
      by (auto simp: overdue_def dest: in_set_takeD split: if_splits)
    then have "(q, c') \<in> set cs" "ce_chain c' = l" by (auto simp: set_chain_of)
    with that assms show False
      by (metis om_find_iff option.inject)
  qed
  then show ?thesis by (auto simp: chain_of_def intro!: filter_cong)
qed

lemma chain_of_prune_same:
  assumes "om_ok cs" "keep > 0"
  shows "chain_of l (filter (\<lambda>(q, c). q \<notin> set (overdue l keep cs)) cs) =
    drop (length (chain_of l cs) - keep) (chain_of l cs)"
proof -
  let ?ch = "chain_of l cs" and ?k = "length (chain_of l cs) - keep"
  have ok: "om_ok (take ?k ?ch @ drop ?k ?ch)" using assms by (simp add: om_ok_chain_of)
  have "chain_of l (filter (\<lambda>(q, c). q \<notin> set (overdue l keep cs)) cs) =
      filter (\<lambda>(q, c). q \<notin> set (overdue l keep cs)) (take ?k ?ch @ drop ?k ?ch)"
    by (auto simp: chain_of_def intro!: filter_cong)
  also have "\<dots> = drop ?k ?ch"
  proof -
    have "filter (\<lambda>(q, c). q \<notin> set (overdue l keep cs)) (take ?k ?ch) = []"
      using assms(2) by (force simp: overdue_def filter_empty_conv)
    moreover have "filter (\<lambda>(q, c). q \<notin> set (overdue l keep cs)) (drop ?k ?ch) = drop ?k ?ch"
    proof -
      have "a < b" if "(a, x) \<in> set (take ?k ?ch)" "(b, y) \<in> set (drop ?k ?ch)" for a b x y
        using ok [unfolded om_ok_append_iff] that by fastforce
      then show ?thesis
        using assms(2) by (fastforce simp: overdue_def filter_id_conv)
    qed
    ultimately show ?thesis by (simp only: filter_append append_Nil)
  qed
  finally show ?thesis .
qed

section \<open>The contract\<close>

locale dag_store =
  fixes abs :: "'s \<Rightarrow> dag"
    and ok :: "'s \<Rightarrow> bool"
    and indexed :: "'s \<Rightarrow> bool"
    and append_event :: "Event \<Rightarrow> 's \<Rightarrow> nat \<times> 's"
    and append_clock_event :: "LocalClockEvent \<Rightarrow> 's \<Rightarrow> nat \<times> 's"
    and prune_chain :: "u32 \<Rightarrow> nat \<Rightarrow> 's \<Rightarrow> 's"
    and clock_event_by_hash :: "EventHash \<Rightarrow> 's \<Rightarrow> LocalClockEvent option result"
    and clock_event_by_seq :: "nat \<Rightarrow> 's \<Rightarrow> LocalClockEvent result"
    and clock_events_referencing :: "EventHash \<Rightarrow> 's \<Rightarrow> nat list"
    and latest_clock_event_on :: "u32 \<Rightarrow> 's \<Rightarrow> LocalClockEvent option result"
  assumes abs_ok: "ok s \<Longrightarrow> dag_ok (abs s)"
    and append_event_ok: "ok s \<Longrightarrow> ok (snd (append_event e s))"
    and append_event_abs: "ok s \<Longrightarrow> append_event e s = (q, s') \<Longrightarrow>
      q = length (dag_events (abs s)) \<and> abs s' = dag_add_event e (abs s)"
    and append_clock_ok: "ok s \<Longrightarrow> ok (snd (append_clock_event c s))"
    and append_clock_abs: "ok s \<Longrightarrow> append_clock_event c s = (q, s') \<Longrightarrow>
      q = dag_next (abs s) \<and> abs s' = dag_add_clock c (abs s)"
    and append_clock_indexed: "ok s \<Longrightarrow> indexed s \<Longrightarrow>
      ce_hash c \<notin> (ce_hash \<circ> snd) ` set (dag_clocks (abs s)) \<Longrightarrow> indexed (snd (append_clock_event c s))"
    and prune_ok: "ok s \<Longrightarrow> ok (prune_chain l keep s)"
    and prune_abs: "ok s \<Longrightarrow> abs (prune_chain l keep s) = dag_prune l keep (abs s)"
    and prune_indexed: "ok s \<Longrightarrow> indexed s \<Longrightarrow> indexed (prune_chain l keep s)"
    and by_hash_sound: "ok s \<Longrightarrow> \<exists>v. clock_event_by_hash h s = Inr v \<and>
      (\<forall>c. v = Some c \<longrightarrow> ce_hash c = h \<and> c \<in> snd ` set (dag_clocks (abs s)))"
    and by_hash_complete: "ok s \<Longrightarrow> indexed s \<Longrightarrow> c \<in> snd ` set (dag_clocks (abs s)) \<Longrightarrow>
      clock_event_by_hash (ce_hash c) s = Inr (Some c)"
    and by_seq: "ok s \<Longrightarrow> clock_event_by_seq q s =
      (case om_find q (dag_clocks (abs s)) of None \<Rightarrow> Inl Out_of_range | Some c \<Rightarrow> Inr c)"
    and referencing: "ok s \<Longrightarrow> sorted (clock_events_referencing h s) \<and>
      set (clock_events_referencing h s) = fst ` set (referencing_of h (dag_clocks (abs s)))"
    and latest_on: "ok s \<Longrightarrow> latest_clock_event_on l s =
      Inr (if chain_of l (dag_clocks (abs s)) = [] then None
           else Some (snd (last (chain_of l (dag_clocks (abs s))))))"
begin

text \<open>No dangling index: a sequence number found through the reverse index always resolves, to a
  clock event that does reference the hash.\<close>

lemma referencing_resolves:
  assumes "ok s" "q \<in> set (clock_events_referencing h s)"
  shows "\<exists>c. clock_event_by_seq q s = Inr c \<and> (\<exists>r \<in> set (ce_refs c). ref_hash r = h)"
proof -
  obtain c where c: "(q, c) \<in> set (dag_clocks (abs s))" "\<exists>r \<in> set (ce_refs c). ref_hash r = h"
    using assms referencing [of s h] by (auto simp: set_referencing_of) blast
  have "om_find q (dag_clocks (abs s)) = Some c"
    using abs_ok [OF assms(1)] c(1) by (simp add: dag_ok_def om_find_iff)
  then show ?thesis using by_seq [OF assms(1)] c(2) by auto
qed

text \<open>The reverse index is complete for what is live.\<close>

lemma referencing_complete:
  assumes "ok s" "(q, c) \<in> set (dag_clocks (abs s))" "r \<in> set (ce_refs c)"
  shows "q \<in> set (clock_events_referencing (ref_hash r) s)"
proof -
  have "(q, c) \<in> set (referencing_of (ref_hash r) (dag_clocks (abs s)))"
    using assms(2,3) by (auto simp: set_referencing_of)
  then show ?thesis
    using referencing [OF assms(1), of "ref_hash r"] by force
qed

lemma append_then_by_hash:
  assumes "ok s" "indexed s" "ce_hash c \<notin> (ce_hash \<circ> snd) ` set (dag_clocks (abs s))"
  shows "clock_event_by_hash (ce_hash c) (snd (append_clock_event c s)) = Inr (Some c)"
proof -
  obtain q s' where a: "append_clock_event c s = (q, s')" by fastforce
  show ?thesis
    using append_clock_abs [OF assms(1) a] append_clock_ok [OF assms(1), of c]
      append_clock_indexed [OF assms] a
    by (auto intro!: by_hash_complete simp: dag_add_clock_def)
qed

text \<open>A tick: append on a chain, then prune that chain. The new clock event is the chain's tip, the
  chain holds at most its capacity, namely its newest entries, and every other chain is untouched.\<close>

lemma tick_retention:
  assumes "ok s" "keep > 0" and t: "t = prune_chain (ce_chain c) keep (snd (append_clock_event c s))"
  shows "ok t" "latest_clock_event_on (ce_chain c) t = Inr (Some c)"
    "length (chain_of (ce_chain c) (dag_clocks (abs t))) =
       min keep (Suc (length (chain_of (ce_chain c) (dag_clocks (abs s)))))"
    "l \<noteq> ce_chain c \<Longrightarrow> chain_of l (dag_clocks (abs t)) = chain_of l (dag_clocks (abs s))"
proof -
  let ?l = "ce_chain c"
  obtain q u where a: "append_clock_event c s = (q, u)" by fastforce
  have u: "ok u" "abs u = dag_add_clock c (abs s)"
    using append_clock_ok [OF assms(1), of c] append_clock_abs [OF assms(1) a] a by auto
  have cs: "om_ok (dag_clocks (abs u))" using abs_ok [OF u(1)] by (simp add: dag_ok_def)
  have chu: "chain_of ?l (dag_clocks (abs u)) = chain_of ?l (dag_clocks (abs s)) @ [(dag_next (abs s), c)]"
    by (simp add: u(2) dag_add_clock_def) (simp add: chain_of_def)
  have t': "t = prune_chain ?l keep u" using t a by simp
  show "ok t" using t' prune_ok u(1) by simp
  have ch: "chain_of ?l (dag_clocks (abs t)) =
      drop (length (chain_of ?l (dag_clocks (abs u))) - keep) (chain_of ?l (dag_clocks (abs u)))"
    using chain_of_prune_same [OF cs assms(2)] prune_abs [OF u(1)] by (simp add: t' dag_prune_def)
  show "latest_clock_event_on ?l t = Inr (Some c)"
    using latest_on [OF \<open>ok t\<close>, of ?l] assms(2) by (simp add: ch chu)
  show "length (chain_of ?l (dag_clocks (abs t))) =
      min keep (Suc (length (chain_of ?l (dag_clocks (abs s)))))"
    by (simp add: ch chu)
  show "chain_of l (dag_clocks (abs t)) = chain_of l (dag_clocks (abs s))" if "l \<noteq> ?l"
  proof -
    have "chain_of l (dag_clocks (abs t)) = chain_of l (dag_clocks (abs u))"
      using chain_of_prune_other [OF that cs] prune_abs [OF u(1)] by (simp add: t' dag_prune_def)
    also have "\<dots> = chain_of l (dag_clocks (abs s))"
      using that by (simp add: u(2) dag_add_clock_def) (simp add: chain_of_def)
    finally show ?thesis .
  qed
qed

end

end
