(* ===== verification/Memory_Store.thy ===== *)
theory Memory_Store
  imports Store_Spec
begin

text \<open>
  The simulation's store, \<open>src/adapters/sim/in_memory_store.hpp\<close>: ordered maps from hashes to
  sequence numbers, a reverse index, the tip and the ring of each chain. Sequence numbers are
  \<open>uint64_t\<close> counters, here natural numbers. \<open>at()\<close> throws \<open>std::out_of_range\<close>, which the reads
  that use it return as an error.
\<close>

section \<open>State and operations\<close>

record InMemoryStore =
  st_events :: "Event list"
  st_clock_events :: "(nat, LocalClockEvent) omap"
  st_next_clock_seq :: nat
  st_event_seq :: "(EventHash, nat) omap"
  st_clock_seq :: "(EventHash, nat) omap"
  st_referencing :: "(EventHash, nat) mmap"
  st_chain_tip_seq :: "(u32, nat) omap"
  st_chain_seqs :: "(u32, nat list) omap"
  st_neighbors :: "(NodeId, Neighbor) omap"
  st_routes :: "(NodeId, NodeId) omap"
  st_timed_routes :: TimedRouteTable

definition empty_store :: InMemoryStore where
  "empty_store = \<lparr>st_events = [], st_clock_events = [], st_next_clock_seq = 0, st_event_seq = [],
     st_clock_seq = [], st_referencing = [], st_chain_tip_seq = [], st_chain_seqs = [],
     st_neighbors = [], st_routes = [], st_timed_routes = []\<rparr>"

definition append_event :: "Event \<Rightarrow> InMemoryStore \<Rightarrow> nat \<times> InMemoryStore" where
  "append_event e s =
     (let seq = length (st_events s)
      in (seq, s\<lparr>st_event_seq := om_emplace (ev_hash e) seq (st_event_seq s),
           st_events := st_events s @ [e]\<rparr>))"

text \<open>\<open>chain_seqs_[chain]\<close> default-constructs an empty ring.\<close>

definition ring :: "u32 \<Rightarrow> InMemoryStore \<Rightarrow> nat list" where
  "ring l s = (case om_find l (st_chain_seqs s) of None \<Rightarrow> [] | Some qs \<Rightarrow> qs)"

definition append_clock_event :: "LocalClockEvent \<Rightarrow> InMemoryStore \<Rightarrow> nat \<times> InMemoryStore" where
  "append_clock_event c s =
     (let seq = st_next_clock_seq s
      in (seq, s\<lparr>st_next_clock_seq := Suc seq,
           st_clock_seq := om_emplace (ce_hash c) seq (st_clock_seq s),
           st_referencing :=
             foldl (\<lambda>m r. mm_emplace (ref_hash r) seq m) (st_referencing s) (ce_refs c),
           st_chain_tip_seq := om_put (ce_chain c) seq (st_chain_tip_seq s),
           st_chain_seqs := om_put (ce_chain c) (ring (ce_chain c) s @ [seq]) (st_chain_seqs s),
           st_clock_events := om_emplace seq c (st_clock_events s)\<rparr>))"

definition update_clock_event :: "LocalClockEvent \<Rightarrow> InMemoryStore \<Rightarrow> InMemoryStore" where
  "update_clock_event c s =
     (case om_find (ce_hash c) (st_clock_seq s) of
        None \<Rightarrow> s
      | Some seq \<Rightarrow> s\<lparr>st_clock_events := om_put seq c (st_clock_events s)\<rparr>)"

definition put_neighbor :: "Neighbor \<Rightarrow> InMemoryStore \<Rightarrow> InMemoryStore" where
  "put_neighbor n s = s\<lparr>st_neighbors := om_put (nb_node_id n) n (st_neighbors s)\<rparr>"

definition put_route :: "NodeId \<Rightarrow> NodeId \<Rightarrow> InMemoryStore \<Rightarrow> InMemoryStore" where
  "put_route dst next_hop s = s\<lparr>st_routes := om_put dst next_hop (st_routes s)\<rparr>"

definition put_timed_routes :: "TimedRouteTable \<Rightarrow> InMemoryStore \<Rightarrow> InMemoryStore" where
  "put_timed_routes t s = s\<lparr>st_timed_routes := t\<rparr>"

text \<open>The body of the pruning loop after the ring's front has been popped.\<close>

definition drop_clock_event :: "nat \<Rightarrow> InMemoryStore \<Rightarrow> InMemoryStore" where
  "drop_clock_event seq s =
     (case om_find seq (st_clock_events s) of
        None \<Rightarrow> s
      | Some ce \<Rightarrow> s\<lparr>st_clock_seq := om_erase (ce_hash ce) (st_clock_seq s),
          st_referencing :=
            foldl (\<lambda>m r. filter (\<lambda>(h, q). \<not> (h = ref_hash r \<and> q = seq)) m)
              (st_referencing s) (ce_refs ce),
          st_clock_events := om_erase seq (st_clock_events s)\<rparr>)"

fun prune_loop :: "u32 \<Rightarrow> nat \<Rightarrow> nat list \<Rightarrow> InMemoryStore \<Rightarrow> InMemoryStore" where
  "prune_loop l keep [] s = s"
| "prune_loop l keep (seq # qs) s =
     (if length (seq # qs) > keep
      then prune_loop l keep qs
        (drop_clock_event seq (s\<lparr>st_chain_seqs := om_put l qs (st_chain_seqs s)\<rparr>))
      else s)"

definition prune_chain :: "u32 \<Rightarrow> nat \<Rightarrow> InMemoryStore \<Rightarrow> InMemoryStore" where
  "prune_chain l keep s =
     (case om_find l (st_chain_seqs s) of
        None \<Rightarrow> s
      | Some qs \<Rightarrow> if keep = 0 then s else prune_loop l keep qs s)"

text \<open>Reads.\<close>

definition clock_at :: "nat \<Rightarrow> InMemoryStore \<Rightarrow> LocalClockEvent result" where
  "clock_at seq s = (case om_find seq (st_clock_events s) of None \<Rightarrow> Inl Out_of_range | Some c \<Rightarrow> Inr c)"

definition event_by_hash :: "EventHash \<Rightarrow> InMemoryStore \<Rightarrow> Event option result" where
  "event_by_hash h s =
     (case om_find h (st_event_seq s) of
        None \<Rightarrow> Inr None
      | Some i \<Rightarrow> if i < length (st_events s) then Inr (Some (st_events s ! i))
                  else Inl Undefined_behaviour)"

definition event_by_seq :: "nat \<Rightarrow> InMemoryStore \<Rightarrow> Event result" where
  "event_by_seq seq s = (if seq < length (st_events s) then Inr (st_events s ! seq) else Inl Out_of_range)"

definition clock_event_by_hash :: "EventHash \<Rightarrow> InMemoryStore \<Rightarrow> LocalClockEvent option result" where
  "clock_event_by_hash h s =
     (case om_find h (st_clock_seq s) of
        None \<Rightarrow> Inr None
      | Some seq \<Rightarrow> bindE (clock_at seq s) (\<lambda>c. Inr (Some c)))"

definition clock_event_by_seq :: "nat \<Rightarrow> InMemoryStore \<Rightarrow> LocalClockEvent result" where
  "clock_event_by_seq seq s = clock_at seq s"

definition clock_event_seq :: "EventHash \<Rightarrow> InMemoryStore \<Rightarrow> nat option" where
  "clock_event_seq h s = om_find h (st_clock_seq s)"

definition clock_events_referencing :: "EventHash \<Rightarrow> InMemoryStore \<Rightarrow> nat list" where
  "clock_events_referencing h s = sort (mm_range h (st_referencing s))"

definition latest_clock_event :: "InMemoryStore \<Rightarrow> LocalClockEvent option" where
  "latest_clock_event s =
     (if st_clock_events s = [] then None else Some (snd (last (st_clock_events s))))"

definition latest_clock_event_on :: "u32 \<Rightarrow> InMemoryStore \<Rightarrow> LocalClockEvent option result" where
  "latest_clock_event_on l s =
     (case om_find l (st_chain_tip_seq s) of
        None \<Rightarrow> Inr None
      | Some seq \<Rightarrow> bindE (clock_at seq s) (\<lambda>c. Inr (Some c)))"

definition event_count :: "InMemoryStore \<Rightarrow> nat" where
  "event_count s = length (st_events s)"

definition clock_event_count :: "InMemoryStore \<Rightarrow> nat" where
  "clock_event_count s = length (st_clock_events s)"

definition load_clock_events :: "InMemoryStore \<Rightarrow> LocalClockEvent list" where
  "load_clock_events s = map snd (st_clock_events s)"

definition load_neighbors :: "InMemoryStore \<Rightarrow> (NodeId, Neighbor) omap" where
  "load_neighbors s = st_neighbors s"

definition load_routes :: "InMemoryStore \<Rightarrow> (NodeId, NodeId) omap" where
  "load_routes s = st_routes s"

definition load_timed_routes :: "InMemoryStore \<Rightarrow> TimedRouteTable" where
  "load_timed_routes s = st_timed_routes s"

definition clear_store :: "InMemoryStore \<Rightarrow> InMemoryStore" where
  "clear_store s = s\<lparr>st_events := [], st_clock_events := [], st_next_clock_seq := 0,
     st_event_seq := [], st_clock_seq := [], st_referencing := [], st_chain_tip_seq := [],
     st_chain_seqs := [], st_neighbors := [], st_routes := [], st_timed_routes := []\<rparr>"

section \<open>The invariant\<close>

definition store_dag :: "InMemoryStore \<Rightarrow> dag" where
  "store_dag s = \<lparr>dag_events = st_events s, dag_clocks = st_clock_events s,
     dag_next = st_next_clock_seq s\<rparr>"

definition events_ok :: "InMemoryStore \<Rightarrow> bool" where
  "events_ok s \<longleftrightarrow> om_ok (st_event_seq s) \<and>
     (\<forall>h i. om_find h (st_event_seq s) = Some i \<longrightarrow>
        i < length (st_events s) \<and> ev_hash (st_events s ! i) = h) \<and>
     ev_hash ` set (st_events s) \<subseteq> fst ` set (st_event_seq s)"

text \<open>The clock-event part: every index agrees with the log of live clock events.\<close>

definition clocks_ok :: "InMemoryStore \<Rightarrow> bool" where
  "clocks_ok s \<longleftrightarrow> dag_ok (store_dag s) \<and>
     (\<forall>h q. om_find h (st_clock_seq s) = Some q \<longrightarrow>
        (\<exists>c. om_find q (st_clock_events s) = Some c \<and> ce_hash c = h)) \<and>
     (\<forall>h q. (h, q) \<in> set (st_referencing s) \<longleftrightarrow>
        (\<exists>c. (q, c) \<in> set (st_clock_events s) \<and> (\<exists>r \<in> set (ce_refs c). ref_hash r = h))) \<and>
     (\<forall>l. ring l s = map fst (chain_of l (st_clock_events s))) \<and>
     (\<forall>l. om_find l (st_chain_tip_seq s) =
        (if ring l s = [] then None else Some (last (ring l s))))"

definition store_ok :: "InMemoryStore \<Rightarrow> bool" where
  "store_ok s \<longleftrightarrow> events_ok s \<and> clocks_ok s \<and> om_ok (st_neighbors s) \<and> om_ok (st_routes s)"

text \<open>Every live clock event is found by its hash. This needs distinct hashes.\<close>

definition store_indexed :: "InMemoryStore \<Rightarrow> bool" where
  "store_indexed s \<longleftrightarrow>
     (\<forall>(q, c) \<in> set (st_clock_events s). om_find (ce_hash c) (st_clock_seq s) = Some q)"

section \<open>Appending\<close>

lemma om_find_append:
  "om_find k (xs @ ys) = (case om_find k xs of None \<Rightarrow> om_find k ys | Some v \<Rightarrow> Some v)"
  by (induction xs) auto

lemma set_fold_emplace:
  "set (foldl (\<lambda>m r. mm_emplace (ref_hash r) q m) m rs) = set m \<union> {(ref_hash r, q) | r. r \<in> set rs}"
  by (induction rs arbitrary: m) auto

lemma set_fold_remove:
  "set (foldl (\<lambda>m r. filter (\<lambda>(h, q'). h = ref_hash r \<longrightarrow> q' \<noteq> q) m) m rs) =
   set m - {(ref_hash r, q) | r. r \<in> set rs}"
  by (induction rs arbitrary: m) auto

lemma clocks_okD:
  assumes "clocks_ok s"
  shows "om_ok (st_clock_events s)"
    "(q, c) \<in> set (st_clock_events s) \<Longrightarrow> q < st_next_clock_seq s"
    "om_find h (st_clock_seq s) = Some q \<Longrightarrow> \<exists>c. om_find q (st_clock_events s) = Some c \<and> ce_hash c = h"
    "(h, q) \<in> set (st_referencing s) \<longleftrightarrow>
       (\<exists>c. (q, c) \<in> set (st_clock_events s) \<and> (\<exists>r \<in> set (ce_refs c). ref_hash r = h))"
    "ring l s = map fst (chain_of l (st_clock_events s))"
    "om_find l (st_chain_tip_seq s) = (if ring l s = [] then None else Some (last (ring l s)))"
  using assms by (fastforce simp: clocks_ok_def dag_ok_def store_dag_def)+

lemma clocks_ok_cong:
  assumes "st_clock_events t = st_clock_events s" "st_next_clock_seq t = st_next_clock_seq s"
    "st_clock_seq t = st_clock_seq s" "st_referencing t = st_referencing s"
    "st_chain_tip_seq t = st_chain_tip_seq s" "st_chain_seqs t = st_chain_seqs s"
  shows "clocks_ok t \<longleftrightarrow> clocks_ok s"
  using assms by (simp add: clocks_ok_def dag_ok_def store_dag_def ring_def)

lemma append_event_ok:
  assumes "store_ok s"
  shows "store_ok (snd (append_event e s))"
proof -
  have e: "om_ok (st_event_seq s)" "ev_hash ` set (st_events s) \<subseteq> fst ` set (st_event_seq s)"
    and f: "\<And>h i. om_find h (st_event_seq s) = Some i \<Longrightarrow>
      i < length (st_events s) \<and> ev_hash (st_events s ! i) = h"
    using assms unfolding store_ok_def events_ok_def by blast+
  let ?t = "snd (append_event e s)"
  have t: "st_events ?t = st_events s @ [e]"
    "st_event_seq ?t = om_emplace (ev_hash e) (length (st_events s)) (st_event_seq s)"
    by (simp_all add: append_event_def Let_def)
  have "events_ok ?t"
    unfolding events_ok_def t
  proof (intro conjI allI impI)
    show "om_ok (om_emplace (ev_hash e) (length (st_events s)) (st_event_seq s))"
      using e(1) by simp
    fix h i
    assume h: "om_find h (om_emplace (ev_hash e) (length (st_events s)) (st_event_seq s)) = Some i"
    then have "om_find h (st_event_seq s) = Some i \<or> h = ev_hash e \<and> i = length (st_events s)"
      by (auto simp: om_find_emplace split: if_splits)
    then show "i < length (st_events s @ [e])" "ev_hash ((st_events s @ [e]) ! i) = h"
      using f [of h i] by (auto simp: nth_append)
  next
    have "ev_hash e \<in> fst ` set (om_emplace (ev_hash e) (length (st_events s)) (st_event_seq s))"
      using om_find_None [of "ev_hash e" "om_emplace (ev_hash e) (length (st_events s)) (st_event_seq s)"]
      by (auto simp: om_find_emplace split: if_splits)
    moreover have "fst ` set (st_event_seq s) \<subseteq>
        fst ` set (om_emplace (ev_hash e) (length (st_events s)) (st_event_seq s))"
      by (auto simp: om_emplace_def fst_set_om_put split: option.splits)
    ultimately show "ev_hash ` set (st_events s @ [e]) \<subseteq>
        fst ` set (om_emplace (ev_hash e) (length (st_events s)) (st_event_seq s))"
      using e(2) by (simp only: set_append image_Un list.set Un_subset_iff) blast
  qed
  then show ?thesis
    using assms clocks_ok_cong [of "snd (append_event e s)" s]
    by (simp add: store_ok_def append_event_def Let_def)
qed

lemma emplace_next:
  assumes "clocks_ok s"
  shows "om_emplace (st_next_clock_seq s) c (st_clock_events s) =
    st_clock_events s @ [(st_next_clock_seq s, c)]"
proof -
  have k: "\<forall>a \<in> fst ` set (st_clock_events s). a < st_next_clock_seq s"
    using clocks_okD(2) [OF assms] by fastforce
  then have "om_find (st_next_clock_seq s) (st_clock_events s) = None"
    by (auto simp: om_find_None)
  then show ?thesis using k by (simp add: om_emplace_def om_put_snoc)
qed

lemma append_clock_fields:
  assumes "clocks_ok s" "append_clock_event c s = (q, t)"
  shows "q = st_next_clock_seq s" "st_next_clock_seq t = Suc q"
    "st_clock_events t = st_clock_events s @ [(q, c)]"
    "st_clock_seq t = om_emplace (ce_hash c) q (st_clock_seq s)"
    "set (st_referencing t) = set (st_referencing s) \<union> {(ref_hash r, q) | r. r \<in> set (ce_refs c)}"
    "ring l t = (if l = ce_chain c then ring l s @ [q] else ring l s)"
    "om_find l (st_chain_tip_seq t) = (if l = ce_chain c then Some q else om_find l (st_chain_tip_seq s))"
    "st_events t = st_events s" "st_event_seq t = st_event_seq s" "st_neighbors t = st_neighbors s"
    "st_routes t = st_routes s" "st_timed_routes t = st_timed_routes s"
  using assms
  by (auto simp: append_clock_event_def Let_def emplace_next set_fold_emplace ring_def om_find_put)

lemma append_clock_ok:
  assumes "clocks_ok s" "append_clock_event c s = (q, t)"
  shows "clocks_ok t"
proof -
  note f = append_clock_fields [OF assms] and d = clocks_okD [OF assms(1)]
  have d': "dag_ok (store_dag t)"
    using d(1) d(2) by (fastforce simp: dag_ok_def store_dag_def f om_ok_append_iff om_ok_Cons less_SucI)
  have i: "\<exists>c'. om_find q' (st_clock_events t) = Some c' \<and> ce_hash c' = h"
    if "om_find h (st_clock_seq t) = Some q'" for h q'
  proof (cases "q' = q")
    case True
    have "om_find q (st_clock_events s) = None"
      using d(2) by (fastforce simp: om_find_None f(1))
    moreover from this have "om_find h (st_clock_seq s) \<noteq> Some q" using d(3) by fastforce
    ultimately show ?thesis
      using that True by (auto simp: f om_find_emplace om_find_append split: if_splits)
  next
    case False
    then have "om_find h (st_clock_seq s) = Some q'"
      using that by (auto simp: f om_find_emplace split: if_splits)
    then show ?thesis
      using d(3) [of h q'] False by (auto simp: f om_find_append)
  qed
  show ?thesis
    unfolding clocks_ok_def
  proof (intro conjI allI impI d' i)
    show "(h, b) \<in> set (st_referencing t) \<longleftrightarrow>
      (\<exists>c'. (b, c') \<in> set (st_clock_events t) \<and> (\<exists>r \<in> set (ce_refs c'). ref_hash r = h))" for h b
      using d(4) [of h b] by (auto simp: f)
    show "ring l t = map fst (chain_of l (st_clock_events t))" for l
      using d(5) [of l] by (auto simp: f chain_of_def)
    show "om_find l (st_chain_tip_seq t) = (if ring l t = [] then None else Some (last (ring l t)))" for l
      using d(6) [of l] by (simp add: f)
  qed
qed

lemma append_clock_indexed:
  assumes "clocks_ok s" "store_indexed s" "append_clock_event c s = (q, t)"
    "ce_hash c \<notin> (ce_hash \<circ> snd) ` set (st_clock_events s)"
  shows "store_indexed t"
proof -
  note f = append_clock_fields [OF assms(1,3)]
  have "om_find (ce_hash c) (st_clock_seq s) = None"
    using clocks_okD(3) [OF assms(1), of "ce_hash c"] assms(4)
    by (cases "om_find (ce_hash c) (st_clock_seq s)") (force dest: om_find_in)+
  then show ?thesis
    using assms(2,4) by (fastforce simp: store_indexed_def f om_find_emplace)
qed

section \<open>Pruning\<close>

text \<open>One iteration of the loop removes the oldest clock event of the chain from the log and from
  every index.\<close>

lemma drop_fields:
  assumes "clocks_ok s" "ring l s = q # qs"
    and t: "t = drop_clock_event q (s\<lparr>st_chain_seqs := om_put l qs (st_chain_seqs s)\<rparr>)"
  shows "\<exists>c. om_find q (st_clock_events s) = Some c \<and> ce_chain c = l \<and>
      st_clock_seq t = om_erase (ce_hash c) (st_clock_seq s) \<and>
      set (st_referencing t) = set (st_referencing s) - {(ref_hash r, q) | r. r \<in> set (ce_refs c)}"
    "st_clock_events t = om_erase q (st_clock_events s)"
    "ring l' t = (if l' = l then qs else ring l' s)"
    "st_next_clock_seq t = st_next_clock_seq s" "st_chain_tip_seq t = st_chain_tip_seq s"
    "st_events t = st_events s" "st_event_seq t = st_event_seq s" "st_neighbors t = st_neighbors s"
    "st_routes t = st_routes s" "st_timed_routes t = st_timed_routes s"
proof -
  have "q \<in> set (map fst (chain_of l (st_clock_events s)))"
    using assms(2) clocks_okD(5) [OF assms(1)] by (metis list.set_intros(1))
  then obtain c where "(q, c) \<in> set (st_clock_events s)" "ce_chain c = l"
    by (auto simp: set_chain_of)
  then have c: "om_find q (st_clock_events s) = Some c" "ce_chain c = l"
    using clocks_okD(1) [OF assms(1)] by (simp_all add: om_find_iff)
  show "\<exists>c. om_find q (st_clock_events s) = Some c \<and> ce_chain c = l \<and>
      st_clock_seq t = om_erase (ce_hash c) (st_clock_seq s) \<and>
      set (st_referencing t) = set (st_referencing s) - {(ref_hash r, q) | r. r \<in> set (ce_refs c)}"
    using c by (simp add: t drop_clock_event_def set_fold_remove)
  show "st_clock_events t = om_erase q (st_clock_events s)"
    "ring l' t = (if l' = l then qs else ring l' s)"
    "st_next_clock_seq t = st_next_clock_seq s" "st_chain_tip_seq t = st_chain_tip_seq s"
    "st_events t = st_events s" "st_event_seq t = st_event_seq s" "st_neighbors t = st_neighbors s"
    "st_routes t = st_routes s" "st_timed_routes t = st_timed_routes s"
    using c by (simp_all add: t drop_clock_event_def ring_def om_find_put)
qed

lemma chain_of_erase: "chain_of l (om_erase q cs) = om_erase q (chain_of l cs)"
  by (auto simp: chain_of_def om_erase_def intro!: filter_cong)

lemma map_fst_erase: "map fst (om_erase q cs) = filter (\<lambda>a. a \<noteq> q) (map fst cs)"
  by (induction cs) (auto simp: om_erase_def)

lemma drop_ok:
  assumes "clocks_ok s" "ring l s = q # qs" "qs \<noteq> []"
    and t: "t = drop_clock_event q (s\<lparr>st_chain_seqs := om_put l qs (st_chain_seqs s)\<rparr>)"
  shows "clocks_ok t"
proof -
  note f = drop_fields [OF assms(1,2) t] and d = clocks_okD [OF assms(1)]
  from f(1) obtain c where c: "om_find q (st_clock_events s) = Some c" "ce_chain c = l"
    "st_clock_seq t = om_erase (ce_hash c) (st_clock_seq s)"
    "set (st_referencing t) = set (st_referencing s) - {(ref_hash r, q) | r. r \<in> set (ce_refs c)}" by auto
  have cu: "(q, c') \<in> set (st_clock_events s) \<longleftrightarrow> c' = c" for c'
    using c(1) d(1) by (auto simp flip: om_find_iff)
  have dist: "distinct (ring l' s)" for l'
    using d(1) d(5) [of l'] om_ok_chain_of om_ok_distinct by metis
  show ?thesis
    unfolding clocks_ok_def
  proof (intro conjI allI impI)
    show "dag_ok (store_dag t)"
      using assms(1) by (auto simp: clocks_ok_def dag_ok_def store_dag_def f om_erase_def intro: om_ok_filter)
    show "\<exists>c. om_find q' (st_clock_events t) = Some c \<and> ce_hash c = h"
      if "om_find h (st_clock_seq t) = Some q'" for h q'
      using that d(3) [of h q'] c(1) by (auto simp: c(3) f om_find_erase split: if_splits)
    show "(h, b) \<in> set (st_referencing t) \<longleftrightarrow>
      (\<exists>c'. (b, c') \<in> set (st_clock_events t) \<and> (\<exists>r \<in> set (ce_refs c'). ref_hash r = h))" for h b
    proof (cases "b = q")
      case True
      then show ?thesis using d(4) [of h q] cu by (auto simp: c(4) f(2) om_erase_def)
    next
      case False
      then show ?thesis using d(4) [of h b] by (auto simp: c(4) f(2) om_erase_def)
    qed
    show "ring l' t = map fst (chain_of l' (st_clock_events t))" for l'
    proof -
      have "map fst (chain_of l' (st_clock_events t)) = filter (\<lambda>a. a \<noteq> q) (ring l' s)"
        by (simp add: f chain_of_erase map_fst_erase d(5))
      also have "\<dots> = ring l' t"
      proof (cases "l' = l")
        case True
        then show ?thesis using dist [of l] assms(2) by (auto simp: f filter_id_conv)
      next
        case False
        have "q \<notin> set (ring l' s)"
          using False c(2) cu by (auto simp: d(5) set_chain_of)
        then show ?thesis using False by (auto simp: f filter_id_conv)
      qed
      finally show ?thesis by simp
    qed
    show "om_find l' (st_chain_tip_seq t) = (if ring l' t = [] then None else Some (last (ring l' t)))" for l'
      using d(6) [of l'] assms(2,3) by (simp add: f)
  qed
qed

lemma drop_indexed:
  assumes "clocks_ok s" "store_indexed s" "ring l s = q # qs"
    and t: "t = drop_clock_event q (s\<lparr>st_chain_seqs := om_put l qs (st_chain_seqs s)\<rparr>)"
  shows "store_indexed t"
proof -
  note f = drop_fields [OF assms(1,3) t]
  from f(1) obtain c where c: "om_find q (st_clock_events s) = Some c"
    "st_clock_seq t = om_erase (ce_hash c) (st_clock_seq s)" by auto
  have "om_find (ce_hash c) (st_clock_seq s) = Some q"
    using assms(2) om_find_in [OF c(1)] by (auto simp: store_indexed_def)
  then have "ce_hash c' \<noteq> ce_hash c" if "(a, c') \<in> set (st_clock_events s)" "a \<noteq> q" for a c'
    using assms(2) that by (auto simp: store_indexed_def)
  then show ?thesis
    using assms(2) by (auto simp: store_indexed_def f(2) c(2) om_find_erase) (auto simp: om_erase_def)
qed

lemma prune_loop_spec:
  assumes "clocks_ok s" "ring l s = qs" "0 < keep"
  shows "clocks_ok (prune_loop l keep qs s) \<and>
    st_clock_events (prune_loop l keep qs s) =
      filter (\<lambda>(q, c). q \<notin> set (take (length qs - keep) qs)) (st_clock_events s) \<and>
    (store_indexed s \<longrightarrow> store_indexed (prune_loop l keep qs s)) \<and>
    st_next_clock_seq (prune_loop l keep qs s) = st_next_clock_seq s \<and>
    st_events (prune_loop l keep qs s) = st_events s \<and>
    st_event_seq (prune_loop l keep qs s) = st_event_seq s \<and>
    st_neighbors (prune_loop l keep qs s) = st_neighbors s \<and>
    st_routes (prune_loop l keep qs s) = st_routes s \<and>
    st_timed_routes (prune_loop l keep qs s) = st_timed_routes s"
  using assms
proof (induction qs arbitrary: s)
  case Nil
  then show ?case by simp
next
  case (Cons q qs)
  let ?t = "drop_clock_event q (s\<lparr>st_chain_seqs := om_put l qs (st_chain_seqs s)\<rparr>)"
  note f = drop_fields [OF Cons.prems(1,2) refl]
  show ?case
  proof (cases "keep < length (q # qs)")
    case True
    then have qs: "qs \<noteq> []" using Cons.prems(3) by auto
    have ok: "clocks_ok ?t" "ring l ?t = qs" "store_indexed s \<longrightarrow> store_indexed ?t"
      using drop_ok [OF Cons.prems(1,2) qs refl] f(3) [of l] drop_indexed [OF Cons.prems(1) _ Cons.prems(2) refl]
      by auto
    have "length (q # qs) - keep = Suc (length qs - keep)" using True by simp
    then have "filter (\<lambda>(a, c). a \<notin> set (take (length qs - keep) qs)) (om_erase q (st_clock_events s)) =
        filter (\<lambda>(a, c). a \<notin> set (take (length (q # qs) - keep) (q # qs))) (st_clock_events s)"
      by (auto simp: om_erase_def intro!: filter_cong)
    then show ?thesis
      using True Cons.IH [OF ok(1,2) Cons.prems(3)] ok(3) by (simp add: f)
  next
    case False
    then show ?thesis using Cons.prems(1) by simp
  qed
qed

lemma prune_chain_spec:
  assumes "clocks_ok s"
  shows "clocks_ok (prune_chain l keep s)"
    "st_clock_events (prune_chain l keep s) =
      filter (\<lambda>(q, c). q \<notin> set (overdue l keep (st_clock_events s))) (st_clock_events s)"
    "store_indexed s \<Longrightarrow> store_indexed (prune_chain l keep s)"
    "st_next_clock_seq (prune_chain l keep s) = st_next_clock_seq s"
    "st_events (prune_chain l keep s) = st_events s"
    "st_event_seq (prune_chain l keep s) = st_event_seq s"
    "st_neighbors (prune_chain l keep s) = st_neighbors s"
    "st_routes (prune_chain l keep s) = st_routes s"
    "st_timed_routes (prune_chain l keep s) = st_timed_routes s"
proof -
  have r: "overdue l keep (st_clock_events s) =
      (if keep = 0 then [] else take (length (ring l s) - keep) (ring l s))"
    using clocks_okD(5) [OF assms, of l] by (simp add: overdue_def take_map)
  have e: "prune_chain l keep s = (if keep = 0 then s else prune_loop l keep (ring l s) s)"
    by (auto simp: prune_chain_def ring_def split: option.splits)
  have t: "filter (\<lambda>(q, c). True) xs = xs" for xs :: "(nat \<times> LocalClockEvent) list"
    by (simp add: case_prod_beta)
  show "clocks_ok (prune_chain l keep s)"
    "st_clock_events (prune_chain l keep s) =
      filter (\<lambda>(q, c). q \<notin> set (overdue l keep (st_clock_events s))) (st_clock_events s)"
    "store_indexed s \<Longrightarrow> store_indexed (prune_chain l keep s)"
    "st_next_clock_seq (prune_chain l keep s) = st_next_clock_seq s"
    "st_events (prune_chain l keep s) = st_events s"
    "st_event_seq (prune_chain l keep s) = st_event_seq s"
    "st_neighbors (prune_chain l keep s) = st_neighbors s"
    "st_routes (prune_chain l keep s) = st_routes s"
    "st_timed_routes (prune_chain l keep s) = st_timed_routes s"
    using prune_loop_spec [OF assms refl, of keep l] assms by (simp_all add: e r t)
qed

lemma store_ok_prune: "store_ok s \<Longrightarrow> store_ok (prune_chain l keep s)"
  by (simp add: store_ok_def prune_chain_spec events_ok_def)

section \<open>Updating a clock event in place\<close>

lemma map_fst_chain_of_put:
  assumes "om_ok cs" "om_find q cs = Some c0" "ce_chain c = ce_chain c0"
  shows "map fst (chain_of l (om_put q c cs)) = map fst (chain_of l cs)"
  using assms
proof (induction cs)
  case (Cons x cs)
  then show ?case
    by (cases x) (fastforce simp: chain_of_def om_ok_Cons dest: om_find_in)
qed simp

text \<open>The update keeps every index valid as long as it leaves the links of the clock event alone.\<close>

definition same_links :: "LocalClockEvent \<Rightarrow> LocalClockEvent \<Rightarrow> bool" where
  "same_links c d \<longleftrightarrow> ce_hash c = ce_hash d \<and> ce_chain c = ce_chain d \<and> ce_refs c = ce_refs d"

lemma update_clock_spec:
  assumes "clocks_ok s" "clock_event_by_hash (ce_hash c) s = Inr (Some c0)" "same_links c c0"
  shows "clocks_ok (update_clock_event c s)" "store_indexed s \<Longrightarrow> store_indexed (update_clock_event c s)"
    "\<exists>q. om_find q (st_clock_events s) = Some c0 \<and>
      st_clock_events (update_clock_event c s) = om_put q c (st_clock_events s)"
proof -
  note d = clocks_okD [OF assms(1)]
  obtain q where q: "om_find (ce_hash c) (st_clock_seq s) = Some q" "om_find q (st_clock_events s) = Some c0"
    using assms(2) by (auto simp: clock_event_by_hash_def clock_at_def split: option.splits)
  let ?t = "update_clock_event c s"
  have t: "?t = s\<lparr>st_clock_events := om_put q c (st_clock_events s)\<rparr>"
    by (simp add: update_clock_event_def q)
  have keys: "map fst (om_put q c (st_clock_events s)) = map fst (st_clock_events s)"
    using om_put_same_keys [OF d(1), of q c] q(2) by simp
  have set: "set (om_put q c (st_clock_events s)) = insert (q, c) {(a, w) \<in> set (st_clock_events s). a \<noteq> q}"
    by (rule set_om_put [OF d(1)])
  have u: "(q, w) \<in> set (st_clock_events s) \<longleftrightarrow> w = c0" for w
    using q(2) d(1) by (auto simp flip: om_find_iff)
  have l: "ce_hash c = ce_hash c0" "ce_chain c = ce_chain c0" "ce_refs c = ce_refs c0"
    using assms(3) by (auto simp: same_links_def)
  show "\<exists>q. om_find q (st_clock_events s) = Some c0 \<and>
      st_clock_events ?t = om_put q c (st_clock_events s)"
    using q(2) by (auto simp: t)
  show "clocks_ok ?t"
    unfolding clocks_ok_def
  proof (intro conjI allI impI)
    show "dag_ok (store_dag ?t)"
      using d(1) d(2) u q(2) by (fastforce simp: dag_ok_def store_dag_def t set)
    show "\<exists>c'. om_find q' (st_clock_events ?t) = Some c' \<and> ce_hash c' = h"
      if "om_find h (st_clock_seq ?t) = Some q'" for h q'
      using that d(3) [of h q'] q l by (auto simp: t om_find_put)
    show "(h, b) \<in> set (st_referencing ?t) \<longleftrightarrow>
      (\<exists>c'. (b, c') \<in> set (st_clock_events ?t) \<and> (\<exists>r \<in> set (ce_refs c'). ref_hash r = h))" for h b
      using d(4) [of h b] u l by (cases "b = q") (auto simp: t set)
    show "ring l' ?t = map fst (chain_of l' (st_clock_events ?t))" for l'
      using d(5) [of l'] map_fst_chain_of_put [OF d(1) q(2) l(2), of l'] by (simp add: t ring_def)
    show "om_find l' (st_chain_tip_seq ?t) = (if ring l' ?t = [] then None else Some (last (ring l' ?t)))" for l'
      using d(6) [of l'] by (simp add: t ring_def)
  qed
  show "store_indexed ?t" if "store_indexed s"
    using that u l q by (auto simp: store_indexed_def t set)
qed

section \<open>Reads\<close>

lemma by_hash_cases:
  assumes "clocks_ok s"
  obtains (None) "clock_event_by_hash h s = Inr None" "om_find h (st_clock_seq s) = None"
  | (Some) q c where "clock_event_by_hash h s = Inr (Some c)" "om_find h (st_clock_seq s) = Some q"
      "om_find q (st_clock_events s) = Some c" "ce_hash c = h"
proof (cases "om_find h (st_clock_seq s)")
  case (Some q)
  then obtain c where "om_find q (st_clock_events s) = Some c" "ce_hash c = h"
    using clocks_okD(3) [OF assms] by blast
  then show ?thesis using Some that(2) by (simp add: clock_event_by_hash_def clock_at_def)
qed (simp add: that(1) clock_event_by_hash_def)

lemma latest_on_spec:
  assumes "clocks_ok s"
  shows "latest_clock_event_on l s =
    Inr (if chain_of l (st_clock_events s) = [] then None
         else Some (snd (last (chain_of l (st_clock_events s)))))"
proof (cases "chain_of l (st_clock_events s) = []")
  case True
  then show ?thesis
    using clocks_okD(5,6) [OF assms, of l] by (simp add: latest_clock_event_on_def)
next
  case False
  obtain q c where qc: "last (chain_of l (st_clock_events s)) = (q, c)" by fastforce
  with False have "(q, c) \<in> set (st_clock_events s)"
    using last_in_set [OF False] by (auto simp: set_chain_of)
  then have "om_find q (st_clock_events s) = Some c"
    using clocks_okD(1) [OF assms] by (simp add: om_find_iff)
  moreover have "om_find l (st_chain_tip_seq s) = Some q"
    using False qc clocks_okD(5,6) [OF assms, of l] by (simp add: last_map)
  ultimately show ?thesis using False qc by (simp add: latest_clock_event_on_def clock_at_def)
qed

lemma referencing_spec:
  assumes "clocks_ok s"
  shows "sorted (clock_events_referencing h s) \<and>
    set (clock_events_referencing h s) = fst ` set (referencing_of h (st_clock_events s))"
proof -
  have "q \<in> set (clock_events_referencing h s) \<longleftrightarrow> q \<in> fst ` set (referencing_of h (st_clock_events s))" for q
    using clocks_okD(4) [OF assms, of h q]
    by (simp add: clock_events_referencing_def set_mm_range fst_referencing_of)
  then show ?thesis by (auto simp: clock_events_referencing_def)
qed

interpretation mem: dag_store store_dag store_ok store_indexed append_event append_clock_event prune_chain
  clock_event_by_hash clock_event_by_seq clock_events_referencing latest_clock_event_on
proof (unfold_locales, goal_cases)
  case (1 s)
  then show ?case by (simp add: store_ok_def clocks_ok_def)
next
  case (2 s e)
  then show ?case by (rule append_event_ok)
next
  case (3 s e q s')
  then show ?case by (auto simp: append_event_def Let_def store_dag_def dag_add_event_def)
next
  case (4 s c)
  obtain q t where "append_clock_event c s = (q, t)" by fastforce
  then show ?case
    using 4 append_clock_ok [of s c q t] append_clock_fields [of s c q t]
    by (simp add: store_ok_def events_ok_def)
next
  case (5 s c q s')
  then show ?case
    using append_clock_fields [of s c q s']
    by (simp add: store_ok_def store_dag_def dag_add_clock_def)
next
  case (6 s c)
  obtain q t where "append_clock_event c s = (q, t)" by fastforce
  then show ?case
    using 6 append_clock_indexed [of s c q t] by (simp add: store_ok_def store_dag_def)
next
  case (7 s l keep)
  then show ?case by (rule store_ok_prune)
next
  case (8 s l keep)
  then show ?case
    by (simp add: store_ok_def prune_chain_spec store_dag_def dag_prune_def)
next
  case (9 s l keep)
  then show ?case by (simp add: store_ok_def prune_chain_spec)
next
  case (10 s h)
  then have "clocks_ok s" by (simp add: store_ok_def)
  then show ?case
    by (cases rule: by_hash_cases [of s h]) (force simp: store_dag_def dest: om_find_in)+
next
  case (11 s c)
  then obtain q where "(q, c) \<in> set (st_clock_events s)" by (force simp: store_dag_def)
  with 11 have "om_find (ce_hash c) (st_clock_seq s) = Some q" "om_find q (st_clock_events s) = Some c"
    by (auto simp: store_indexed_def store_ok_def om_find_iff dest: clocks_okD(1))
  then show ?case by (simp add: clock_event_by_hash_def clock_at_def)
next
  case (12 s q)
  then show ?case by (simp add: clock_event_by_seq_def clock_at_def store_dag_def)
next
  case (13 s h)
  then show ?case using referencing_spec [of s h] by (simp add: store_ok_def store_dag_def)
next
  case (14 s l)
  then show ?case using latest_on_spec [of s l] by (simp add: store_ok_def store_dag_def)
qed

section \<open>Properties\<close>

lemma store_ok_empty [simp]: "store_ok empty_store" and store_indexed_empty [simp]: "store_indexed empty_store"
  by (simp_all add: store_ok_def events_ok_def clocks_ok_def dag_ok_def store_dag_def empty_store_def
      ring_def chain_of_def store_indexed_def)

definition sample_local :: "byte \<Rightarrow> LocalClockEvent" where
  "sample_local b = \<lparr>ce_creator = node_id_of_u64 1, ce_hash = [b], ce_chain = 0, ce_timestamp = 0,
     ce_salt = 0, ce_refs = [\<lparr>ref_creator = node_id_of_u64 1, ref_hash = [0]\<rparr>], ce_signature = [],
     lce_referencing = []\<rparr>"

definition sample_store :: InMemoryStore where
  "sample_store = snd (append_clock_event (sample_local 1) empty_store)"

lemma sample_store_ok [simp]: "store_ok sample_store"
  unfolding sample_store_def by (rule mem.append_clock_ok) simp

text \<open>C7: The store with its seven indexes implements the abstract log: appending and pruning keep the
  indexes consistent and have exactly the effect of appending to, or of dropping the overdue
  entries from, the log; the sequence numbers are the positions in the event log and a counter
  that is never reused.\<close>

theorem store_implements_log:
  assumes "store_ok s"
  shows "store_ok (snd (append_event e s)) \<and>
    fst (append_event e s) = length (dag_events (store_dag s)) \<and>
    store_dag (snd (append_event e s)) = dag_add_event e (store_dag s) \<and>
    store_ok (snd (append_clock_event c s)) \<and>
    fst (append_clock_event c s) = dag_next (store_dag s) \<and>
    store_dag (snd (append_clock_event c s)) = dag_add_clock c (store_dag s) \<and>
    store_ok (prune_chain l keep s) \<and>
    store_dag (prune_chain l keep s) = dag_prune l keep (store_dag s)"
  using mem.append_event_ok [OF assms, of e] mem.append_event_abs [OF assms, of e]
    mem.append_clock_ok [OF assms, of c] mem.append_clock_abs [OF assms, of c]
    mem.prune_ok [OF assms, of l keep] mem.prune_abs [OF assms, of l keep]
  by (metis prod.collapse)

theorem store_implements_log_witness:
  "store_dag (prune_chain 0 1 (snd (append_clock_event (sample_local 2) sample_store))) =
     dag_prune 0 1 (dag_add_clock (sample_local 2) (store_dag sample_store))"
  using store_implements_log [of sample_store _ "sample_local 2"]
    store_implements_log [of "snd (append_clock_event (sample_local 2) sample_store)" _ _ 0 1]
  by simp

text \<open>Retention: after a clock event is appended and its chain pruned to a positive capacity, that
  clock event is the tip of its chain, the chain holds its newest entries up to the capacity, and
  no other chain has lost anything.\<close>

lemma store_tick_retention:
  assumes "store_ok s" "keep > 0"
    and "t = prune_chain (ce_chain c) keep (snd (append_clock_event c s))" and "l \<noteq> ce_chain c"
  shows "latest_clock_event_on (ce_chain c) t = Inr (Some c) \<and>
    length (chain_of (ce_chain c) (st_clock_events t)) =
      min keep (Suc (length (chain_of (ce_chain c) (st_clock_events s)))) \<and>
    chain_of l (st_clock_events t) = chain_of l (st_clock_events s)"
  using mem.tick_retention [OF assms(1-3)] assms(4) by (simp add: store_dag_def)

text \<open>The reverse index is exact: the sequence numbers it returns for a hash are ascending, each
  resolves to a live clock event that references the hash, and every live clock event that
  references the hash is among them, whatever has been pruned.\<close>

lemma store_reverse_index:
  assumes "store_ok s"
  shows "sorted (clock_events_referencing h s) \<and>
    (q \<in> set (clock_events_referencing h s) \<longleftrightarrow>
      (\<exists>c. clock_event_by_seq q s = Inr c \<and> h \<in> ref_hash ` set (ce_refs c)))"
proof -
  have o: "om_ok (st_clock_events s)" using assms by (auto simp: store_ok_def dest: clocks_okD(1))
  have a: "q \<in> set (clock_events_referencing h s) \<longleftrightarrow>
      (\<exists>c. (q, c) \<in> set (st_clock_events s) \<and> (\<exists>r \<in> set (ce_refs c). ref_hash r = h))"
    using mem.referencing [OF assms, of h] by (simp add: store_dag_def fst_referencing_of)
  have b: "clock_event_by_seq q s = Inr c \<longleftrightarrow> (q, c) \<in> set (st_clock_events s)" for c
    using mem.by_seq [OF assms, of q]
    by (auto simp: store_dag_def om_find_iff [OF o, symmetric] split: option.splits)
  have "h \<in> ref_hash ` set rs \<longleftrightarrow> (\<exists>r \<in> set rs. ref_hash r = h)" for rs by auto
  then show ?thesis using mem.referencing [OF assms, of h] unfolding a b by blast
qed

end
