(* ===== verification/Node_State.thy ===== *)
theory Node_State
  imports Memory_Store Routing Packets Validate
begin

text \<open>
  The state of a node (\<open>src/core/node.hpp\<close>) and the operations that touch only its log and its
  overlay: construction, peering, publishing, ticking, and the recovery of the working set from the
  store. The ports are parameters: the successive readings of the clock, the successive values of
  the random source, the signature scheme and the handles of the scheduler; a node counts how many
  it has consumed. What a node does to the outside world (datagrams, timers, callbacks of clients,
  telemetry) is appended to its output.
\<close>

section \<open>Configuration and ports\<close>

record ChainConfig =
  cc_interval :: Duration
  cc_keep :: nat

datatype DiscoveryRouting = static_shortest_path | flood

record NodeConfig =
  cfg_chains :: "ChainConfig list"
  cfg_discovery_expiry :: Duration
  cfg_discovery_hop_limit :: u32
  cfg_discovery_routing :: DiscoveryRouting
  cfg_discovery_fanout :: nat
  cfg_discovery_forward_cap :: u32

type_synonym TimerId = u64

record NodePorts =
  p_now :: "nat \<Rightarrow> Timestamp"
  p_salt :: "nat \<Rightarrow> Salt"
  p_sign :: "bytes \<Rightarrow> Signature"
  p_verify :: verifier
  p_timer :: "nat \<Rightarrow> TimerId"

section \<open>Output\<close>

text \<open>The body of a scheduled lambda.\<close>

datatype Timer = Clock_timer u32 | Purge_timer

datatype Telemetry =
    Event_created Event
  | Clock_event_created LocalClockEvent
  | Chain_discovery_started EventChainDiscovery
  | Chain_discovery_completed EventChainDiscovery
  | Chain_discovery_aborted EventChainDiscovery
  | Bounds_discovery_started EventBoundsDiscovery
  | Bounds_discovery_completed EventBoundsDiscovery
  | Bounds_discovery_aborted EventBoundsDiscovery
  | Order_discovery_started EventOrderDiscovery
  | Order_discovery_completed EventOrderDiscovery
  | Order_discovery_aborted EventOrderDiscovery

text \<open>A client's callback is known by a number. Clients are told of a result and do not call back
  into the node while they are.\<close>

datatype Output =
    Send NodeId bytes
  | Schedule TimerId Duration Timer
  | Cancel TimerId
  | Chain_completed nat Event EventChain
  | Chain_aborted nat Event
  | Bounds_completed nat Event Timestamp Timestamp
  | Bounds_aborted nat Event
  | Order_completed nat Event Event Order
  | Order_aborted nat Event Event
  | Telemetry Telemetry

section \<open>The node\<close>

text \<open>\<open>ChainCallback*\<close>: the node itself or a client.\<close>

datatype ChainCallback = Self | Client nat

record ('d, 'c) Entry =
  en_discovery :: 'd
  en_callbacks :: "'c list"

record FloodSeen =
  fs_first_seen :: Timestamp
  fs_forwards :: u32

record Node =
  nd_id :: NodeId
  nd_config :: NodeConfig
  nd_num_chains :: nat
  nd_store :: InMemoryStore
  nd_neighbors :: "(NodeId, Neighbor) omap"
  nd_unreferenced :: "Event list list"
  nd_routes :: "(NodeId, NodeId) omap"
  nd_timed_routes :: TimedRouteTable
  nd_chain_discoveries :: "(EventHash, (EventChainDiscovery, ChainCallback) Entry) omap"
  nd_bounds_discoveries :: "(EventHash, (EventBoundsDiscovery, nat) Entry) omap"
  nd_order_discoveries :: "(EventHash \<times> EventHash, (EventOrderDiscovery, nat) Entry) omap"
  nd_flood_seen :: "(NodeId \<times> EventHash, FloodSeen) omap"
  nd_clock_timers :: "TimerId list"
  nd_purge_timer :: TimerId
  nd_reads :: nat
  nd_draws :: nat
  nd_armed :: nat
  nd_out :: "Output list"

definition emit :: "Output list \<Rightarrow> Node \<Rightarrow> Node" where
  "emit os n = n\<lparr>nd_out := nd_out n @ os\<rparr>"

text \<open>\<open>clock_.now()\<close>, \<open>rng_.next_salt()\<close> and \<open>scheduler_.after()\<close>.\<close>

definition clock_now :: "NodePorts \<Rightarrow> Node \<Rightarrow> Timestamp \<times> Node" where
  "clock_now p n = (p_now p (nd_reads n), n\<lparr>nd_reads := Suc (nd_reads n)\<rparr>)"

definition next_salt :: "NodePorts \<Rightarrow> Node \<Rightarrow> Salt \<times> Node" where
  "next_salt p n = (p_salt p (nd_draws n), n\<lparr>nd_draws := Suc (nd_draws n)\<rparr>)"

definition schedule_after :: "NodePorts \<Rightarrow> Duration \<Rightarrow> Timer \<Rightarrow> Node \<Rightarrow> TimerId \<times> Node" where
  "schedule_after p delay t n =
     (let i = p_timer p (nd_armed n)
      in (i, emit [Schedule i delay t] (n\<lparr>nd_armed := Suc (nd_armed n)\<rparr>)))"

section \<open>Recovery of the working set\<close>

text \<open>The scan of \<open>hydrate_working_state\<close>: newest first, until an event the chain references.\<close>

fun any_on_chain :: "u32 \<Rightarrow> InMemoryStore \<Rightarrow> nat list \<Rightarrow> bool result" where
  "any_on_chain chain s [] = Inr False"
| "any_on_chain chain s (seq # seqs) =
     bindE (clock_event_by_seq seq s) (\<lambda>c.
       if ce_chain c = chain then Inr True else any_on_chain chain s seqs)"

fun scan_tail :: "u32 \<Rightarrow> InMemoryStore \<Rightarrow> nat \<Rightarrow> Event list result" where
  "scan_tail chain s 0 = Inr []"
| "scan_tail chain s (Suc k) =
     bindE (event_by_seq k s) (\<lambda>e.
     bindE (any_on_chain chain s (clock_events_referencing (ev_hash e) s)) (\<lambda>referenced.
       if referenced then Inr [] else bindE (scan_tail chain s k) (\<lambda>tail. Inr (e # tail))))"

fun scan_chains :: "InMemoryStore \<Rightarrow> nat list \<Rightarrow> Event list list result" where
  "scan_chains s [] = Inr []"
| "scan_chains s (chain # rest) =
     bindE (scan_tail (of_nat chain) s (event_count s)) (\<lambda>tail.
     bindE (scan_chains s rest) (\<lambda>tails. Inr (rev tail # tails)))"

definition hydrate_working_state :: "Node \<Rightarrow> Node result" where
  "hydrate_working_state n =
     bindE (scan_chains (nd_store n) [0..<nd_num_chains n]) (\<lambda>tails.
       Inr (n\<lparr>nd_neighbors := load_neighbors (nd_store n), nd_routes := load_routes (nd_store n),
         nd_timed_routes := load_timed_routes (nd_store n), nd_unreferenced := tails\<rparr>))"

section \<open>Construction\<close>

definition effective_config :: "NodeConfig \<Rightarrow> NodeConfig" where
  "effective_config c =
     (if cfg_discovery_routing c = flood
      then c\<lparr>cfg_discovery_fanout := if cfg_discovery_fanout c = 0 then 8 else cfg_discovery_fanout c,
        cfg_discovery_hop_limit := if cfg_discovery_hop_limit c = 0 then 32 else cfg_discovery_hop_limit c,
        cfg_discovery_forward_cap :=
          if cfg_discovery_forward_cap c = 0 then 8 else cfg_discovery_forward_cap c\<rparr>
      else c)"

definition make_node :: "NodeId \<Rightarrow> InMemoryStore \<Rightarrow> NodeConfig \<Rightarrow> Node result" where
  "make_node i s config =
     (let k = max 1 (length (cfg_chains config)) in
      hydrate_working_state
        \<lparr>nd_id = i, nd_config = effective_config config, nd_num_chains = k, nd_store = s,
         nd_neighbors = [], nd_unreferenced = [], nd_routes = [], nd_timed_routes = [],
         nd_chain_discoveries = [], nd_bounds_discoveries = [], nd_order_discoveries = [],
         nd_flood_seen = [], nd_clock_timers = replicate k 0, nd_purge_timer = 0,
         nd_reads = 0, nd_draws = 0, nd_armed = 0, nd_out = []\<rparr>)"

definition destroy_node :: "Node \<Rightarrow> Node" where
  "destroy_node n = emit (map Cancel (nd_clock_timers n) @ [Cancel (nd_purge_timer n)]) n"

section \<open>Overlay\<close>

definition add_neighbor :: "NodeId \<Rightarrow> Node \<Rightarrow> Node" where
  "add_neighbor i n =
     (let nb = \<lparr>nb_node_id = i, nb_last_hashes = []\<rparr> in
      case om_find i (nd_neighbors n) of
        None \<Rightarrow> n\<lparr>nd_neighbors := om_put i nb (nd_neighbors n),
          nd_store := put_neighbor nb (nd_store n)\<rparr>
      | Some _ \<Rightarrow> n)"

definition learn_route :: "NodeId \<Rightarrow> NodeId \<Rightarrow> Node \<Rightarrow> Node" where
  "learn_route destination next_hop n =
     n\<lparr>nd_routes := om_put destination next_hop (nd_routes n),
       nd_store := put_route destination next_hop (nd_store n)\<rparr>"

definition learn_route_at :: "NodeId \<Rightarrow> NodeId \<Rightarrow> TimeRange \<Rightarrow> Node \<Rightarrow> Node" where
  "learn_route_at destination next_hop validity n =
     (let routes = (case om_find destination (nd_timed_routes n) of None \<Rightarrow> [] | Some rs \<Rightarrow> rs);
          table = om_put destination
            (routes @ [\<lparr>rt_validity = validity, rt_next_hops = [next_hop]\<rparr>]) (nd_timed_routes n)
      in n\<lparr>nd_timed_routes := table, nd_store := put_timed_routes table (nd_store n)\<rparr>)"

definition neighbor_by_id :: "NodeId \<Rightarrow> Node \<Rightarrow> Neighbor option" where
  "neighbor_by_id i n = om_find i (nd_neighbors n)"

section \<open>Publishing and ticking\<close>

text \<open>The tips of all chains, in the order of the chains.\<close>

fun chain_tips :: "InMemoryStore \<Rightarrow> nat list \<Rightarrow> EventReference list result" where
  "chain_tips s [] = Inr []"
| "chain_tips s (chain # rest) =
     bindE (latest_clock_event_on (of_nat chain) s) (\<lambda>tip.
     bindE (chain_tips s rest) (\<lambda>refs.
       Inr (case tip of None \<Rightarrow> refs | Some c \<Rightarrow> ref_of_clock c # refs)))"

definition insert_event :: "NodePorts \<Rightarrow> bytes \<Rightarrow> Node \<Rightarrow> (Event \<times> Node) result" where
  "insert_event p data n =
     (let (salt, n) = next_salt p n in
      bindE (chain_tips (nd_store n) [0..<nd_num_chains n]) (\<lambda>refs.
        let e = \<lparr>ev_creator = nd_id n, ev_hash = [], ev_data = data, ev_salt = salt, ev_refs = refs,
              ev_signature = []\<rparr>;
            e = e\<lparr>ev_hash := calculate_event_hash e\<rparr>;
            e = e\<lparr>ev_signature := p_sign p (ev_hash e)\<rparr>
        in Inr (e, n\<lparr>nd_store := snd (append_event e (nd_store n))\<rparr>)))"

definition publish_event :: "NodePorts \<Rightarrow> bytes \<Rightarrow> Node \<Rightarrow> (Event \<times> Node) result" where
  "publish_event p data n =
     bindE (insert_event p data n) (\<lambda>(e, n).
       Inr (e, emit [Telemetry (Event_created e)]
         (n\<lparr>nd_unreferenced := map (\<lambda>tail. tail @ [e]) (nd_unreferenced n)\<rparr>)))"

definition neighbor_tips :: "u32 \<Rightarrow> (NodeId, Neighbor) omap \<Rightarrow> EventReference list" where
  "neighbor_tips chain nbs =
     concat (map (\<lambda>(i, nb).
       if unat chain < length (nb_last_hashes nb) \<and> nb_last_hashes nb ! unat chain \<noteq> []
       then [\<lparr>ref_creator = nb_node_id nb, ref_hash = nb_last_hashes nb ! unat chain\<rparr>] else []) nbs)"

definition insert_clock_event :: "NodePorts \<Rightarrow> u32 \<Rightarrow> Node \<Rightarrow> (LocalClockEvent \<times> Node) result" where
  "insert_clock_event p chain n =
     (let (salt, n) = next_salt p n; (stamp, n) = clock_now p n in
      bindE (latest_clock_event_on chain (nd_store n)) (\<lambda>last.
        if unat chain \<ge> length (nd_unreferenced n) then Inl Undefined_behaviour
        else
          let own = (case last of None \<Rightarrow> [] | Some c \<Rightarrow> [ref_of_clock c]);
              stamp = (case last of None \<Rightarrow> stamp
                | Some c \<Rightarrow> if sint stamp < sint (ce_timestamp c) then ce_timestamp c else stamp);
              c = \<lparr>ce_creator = nd_id n, ce_hash = [], ce_chain = chain, ce_timestamp = stamp,
                ce_salt = salt,
                ce_refs = own @ neighbor_tips chain (nd_neighbors n) @
                  map ref_of_event (nd_unreferenced n ! unat chain),
                ce_signature = [], lce_referencing = []\<rparr>;
              c = c\<lparr>ce_hash := calculate_clock_event_hash c\<rparr>;
              c = c\<lparr>ce_signature := p_sign p (ce_hash c)\<rparr>
          in Inr (c, n\<lparr>nd_store := snd (append_clock_event c (nd_store n))\<rparr>)))"

definition send_clock_event_notification :: "Neighbor \<Rightarrow> LocalClockEvent \<Rightarrow> Node \<Rightarrow> Node" where
  "send_clock_event_notification nb c n =
     (let chain = ce_chain c;
          their = (if unat chain < length (nb_last_hashes nb) then nb_last_hashes nb ! unat chain else []);
          m = \<lparr>cn_chain = chain, cn_last_hash = ce_hash c, cn_neighbor_last_hash = their\<rparr>
      in emit [Send (nb_node_id nb) (encode_clock_notification (nd_id n) m)] n)"

definition create_clock_event :: "NodePorts \<Rightarrow> u32 \<Rightarrow> Node \<Rightarrow> Node result" where
  "create_clock_event p chain n =
     bindE (insert_clock_event p chain n) (\<lambda>(c, n).
       let n = n\<lparr>nd_unreferenced := (nd_unreferenced n)[unat chain := []]\<rparr>;
           n = emit [Telemetry (Clock_event_created c)] n;
           n = foldl (\<lambda>n (i, nb). send_clock_event_notification nb c n) n (nd_neighbors n)
       in Inr (if unat chain < length (cfg_chains (nd_config n)) \<and>
              cc_keep (cfg_chains (nd_config n) ! unat chain) > 0
            then n\<lparr>nd_store := prune_chain chain (cc_keep (cfg_chains (nd_config n) ! unat chain)) (nd_store n)\<rparr>
            else n))"

definition gc :: "Node \<Rightarrow> Node" where
  "gc n = foldl (\<lambda>n chain.
     if cc_keep (cfg_chains (nd_config n) ! chain) > 0
     then n\<lparr>nd_store := prune_chain (of_nat chain) (cc_keep (cfg_chains (nd_config n) ! chain)) (nd_store n)\<rparr>
     else n) n [0..<length (cfg_chains (nd_config n))]"

section \<open>Timers\<close>

definition schedule_clock_timer :: "NodePorts \<Rightarrow> u32 \<Rightarrow> Node \<Rightarrow> Node" where
  "schedule_clock_timer p chain n =
     (let (i, n) = schedule_after p (cc_interval (cfg_chains (nd_config n) ! unat chain))
        (Clock_timer chain) n
      in n\<lparr>nd_clock_timers := (nd_clock_timers n)[unat chain := i]\<rparr>)"

text \<open>The expiry is positive whenever this timer is armed, so the division is the integer one.\<close>

definition schedule_purge_timer :: "NodePorts \<Rightarrow> Node \<Rightarrow> Node" where
  "schedule_purge_timer p n =
     (let (i, n) = schedule_after p (of_int (sint (cfg_discovery_expiry (nd_config n)) div 100))
        Purge_timer n
      in n\<lparr>nd_purge_timer := i\<rparr>)"

definition start :: "NodePorts \<Rightarrow> Node \<Rightarrow> Node" where
  "start p n =
     (let n = foldl (\<lambda>n chain.
            if sint (cc_interval (cfg_chains (nd_config n) ! chain)) > 0
            then schedule_clock_timer p (of_nat chain) n else n) n [0..<length (cfg_chains (nd_config n))]
      in if sint (cfg_discovery_expiry (nd_config n)) > 0 then schedule_purge_timer p n else n)"

end
