(* ===== verification/Chain_Building.thy ===== *)
theory Chain_Building
  imports Node_State
begin

text \<open>
  The four chain-building primitives of \<open>src/core/node.cpp\<close>. Each returns the \<open>bool\<close> of the C++
  function together with the chain it was given by reference. The two loops \<open>while (true)\<close> follow
  hash references through the store and have no bound of their own, so they are partial functions;
  they end because the log is acyclic, which is an invariant of the node (\<open>log_acyclic\<close>).
\<close>

section \<open>The primitives\<close>

text \<open>The first reference to a live local clock event.\<close>

fun first_local :: "NodeId \<Rightarrow> InMemoryStore \<Rightarrow> EventReference list \<Rightarrow> LocalClockEvent option result" where
  "first_local i s [] = Inr None"
| "first_local i s (r # rs) =
     (if ref_creator r = i
      then bindE (clock_event_by_hash (ref_hash r) s) (\<lambda>ce.
        case ce of Some c \<Rightarrow> Inr (Some c) | None \<Rightarrow> first_local i s rs)
      else first_local i s rs)"

definition push_lower :: "LocalClockEvent \<Rightarrow> EventChain \<Rightarrow> EventChain" where
  "push_lower c ch = ch\<lparr>ch_lower := slice c # ch_lower ch\<rparr>"

definition push_upper :: "LocalClockEvent \<Rightarrow> EventChain \<Rightarrow> EventChain" where
  "push_upper c ch = ch\<lparr>ch_upper := ch_upper ch @ [slice c]\<rparr>"

definition add_local_lower_bound :: "NodeId \<Rightarrow> InMemoryStore \<Rightarrow> EventChain \<Rightarrow> (bool \<times> EventChain) result" where
  "add_local_lower_bound i s ch =
     bindE (first_local i s
         (if ch_lower ch = [] then ev_refs (ch_event ch) else ce_refs (hd (ch_lower ch)))) (\<lambda>ce.
       case ce of None \<Rightarrow> Inr (False, ch) | Some c \<Rightarrow> Inr (True, push_lower c ch))"

definition add_local_upper_bound :: "InMemoryStore \<Rightarrow> EventChain \<Rightarrow> (bool \<times> EventChain) result" where
  "add_local_upper_bound s ch =
     (let referenced = (if ch_upper ch = [] then ev_hash (ch_event ch) else ce_hash (last (ch_upper ch))) in
      case clock_events_referencing referenced s of
        [] \<Rightarrow> Inr (False, ch)
      | seq # _ \<Rightarrow> bindE (clock_event_by_seq seq s) (\<lambda>c. Inr (True, push_upper c ch)))"

definition refers_to :: "NodeId \<Rightarrow> EventReference list \<Rightarrow> bool" where
  "refers_to i rs \<longleftrightarrow> list_ex (\<lambda>r. ref_creator r = i) rs"

partial_function (option) lower_loop ::
    "NodeId \<Rightarrow> NodeId \<Rightarrow> InMemoryStore \<Rightarrow> LocalClockEvent \<Rightarrow> EventChain \<Rightarrow> (bool \<times> EventChain) result option" where
  "lower_loop i nb s current ch =
     (if refers_to nb (ce_refs current) then Some (Inr (True, ch))
      else case first_local i s (ce_refs current) of
        Inl e \<Rightarrow> Some (Inl e)
      | Inr prev \<Rightarrow> (case prev of
          None \<Rightarrow> Some (Inr (False, ch))
        | Some c \<Rightarrow> lower_loop i nb s c (push_lower c ch)))"

definition extend_lower_bound_for_neighbor ::
    "NodeId \<Rightarrow> InMemoryStore \<Rightarrow> Neighbor \<Rightarrow> EventChain \<Rightarrow> (bool \<times> EventChain) result" where
  "extend_lower_bound_for_neighbor i s nb ch =
     (case ch_lower ch of
        [] \<Rightarrow> Inl Undefined_behaviour
      | front # _ \<Rightarrow>
        (if ce_creator front \<noteq> i then Inl Assertion_failed
         else bindE (clock_event_by_hash (ce_hash front) s) (\<lambda>ce.
           case ce of
             None \<Rightarrow> Inl Undefined_behaviour
           | Some current \<Rightarrow> (case lower_loop i (nb_node_id nb) s current ch of
               None \<Rightarrow> Inl Diverges
             | Some r \<Rightarrow> r))))"

text \<open>The same-chain successor among the clock events that reference the current one.\<close>

fun next_on_chain :: "NodeId \<Rightarrow> u32 \<Rightarrow> InMemoryStore \<Rightarrow> nat list \<Rightarrow> LocalClockEvent option result" where
  "next_on_chain i l s [] = Inr None"
| "next_on_chain i l s (seq # seqs) =
     bindE (clock_event_by_seq seq s) (\<lambda>c.
       if ce_creator c = i \<and> ce_chain c = l then Inr (Some c) else next_on_chain i l s seqs)"

partial_function (option) upper_loop ::
    "NodeId \<Rightarrow> NodeId \<Rightarrow> InMemoryStore \<Rightarrow> LocalClockEvent \<Rightarrow> EventChain \<Rightarrow> (bool \<times> EventChain) result option" where
  "upper_loop i nb s current ch =
     (if refers_to nb (lce_referencing current) then Some (Inr (True, ch))
      else case next_on_chain i (ce_chain current) s (clock_events_referencing (ce_hash current) s) of
        Inl e \<Rightarrow> Some (Inl e)
      | Inr nxt \<Rightarrow> (case nxt of
          None \<Rightarrow> Some (Inr (False, ch))
        | Some c \<Rightarrow> upper_loop i nb s c (push_upper c ch)))"

definition extend_upper_bound_for_neighbor ::
    "NodeId \<Rightarrow> InMemoryStore \<Rightarrow> Neighbor \<Rightarrow> EventChain \<Rightarrow> (bool \<times> EventChain) result" where
  "extend_upper_bound_for_neighbor i s nb ch =
     (if ch_upper ch = [] then Inl Undefined_behaviour
      else if ce_creator (last (ch_upper ch)) \<noteq> i then Inl Assertion_failed
      else bindE (clock_event_by_hash (ce_hash (last (ch_upper ch))) s) (\<lambda>ce.
        case ce of
          None \<Rightarrow> Inl Undefined_behaviour
        | Some current \<Rightarrow> (case upper_loop i (nb_node_id nb) s current ch of
            None \<Rightarrow> Inl Diverges
          | Some r \<Rightarrow> r)))"

text \<open>The comparison of two chains reads their ends as it needs them.\<close>

definition compare_event_chains :: "EventChain \<Rightarrow> EventChain \<Rightarrow> Order result" where
  "compare_event_chains a b =
     (if ch_upper a = [] \<or> ch_lower b = [] then Inl Undefined_behaviour
      else if sint (ce_timestamp (last (ch_upper a))) < sint (ce_timestamp (hd (ch_lower b)))
        then Inr order_before
      else if ch_upper b = [] \<or> ch_lower a = [] then Inl Undefined_behaviour
      else if sint (ce_timestamp (last (ch_upper b))) < sint (ce_timestamp (hd (ch_lower a)))
        then Inr order_after
      else Inr order_undetermined)"

section \<open>The log a node builds chains from\<close>

abbreviation live :: "InMemoryStore \<Rightarrow> nat \<Rightarrow> LocalClockEvent \<Rightarrow> bool" where
  "live s q c \<equiv> (q, c) \<in> set (st_clock_events s)"

text \<open>A clock event that refers to the hash of another is younger than it.\<close>

definition log_acyclic :: "InMemoryStore \<Rightarrow> bool" where
  "log_acyclic s \<longleftrightarrow>
     (\<forall>q c q' c'. live s q c \<longrightarrow> live s q' c' \<longrightarrow>
        (\<exists>r \<in> set (ce_refs c). ref_hash r = ce_hash c') \<longrightarrow> q' < q)"

definition log_own :: "NodeId \<Rightarrow> InMemoryStore \<Rightarrow> bool" where
  "log_own i s \<longleftrightarrow> (\<forall>q c. live s q c \<longrightarrow> ce_creator c = i)"

definition log_authentic :: "verifier \<Rightarrow> InMemoryStore \<Rightarrow> bool" where
  "log_authentic verify s \<longleftrightarrow> (\<forall>q c. live s q c \<longrightarrow> authentic verify (link_of_clock (slice c)))"

text \<open>On each chain, every clock event refers to the one before it and is not older than it.\<close>

definition succeeds :: "nat \<times> 'a ClockEvent_scheme \<Rightarrow> nat \<times> 'a ClockEvent_scheme \<Rightarrow> bool" where
  "succeeds a b \<longleftrightarrow> ref_of_clock (snd a) \<in> set (ce_refs (snd b)) \<and>
     sint (ce_timestamp (snd a)) \<le> sint (ce_timestamp (snd b))"

definition log_chained :: "InMemoryStore \<Rightarrow> bool" where
  "log_chained s \<longleftrightarrow> (\<forall>l. successively succeeds (chain_of l (st_clock_events s)))"

definition log_ok :: "NodeId \<Rightarrow> verifier \<Rightarrow> InMemoryStore \<Rightarrow> bool" where
  "log_ok i verify s \<longleftrightarrow> store_ok s \<and> store_indexed s \<and> log_acyclic s \<and> log_own i s \<and>
     log_authentic verify s \<and> log_chained s"

lemma log_okD:
  assumes "log_ok i verify s"
  shows "store_ok s" "clocks_ok s" "store_indexed s" "log_acyclic s"
    "live s q c \<Longrightarrow> ce_creator c = i"
    "live s q c \<Longrightarrow> authentic verify (link_of_clock (slice c))"
    "successively succeeds (chain_of l (st_clock_events s))"
  using assms by (auto simp: log_ok_def log_own_def log_authentic_def log_chained_def store_ok_def)

lemma by_hash_live:
  assumes "log_ok i verify s" "live s q c"
  shows "clock_event_by_hash (ce_hash c) s = Inr (Some c)"
  using mem.by_hash_complete [OF log_okD(1,3) [OF assms(1)], of c] assms(2)
  by (force simp: store_dag_def)

lemma first_local_spec:
  assumes "clocks_ok s"
  shows "first_local i s rs = Inr None \<or>
    (\<exists>c q r. first_local i s rs = Inr (Some c) \<and> live s q c \<and> r \<in> set rs \<and>
       ref_creator r = i \<and> ref_hash r = ce_hash c)"
proof (induction rs)
  case (Cons r rs)
  show ?case
  proof (cases "ref_creator r = i")
    case True
    from assms show ?thesis
    proof (cases rule: by_hash_cases [of s "ref_hash r"])
      case None
      then have "first_local i s (r # rs) = first_local i s rs" using True by simp
      with Cons show ?thesis by auto
    next
      case (Some q c)
      then have "live s q c" by (simp add: om_find_in)
      with Some True show ?thesis by (intro disjI2 exI [of _ c] exI [of _ q] exI [of _ r]) simp
    qed
  next
    case False
    then have "first_local i s (r # rs) = first_local i s rs" by simp
    with Cons show ?thesis by auto
  qed
qed simp

lemma next_on_chain_spec:
  assumes "store_ok s" "set seqs \<subseteq> set (clock_events_referencing h s)" "sorted seqs"
  shows "next_on_chain i l s seqs = Inr None \<or>
    (\<exists>c q r. next_on_chain i l s seqs = Inr (Some c) \<and> live s q c \<and> ce_creator c = i \<and>
       ce_chain c = l \<and> r \<in> set (ce_refs c) \<and> ref_hash r = h \<and>
       (\<forall>q' \<in> set seqs. \<forall>c'. live s q' c' \<longrightarrow> ce_creator c' = i \<longrightarrow> ce_chain c' = l \<longrightarrow> q \<le> q'))"
  using assms(2,3)
proof (induction seqs)
  case (Cons q seqs)
  obtain c where c: "clock_event_by_seq q s = Inr c" "\<exists>r \<in> set (ce_refs c). ref_hash r = h"
    using mem.referencing_resolves [OF assms(1), of q h] Cons.prems by auto
  have f: "om_find q (st_clock_events s) = Some c"
    using c(1) by (auto simp: clock_event_by_seq_def clock_at_def split: option.splits)
  then have l: "live s q c' \<longleftrightarrow> c' = c" for c'
    using assms(1) by (auto simp: store_ok_def simp flip: om_find_iff [OF clocks_okD(1)])
  show ?case
  proof (cases "ce_creator c = i \<and> ce_chain c = l")
    case True
    then have "next_on_chain i l s (q # seqs) = Inr (Some c)" using c(1) by simp
    moreover have "\<forall>q' \<in> set (q # seqs). q \<le> q'" using Cons.prems(2) by simp
    ultimately show ?thesis using True c(2) l by blast
  next
    case False
    then show ?thesis using c(1) Cons l by auto
  qed
qed simp

lemma referencing_sorted: "log_ok i verify s \<Longrightarrow> sorted (clock_events_referencing h s)"
  using mem.referencing [OF log_okD(1)] by blast

text \<open>The first clock event after \<open>c\<close> on its chain among those that refer to its hash is the successor
  of \<open>c\<close>, so it refers to \<open>c\<close> by its right name.\<close>

lemma next_on_chain_succeeds:
  assumes "log_ok i verify s" "live s q c"
    "next_on_chain i (ce_chain c) s (clock_events_referencing (ce_hash c) s) = Inr (Some d)"
  shows "\<exists>q'. live s q' d \<and> q < q' \<and> ref_of_clock c \<in> set (ce_refs d) \<and>
    sint (ce_timestamp c) \<le> sint (ce_timestamp d)"
proof -
  let ?l = "ce_chain c" and ?seqs = "clock_events_referencing (ce_hash c) s"
  obtain q' r where d: "live s q' d" "ce_chain d = ?l" "r \<in> set (ce_refs d)" "ref_hash r = ce_hash c"
    and min: "\<And>a e. a \<in> set ?seqs \<Longrightarrow> live s a e \<Longrightarrow> ce_creator e = i \<Longrightarrow> ce_chain e = ?l \<Longrightarrow> q' \<le> a"
    using next_on_chain_spec [OF log_okD(1) [OF assms(1)] order_refl referencing_sorted [OF assms(1)],
        of i ?l "ce_hash c"] assms(3) by auto
  have lt: "q < q'" using log_okD(4) [OF assms(1)] assms(2) d unfolding log_acyclic_def by blast
  have "(q, c) \<in> set (chain_of ?l (st_clock_events s))" using assms(2) by (simp add: set_chain_of)
  then obtain xs ys where sp: "chain_of ?l (st_clock_events s) = xs @ (q, c) # ys" by (meson split_list)
  have ok: "om_ok (xs @ (q, c) # ys)"
    using om_ok_chain_of [OF clocks_okD(1) [OF log_okD(2) [OF assms(1)]], of ?l] sp by simp
  have "(q', d) \<in> set (chain_of ?l (st_clock_events s))" using d by (simp add: set_chain_of)
  then have "(q', d) \<in> set ys" using sp ok lt by (fastforce simp: om_ok_append_iff)
  then obtain a e zs where ys: "ys = (a, e) # zs" by (cases ys) auto
  have le: "a \<le> q'" using \<open>(q', d) \<in> set ys\<close> ok by (fastforce simp: ys om_ok_append_iff om_ok_Cons)
  have e: "live s a e" "ce_chain e = ?l"
    using sp ys set_chain_of [of a e ?l "st_clock_events s"] by auto
  have suc: "succeeds (q, c) (a, e)"
    using log_okD(7) [OF assms(1), of ?l] by (simp add: sp ys successively_append_iff)
  then have "a \<in> set ?seqs"
    using mem.referencing_complete [OF log_okD(1) [OF assms(1)], of a e "ref_of_clock c"] e(1)
    by (simp add: store_dag_def succeeds_def ref_of_clock_def)
  from min [OF this e(1) log_okD(5) [OF assms(1) e(1)] e(2)] le have "q' = a" by simp
  with d(1) e(1) have "d = e"
    using clocks_okD(1) [OF log_okD(2) [OF assms(1)]] by (metis om_find_iff option.inject)
  then show ?thesis using suc lt d(1) by (auto simp: succeeds_def)
qed

section \<open>The loops end\<close>

lemma lower_loop_total:
  assumes "log_ok i verify s" "live s q c"
  shows "\<exists>b ch'. lower_loop i nb s c ch = Some (Inr (b, ch'))"
  using assms(2)
proof (induction q arbitrary: c ch rule: less_induct)
  case (less q)
  show ?case
  proof (cases "refers_to nb (ce_refs c)")
    case True
    then show ?thesis by (auto simp: lower_loop.simps)
  next
    case False
    from first_local_spec [OF log_okD(2) [OF assms(1)], of i "ce_refs c"] show ?thesis
    proof (elim disjE exE conjE)
      assume "first_local i s (ce_refs c) = Inr None"
      with False show ?thesis by (auto simp: lower_loop.simps)
    next
      fix c' q' r
      assume c': "first_local i s (ce_refs c) = Inr (Some c')" "live s q' c'" "r \<in> set (ce_refs c)"
        "ref_hash r = ce_hash c'"
      have "q' < q"
        using log_okD(4) [OF assms(1)] less.prems c' unfolding log_acyclic_def by blast
      from less.IH [OF this c'(2), of "push_lower c' ch"] show ?thesis
        using False c'(1) by (simp add: lower_loop.simps [of i nb s c])
    qed
  qed
qed

lemma upper_loop_total:
  assumes "log_ok i verify s" "live s q c"
  shows "\<exists>b ch'. upper_loop i nb s c ch = Some (Inr (b, ch'))"
  using assms(2)
proof (induction "st_next_clock_seq s - q" arbitrary: q c ch rule: less_induct)
  case less
  show ?case
  proof (cases "refers_to nb (lce_referencing c)")
    case True
    then show ?thesis by (auto simp: upper_loop.simps)
  next
    case False
    let ?seqs = "clock_events_referencing (ce_hash c) s"
    from next_on_chain_spec [OF log_okD(1) [OF assms(1)] order_refl referencing_sorted [OF assms(1)],
        of i "ce_chain c" "ce_hash c"]
    show ?thesis
    proof (elim disjE exE conjE)
      assume "next_on_chain i (ce_chain c) s ?seqs = Inr None"
      with False show ?thesis by (auto simp: upper_loop.simps)
    next
      fix c' q' r
      assume c': "next_on_chain i (ce_chain c) s ?seqs = Inr (Some c')" "live s q' c'"
        "r \<in> set (ce_refs c')" "ref_hash r = ce_hash c"
      have "q < q'"
        using log_okD(4) [OF assms(1)] less.prems c' unfolding log_acyclic_def by blast
      moreover have "q' < st_next_clock_seq s"
        using clocks_okD(2) [OF log_okD(2) [OF assms(1)] c'(2)] .
      ultimately have "st_next_clock_seq s - q' < st_next_clock_seq s - q" by simp
      from less.hyps [OF this c'(2), of "push_upper c' ch"] show ?thesis
        using False c'(1) by (simp add: upper_loop.simps [of i nb s c])
    qed
  qed
qed

section \<open>What they build\<close>

text \<open>A valid chain so far: every element authentic, each referring to the one before.\<close>

definition chain_valid :: "verifier \<Rightarrow> EventChain \<Rightarrow> bool" where
  "chain_valid verify ch \<longleftrightarrow>
     (\<forall>l \<in> set (chain_links ch). authentic verify l) \<and> linked (chain_links ch)"

lemma chain_links_push [simp]:
  "chain_links (push_lower c ch) = link_of_clock (slice c) # chain_links ch"
  "chain_links (push_upper c ch) = chain_links ch @ [link_of_clock (slice c)]"
  by (simp_all add: chain_links_def push_lower_def push_upper_def)

lemma chain_links_not_Nil [simp]: "chain_links ch \<noteq> []"
  by (simp add: chain_links_def)

lemma push_sel [simp]:
  "ch_event (push_lower c ch) = ch_event ch" "ch_event (push_upper c ch) = ch_event ch"
  "ch_lower (push_lower c ch) = slice c # ch_lower ch" "ch_lower (push_upper c ch) = ch_lower ch"
  "ch_upper (push_lower c ch) = ch_upper ch" "ch_upper (push_upper c ch) = ch_upper ch @ [slice c]"
  by (simp_all add: push_lower_def push_upper_def)

lemma linked_Cons: "ls \<noteq> [] \<Longrightarrow> linked (l # ls) \<longleftrightarrow> ln_ref l \<in> set (ln_refs (hd ls)) \<and> linked ls"
  by (cases ls) auto

lemma valid_push_lower:
  assumes "chain_valid verify ch" "authentic verify (link_of_clock (slice c))"
    "ref_of_clock c \<in> set (ln_refs (hd (chain_links ch)))"
  shows "chain_valid verify (push_lower c ch)"
  using assms by (simp add: chain_valid_def linked_Cons)

lemma valid_push_upper:
  assumes "chain_valid verify ch" "authentic verify (link_of_clock (slice c))"
    "ln_ref (last (chain_links ch)) \<in> set (ce_refs c)"
  shows "chain_valid verify (push_upper c ch)"
  using assms by (auto simp: chain_valid_def linked_append)

lemma ref_of_live:
  assumes "log_ok i verify s" "live s q c" "ref_creator r = i" "ref_hash r = ce_hash c"
  shows "r = ref_of_clock c"
  using assms log_okD(5) [OF assms(1,2)] by (cases r) (simp add: ref_of_clock_def)

lemma add_local_lower_spec:
  assumes "log_ok i verify s"
  shows "add_local_lower_bound i s ch = Inr (False, ch) \<or>
    (\<exists>c q. add_local_lower_bound i s ch = Inr (True, push_lower c ch) \<and> live s q c \<and>
       ref_of_clock c \<in> set (ln_refs (hd (chain_links ch))))"
proof -
  let ?refs = "if ch_lower ch = [] then ev_refs (ch_event ch) else ce_refs (hd (ch_lower ch))"
  have refs: "?refs = ln_refs (hd (chain_links ch))"
    by (cases "ch_lower ch") (simp_all add: chain_links_def)
  from first_local_spec [OF log_okD(2) [OF assms], of i ?refs] show ?thesis
  proof (elim disjE exE conjE)
    assume "first_local i s ?refs = Inr None"
    then show ?thesis by (simp add: add_local_lower_bound_def)
  next
    fix c q r
    assume c: "first_local i s ?refs = Inr (Some c)" "live s q c" "r \<in> set ?refs" "ref_creator r = i"
      "ref_hash r = ce_hash c"
    have "ref_of_clock c \<in> set (ln_refs (hd (chain_links ch)))"
      using c(3) ref_of_live [OF assms c(2,4,5)] unfolding refs by simp
    then show ?thesis using c(1,2) by (auto simp: add_local_lower_bound_def)
  qed
qed

text \<open>The hash the next upper clock event has to refer to.\<close>

lemma last_link_hash:
  "ref_hash (ln_ref (last (chain_links ch))) =
     (if ch_upper ch = [] then ev_hash (ch_event ch) else ce_hash (last (ch_upper ch)))"
  by (simp add: chain_links_def last_map)

lemma add_local_upper_spec:
  assumes "store_ok s"
  shows "add_local_upper_bound s ch = Inr (False, ch) \<and>
      clock_events_referencing (ref_hash (ln_ref (last (chain_links ch)))) s = [] \<or>
    (\<exists>c q. add_local_upper_bound s ch = Inr (True, push_upper c ch) \<and> live s q c \<and>
       (\<exists>r \<in> set (ce_refs c). ref_hash r = ref_hash (ln_ref (last (chain_links ch)))) \<and>
       q \<in> set (clock_events_referencing (ref_hash (ln_ref (last (chain_links ch)))) s) \<and>
       (\<forall>q' \<in> set (clock_events_referencing (ref_hash (ln_ref (last (chain_links ch)))) s). q \<le> q'))"
proof -
  let ?h = "ref_hash (ln_ref (last (chain_links ch)))"
  show ?thesis
  proof (cases "clock_events_referencing ?h s")
    case Nil
    then show ?thesis by (simp add: add_local_upper_bound_def last_link_hash)
  next
    case (Cons q qs)
    then obtain c where c: "clock_event_by_seq q s = Inr c" "\<exists>r \<in> set (ce_refs c). ref_hash r = ?h"
      using mem.referencing_resolves [OF assms, of q ?h] by auto
    have "live s q c"
      using c(1) by (auto simp: clock_event_by_seq_def clock_at_def split: option.splits dest: om_find_in)
    moreover have "add_local_upper_bound s ch = Inr (True, push_upper c ch)"
      using Cons c(1) by (simp add: add_local_upper_bound_def last_link_hash)
    moreover have "\<forall>q' \<in> set (clock_events_referencing ?h s). q \<le> q'"
      using mem.referencing [OF assms, of ?h] Cons by auto
    ultimately show ?thesis using c(2) Cons by (intro disjI2 exI [of _ c] exI [of _ q]) simp
  qed
qed

lemma lower_loop_spec:
  assumes "log_ok i verify s" "live s q c" "lower_loop i nb s c ch = Some (Inr (b, ch'))"
    and "ch_lower ch = slice c # rest"
  shows "\<exists>q' c' rest'. live s q' c' \<and> ch_lower ch' = slice c' # rest' \<and> (b \<longrightarrow> refers_to nb (ce_refs c')) \<and>
    ch_event ch' = ch_event ch \<and> ch_upper ch' = ch_upper ch \<and>
    (chain_valid verify ch \<longrightarrow> chain_valid verify ch')"
  using assms(2-)
proof (induction q arbitrary: c ch rest rule: less_induct)
  case (less q)
  show ?case
  proof (cases "refers_to nb (ce_refs c)")
    case True
    then show ?thesis using less.prems by (auto simp: lower_loop.simps)
  next
    case False
    from first_local_spec [OF log_okD(2) [OF assms(1)], of i "ce_refs c"] show ?thesis
    proof (elim disjE exE conjE)
      assume "first_local i s (ce_refs c) = Inr None"
      with False show ?thesis using less.prems by (auto simp: lower_loop.simps)
    next
      fix c' q' r
      assume c': "first_local i s (ce_refs c) = Inr (Some c')" "live s q' c'" "r \<in> set (ce_refs c)"
        "ref_creator r = i" "ref_hash r = ce_hash c'"
      have lt: "q' < q"
        using log_okD(4) [OF assms(1)] less.prems(1) c' unfolding log_acyclic_def by blast
      have "ref_of_clock c' \<in> set (ln_refs (hd (chain_links ch)))"
        using c'(3) ref_of_live [OF assms(1) c'(2,4,5)] less.prems(3)
        by (simp add: chain_links_def)
      then have "chain_valid verify ch \<longrightarrow> chain_valid verify (push_lower c' ch)"
        using valid_push_lower log_okD(6) [OF assms(1) c'(2)] by blast
      moreover have "lower_loop i nb s c' (push_lower c' ch) = Some (Inr (b, ch'))"
        using less.prems(2) False c'(1) by (simp add: lower_loop.simps [of i nb s c])
      ultimately show ?thesis
        using less.IH [OF lt c'(2), of "push_lower c' ch" "ch_lower ch"] by auto
    qed
  qed
qed

lemma upper_loop_spec:
  assumes "log_ok i verify s" "live s q c" "upper_loop i nb s c ch = Some (Inr (b, ch'))"
    and "ch_upper ch = front @ [slice c]"
  shows "\<exists>q' c' front'. live s q' c' \<and> ch_upper ch' = front' @ [slice c'] \<and>
    (b \<longrightarrow> refers_to nb (lce_referencing c')) \<and> ch_event ch' = ch_event ch \<and> ch_lower ch' = ch_lower ch \<and>
    (chain_valid verify ch \<longrightarrow> chain_valid verify ch')"
  using assms(2-)
proof (induction "st_next_clock_seq s - q" arbitrary: q c ch front rule: less_induct)
  case less
  let ?nxt = "next_on_chain i (ce_chain c) s (clock_events_referencing (ce_hash c) s)"
  show ?case
  proof (cases "refers_to nb (lce_referencing c)")
    case True
    then show ?thesis using less.prems by (auto simp: upper_loop.simps)
  next
    case False
    consider "?nxt = Inr None" | d where "?nxt = Inr (Some d)"
      using next_on_chain_spec [OF log_okD(1) [OF assms(1)] order_refl referencing_sorted [OF assms(1)],
        of i "ce_chain c" "ce_hash c"] by blast
    then show ?thesis
    proof cases
      case 1
      with False show ?thesis using less.prems by (auto simp: upper_loop.simps)
    next
      case (2 d)
      obtain q' where d: "live s q' d" "q < q'" "ref_of_clock c \<in> set (ce_refs d)"
        using next_on_chain_succeeds [OF assms(1) less.prems(1) 2] by blast
      have lt: "st_next_clock_seq s - q' < st_next_clock_seq s - q"
        using d(2) clocks_okD(2) [OF log_okD(2) [OF assms(1)] d(1)] by simp
      have "chain_valid verify ch \<longrightarrow> chain_valid verify (push_upper d ch)"
        using valid_push_upper [OF _ log_okD(6) [OF assms(1) d(1)], of ch] d(3) less.prems(3)
        by (auto simp: chain_links_def)
      moreover have "upper_loop i nb s d (push_upper d ch) = Some (Inr (b, ch'))"
        using less.prems(2) False 2 by (simp add: upper_loop.simps [of i nb s c])
      ultimately show ?thesis
        using less.hyps [OF lt d(1), of "push_upper d ch" "ch_upper ch"] by auto
    qed
  qed
qed

text \<open>The two extensions, from a chain whose end is a live local clock event.\<close>

lemma extend_lower_spec:
  assumes "log_ok i verify s" "live s q c" "ch_lower ch = slice c # rest"
  shows "\<exists>b ch' q' c' rest'. extend_lower_bound_for_neighbor i s nb ch = Inr (b, ch') \<and> live s q' c' \<and>
    ch_lower ch' = slice c' # rest' \<and> (b \<longrightarrow> refers_to (nb_node_id nb) (ce_refs c')) \<and>
    ch_event ch' = ch_event ch \<and> ch_upper ch' = ch_upper ch \<and>
    (chain_valid verify ch \<longrightarrow> chain_valid verify ch')"
proof -
  obtain b ch' where l: "lower_loop i (nb_node_id nb) s c ch = Some (Inr (b, ch'))"
    using lower_loop_total [OF assms(1,2)] by blast
  have "extend_lower_bound_for_neighbor i s nb ch = Inr (b, ch')"
    using assms(3) by_hash_live [OF assms(1,2)] log_okD(5) [OF assms(1,2)] l
    by (simp add: extend_lower_bound_for_neighbor_def)
  then show ?thesis using lower_loop_spec [OF assms(1,2) l assms(3)] by blast
qed

lemma extend_upper_spec:
  assumes "log_ok i verify s" "live s q c" "ch_upper ch = front @ [slice c]"
  shows "\<exists>b ch' q' c' front'. extend_upper_bound_for_neighbor i s nb ch = Inr (b, ch') \<and> live s q' c' \<and>
    ch_upper ch' = front' @ [slice c'] \<and> (b \<longrightarrow> refers_to (nb_node_id nb) (lce_referencing c')) \<and>
    ch_event ch' = ch_event ch \<and> ch_lower ch' = ch_lower ch \<and>
    (chain_valid verify ch \<longrightarrow> chain_valid verify ch')"
proof -
  obtain b ch' where l: "upper_loop i (nb_node_id nb) s c ch = Some (Inr (b, ch'))"
    using upper_loop_total [OF assms(1,2)] by blast
  have "extend_upper_bound_for_neighbor i s nb ch = Inr (b, ch')"
    using assms(3) by_hash_live [OF assms(1,2)] log_okD(5) [OF assms(1,2)] l
    by (simp add: extend_upper_bound_for_neighbor_def)
  then show ?thesis using upper_loop_spec [OF assms(1,2) l assms(3)] by blast
qed

end
