(* ===== verification/Discovery.thy ===== *)
theory Discovery
  imports Chain_Building
begin

text \<open>
  The bookkeeping of in-flight discoveries (\<open>src/core/node.cpp\<close>): the tables of chain, bounds and
  order discoveries, their completion and abortion, and the node as the callback that drives bounds
  and order discoveries off the chain discoveries. A failed \<open>assert\<close> is an error. A reference into
  a table (\<open>auto& d\<close>) is written back where the C++ code assigns through it.
\<close>

section \<open>Bounds discoveries\<close>

definition insert_bounds_discovery :: "NodePorts \<Rightarrow> Event \<Rightarrow> nat \<Rightarrow> Node \<Rightarrow> EventBoundsDiscovery \<times> Node" where
  "insert_bounds_discovery p event callback n =
     (let (now, n) = clock_now p n;
          d = \<lparr>bd_start_time = now, bd_end_time = 0, bd_event = event, bd_lower = 0, bd_upper = 0,
            bd_state = in_progress\<rparr>
      in (d, n\<lparr>nd_bounds_discoveries := om_emplace (ev_hash event)
           \<lparr>en_discovery = d, en_callbacks = [callback]\<rparr> (nd_bounds_discoveries n)\<rparr>))"

definition abort_bounds_discovery :: "NodePorts \<Rightarrow> EventHash \<Rightarrow> Node \<Rightarrow> Node result" where
  "abort_bounds_discovery p h n =
     (case om_find h (nd_bounds_discoveries n) of
        None \<Rightarrow> Inl Assertion_failed
      | Some en \<Rightarrow>
        (if bd_state (en_discovery en) \<noteq> in_progress then Inl Assertion_failed
         else
           let (now, n) = clock_now p n;
               d = (en_discovery en)\<lparr>bd_end_time := now, bd_state := aborted\<rparr>;
               n = n\<lparr>nd_bounds_discoveries :=
                 om_put h (en\<lparr>en_discovery := d\<rparr>) (nd_bounds_discoveries n)\<rparr>
           in Inr (emit (map (\<lambda>k. Bounds_aborted k (bd_event d)) (en_callbacks en) @
                [Telemetry (Bounds_discovery_aborted d)]) n)))"

definition complete_bounds_discovery :: "NodePorts \<Rightarrow> EventHash \<Rightarrow> Node \<Rightarrow> Node result" where
  "complete_bounds_discovery p h n =
     (case om_find h (nd_bounds_discoveries n) of
        None \<Rightarrow> Inl Assertion_failed
      | Some en \<Rightarrow>
        (if bd_state (en_discovery en) \<noteq> in_progress then Inl Assertion_failed
         else
           let (now, n) = clock_now p n;
               d = (en_discovery en)\<lparr>bd_end_time := now, bd_state := completed\<rparr>;
               n = n\<lparr>nd_bounds_discoveries :=
                 om_put h (en\<lparr>en_discovery := d\<rparr>) (nd_bounds_discoveries n)\<rparr>
           in Inr (emit (map (\<lambda>k. Bounds_completed k (bd_event d) (bd_lower d) (bd_upper d))
                (en_callbacks en) @ [Telemetry (Bounds_discovery_completed d)]) n)))"

section \<open>Order discoveries\<close>

definition insert_order_discovery ::
    "NodePorts \<Rightarrow> Event \<Rightarrow> Event \<Rightarrow> nat \<Rightarrow> Node \<Rightarrow> EventOrderDiscovery \<times> Node" where
  "insert_order_discovery p event1 event2 callback n =
     (let (now, n) = clock_now p n;
          d = \<lparr>od_start_time = now, od_end_time = 0, od_event1 = event1, od_event2 = event2,
            od_order = order_undetermined, od_state = in_progress\<rparr>
      in (d, n\<lparr>nd_order_discoveries := om_emplace (ev_hash event1, ev_hash event2)
           \<lparr>en_discovery = d, en_callbacks = [callback]\<rparr> (nd_order_discoveries n)\<rparr>))"

definition abort_order_discovery :: "NodePorts \<Rightarrow> EventHash \<Rightarrow> EventHash \<Rightarrow> Node \<Rightarrow> Node result" where
  "abort_order_discovery p h1 h2 n =
     (case om_find (h1, h2) (nd_order_discoveries n) of
        None \<Rightarrow> Inl Assertion_failed
      | Some en \<Rightarrow>
        (if od_state (en_discovery en) \<noteq> in_progress then Inl Assertion_failed
         else
           let (now, n) = clock_now p n;
               d = (en_discovery en)\<lparr>od_end_time := now, od_state := aborted\<rparr>;
               n = n\<lparr>nd_order_discoveries :=
                 om_put (h1, h2) (en\<lparr>en_discovery := d\<rparr>) (nd_order_discoveries n)\<rparr>
           in Inr (emit (map (\<lambda>k. Order_aborted k (od_event1 d) (od_event2 d)) (en_callbacks en) @
                [Telemetry (Order_discovery_aborted d)]) n)))"

definition complete_order_discovery :: "NodePorts \<Rightarrow> EventHash \<Rightarrow> EventHash \<Rightarrow> Node \<Rightarrow> Node result" where
  "complete_order_discovery p h1 h2 n =
     (case om_find (h1, h2) (nd_order_discoveries n) of
        None \<Rightarrow> Inl Assertion_failed
      | Some en \<Rightarrow>
        (if od_state (en_discovery en) \<noteq> in_progress then Inl Assertion_failed
         else
           let (now, n) = clock_now p n;
               d = (en_discovery en)\<lparr>od_end_time := now, od_state := completed\<rparr>;
               n = n\<lparr>nd_order_discoveries :=
                 om_put (h1, h2) (en\<lparr>en_discovery := d\<rparr>) (nd_order_discoveries n)\<rparr>
           in Inr (emit (map (\<lambda>k. Order_completed k (od_event1 d) (od_event2 d) (od_order d))
                (en_callbacks en) @ [Telemetry (Order_discovery_completed d)]) n)))"

section \<open>The node as chain callback\<close>

text \<open>The bounds discovery of the event is completed with the chain's end points.\<close>

definition finish_bounds :: "NodePorts \<Rightarrow> EventChain \<Rightarrow> Node \<Rightarrow> Node result" where
  "finish_bounds p chain n =
     (let h = ev_hash (ch_event chain) in
      case om_find h (nd_bounds_discoveries n) of
        None \<Rightarrow> Inr n
      | Some en \<Rightarrow>
        (if bd_state (en_discovery en) \<noteq> in_progress then Inr n
         else if ch_lower chain = [] \<or> ch_upper chain = [] then Inl Undefined_behaviour
         else complete_bounds_discovery p h (n\<lparr>nd_bounds_discoveries :=
           om_put h (en\<lparr>en_discovery := (en_discovery en)\<lparr>
             bd_lower := ce_timestamp (hd (ch_lower chain)),
             bd_upper := ce_timestamp (last (ch_upper chain))\<rparr>\<rparr>) (nd_bounds_discoveries n)\<rparr>)))"

text \<open>\<open>chain_discoveries_.find(h)\<close> when it is found and completed.\<close>

definition completed_chain :: "EventHash \<Rightarrow> Node \<Rightarrow> EventChain option" where
  "completed_chain h n =
     (case om_find h (nd_chain_discoveries n) of
        None \<Rightarrow> None
      | Some en \<Rightarrow> if cd_state (en_discovery en) = completed then Some (cd_chain (en_discovery en)) else None)"

definition set_order :: "EventHash \<times> EventHash \<Rightarrow> Order \<Rightarrow> Node \<Rightarrow> Node" where
  "set_order key ord n =
     (case om_find key (nd_order_discoveries n) of
        None \<Rightarrow> n
      | Some en \<Rightarrow> n\<lparr>nd_order_discoveries :=
          om_put key (en\<lparr>en_discovery := (en_discovery en)\<lparr>od_order := ord\<rparr>\<rparr>) (nd_order_discoveries n)\<rparr>)"

text \<open>The body of the loop over the order discoveries.\<close>

definition finish_order :: "NodePorts \<Rightarrow> EventChain \<Rightarrow> EventHash \<times> EventHash \<Rightarrow> Node \<Rightarrow> Node result" where
  "finish_order p chain key n =
     (let h = ev_hash (ch_event chain) in
      case om_find key (nd_order_discoveries n) of
        None \<Rightarrow> Inr n
      | Some en \<Rightarrow>
        (if od_state (en_discovery en) \<noteq> in_progress then Inr n
         else if fst key = h
           then (case completed_chain (snd key) n of
               None \<Rightarrow> Inr n
             | Some other \<Rightarrow> bindE (compare_event_chains chain other) (\<lambda>ord.
                 complete_order_discovery p (fst key) (snd key) (set_order key ord n)))
         else if snd key = h
           then (case completed_chain (fst key) n of
               None \<Rightarrow> Inr n
             | Some other \<Rightarrow> bindE (compare_event_chains other chain) (\<lambda>ord.
                 complete_order_discovery p (fst key) (snd key) (set_order key ord n)))
         else Inr n))"

definition on_chain_completed :: "NodePorts \<Rightarrow> EventChain \<Rightarrow> Node \<Rightarrow> Node result" where
  "on_chain_completed p chain n =
     bindE (finish_bounds p chain n) (\<lambda>n.
       foldE (finish_order p chain) (map fst (nd_order_discoveries n)) n)"

definition abandon_order :: "NodePorts \<Rightarrow> EventHash \<Rightarrow> EventHash \<times> EventHash \<Rightarrow> Node \<Rightarrow> Node result" where
  "abandon_order p h key n =
     (case om_find key (nd_order_discoveries n) of
        None \<Rightarrow> Inr n
      | Some en \<Rightarrow>
        (if od_state (en_discovery en) = in_progress \<and> (fst key = h \<or> snd key = h)
         then abort_order_discovery p (fst key) (snd key) n else Inr n))"

definition on_chain_aborted :: "NodePorts \<Rightarrow> Event \<Rightarrow> Node \<Rightarrow> Node result" where
  "on_chain_aborted p event n =
     bindE (if om_find (ev_hash event) (nd_bounds_discoveries n) \<noteq> None
            then abort_bounds_discovery p (ev_hash event) n else Inr n) (\<lambda>n.
       foldE (abandon_order p (ev_hash event)) (map fst (nd_order_discoveries n)) n)"

text \<open>The calls through \<open>ChainCallback*\<close>.\<close>

definition call_completed :: "NodePorts \<Rightarrow> Event \<Rightarrow> EventChain \<Rightarrow> ChainCallback \<Rightarrow> Node \<Rightarrow> Node result" where
  "call_completed p event chain cb n =
     (case cb of Self \<Rightarrow> on_chain_completed p chain n | Client k \<Rightarrow> Inr (emit [Chain_completed k event chain] n))"

definition call_aborted :: "NodePorts \<Rightarrow> Event \<Rightarrow> ChainCallback \<Rightarrow> Node \<Rightarrow> Node result" where
  "call_aborted p event cb n =
     (case cb of Self \<Rightarrow> on_chain_aborted p event n | Client k \<Rightarrow> Inr (emit [Chain_aborted k event] n))"

section \<open>Chain discoveries\<close>

definition empty_chain_of :: "Event \<Rightarrow> EventChain" where
  "empty_chain_of e = \<lparr>ch_event = e, ch_lower = [], ch_upper = []\<rparr>"

text \<open>The insertion, with the assignment of the window that follows it.\<close>

definition insert_chain_discovery ::
    "NodePorts \<Rightarrow> Event \<Rightarrow> NodeId \<Rightarrow> TimeRange \<Rightarrow> ChainCallback \<Rightarrow> Node \<Rightarrow> EventChainDiscovery \<times> Node" where
  "insert_chain_discovery p event originator window callback n =
     (let (now, n) = clock_now p n;
          d = \<lparr>cd_start_time = now, cd_end_time = 0, cd_originator = originator, cd_event = event,
            cd_range = window, cd_chain = empty_chain_of event, cd_state = in_progress\<rparr>
      in (d, n\<lparr>nd_chain_discoveries := om_emplace (ev_hash event)
           \<lparr>en_discovery = d, en_callbacks = [callback]\<rparr> (nd_chain_discoveries n)\<rparr>))"

definition set_chain_discovery :: "EventHash \<Rightarrow> EventChainDiscovery \<Rightarrow> Node \<Rightarrow> Node" where
  "set_chain_discovery h d n =
     (case om_find h (nd_chain_discoveries n) of
        None \<Rightarrow> n
      | Some en \<Rightarrow> n\<lparr>nd_chain_discoveries :=
          om_put h (en\<lparr>en_discovery := d\<rparr>) (nd_chain_discoveries n)\<rparr>)"

definition abort_chain_discovery :: "NodePorts \<Rightarrow> EventHash \<Rightarrow> Node \<Rightarrow> Node result" where
  "abort_chain_discovery p h n =
     (case om_find h (nd_chain_discoveries n) of
        None \<Rightarrow> Inl Assertion_failed
      | Some en \<Rightarrow>
        (if cd_state (en_discovery en) \<noteq> in_progress then Inl Assertion_failed
         else
           let (now, n) = clock_now p n;
               d = (en_discovery en)\<lparr>cd_end_time := now, cd_state := aborted\<rparr>
           in bindE (foldE (call_aborted p (cd_event d)) (en_callbacks en) (set_chain_discovery h d n))
                (\<lambda>n. Inr (emit [Telemetry (Chain_discovery_aborted d)] n))))"

definition validate_chain_discovery_result :: "NodePorts \<Rightarrow> NodeId \<Rightarrow> EventChainDiscovery \<Rightarrow> bool" where
  "validate_chain_discovery_result p i d = cr_ok (verify_chain (cd_chain d) i (p_verify p))"

definition complete_chain_discovery :: "NodePorts \<Rightarrow> EventHash \<Rightarrow> Node \<Rightarrow> Node result" where
  "complete_chain_discovery p h n =
     (case om_find h (nd_chain_discoveries n) of
        None \<Rightarrow> Inl Assertion_failed
      | Some en \<Rightarrow>
        (if cd_state (en_discovery en) \<noteq> in_progress then Inl Assertion_failed
         else if \<not> validate_chain_discovery_result p (nd_id n) (en_discovery en)
           then abort_chain_discovery p h n
         else
           let (now, n) = clock_now p n;
               d = (en_discovery en)\<lparr>cd_end_time := now, cd_state := completed\<rparr>
           in bindE (foldE (call_completed p (cd_event d) (cd_chain d)) (en_callbacks en)
                  (set_chain_discovery h d n))
                (\<lambda>n. Inr (emit [Telemetry (Chain_discovery_completed d)] n))))"

section \<open>Purging\<close>

text \<open>\<open>clock_.now() - config_.discovery_expiry\<close> on signed 64-bit integers.\<close>

definition time_minus :: "Timestamp \<Rightarrow> Duration \<Rightarrow> Timestamp result" where
  "time_minus t d =
     (let r = sint t - sint d
      in if - (2 ^ 63) \<le> r \<and> r < 2 ^ 63 then Inr (of_int r) else Inl Undefined_behaviour)"

definition purge_chain :: "NodePorts \<Rightarrow> Timestamp \<Rightarrow> EventHash \<Rightarrow> Node \<Rightarrow> Node result" where
  "purge_chain p limit h n =
     (case om_find h (nd_chain_discoveries n) of
        None \<Rightarrow> Inr n
      | Some en \<Rightarrow>
        (let d = en_discovery en in
         if sint (cd_start_time d) < sint limit
         then bindE (if cd_originator d = nd_id n \<and> cd_state d = in_progress
                     then abort_chain_discovery p (ev_hash (cd_event d)) n else Inr n) (\<lambda>n.
           Inr (n\<lparr>nd_chain_discoveries := om_erase h (nd_chain_discoveries n)\<rparr>))
         else Inr n))"

definition purge_bounds :: "NodePorts \<Rightarrow> Timestamp \<Rightarrow> EventHash \<Rightarrow> Node \<Rightarrow> Node result" where
  "purge_bounds p limit h n =
     (case om_find h (nd_bounds_discoveries n) of
        None \<Rightarrow> Inr n
      | Some en \<Rightarrow>
        (let d = en_discovery en in
         if sint (bd_start_time d) < sint limit
         then bindE (if bd_state d = in_progress
                     then abort_bounds_discovery p (ev_hash (bd_event d)) n else Inr n) (\<lambda>n.
           Inr (n\<lparr>nd_bounds_discoveries := om_erase h (nd_bounds_discoveries n)\<rparr>))
         else Inr n))"

definition purge_order :: "NodePorts \<Rightarrow> Timestamp \<Rightarrow> EventHash \<times> EventHash \<Rightarrow> Node \<Rightarrow> Node result" where
  "purge_order p limit key n =
     (case om_find key (nd_order_discoveries n) of
        None \<Rightarrow> Inr n
      | Some en \<Rightarrow>
        (let d = en_discovery en in
         if sint (od_start_time d) < sint limit
         then bindE (if od_state d = in_progress
                     then abort_order_discovery p (ev_hash (od_event1 d)) (ev_hash (od_event2 d)) n
                     else Inr n) (\<lambda>n.
           Inr (n\<lparr>nd_order_discoveries := om_erase key (nd_order_discoveries n)\<rparr>))
         else Inr n))"

definition purge_discoveries :: "NodePorts \<Rightarrow> Node \<Rightarrow> Node result" where
  "purge_discoveries p n =
     (let (now, n) = clock_now p n in
      bindE (time_minus now (cfg_discovery_expiry (nd_config n))) (\<lambda>limit.
      bindE (foldE (purge_chain p limit) (map fst (nd_chain_discoveries n)) n) (\<lambda>n.
      bindE (foldE (purge_bounds p limit) (map fst (nd_bounds_discoveries n)) n) (\<lambda>n.
      bindE (foldE (purge_order p limit) (map fst (nd_order_discoveries n)) n) (\<lambda>n.
        Inr (n\<lparr>nd_flood_seen :=
          filter (\<lambda>(_, seen). \<not> sint (fs_first_seen seen) < sint limit) (nd_flood_seen n)\<rparr>))))))"

end
