(* ===== verification/Node_Protocol.thy ===== *)
theory Node_Protocol
  imports Discovery
begin

text \<open>
  The protocol handlers of \<open>src/core/node.cpp\<close>: the inbound datagrams (clock notifications, chain
  requests, chain responses), the forwarding of a discovery along the overlay and of its response
  back along the breadcrumb, the application interface, and the bodies of the timers. Every datagram
  sent is encoded, every datagram received is decoded.
\<close>

section \<open>Clock notifications\<close>

text \<open>The neighbor is a reference to the element of the neighbor table under \<open>key\<close>.
  \<open>resize(chain + 1)\<close> is computed on 32 bits; the access that follows is unchecked.\<close>

definition bucket_tip :: "u32 \<Rightarrow> EventHash \<Rightarrow> EventHash list \<Rightarrow> (bool \<times> EventHash list) result" where
  "bucket_tip chain h hs =
     (let hs = (if length hs \<le> unat chain then vector_resize (unat (chain + 1)) [] hs else hs)
      in if length hs \<le> unat chain then Inl Undefined_behaviour
         else Inr (hs ! unat chain \<noteq> h, hs[unat chain := h]))"

definition process_clock_event_notification ::
    "NodeId \<Rightarrow> Neighbor \<Rightarrow> u32 \<Rightarrow> EventHash \<Rightarrow> EventHash \<Rightarrow> Node \<Rightarrow> Node result" where
  "process_clock_event_notification key nb chain last_hash neighbor_last_hash n =
     bindE (bucket_tip chain last_hash (nb_last_hashes nb)) (\<lambda>(changed, hs).
       let nb = nb\<lparr>nb_last_hashes := hs\<rparr>;
           n = n\<lparr>nd_neighbors := om_put key nb (nd_neighbors n),
             nd_store := if changed then put_neighbor nb (nd_store n) else nd_store n\<rparr>
       in bindE (clock_event_by_hash neighbor_last_hash (nd_store n)) (\<lambda>ce.
         case ce of
           None \<Rightarrow> Inr n
         | Some c \<Rightarrow>
           (let edge = \<lparr>ref_creator = nb_node_id nb, ref_hash = last_hash\<rparr>
            in if edge \<in> set (lce_referencing c) then Inr n
               else Inr (n\<lparr>nd_store := update_clock_event
                 (c\<lparr>lce_referencing := lce_referencing c @ [edge]\<rparr>) (nd_store n)\<rparr>))))"

section \<open>Forwarding a request\<close>

text \<open>\<open>router_->next_hops\<close>: the policy chosen by the constructor.\<close>

definition next_hops :: "NodePorts \<Rightarrow> NodeId \<Rightarrow> RouteContext \<Rightarrow> Node \<Rightarrow> NodeId list \<times> Node" where
  "next_hops p dest ctx n =
     (case cfg_discovery_routing (nd_config n) of
        static_shortest_path \<Rightarrow> (static_next_hops (nd_neighbors n) (nd_routes n) dest ctx, n)
      | flood \<Rightarrow>
        (let (hops, k) = flood_next_hops (nd_timed_routes n) (nd_id n) (load_clock_events (nd_store n))
           (nd_neighbors n) (p_salt p) (nd_draws n) (cfg_discovery_fanout (nd_config n)) dest ctx
         in (hops, n\<lparr>nd_draws := k\<rparr>)))"

definition send_chain_request :: "Neighbor \<Rightarrow> ChainRequest \<Rightarrow> Node \<Rightarrow> Node" where
  "send_chain_request nb m n = emit [Send (nb_node_id nb) (encode_chain_request (nd_id n) m)] n"

definition flood_chain_request :: "NodePorts \<Rightarrow> NodeId \<Rightarrow> RouteContext \<Rightarrow> ChainRequest \<Rightarrow> Node \<Rightarrow> Node" where
  "flood_chain_request p dest ctx base n =
     (let incoming = rq_path base;
          base = base\<lparr>rq_path := rq_path base @ [nd_id n]\<rparr>;
          (hops, n) = next_hops p dest ctx n
      in foldl (\<lambda>n hop.
           if hop = nd_id n \<or> hop \<in> set incoming then n
           else case neighbor_by_id hop n of None \<Rightarrow> n | Some nb \<Rightarrow> send_chain_request nb base n) n hops)"

section \<open>Retracing a response\<close>

definition send_chain_response :: "Neighbor \<Rightarrow> ChainResponse \<Rightarrow> Node \<Rightarrow> Node" where
  "send_chain_response nb m n = emit [Send (nb_node_id nb) (encode_chain_response (nd_id n) m)] n"

definition send_chain_response_retrace :: "NodeId \<Rightarrow> EventChain \<Rightarrow> NodeId list \<Rightarrow> Node \<Rightarrow> Node" where
  "send_chain_response_retrace originator chain path n =
     (if path = [] then n
      else case neighbor_by_id (last path) n of
        None \<Rightarrow> n
      | Some nb \<Rightarrow> send_chain_response nb
          \<lparr>rs_originator = originator, rs_chain = chain, rs_path = butlast path\<rparr> n)"

section \<open>Requests\<close>

text \<open>The four primitives in sequence, as both the creator and an intermediate node run them: \<open>None\<close>
  when one of them returns \<open>false\<close>.\<close>

definition enclose_for_neighbor :: "Neighbor \<Rightarrow> EventChain \<Rightarrow> Node \<Rightarrow> EventChain option result" where
  "enclose_for_neighbor nb ch n =
     bindE (add_local_lower_bound (nd_id n) (nd_store n) ch) (\<lambda>(ok, ch). if \<not> ok then Inr None else
     bindE (add_local_upper_bound (nd_store n) ch) (\<lambda>(ok, ch). if \<not> ok then Inr None else
     bindE (extend_lower_bound_for_neighbor (nd_id n) (nd_store n) nb ch) (\<lambda>(ok, ch). if \<not> ok then Inr None else
     bindE (extend_upper_bound_for_neighbor (nd_id n) (nd_store n) nb ch) (\<lambda>(ok, ch). if \<not> ok then Inr None else
       Inr (Some ch)))))"

text \<open>The fan-in cap: the entry of \<open>flood_seen_\<close> is created by its first use.\<close>

definition pass_forward_cap :: "NodePorts \<Rightarrow> ChainRequest \<Rightarrow> Node \<Rightarrow> bool \<times> Node" where
  "pass_forward_cap p m n =
     (if cfg_discovery_forward_cap (nd_config n) = 0 then (True, n)
      else
        let key = (rq_originator m, ref_hash (rq_event m));
            seen = (case om_find key (nd_flood_seen n) of
              None \<Rightarrow> \<lparr>fs_first_seen = 0, fs_forwards = 0\<rparr> | Some s \<Rightarrow> s);
            (seen, n) = (if fs_forwards seen = 0
              then let (now, n) = clock_now p n in (seen\<lparr>fs_first_seen := now\<rparr>, n) else (seen, n));
            n = n\<lparr>nd_flood_seen := om_put key seen (nd_flood_seen n)\<rparr>
        in if fs_forwards seen \<ge> cfg_discovery_forward_cap (nd_config n) then (False, n)
           else (True, n\<lparr>nd_flood_seen :=
             om_put key (seen\<lparr>fs_forwards := fs_forwards seen + 1\<rparr>) (nd_flood_seen n)\<rparr>))"

definition process_chain_request :: "NodePorts \<Rightarrow> Neighbor \<Rightarrow> ChainRequest \<Rightarrow> Node \<Rightarrow> Node result" where
  "process_chain_request p sender m n =
     (if ref_creator (rq_event m) = nd_id n
      then bindE (event_by_hash (ref_hash (rq_event m)) (nd_store n)) (\<lambda>local.
        case local of
          None \<Rightarrow> Inr n
        | Some e \<Rightarrow> bindE (enclose_for_neighbor sender (empty_chain_of e) n) (\<lambda>built.
            case built of
              None \<Rightarrow> Inr n
            | Some ch \<Rightarrow> Inr (send_chain_response_retrace (rq_originator m) ch (rq_path m) n)))
      else if nd_id n \<in> set (rq_path m) then Inr n
      else if rq_hop_limit m > 0 \<and> length (rq_path m) \<ge> unat (rq_hop_limit m) then Inr n
      else
        let (pass, n) = pass_forward_cap p m n
        in Inr (if pass
             then flood_chain_request p (ref_creator (rq_event m)) \<lparr>rc_range = rq_range m\<rparr> m n
             else n))"

section \<open>Responses\<close>

text \<open>Attaching our own clock events at both ends of a discovery's chain, then completing or
  aborting it. The primitives work on the chain in the table.\<close>

definition conclude_chain_discovery :: "NodePorts \<Rightarrow> EventHash \<Rightarrow> EventChainDiscovery \<Rightarrow> Node \<Rightarrow> Node result" where
  "conclude_chain_discovery p h d n =
     bindE (add_local_lower_bound (nd_id n) (nd_store n) (cd_chain d)) (\<lambda>(ok, ch).
       let d = d\<lparr>cd_chain := ch\<rparr>; n = set_chain_discovery h d n in
       if \<not> ok then abort_chain_discovery p h n
       else bindE (add_local_upper_bound (nd_store n) ch) (\<lambda>(ok, ch).
         let d = d\<lparr>cd_chain := ch\<rparr>; n = set_chain_discovery h d n in
         if \<not> ok then abort_chain_discovery p h n else complete_chain_discovery p h n))"

definition process_chain_response :: "NodePorts \<Rightarrow> Neighbor \<Rightarrow> ChainResponse \<Rightarrow> Node \<Rightarrow> Node result" where
  "process_chain_response p sender m n =
     (let h = ev_hash (ch_event (rs_chain m)) in
      if rs_originator m = nd_id n
      then (case om_find h (nd_chain_discoveries n) of
          None \<Rightarrow> Inr n
        | Some en \<Rightarrow>
          (if cd_state (en_discovery en) \<noteq> in_progress then Inr n
           else conclude_chain_discovery p h ((en_discovery en)\<lparr>cd_chain := rs_chain m\<rparr>)
             (set_chain_discovery h ((en_discovery en)\<lparr>cd_chain := rs_chain m\<rparr>) n)))
      else if rs_path m = [] then Inr n
      else bindE (enclose_for_neighbor sender (rs_chain m) n) (\<lambda>built.
        case built of
          None \<Rightarrow> Inr n
        | Some ch \<Rightarrow> Inr (send_chain_response_retrace (rs_originator m) ch (rs_path m) n)))"

section \<open>Dispatch\<close>

definition on_packet_received :: "NodePorts \<Rightarrow> bytes \<Rightarrow> Node \<Rightarrow> Node result" where
  "on_packet_received p datagram n =
     (case decode datagram of
        Inl _ \<Rightarrow> Inr n
      | Inr dg \<Rightarrow>
        (case om_find (dg_sender dg) (nd_neighbors n) of
           None \<Rightarrow> Inr n
         | Some nb \<Rightarrow>
           (case dg_payload dg of
              Clock_notification m \<Rightarrow> process_clock_event_notification (dg_sender dg) nb (cn_chain m)
                (cn_last_hash m) (cn_neighbor_last_hash m) n
            | Chain_request m \<Rightarrow> process_chain_request p nb m n
            | Chain_response m \<Rightarrow> process_chain_response p nb m n)))"

section \<open>Application interface\<close>

definition discover_event_chain ::
    "NodePorts \<Rightarrow> Event \<Rightarrow> TimeRange \<Rightarrow> ChainCallback \<Rightarrow> Node \<Rightarrow> Node result" where
  "discover_event_chain p event window callback n =
     (case om_find (ev_hash event) (nd_chain_discoveries n) of
        Some en \<Rightarrow>
          (case cd_state (en_discovery en) of
             in_progress \<Rightarrow> Inr (n\<lparr>nd_chain_discoveries := om_put (ev_hash event)
               (en\<lparr>en_callbacks := en_callbacks en @ [callback]\<rparr>) (nd_chain_discoveries n)\<rparr>)
           | aborted \<Rightarrow> call_aborted p event callback n
           | completed \<Rightarrow> call_completed p event (cd_chain (en_discovery en)) callback n)
      | None \<Rightarrow>
          (let (d, n) = insert_chain_discovery p event (nd_id n) window callback n;
               n = emit [Telemetry (Chain_discovery_started d)] n
           in if ev_creator event = nd_id n then conclude_chain_discovery p (ev_hash event) d n
              else Inr (flood_chain_request p (ev_creator event) \<lparr>rc_range = window\<rparr>
                \<lparr>rq_originator = nd_id n, rq_event = ref_of_event event, rq_range = window,
                  rq_hop_limit = cfg_discovery_hop_limit (nd_config n), rq_path = []\<rparr> n)))"

definition discover_event_bounds :: "NodePorts \<Rightarrow> Event \<Rightarrow> TimeRange \<Rightarrow> nat \<Rightarrow> Node \<Rightarrow> Node result" where
  "discover_event_bounds p event window callback n =
     (case om_find (ev_hash event) (nd_bounds_discoveries n) of
        Some en \<Rightarrow>
          (case bd_state (en_discovery en) of
             in_progress \<Rightarrow> Inr (n\<lparr>nd_bounds_discoveries := om_put (ev_hash event)
               (en\<lparr>en_callbacks := en_callbacks en @ [callback]\<rparr>) (nd_bounds_discoveries n)\<rparr>)
           | aborted \<Rightarrow> Inr (emit [Bounds_aborted callback event] n)
           | completed \<Rightarrow> Inr (emit [Bounds_completed callback event
               (bd_lower (en_discovery en)) (bd_upper (en_discovery en))] n))
      | None \<Rightarrow>
          (let (d, n) = insert_bounds_discovery p event callback n;
               n = emit [Telemetry (Bounds_discovery_started d)] n
           in discover_event_chain p event window Self n))"

definition discover_event_order :: "NodePorts \<Rightarrow> Event \<Rightarrow> Event \<Rightarrow> TimeRange \<Rightarrow> nat \<Rightarrow> Node \<Rightarrow> Node result" where
  "discover_event_order p event1 event2 window callback n =
     (let key = (ev_hash event1, ev_hash event2) in
      case om_find key (nd_order_discoveries n) of
        Some en \<Rightarrow>
          (case od_state (en_discovery en) of
             in_progress \<Rightarrow> Inr (n\<lparr>nd_order_discoveries := om_put key
               (en\<lparr>en_callbacks := en_callbacks en @ [callback]\<rparr>) (nd_order_discoveries n)\<rparr>)
           | aborted \<Rightarrow> Inr (emit [Order_aborted callback event1 event2] n)
           | completed \<Rightarrow> Inr (emit [Order_completed callback event1 event2
               (od_order (en_discovery en))] n))
      | None \<Rightarrow>
          (let (d, n) = insert_order_discovery p event1 event2 callback n;
               n = emit [Telemetry (Order_discovery_started d)] n
           in bindE (discover_event_chain p event1 window Self n) (discover_event_chain p event2 window Self)))"

section \<open>Timers\<close>

definition on_timer :: "NodePorts \<Rightarrow> Timer \<Rightarrow> Node \<Rightarrow> Node result" where
  "on_timer p t n =
     (case t of
        Clock_timer chain \<Rightarrow> bindE (create_clock_event p chain n) (\<lambda>n. Inr (schedule_clock_timer p chain n))
      | Purge_timer \<Rightarrow> bindE (purge_discoveries p n) (\<lambda>n. Inr (schedule_purge_timer p n)))"

section \<open>Everything that can happen to a node\<close>

datatype Input =
    Packet bytes
  | Fire Timer
  | Tick u32
  | Publish bytes
  | Discover_chain Event TimeRange nat
  | Discover_bounds Event TimeRange nat
  | Discover_order Event Event TimeRange nat
  | Add_neighbor NodeId
  | Learn_route NodeId NodeId
  | Learn_route_at NodeId NodeId TimeRange
  | Collect_garbage
  | Start

fun handle :: "NodePorts \<Rightarrow> Input \<Rightarrow> Node \<Rightarrow> Node result" where
  "handle p (Packet b) n = on_packet_received p b n"
| "handle p (Fire t) n = on_timer p t n"
| "handle p (Tick chain) n = create_clock_event p chain n"
| "handle p (Publish data) n = bindE (publish_event p data n) (\<lambda>(_, n). Inr n)"
| "handle p (Discover_chain e w k) n = discover_event_chain p e w (Client k) n"
| "handle p (Discover_bounds e w k) n = discover_event_bounds p e w k n"
| "handle p (Discover_order e f w k) n = discover_event_order p e f w k n"
| "handle p (Add_neighbor i) n = Inr (add_neighbor i n)"
| "handle p (Learn_route d h) n = Inr (learn_route d h n)"
| "handle p (Learn_route_at d h w) n = Inr (learn_route_at d h w n)"
| "handle p Collect_garbage n = Inr (gc n)"
| "handle p Start n = Inr (start p n)"

text \<open>A history of a node: inputs in the order they are handled, ended by the first error.\<close>

definition run :: "NodePorts \<Rightarrow> Input list \<Rightarrow> Node \<Rightarrow> Node result" where
  "run p inputs n = foldE (handle p) inputs n"

end
