(* ===== verification/Node_Invariant.thy ===== *)
theory Node_Invariant
  imports Node_Protocol
begin

text \<open>
  The invariant of a node's log. Its own clock events are authentic, each refers to the one before
  it on its chain and is not older than it, and no two of them share a hash, so that the walks that
  build chains end. The discovery tables are independent of all this: the handlers that only work
  on them leave the log, the overlay and the unreferenced events alone.
\<close>

section \<open>What the discovery tables do not touch\<close>

type_synonym working_set =
  "NodeId \<times> NodeConfig \<times> nat \<times> InMemoryStore \<times> (NodeId, Neighbor) omap \<times> Event list list \<times>
   (NodeId, NodeId) omap \<times> TimedRouteTable"

definition working :: "Node \<Rightarrow> working_set" where
  "working n = (nd_id n, nd_config n, nd_num_chains n, nd_store n, nd_neighbors n, nd_unreferenced n,
     nd_routes n, nd_timed_routes n)"

named_theorems frame \<open>operations that leave the log and the overlay alone\<close>

lemma working_simps [simp]:
  "working (emit os n) = working n"
  "working (n\<lparr>nd_reads := k\<rparr>) = working n" "working (n\<lparr>nd_draws := k\<rparr>) = working n"
  "working (n\<lparr>nd_armed := k\<rparr>) = working n" "working (n\<lparr>nd_flood_seen := f\<rparr>) = working n"
  "working (n\<lparr>nd_chain_discoveries := c\<rparr>) = working n"
  "working (n\<lparr>nd_bounds_discoveries := b\<rparr>) = working n"
  "working (n\<lparr>nd_order_discoveries := d\<rparr>) = working n"
  "working (n\<lparr>nd_clock_timers := ts\<rparr>) = working n" "working (n\<lparr>nd_purge_timer := t\<rparr>) = working n"
  by (simp_all add: working_def emit_def)

lemma working_clock_now [simp]: "working (snd (clock_now p n)) = working n"
  by (simp add: clock_now_def)

abbreviation framed :: "Node \<Rightarrow> Node result \<Rightarrow> bool" where
  "framed n \<equiv> post (\<lambda>m. working m = working n)"

lemma frame_fold:
  assumes "\<And>x m. x \<in> set xs \<Longrightarrow> framed m (f x m)"
  shows "framed n (foldE f xs n)"
proof (rule post_foldE)
  show "framed n (f x m)" if "x \<in> set xs" "working m = working n" for x m
    using assms [of x m] that by simp
qed simp

lemma frame_bind:
  assumes "framed n r" "\<And>m. framed m (f m)"
  shows "framed n (bindE r f)"
proof (rule post_bind [OF assms(1)])
  show "framed n (f m)" if "working m = working n" for m
    using assms(2) [of m] that by simp
qed

lemma frame_bookkeeping [frame]:
  "framed n (abort_bounds_discovery p h n)" "framed n (complete_bounds_discovery p h n)"
  "framed n (abort_order_discovery p h1 h2 n)" "framed n (complete_order_discovery p h1 h2 n)"
  by (auto simp: abort_bounds_discovery_def complete_bounds_discovery_def abort_order_discovery_def
      complete_order_discovery_def clock_now_def Let_def split: option.split)

lemma working_set [simp]:
  "working (set_order key ord n) = working n" "working (set_chain_discovery h d n) = working n"
  by (auto simp: set_order_def set_chain_discovery_def split: option.split)

lemma framed_upto: "working n = working n0 \<Longrightarrow> framed n r \<Longrightarrow> framed n0 r"
  by simp

lemma frame_finish_bounds [frame]: "framed n (finish_bounds p ch n)"
  by (auto simp: finish_bounds_def Let_def split: option.split intro!: framed_upto [OF _ frame_bookkeeping(2)])

lemma frame_finish_order [frame]: "framed n (finish_order p ch key n)"
proof -
  have "framed n (complete_order_discovery p (fst key) (snd key) (set_order key ord n))" for ord
    by (rule framed_upto [OF _ frame_bookkeeping(4)]) simp
  then show ?thesis
    by (auto simp: finish_order_def Let_def split: option.split intro!: post_bind_any)
qed

lemma frame_on_chain [frame]: "framed n (on_chain_completed p ch n)" "framed n (on_chain_aborted p e n)"
proof -
  show "framed n (on_chain_completed p ch n)"
    unfolding on_chain_completed_def by (intro frame_bind frame_fold frame)
  have "framed m (abandon_order p h key m)" for h key m
    by (auto simp: abandon_order_def split: option.split intro: frame)
  then show "framed n (on_chain_aborted p e n)"
    unfolding on_chain_aborted_def by (intro frame_bind frame_fold) (auto intro: frame)
qed

lemma frame_call [frame]: "framed n (call_completed p e ch cb n)" "framed n (call_aborted p e cb n)"
  by (auto simp: call_completed_def call_aborted_def split: ChainCallback.split intro: frame)

lemma frame_abort_chain [frame]: "framed n (abort_chain_discovery p h n)"
  by (auto simp: abort_chain_discovery_def clock_now_def Let_def split: option.split
      intro!: frame_bind framed_upto [OF _ frame_fold] frame)

lemma frame_complete_chain [frame]: "framed n (complete_chain_discovery p h n)"
  by (auto simp: complete_chain_discovery_def clock_now_def Let_def split: option.split
      intro!: frame_bind framed_upto [OF _ frame_fold] frame)

lemma frame_conclude [frame]: "framed n (conclude_chain_discovery p h d n)"
  by (auto simp: conclude_chain_discovery_def Let_def intro!: post_bind_any
      framed_upto [OF _ frame_abort_chain] framed_upto [OF _ frame_complete_chain])

lemma frame_purge_folds:
  "framed n (foldE (purge_chain p limit) hs n)" "framed n (foldE (purge_bounds p limit) hs n)"
  "framed n (foldE (purge_order p limit) keys n)"
  by (auto simp: purge_chain_def purge_bounds_def purge_order_def Let_def split: option.split
      intro!: frame_fold frame_bind frame)

lemma frame_purge [frame]: "framed n (purge_discoveries p n)"
  unfolding purge_discoveries_def clock_now_def Let_def prod.case
  by (rule post_bind_any, rule framed_upto [of "n\<lparr>nd_reads := Suc (nd_reads n)\<rparr>"], simp)
    (intro frame_bind frame_purge_folds, simp)

lemma working_next_hops: "next_hops p d ctx n = (hops, m) \<Longrightarrow> working m = working n"
  by (auto simp: next_hops_def Let_def split: DiscoveryRouting.splits prod.splits)

lemma working_foldl: "(\<And>m x. working (f m x) = working m) \<Longrightarrow> working (foldl f n xs) = working n"
  by (induction xs arbitrary: n) simp_all

lemma working_send [simp]:
  "working (send_chain_request nb m n) = working n" "working (send_chain_response nb r n) = working n"
  "working (send_clock_event_notification nb c n) = working n"
  "working (send_chain_response_retrace j ch path n) = working n"
  by (simp_all add: send_chain_request_def send_chain_response_def send_clock_event_notification_def
      send_chain_response_retrace_def Let_def split: option.split)

lemma working_flood [simp]: "working (flood_chain_request p d ctx m n) = working n"
proof -
  obtain hops n' where h: "next_hops p d ctx n = (hops, n')" by fastforce
  have "working (foldl (\<lambda>n hop. if hop = nd_id n \<or> hop \<in> set (rq_path m) then n
      else case neighbor_by_id hop n of None \<Rightarrow> n | Some nb \<Rightarrow> send_chain_request nb b n) n' hops) =
      working n'" for b
    by (rule working_foldl) (simp split: option.split)
  then show ?thesis
    using working_next_hops [OF h] by (simp add: flood_chain_request_def Let_def h)
qed

lemma working_forward_cap: "pass_forward_cap p m n = (b, n') \<Longrightarrow> working n' = working n"
  by (auto simp: pass_forward_cap_def clock_now_def Let_def split: if_splits option.splits)

lemma frame_chain_request [frame]: "framed n (process_chain_request p nb m n)"
proof (cases "ref_creator (rq_event m) = nd_id n")
  case True
  then show ?thesis
    by (auto simp: process_chain_request_def intro!: post_bind_any split: option.splits)
next
  case False
  obtain b n' where "pass_forward_cap p m n = (b, n')" by fastforce
  then show ?thesis
    using False working_forward_cap by (simp add: process_chain_request_def Let_def)
qed

lemma frame_chain_response [frame]: "framed n (process_chain_response p nb m n)"
  by (auto simp: process_chain_response_def Let_def split: option.split
      intro!: post_bind_any framed_upto [OF _ frame_conclude])

lemma frame_discover_chain [frame]: "framed n (discover_event_chain p e w cb n)"
  by (auto simp: discover_event_chain_def insert_chain_discovery_def clock_now_def Let_def
      split: option.split DiscoveryState.split intro!: frame framed_upto [OF _ frame_conclude])

lemma frame_discover [frame]:
  "framed n (discover_event_bounds p e w k n)" "framed n (discover_event_order p e f w k n)"
proof -
  show "framed n (discover_event_bounds p e w k n)"
    by (auto simp: discover_event_bounds_def insert_bounds_discovery_def clock_now_def Let_def
      split: option.split DiscoveryState.split intro!: framed_upto [OF _ frame_discover_chain])
  show "framed n (discover_event_order p e f w k n)"
    by (auto simp: discover_event_order_def insert_order_discovery_def clock_now_def Let_def
      split: option.split DiscoveryState.split
      intro!: frame_bind frame_discover_chain framed_upto [OF _ frame_discover_chain])
qed

lemma working_schedule [simp]:
  "working (schedule_clock_timer p chain n) = working n" "working (schedule_purge_timer p n) = working n"
  by (simp_all add: schedule_clock_timer_def schedule_purge_timer_def schedule_after_def Let_def)

lemma working_start [simp]: "working (start p n) = working n"
proof -
  have "working (foldl (\<lambda>n chain. if sint (cc_interval (cfg_chains (nd_config n) ! chain)) > 0
      then schedule_clock_timer p (of_nat chain) n else n) n xs) = working n" for xs
    by (rule working_foldl) simp
  then show ?thesis by (simp add: start_def Let_def)
qed

section \<open>Appending to the log\<close>

text \<open>The hash of the new clock event occurs nowhere: not in the log, not among its references, not
  in the clock event itself. A salted collision-resistant hash gives this.\<close>

definition fresh_clock :: "LocalClockEvent \<Rightarrow> InMemoryStore \<Rightarrow> bool" where
  "fresh_clock c s \<longleftrightarrow> ce_hash c \<notin> ref_hash ` set (ce_refs c) \<and>
     (\<forall>(q, d) \<in> set (st_clock_events s). ce_hash d \<noteq> ce_hash c \<and> ce_hash c \<notin> ref_hash ` set (ce_refs d))"

lemma fresh_clockD:
  assumes "fresh_clock c s"
  shows "r \<in> set (ce_refs c) \<Longrightarrow> ref_hash r \<noteq> ce_hash c" "live s q d \<Longrightarrow> ce_hash d \<noteq> ce_hash c"
    "live s q d \<Longrightarrow> r \<in> set (ce_refs d) \<Longrightarrow> ref_hash r \<noteq> ce_hash c"
  using assms by (force simp: fresh_clock_def)+

lemma log_acyclic_append:
  assumes "clocks_ok s" "log_acyclic s" "fresh_clock c s" "append_clock_event c s = (q, t)"
  shows "log_acyclic t"
  unfolding log_acyclic_def
proof (intro allI impI, elim bexE)
  fix a x b y r
  assume live: "live t a x" "live t b y" and r: "r \<in> set (ce_refs x)" "ref_hash r = ce_hash y"
  note f = append_clock_fields [OF assms(1,4)] and new = fresh_clockD [OF assms(3)]
  have old: "live s a x \<or> a = q \<and> x = c" "live s b y \<or> b = q \<and> y = c" using live by (auto simp: f(3))
  have "y \<noteq> c \<or> b \<noteq> q" using old(1) r new(1,3) by blast
  then have y: "live s b y" using old(2) by blast
  then have "b < q" using clocks_okD(2) [OF assms(1)] f(1) by simp
  moreover have "b < a" if "live s a x"
    using assms(2) that y r unfolding log_acyclic_def by blast
  ultimately show "b < a" using old(1) by blast
qed

lemma log_ok_append:
  assumes "log_ok i verify s" "fresh_clock c s" "ce_creator c = i"
    "authentic verify (link_of_clock (slice c))"
    and "\<And>q d. chain_of (ce_chain c) (st_clock_events s) \<noteq> [] \<Longrightarrow>
      last (chain_of (ce_chain c) (st_clock_events s)) = (q, d) \<Longrightarrow>
      ref_of_clock d \<in> set (ce_refs c) \<and> sint (ce_timestamp d) \<le> sint (ce_timestamp c)"
  shows "log_ok i verify (snd (append_clock_event c s))"
proof -
  obtain q t where a: "append_clock_event c s = (q, t)" by fastforce
  note f = append_clock_fields [OF log_okD(2) [OF assms(1)] a]
  have "store_ok t" using mem.append_clock_ok [OF log_okD(1) [OF assms(1)], of c] a by simp
  moreover have "store_indexed t"
    using append_clock_indexed [OF log_okD(2,3) [OF assms(1)] a] fresh_clockD(2) [OF assms(2)] by force
  moreover have "log_acyclic t"
    by (rule log_acyclic_append [OF log_okD(2,4) [OF assms(1)] assms(2) a])
  moreover have "log_own i t"
    using log_okD(5) [OF assms(1)] assms(3) by (auto simp: log_own_def f(3))
  moreover have "log_authentic verify t"
    using log_okD(6) [OF assms(1)] assms(4) by (auto simp: log_authentic_def f(3))
  moreover have "successively succeeds (chain_of l (st_clock_events t))" for l
  proof (cases "l = ce_chain c")
    case True
    then have ch: "chain_of l (st_clock_events t) = chain_of l (st_clock_events s) @ [(q, c)]"
      by (simp add: f(3)) (simp add: chain_of_def)
    show ?thesis
      unfolding ch using log_okD(7) [OF assms(1), of l] assms(5) True
      by (auto simp: successively_append_iff succeeds_def prod_eq_iff)
  next
    case False
    then have "chain_of l (st_clock_events t) = chain_of l (st_clock_events s)"
      by (simp add: f(3)) (simp add: chain_of_def)
    then show ?thesis using log_okD(7) [OF assms(1)] by simp
  qed
  ultimately show ?thesis using a by (simp add: log_ok_def log_chained_def)
qed

section \<open>Pruning and reverse links\<close>

text \<open>A log whose entries are entries of another, up to the learned reverse links.\<close>

definition within :: "InMemoryStore \<Rightarrow> InMemoryStore \<Rightarrow> bool" where
  "within t s \<longleftrightarrow> (\<forall>q c. live t q c \<longrightarrow> (\<exists>d. live s q d \<and> slice c = slice d))"

lemma slice_eqD:
  assumes "slice c = slice d"
  shows "ce_hash c = ce_hash d" "ce_refs c = ce_refs d" "ce_creator c = ce_creator d"
    "ce_chain c = ce_chain d" "ce_timestamp c = ce_timestamp d"
  using assms by (metis slice_simps)+

lemma log_within:
  assumes "log_ok i verify s" "within t s" "store_ok t" "store_indexed t" "log_chained t"
  shows "log_ok i verify t"
proof -
  have "log_acyclic t"
    unfolding log_acyclic_def
  proof (intro allI impI)
    fix a x b y
    assume "live t a x" "live t b y" and r: "\<exists>r \<in> set (ce_refs x). ref_hash r = ce_hash y"
    then obtain x' y' where "live s a x'" "slice x = slice x'" "live s b y'" "slice y = slice y'"
      using assms(2) unfolding within_def by metis
    then show "b < a"
      using log_okD(4) [OF assms(1)] r slice_eqD(1,2) unfolding log_acyclic_def by metis
  qed
  moreover have "log_own i t" "log_authentic verify t"
    using assms(2) log_okD(5,6) [OF assms(1)] slice_eqD(3)
    unfolding log_own_def log_authentic_def within_def by metis+
  ultimately show ?thesis using assms(3-5) by (simp add: log_ok_def)
qed

lemma successively_drop: "successively P xs \<Longrightarrow> successively P (drop k xs)"
  by (metis append_take_drop_id successively_append_iff)

lemma log_ok_prune:
  assumes "log_ok i verify s"
  shows "log_ok i verify (prune_chain l keep s)"
proof (rule log_within [OF assms])
  let ?t = "prune_chain l keep s"
  note c = log_okD(2) [OF assms] and p = prune_chain_spec [OF log_okD(2) [OF assms]]
  show "within ?t s" by (auto simp: within_def p(2))
  show "store_ok ?t" "store_indexed ?t" using store_ok_prune log_okD(1,3) [OF assms] p(3) by auto
  show "log_chained ?t"
    unfolding log_chained_def
  proof
    fix l'
    show "successively succeeds (chain_of l' (st_clock_events ?t))"
    proof (cases "l' = l \<and> keep > 0")
      case True
      then show ?thesis
        using chain_of_prune_same [OF clocks_okD(1) [OF c], of keep l] log_okD(7) [OF assms]
        by (simp add: p(2) successively_drop)
    next
      case False
      then have "chain_of l' (st_clock_events ?t) = chain_of l' (st_clock_events s)"
        using chain_of_prune_other [OF _ clocks_okD(1) [OF c]]
        by (cases "l' = l") (simp_all add: p(2) overdue_def case_prod_beta)
      then show ?thesis using log_okD(7) [OF assms] by simp
    qed
  qed
qed

lemma log_ok_cong:
  assumes "log_ok i verify s" "store_ok t" "st_clock_events t = st_clock_events s" "st_clock_seq t = st_clock_seq s"
  shows "log_ok i verify t"
  by (rule log_within [OF assms(1)])
    (use assms log_okD(3,7) [OF assms(1)] in \<open>auto simp: within_def store_indexed_def log_chained_def\<close>)

lemma log_ok_overlay:
  assumes "log_ok i verify s"
  shows "log_ok i verify (put_neighbor nb s)" "log_ok i verify (put_route d h s)"
    "log_ok i verify (put_timed_routes tr s)" "log_ok i verify (snd (append_event e s))"
proof -
  have cong: "clocks_ok (put_neighbor nb s)" "clocks_ok (put_route d h s)" "clocks_ok (put_timed_routes tr s)"
    using log_okD(2) [OF assms] clocks_ok_cong [of "put_neighbor nb s" s] clocks_ok_cong [of "put_route d h s" s]
      clocks_ok_cong [of "put_timed_routes tr s" s]
    by (simp_all add: put_neighbor_def put_route_def put_timed_routes_def)
  show "log_ok i verify (put_neighbor nb s)" "log_ok i verify (put_route d h s)"
    "log_ok i verify (put_timed_routes tr s)"
    by (rule log_ok_cong [OF assms]; use log_okD(1) [OF assms] cong in
      \<open>simp add: store_ok_def events_ok_def put_neighbor_def put_route_def put_timed_routes_def\<close>)+
  show "log_ok i verify (snd (append_event e s))"
    using append_event_ok [OF log_okD(1) [OF assms], of e]
    by (rule log_ok_cong [OF assms]) (simp_all add: append_event_def Let_def)
qed

lemma slices_put:
  assumes "om_ok cs" "om_find q cs = Some c" "slice d = slice c"
  shows "map (apsnd slice) (om_put q d cs) = map (apsnd slice) cs"
  using assms
proof (induction cs)
  case (Cons x cs)
  then show ?case by (cases x) (fastforce simp: om_ok_Cons dest: om_find_in)
qed simp

lemma successively_slices: "successively succeeds cs \<longleftrightarrow> successively succeeds (map (apsnd slice) cs)"
  by (simp add: successively_map succeeds_def)

lemma chain_of_slices:
  "map (apsnd slice) (chain_of l cs) = filter (\<lambda>(q, c). ce_chain c = l) (map (apsnd slice) cs)"
  by (induction cs) (auto simp: chain_of_def)

lemma log_ok_update:
  assumes "log_ok i verify s" "clock_event_by_hash h s = Inr (Some c)" "slice d = slice c"
  shows "log_ok i verify (update_clock_event d s)"
proof (rule log_within [OF assms(1)])
  let ?t = "update_clock_event d s"
  note cs = log_okD(2) [OF assms(1)]
  have h: "clock_event_by_hash (ce_hash d) s = Inr (Some c)"
    using by_hash_cases [OF cs, of h] assms(2) slice_eqD(1) [OF assms(3)] by (metis Inr_inject option.inject option.simps(3))
  have "same_links d c" using slice_eqD [OF assms(3)] by (simp add: same_links_def)
  note u = update_clock_spec [OF cs h this]
  from u(3) obtain q where q: "om_find q (st_clock_events s) = Some c"
    "st_clock_events ?t = om_put q d (st_clock_events s)" by blast
  show "store_ok ?t"
    using log_okD(1) [OF assms(1)] u(1)
    by (auto simp: store_ok_def events_ok_def update_clock_event_def split: option.splits)
  show "store_indexed ?t" using u(2) log_okD(3) [OF assms(1)] .
  show "within ?t s"
    using om_find_in [OF q(1)] assms(3)
    by (auto simp: within_def q(2) set_om_put [OF clocks_okD(1) [OF cs]])
  have "successively succeeds (chain_of l (st_clock_events ?t))" for l
    using log_okD(7) [OF assms(1), of l] unfolding successively_slices [of "chain_of l _"]
    by (simp add: chain_of_slices q(2) slices_put [OF clocks_okD(1) [OF cs] q(1) assms(3)])
  then show "log_chained ?t" by (simp add: log_chained_def)
qed

section \<open>The invariant of a node\<close>

definition node_ok :: "NodePorts \<Rightarrow> Node \<Rightarrow> bool" where
  "node_ok p n \<longleftrightarrow> log_ok (nd_id n) (p_verify p) (nd_store n) \<and> om_ok (nd_neighbors n) \<and>
     length (nd_unreferenced n) = nd_num_chains n \<and> nd_num_chains n = max 1 (length (cfg_chains (nd_config n)))"

lemma node_ok_working: "working m = working n \<Longrightarrow> node_ok p m \<longleftrightarrow> node_ok p n"
  by (simp add: node_ok_def working_def)

lemma node_ok_framed: "node_ok p n \<Longrightarrow> framed n r \<Longrightarrow> post (node_ok p) r"
  by (cases r) (simp_all add: node_ok_def working_def)

text \<open>The signer accepts its own signatures.\<close>

definition signs_as :: "NodePorts \<Rightarrow> NodeId \<Rightarrow> bool" where
  "signs_as p i \<longleftrightarrow> (\<forall>h. p_verify p h (p_sign p h) i)"

definition tip_of :: "u32 \<Rightarrow> InMemoryStore \<Rightarrow> LocalClockEvent option" where
  "tip_of l s = (if chain_of l (st_clock_events s) = [] then None
     else Some (snd (last (chain_of l (st_clock_events s)))))"

lemma latest_tip_of: "clocks_ok s \<Longrightarrow> latest_clock_event_on l s = Inr (tip_of l s)"
  by (simp add: latest_on_spec tip_of_def)

text \<open>The clock event a tick makes, and everything else it leaves alone.\<close>

lemma insert_clock_spec:
  assumes "node_ok p n" "insert_clock_event p chain n = Inr (c, n')"
  shows "ce_creator c = nd_id n" "ce_chain c = chain" "lce_referencing c = []"
    "ce_hash c = calculate_clock_event_hash c" "ce_signature c = p_sign p (ce_hash c)"
    "ce_refs c = (case tip_of chain (nd_store n) of None \<Rightarrow> [] | Some d \<Rightarrow> [ref_of_clock d]) @
       neighbor_tips chain (nd_neighbors n) @ map ref_of_event (nd_unreferenced n ! unat chain)"
    "tip_of chain (nd_store n) = Some d \<Longrightarrow> sint (ce_timestamp d) \<le> sint (ce_timestamp c)"
    "n' = n\<lparr>nd_draws := Suc (nd_draws n), nd_reads := Suc (nd_reads n),
       nd_store := snd (append_clock_event c (nd_store n))\<rparr>"
    "unat chain < length (nd_unreferenced n)"
  using assms(2) latest_tip_of [OF log_okD(2) [OF conjunct1 [OF assms(1) [unfolded node_ok_def]]], of chain]
  by (auto simp: insert_clock_event_def next_salt_def clock_now_def Let_def
      calculate_clock_event_hash_def clock_event_preimage_def split: if_splits option.splits)

lemma insert_clock_total:
  assumes "node_ok p n" "unat chain < nd_num_chains n"
  shows "\<exists>c n'. insert_clock_event p chain n = Inr (c, n')"
proof -
  have "latest_clock_event_on chain (nd_store n) = Inr (tip_of chain (nd_store n))"
    "unat chain < length (nd_unreferenced n)"
    using assms latest_tip_of log_okD(2) unfolding node_ok_def by metis+
  then show ?thesis
    by (simp add: insert_clock_event_def next_salt_def clock_now_def Let_def)
qed

lemma insert_clock_log_ok:
  assumes "node_ok p n" "signs_as p (nd_id n)" "insert_clock_event p chain n = Inr (c, n')"
    "fresh_clock c (nd_store n)"
  shows "log_ok (nd_id n) (p_verify p) (snd (append_clock_event c (nd_store n)))"
proof (rule log_ok_append)
  note c = insert_clock_spec [OF assms(1,3)]
  show "log_ok (nd_id n) (p_verify p) (nd_store n)" using assms(1) by (simp add: node_ok_def)
  show "fresh_clock c (nd_store n)" "ce_creator c = nd_id n" using assms(4) c(1) by auto
  show "authentic (p_verify p) (link_of_clock (slice c))"
    using assms(2) c(1,4,5)
    by (simp add: authentic_def link_of_clock_def ref_of_clock_def signs_as_def
        calculate_clock_event_hash_def clock_event_preimage_def)
  fix q d
  assume "chain_of (ce_chain c) (st_clock_events (nd_store n)) \<noteq> []"
    "last (chain_of (ce_chain c) (st_clock_events (nd_store n))) = (q, d)"
  then have "tip_of chain (nd_store n) = Some d" using c(2) by (simp add: tip_of_def)
  then show "ref_of_clock d \<in> set (ce_refs c) \<and> sint (ce_timestamp d) \<le> sint (ce_timestamp c)"
    using c(6,7) by simp
qed

text \<open>What a tick leaves in the store once the ring is pruned.\<close>

definition retained :: "NodeConfig \<Rightarrow> u32 \<Rightarrow> InMemoryStore \<Rightarrow> InMemoryStore" where
  "retained config chain s =
     (if unat chain < length (cfg_chains config) \<and> cc_keep (cfg_chains config ! unat chain) > 0
      then prune_chain chain (cc_keep (cfg_chains config ! unat chain)) s else s)"

lemma create_clock_event_spec:
  assumes "node_ok p n" "insert_clock_event p chain n = Inr (c, n1)"
  shows "\<exists>n2. create_clock_event p chain n = Inr n2 \<and>
    working n2 = working (n\<lparr>nd_store := retained (nd_config n) chain (snd (append_clock_event c (nd_store n))),
      nd_unreferenced := (nd_unreferenced n)[unat chain := []]\<rparr>)"
proof -
  let ?u = "emit [Telemetry (Clock_event_created c)] (n1\<lparr>nd_unreferenced := (nd_unreferenced n1)[unat chain := []]\<rparr>)"
  let ?f = "foldl (\<lambda>n (i, nb). send_clock_event_notification nb c n) ?u (nd_neighbors ?u)"
  have "working ?f = working ?u" by (rule working_foldl) (simp split: prod.split)
  then show ?thesis
    using insert_clock_spec(8) [OF assms]
    by (simp add: create_clock_event_def assms(2) Let_def retained_def working_def emit_def)
qed

lemma node_ok_create:
  assumes "node_ok p n" "signs_as p (nd_id n)"
    and "\<And>c n'. insert_clock_event p chain n = Inr (c, n') \<Longrightarrow> fresh_clock c (nd_store n)"
  shows "post (node_ok p) (create_clock_event p chain n)"
proof (cases "insert_clock_event p chain n")
  case (Inr x)
  then obtain c n1 where x: "insert_clock_event p chain n = Inr (c, n1)" by (cases x) auto
  obtain n2 where n2: "create_clock_event p chain n = Inr n2"
    "working n2 = working (n\<lparr>nd_store := retained (nd_config n) chain (snd (append_clock_event c (nd_store n))),
      nd_unreferenced := (nd_unreferenced n)[unat chain := []]\<rparr>)"
    using create_clock_event_spec [OF assms(1) x] by blast
  have "node_ok p (n\<lparr>nd_store := retained (nd_config n) chain (snd (append_clock_event c (nd_store n))),
      nd_unreferenced := (nd_unreferenced n)[unat chain := []]\<rparr>)"
    using assms(1) insert_clock_log_ok [OF assms(1,2) x assms(3) [OF x]]
    by (simp add: node_ok_def retained_def log_ok_prune)
  then show ?thesis using n2(1) node_ok_working [OF n2(2)] by simp
qed (simp add: create_clock_event_def)

section \<open>Every input keeps the invariant\<close>

lemma node_okD:
  assumes "node_ok p n"
  shows "log_ok (nd_id n) (p_verify p) (nd_store n)" "clocks_ok (nd_store n)" "store_ok (nd_store n)"
    "om_ok (nd_neighbors n)" "length (nd_unreferenced n) = nd_num_chains n"
    "nd_num_chains n = max 1 (length (cfg_chains (nd_config n)))"
  using assms log_okD(1,2) unfolding node_ok_def by blast+

lemma node_ok_store:
  "node_ok p n \<Longrightarrow> log_ok (nd_id n) (p_verify p) s \<Longrightarrow> node_ok p (n\<lparr>nd_store := s\<rparr>)"
  by (simp add: node_ok_def)

lemma node_ok_publish:
  assumes "node_ok p n"
  shows "post (\<lambda>(e, m). node_ok p m) (publish_event p data n)"
  using assms log_ok_overlay(4) [OF node_okD(1) [OF assms]]
  by (auto simp: publish_event_def insert_event_def next_salt_def Let_def emit_def node_ok_def
      intro!: post_bind_any)

lemma node_ok_overlay:
  assumes "node_ok p n"
  shows "node_ok p (add_neighbor i n)" "node_ok p (learn_route d h n)" "node_ok p (learn_route_at d h w n)"
  using assms log_ok_overlay(1-3) [OF node_okD(1) [OF assms]]
  by (auto simp: add_neighbor_def learn_route_def learn_route_at_def Let_def node_ok_def split: option.split)

lemma node_ok_gc: "node_ok p n \<Longrightarrow> node_ok p (gc n)"
proof -
  have "node_ok p n \<Longrightarrow> node_ok p (foldl (\<lambda>n chain.
     if cc_keep (cfg_chains (nd_config n) ! chain) > 0
     then n\<lparr>nd_store := prune_chain (of_nat chain) (cc_keep (cfg_chains (nd_config n) ! chain)) (nd_store n)\<rparr>
     else n) n xs)" for xs
    by (induction xs arbitrary: n) (simp_all add: node_ok_store log_ok_prune node_okD(1))
  then show "node_ok p n \<Longrightarrow> node_ok p (gc n)" by (simp add: gc_def)
qed

lemma node_ok_learn:
  assumes "node_ok p m" "clock_event_by_hash h (nd_store m) = Inr ce"
  shows "post (node_ok p) (case ce of None \<Rightarrow> Inr m | Some c \<Rightarrow>
    (if edge \<in> set (lce_referencing c) then Inr m else Inr (m\<lparr>nd_store := update_clock_event
       (c\<lparr>lce_referencing := lce_referencing c @ [edge]\<rparr>) (nd_store m)\<rparr>)))"
proof (cases ce)
  case (Some c)
  have "log_ok (nd_id m) (p_verify p) (update_clock_event (c\<lparr>lce_referencing := rs\<rparr>) (nd_store m))" for rs
    using assms(2) Some
    by (intro log_ok_update [OF node_okD(1) [OF assms(1)]]) (auto simp: ClockEvent.truncate_def)
  then show ?thesis using Some assms(1) by (simp add: node_ok_store)
qed (simp add: assms(1))

lemma node_ok_notification:
  assumes "node_ok p n"
  shows "post (node_ok p) (process_clock_event_notification key nb l h h' n)"
proof -
  have "node_ok p (n\<lparr>nd_neighbors := om_put key nb' (nd_neighbors n),
      nd_store := if b then put_neighbor nb' (nd_store n) else nd_store n\<rparr>)" for nb' b
    using assms log_ok_overlay(1) [OF node_okD(1) [OF assms]] by (simp add: node_ok_def)
  note l = node_ok_learn [OF this]
  show ?thesis
    unfolding process_clock_event_notification_def Let_def split_beta
    by (rule post_bind_any, rule post_bind_any, rule l)
qed

lemma node_ok_packet:
  assumes "node_ok p n"
  shows "post (node_ok p) (on_packet_received p b n)"
  using node_ok_notification [OF assms] node_ok_framed [OF assms] frame
  by (simp add: on_packet_received_def assms split: sum.split option.split Payload.split)

lemma node_ok_timers [simp]:
  "node_ok p (schedule_clock_timer q chain n) \<longleftrightarrow> node_ok p n" "node_ok p (schedule_purge_timer q n) \<longleftrightarrow> node_ok p n"
  "node_ok p (start q n) \<longleftrightarrow> node_ok p n"
  by (rule node_ok_working, simp)+

text \<open>The event and the clock event an input makes, if it makes one. Their hashes are fresh when they
  do not occur in the log yet.\<close>

fun new_event :: "NodePorts \<Rightarrow> Input \<Rightarrow> Node \<Rightarrow> Event option" where
  "new_event p (Publish data) n = (case publish_event p data n of Inl _ \<Rightarrow> None | Inr (e, _) \<Rightarrow> Some e)"
| "new_event p _ n = None"

fun new_clock_event :: "NodePorts \<Rightarrow> Input \<Rightarrow> Node \<Rightarrow> LocalClockEvent option" where
  "new_clock_event p (Tick chain) n = (case insert_clock_event p chain n of Inl _ \<Rightarrow> None | Inr (c, _) \<Rightarrow> Some c)"
| "new_clock_event p (Fire (Clock_timer chain)) n =
     (case insert_clock_event p chain n of Inl _ \<Rightarrow> None | Inr (c, _) \<Rightarrow> Some c)"
| "new_clock_event p _ n = None"

definition fresh_event :: "Event \<Rightarrow> InMemoryStore \<Rightarrow> bool" where
  "fresh_event e s \<longleftrightarrow> (\<forall>(q, c) \<in> set (st_clock_events s). ev_hash e \<notin> ref_hash ` set (ce_refs c))"

definition fresh_input :: "NodePorts \<Rightarrow> Input \<Rightarrow> Node \<Rightarrow> bool" where
  "fresh_input p inp n \<longleftrightarrow>
     (case new_clock_event p inp n of None \<Rightarrow> True | Some c \<Rightarrow> fresh_clock c (nd_store n)) \<and>
     (case new_event p inp n of None \<Rightarrow> True | Some e \<Rightarrow> fresh_event e (nd_store n))"

lemma node_ok_handle:
  assumes "node_ok p n" "signs_as p (nd_id n)" "fresh_input p inp n"
  shows "post (node_ok p) (handle p inp n)"
proof (cases inp)
  case (Fire t)
  show ?thesis
  proof (cases t)
    case (Clock_timer chain)
    have "post (node_ok p) (create_clock_event p chain n)"
      using assms(3) Fire Clock_timer by (intro node_ok_create [OF assms(1,2)]) (simp add: fresh_input_def)
    then show ?thesis
      using Fire Clock_timer
      by (auto simp: on_timer_def intro: post_bind)
  next
    case Purge_timer
    have "post (node_ok p) (purge_discoveries p n)" by (rule node_ok_framed [OF assms(1) frame_purge])
    then show ?thesis
      using Fire Purge_timer
      by (auto simp: on_timer_def intro: post_bind)
  qed
next
  case (Tick chain)
  have "post (node_ok p) (create_clock_event p chain n)"
    using assms(3) Tick by (intro node_ok_create [OF assms(1,2)]) (simp add: fresh_input_def)
  then show ?thesis using Tick by simp
next
  case (Publish data)
  have "post (node_ok p) (bindE (publish_event p data n) (\<lambda>(_, m). Inr m))"
    by (rule post_bind [OF node_ok_publish [OF assms(1)]]) auto
  then show ?thesis using Publish by simp
qed (use assms(1) node_ok_packet node_ok_overlay node_ok_gc node_ok_framed frame in \<open>simp_all\<close>)

end
