(* ===== verification/Result_Safety.thy ===== *)
theory Result_Safety
  imports Node_Protocol Proof_Format
begin

text \<open>
  The results of discoveries are sound whatever the network does: every completed discovery in the
  tables of a node, and every completion a client was told of, rests on a chain that passes the
  soundness check for this node. The invariant is preserved by every input a node can get, in
  particular by arbitrary datagrams, and needs no assumption on the peers, the clock, the random
  source or the contents of the store.
\<close>

section \<open>The invariant\<close>

text \<open>A sound chain for the event with hash \<open>h\<close>.\<close>

definition proves :: "NodeId \<Rightarrow> verifier \<Rightarrow> EventHash \<Rightarrow> EventChain \<Rightarrow> bool" where
  "proves i verify h ch \<longleftrightarrow> chain_sound ch i verify \<and> ev_hash (ch_event ch) = h"

definition proves_bounds :: "NodeId \<Rightarrow> verifier \<Rightarrow> EventHash \<Rightarrow> Timestamp \<Rightarrow> Timestamp \<Rightarrow> bool" where
  "proves_bounds i verify h lo hi \<longleftrightarrow> (\<exists>ch. proves i verify h ch \<and>
     lo = ce_timestamp (hd (ch_lower ch)) \<and> hi = ce_timestamp (last (ch_upper ch)))"

definition proves_order :: "NodeId \<Rightarrow> verifier \<Rightarrow> EventHash \<Rightarrow> EventHash \<Rightarrow> Order \<Rightarrow> bool" where
  "proves_order i verify h1 h2 ord \<longleftrightarrow>
     (\<exists>a b. proves i verify h1 a \<and> proves i verify h2 b \<and> ord = compare a b)"

fun sound_output :: "NodeId \<Rightarrow> verifier \<Rightarrow> Output \<Rightarrow> bool" where
  "sound_output i verify (Chain_completed k e ch) \<longleftrightarrow> proves i verify (ev_hash e) ch"
| "sound_output i verify (Bounds_completed k e lo hi) \<longleftrightarrow> proves_bounds i verify (ev_hash e) lo hi"
| "sound_output i verify (Order_completed k e f ord) \<longleftrightarrow>
     proves_order i verify (ev_hash e) (ev_hash f) ord"
| "sound_output i verify _ \<longleftrightarrow> True"

definition sound_chain_entry ::
    "NodeId \<Rightarrow> verifier \<Rightarrow> EventHash \<Rightarrow> (EventChainDiscovery, ChainCallback) Entry \<Rightarrow> bool" where
  "sound_chain_entry i verify h en \<longleftrightarrow> ev_hash (cd_event (en_discovery en)) = h \<and>
     ev_hash (ch_event (cd_chain (en_discovery en))) = h \<and>
     (cd_state (en_discovery en) = completed \<longrightarrow> proves i verify h (cd_chain (en_discovery en)))"

definition sound_bounds_entry ::
    "NodeId \<Rightarrow> verifier \<Rightarrow> EventHash \<Rightarrow> (EventBoundsDiscovery, nat) Entry \<Rightarrow> bool" where
  "sound_bounds_entry i verify h en \<longleftrightarrow> ev_hash (bd_event (en_discovery en)) = h \<and>
     (bd_state (en_discovery en) = completed \<longrightarrow>
        proves_bounds i verify h (bd_lower (en_discovery en)) (bd_upper (en_discovery en)))"

definition sound_order_entry ::
    "NodeId \<Rightarrow> verifier \<Rightarrow> EventHash \<times> EventHash \<Rightarrow> (EventOrderDiscovery, nat) Entry \<Rightarrow> bool" where
  "sound_order_entry i verify key en \<longleftrightarrow> ev_hash (od_event1 (en_discovery en)) = fst key \<and>
     ev_hash (od_event2 (en_discovery en)) = snd key \<and>
     (od_state (en_discovery en) = completed \<longrightarrow>
        proves_order i verify (fst key) (snd key) (od_order (en_discovery en)))"

definition results_sound :: "NodeId \<Rightarrow> verifier \<Rightarrow> Node \<Rightarrow> bool" where
  "results_sound i verify n \<longleftrightarrow> nd_id n = i \<and>
     (\<forall>(h, en) \<in> set (nd_chain_discoveries n). sound_chain_entry i verify h en) \<and>
     (\<forall>(h, en) \<in> set (nd_bounds_discoveries n). sound_bounds_entry i verify h en) \<and>
     (\<forall>(key, en) \<in> set (nd_order_discoveries n). sound_order_entry i verify key en) \<and>
     (\<forall>out \<in> set (nd_out n). sound_output i verify out)"

section \<open>What preserves it\<close>

named_theorems sound_intros \<open>operations that keep the results of a node sound\<close>

text \<open>Steps that leave the discovery tables alone and tell no client of a completion.\<close>

definition quiet :: "Node \<Rightarrow> Node \<Rightarrow> bool" where
  "quiet n n' \<longleftrightarrow> nd_id n' = nd_id n \<and> nd_chain_discoveries n' = nd_chain_discoveries n \<and>
     nd_bounds_discoveries n' = nd_bounds_discoveries n \<and>
     nd_order_discoveries n' = nd_order_discoveries n \<and>
     (\<exists>os. nd_out n' = nd_out n @ os \<and> (\<forall>i verify. \<forall>out \<in> set os. sound_output i verify out))"

lemma quiet_refl [simp]: "quiet n n"
  by (simp add: quiet_def)

lemma quiet_trans: "quiet n n' \<Longrightarrow> quiet n' n'' \<Longrightarrow> quiet n n''"
  unfolding quiet_def by (metis (no_types, lifting) Un_iff append_assoc set_append)

lemma quiet_foldl: "(\<And>n x. x \<in> set xs \<Longrightarrow> quiet n (f n x)) \<Longrightarrow> quiet n (foldl f n xs)"
proof (induction xs arbitrary: n)
  case (Cons x xs)
  then have "quiet n (f n x)" "quiet (f n x) (foldl f (f n x) xs)" by simp_all
  then show ?case by (simp add: quiet_trans)
qed simp

lemma quiet_sound: "results_sound i verify n \<Longrightarrow> quiet n n' \<Longrightarrow> results_sound i verify n'"
  by (auto simp: results_sound_def quiet_def)

lemma quiet_emit: "(\<And>i verify out. out \<in> set os \<Longrightarrow> sound_output i verify out) \<Longrightarrow> quiet n (emit os n)"
  by (simp add: quiet_def emit_def)

lemma quiet_update [simp]:
  "quiet n (n\<lparr>nd_store := s\<rparr>)" "quiet n (n\<lparr>nd_neighbors := nbs\<rparr>)" "quiet n (n\<lparr>nd_unreferenced := u\<rparr>)"
  "quiet n (n\<lparr>nd_routes := r\<rparr>)" "quiet n (n\<lparr>nd_timed_routes := tr\<rparr>)" "quiet n (n\<lparr>nd_flood_seen := f\<rparr>)"
  "quiet n (n\<lparr>nd_clock_timers := ts\<rparr>)" "quiet n (n\<lparr>nd_purge_timer := t\<rparr>)" "quiet n (n\<lparr>nd_reads := k\<rparr>)"
  "quiet n (n\<lparr>nd_draws := k\<rparr>)" "quiet n (n\<lparr>nd_armed := k\<rparr>)"
  by (simp_all add: quiet_def)

lemma quiet_clock_now: "quiet n (snd (clock_now p n))"
  by (simp add: clock_now_def)

lemma sound_clock_now: "results_sound i verify n \<Longrightarrow> clock_now p n = (t, n') \<Longrightarrow> results_sound i verify n'"
  using quiet_sound [OF _ quiet_clock_now] by (metis snd_conv)

lemma results_sound_emit:
  "results_sound i verify n \<Longrightarrow> (\<And>out. out \<in> set os \<Longrightarrow> sound_output i verify out) \<Longrightarrow>
   results_sound i verify (emit os n)"
  by (auto simp: results_sound_def emit_def)

lemma results_sound_chain:
  "results_sound i verify n \<Longrightarrow> sound_chain_entry i verify h en \<Longrightarrow> nd_chain_discoveries n = m \<Longrightarrow>
   results_sound i verify (n\<lparr>nd_chain_discoveries := om_put h en m\<rparr>)"
  using set_om_put_subset [of h en "nd_chain_discoveries n"] by (fastforce simp: results_sound_def)

lemma results_sound_bounds:
  "results_sound i verify n \<Longrightarrow> sound_bounds_entry i verify h en \<Longrightarrow> nd_bounds_discoveries n = m \<Longrightarrow>
   results_sound i verify (n\<lparr>nd_bounds_discoveries := om_put h en m\<rparr>)"
  using set_om_put_subset [of h en "nd_bounds_discoveries n"] by (fastforce simp: results_sound_def)

lemma results_sound_order:
  "results_sound i verify n \<Longrightarrow> sound_order_entry i verify key en \<Longrightarrow> nd_order_discoveries n = m \<Longrightarrow>
   results_sound i verify (n\<lparr>nd_order_discoveries := om_put key en m\<rparr>)"
  using set_om_put_subset [of key en "nd_order_discoveries n"] by (fastforce simp: results_sound_def)

lemma results_sound_find:
  assumes "results_sound i verify n"
  shows "om_find h (nd_chain_discoveries n) = Some en \<Longrightarrow> sound_chain_entry i verify h en"
    "om_find h (nd_bounds_discoveries n) = Some be \<Longrightarrow> sound_bounds_entry i verify h be"
    "om_find key (nd_order_discoveries n) = Some oe \<Longrightarrow> sound_order_entry i verify key oe"
  using assms by (auto simp: results_sound_def dest!: om_find_in)

lemma results_sound_update [simp]:
  "results_sound i verify (n\<lparr>nd_reads := k\<rparr>) \<longleftrightarrow> results_sound i verify n"
  by (simp add: results_sound_def)

lemmas table_intros = results_sound_emit results_sound_chain results_sound_bounds results_sound_order

section \<open>Bookkeeping\<close>

lemma sound_abort_bounds [sound_intros]:
  assumes "results_sound i verify n"
  shows "post (results_sound i verify) (abort_bounds_discovery p h n)"
  using assms
  by (auto simp: abort_bounds_discovery_def clock_now_def Let_def sound_bounds_entry_def
      split: option.splits intro!: table_intros dest!: results_sound_find(2) [OF assms])

lemma sound_complete_bounds [sound_intros]:
  assumes "results_sound i verify n"
    and "\<And>en. om_find h (nd_bounds_discoveries n) = Some en \<Longrightarrow>
      proves_bounds i verify h (bd_lower (en_discovery en)) (bd_upper (en_discovery en))"
  shows "post (results_sound i verify) (complete_bounds_discovery p h n)"
proof (cases "om_find h (nd_bounds_discoveries n)")
  case (Some en)
  then show ?thesis
    using assms(1) assms(2) [OF Some] results_sound_find(2) [OF assms(1) Some]
    by (auto simp: complete_bounds_discovery_def clock_now_def Let_def sound_bounds_entry_def
        intro!: table_intros)
qed (simp add: complete_bounds_discovery_def)

lemma sound_abort_order [sound_intros]:
  assumes "results_sound i verify n"
  shows "post (results_sound i verify) (abort_order_discovery p h1 h2 n)"
  using assms
  by (auto simp: abort_order_discovery_def clock_now_def Let_def sound_order_entry_def
      split: option.splits intro!: table_intros dest!: results_sound_find(3) [OF assms])

lemma sound_complete_order [sound_intros]:
  assumes "results_sound i verify n"
    and "\<And>en. om_find (h1, h2) (nd_order_discoveries n) = Some en \<Longrightarrow>
      proves_order i verify h1 h2 (od_order (en_discovery en))"
  shows "post (results_sound i verify) (complete_order_discovery p h1 h2 n)"
proof (cases "om_find (h1, h2) (nd_order_discoveries n)")
  case (Some en)
  then show ?thesis
    using assms(1) assms(2) [OF Some] results_sound_find(3) [OF assms(1) Some]
    by (auto simp: complete_order_discovery_def clock_now_def Let_def sound_order_entry_def
        intro!: table_intros)
qed (simp add: complete_order_discovery_def)

lemma sound_finish_bounds [sound_intros]:
  assumes "results_sound i verify n" "proves i verify (ev_hash (ch_event ch)) ch"
  shows "post (results_sound i verify) (finish_bounds p ch n)"
proof (cases "om_find (ev_hash (ch_event ch)) (nd_bounds_discoveries n)")
  case (Some en)
  have "proves_bounds i verify (ev_hash (ch_event ch)) (ce_timestamp (hd (ch_lower ch)))
      (ce_timestamp (last (ch_upper ch)))"
    using assms(2) by (auto simp: proves_bounds_def)
  then show ?thesis
    using assms(1) Some results_sound_find(2) [OF assms(1) Some]
    by (auto simp: finish_bounds_def Let_def sound_bounds_entry_def om_find_put
        intro!: sound_complete_bounds table_intros)
qed (simp add: finish_bounds_def assms(1))

lemma completed_chain_proves:
  "results_sound i verify n \<Longrightarrow> completed_chain h n = Some ch \<Longrightarrow> proves i verify h ch"
  by (auto simp: completed_chain_def sound_chain_entry_def split: option.splits if_splits
      dest!: results_sound_find(1))

lemma compare_event_chains_conv:
  "compare_event_chains a b = Inr ord \<Longrightarrow> ord = compare a b"
  by (auto simp: compare_event_chains_def compare_def split: if_splits)

lemma results_sound_set_order:
  assumes "results_sound i verify n" "om_find key (nd_order_discoveries n) = Some en"
    "od_state (en_discovery en) = in_progress"
  shows "results_sound i verify (set_order key ord n)"
  using assms results_sound_find(3) [OF assms(1,2)]
  by (auto simp: set_order_def sound_order_entry_def intro!: table_intros)

lemma sound_finish_order:
  assumes "results_sound i verify n" "proves i verify (ev_hash (ch_event ch)) ch"
  shows "post (results_sound i verify) (finish_order p ch key n)"
proof (cases "om_find key (nd_order_discoveries n)")
  case (Some en)
  have c: "post (results_sound i verify)
      (complete_order_discovery p (fst key) (snd key) (set_order key ord n))"
    if "od_state (en_discovery en) = in_progress" "proves_order i verify (fst key) (snd key) ord" for ord
    by (rule sound_complete_order, rule results_sound_set_order [OF assms(1) Some that(1)])
      (use that in \<open>auto simp: set_order_def Some om_find_put\<close>)
  have cmp: "post (results_sound i verify) (bindE (compare_event_chains a b) (\<lambda>ord.
      complete_order_discovery p (fst key) (snd key) (set_order key ord n)))"
    if "od_state (en_discovery en) = in_progress" "proves i verify (fst key) a" "proves i verify (snd key) b" for a b
  proof (intro post_bind_any c that(1))
    fix ord
    assume "compare_event_chains a b = Inr ord"
    then show "proves_order i verify (fst key) (snd key) ord"
      using that(2,3) compare_event_chains_conv unfolding proves_order_def by blast
  qed
  show ?thesis
  proof (cases "od_state (en_discovery en) = in_progress")
    case True
    let ?h = "ev_hash (ch_event ch)"
    let ?fin = "\<lambda>a b. bindE (compare_event_chains a b) (\<lambda>ord.
      complete_order_discovery p (fst key) (snd key) (set_order key ord n))"
    consider "fst key = ?h" | "fst key \<noteq> ?h" "snd key = ?h" | "fst key \<noteq> ?h" "snd key \<noteq> ?h" by auto
    then show ?thesis
    proof cases
      case 1
      then have "finish_order p ch key n =
          (case completed_chain (snd key) n of None \<Rightarrow> Inr n | Some other \<Rightarrow> ?fin ch other)"
        using Some True by (simp add: finish_order_def Let_def)
      moreover have "proves i verify (fst key) ch" using assms(2) 1 by simp
      ultimately show ?thesis
        using cmp [OF True] completed_chain_proves [OF assms(1)] assms(1) by (auto split: option.split)
    next
      case 2
      then have "finish_order p ch key n =
          (case completed_chain (fst key) n of None \<Rightarrow> Inr n | Some other \<Rightarrow> ?fin other ch)"
        using Some True by (simp add: finish_order_def Let_def)
      moreover have "proves i verify (snd key) ch" using assms(2) 2 by simp
      ultimately show ?thesis
        using cmp [OF True] completed_chain_proves [OF assms(1)] assms(1) by (auto split: option.split)
    next
      case 3
      then show ?thesis using Some True assms(1) by (simp add: finish_order_def Let_def)
    qed
  qed (simp add: finish_order_def Let_def Some assms(1))
qed (simp add: finish_order_def assms(1))

lemma sound_on_chain_completed [sound_intros]:
  assumes "results_sound i verify n" "proves i verify (ev_hash (ch_event ch)) ch"
  shows "post (results_sound i verify) (on_chain_completed p ch n)"
  unfolding on_chain_completed_def
  by (rule post_bind [OF sound_finish_bounds [OF assms]], rule post_foldE, assumption,
      rule sound_finish_order [OF _ assms(2)])

lemma sound_abandon_order:
  "results_sound i verify n \<Longrightarrow> post (results_sound i verify) (abandon_order p h key n)"
  by (auto simp: abandon_order_def split: option.splits intro: sound_abort_order)

lemma sound_on_chain_aborted [sound_intros]:
  assumes "results_sound i verify n"
  shows "post (results_sound i verify) (on_chain_aborted p e n)"
  unfolding on_chain_aborted_def
  by (rule post_bind [of "results_sound i verify"])
    (use assms in \<open>auto intro!: sound_abort_bounds post_foldE sound_abandon_order\<close>)

lemma sound_call_completed:
  assumes "results_sound i verify n" "proves i verify (ev_hash e) ch"
  shows "post (results_sound i verify) (call_completed p e ch cb n)"
  using assms
  by (auto simp: call_completed_def split: ChainCallback.splits intro!: sound_on_chain_completed table_intros)
    (simp add: proves_def)

lemma sound_call_aborted:
  "results_sound i verify n \<Longrightarrow> post (results_sound i verify) (call_aborted p e cb n)"
  by (auto simp: call_aborted_def split: ChainCallback.splits intro!: sound_on_chain_aborted table_intros)

lemma results_sound_set_chain:
  assumes "results_sound i verify n" "ev_hash (cd_event d) = h" "ev_hash (ch_event (cd_chain d)) = h"
    "cd_state d = completed \<longrightarrow> proves i verify h (cd_chain d)"
  shows "results_sound i verify (set_chain_discovery h d n)"
  using assms
  by (auto simp: set_chain_discovery_def sound_chain_entry_def split: option.splits intro!: table_intros)

lemma sound_abort_chain [sound_intros]:
  assumes "results_sound i verify n"
  shows "post (results_sound i verify) (abort_chain_discovery p h n)"
proof (cases "om_find h (nd_chain_discoveries n)")
  case (Some en)
  let ?d = "(en_discovery en)\<lparr>cd_end_time := p_now p (nd_reads n), cd_state := aborted\<rparr>"
  have "results_sound i verify (set_chain_discovery h ?d (n\<lparr>nd_reads := Suc (nd_reads n)\<rparr>))"
    using assms results_sound_find(1) [OF assms Some]
    by (intro results_sound_set_chain) (auto simp: sound_chain_entry_def)
  then have "post (results_sound i verify) (bindE (foldE (call_aborted p (cd_event ?d)) (en_callbacks en)
      (set_chain_discovery h ?d (n\<lparr>nd_reads := Suc (nd_reads n)\<rparr>)))
      (\<lambda>n. Inr (emit [Telemetry (Chain_discovery_aborted ?d)] n)))"
    by (intro post_bind [of "results_sound i verify"] post_foldE sound_call_aborted)
      (auto intro!: table_intros)
  then show ?thesis
    by (simp add: abort_chain_discovery_def Some clock_now_def Let_def)
qed (simp add: abort_chain_discovery_def)

lemma sound_complete_chain [sound_intros]:
  assumes "results_sound i (p_verify p) n"
  shows "post (results_sound i (p_verify p)) (complete_chain_discovery p h n)"
proof (cases "om_find h (nd_chain_discoveries n)")
  case (Some en)
  let ?v = "p_verify p"
  let ?d = "(en_discovery en)\<lparr>cd_end_time := p_now p (nd_reads n), cd_state := completed\<rparr>"
  note e = results_sound_find(1) [OF assms Some, unfolded sound_chain_entry_def]
  have i: "nd_id n = i" using assms by (simp add: results_sound_def)
  show ?thesis
  proof (cases "validate_chain_discovery_result p (nd_id n) (en_discovery en)")
    case True
    then have pr: "proves i ?v h (cd_chain ?d)"
      using e i by (simp add: validate_chain_discovery_result_def verify_chain_ok proves_def)
    then have "results_sound i ?v (set_chain_discovery h ?d (n\<lparr>nd_reads := Suc (nd_reads n)\<rparr>))"
      using assms e by (intro results_sound_set_chain) auto
    then have "post (results_sound i ?v) (bindE (foldE (call_completed p (cd_event ?d) (cd_chain ?d))
        (en_callbacks en) (set_chain_discovery h ?d (n\<lparr>nd_reads := Suc (nd_reads n)\<rparr>)))
        (\<lambda>n. Inr (emit [Telemetry (Chain_discovery_completed ?d)] n)))"
      using pr e by (intro post_bind [of "results_sound i ?v"] post_foldE sound_call_completed)
        (auto intro!: table_intros)
    then show ?thesis
      using True by (simp add: complete_chain_discovery_def Some clock_now_def Let_def)
  next
    case False
    then show ?thesis
      using sound_abort_chain [OF assms] by (simp add: complete_chain_discovery_def Some)
  qed
qed (simp add: complete_chain_discovery_def)

section \<open>Protocol handlers\<close>

lemma add_local_event:
  "add_local_lower_bound j s ch = Inr (ok, ch') \<Longrightarrow> ch_event ch' = ch_event ch"
  "add_local_upper_bound s ch = Inr (ok, ch') \<Longrightarrow> ch_event ch' = ch_event ch"
  by (auto simp: add_local_lower_bound_def add_local_upper_bound_def Let_def split: option.splits list.splits)

lemma sound_conclude [sound_intros]:
  assumes "results_sound i (p_verify p) n" "ev_hash (cd_event d) = h"
    "ev_hash (ch_event (cd_chain d)) = h" "cd_state d = in_progress"
  shows "post (results_sound i (p_verify p)) (conclude_chain_discovery p h d n)"
  unfolding conclude_chain_discovery_def Let_def
  using assms
  by (auto intro!: post_bind_any sound_abort_chain sound_complete_chain results_sound_set_chain
      dest!: add_local_event split: if_splits prod.splits)

lemma sound_insert_chain:
  assumes "results_sound i verify n" "insert_chain_discovery p e j w cb n = (d, n')"
  shows "results_sound i verify n' \<and> ev_hash (cd_event d) = ev_hash e \<and>
    ev_hash (ch_event (cd_chain d)) = ev_hash e \<and> cd_state d = in_progress"
  using assms set_om_emplace_subset [of "ev_hash e" _ "nd_chain_discoveries n"]
  by (fastforce simp: insert_chain_discovery_def clock_now_def Let_def results_sound_def
      sound_chain_entry_def empty_chain_of_def)

text \<open>The operations that only touch the log, the overlay and the output are quiet.\<close>

lemma quiet_clock_notification: "post (quiet n) (process_clock_event_notification key nb l h h' n)"
  unfolding process_clock_event_notification_def Let_def
  by (auto simp: quiet_def intro!: post_bind_any split: prod.splits option.splits)

lemma quiet_next_hops: "next_hops p d ctx n = (hops, n') \<Longrightarrow> quiet n n'"
  by (auto simp: next_hops_def Let_def split: DiscoveryRouting.splits prod.splits)

lemma quiet_send [simp]:
  "quiet n (send_chain_request nb m n)" "quiet n (send_chain_response nb r n)"
  "quiet n (send_clock_event_notification nb c n)"
  by (auto simp: send_chain_request_def send_chain_response_def send_clock_event_notification_def
      Let_def intro!: quiet_emit)

lemma quiet_flood: "quiet n (flood_chain_request p d ctx m n)"
proof -
  obtain hops n' where h: "next_hops p d ctx n = (hops, n')" by fastforce
  show ?thesis
    unfolding flood_chain_request_def Let_def h prod.case
    by (rule quiet_trans [OF quiet_next_hops [OF h]], rule quiet_foldl) (auto split: option.splits)
qed

lemma quiet_retrace: "quiet n (send_chain_response_retrace j ch path n)"
  by (auto simp: send_chain_response_retrace_def split: option.splits)

lemma quiet_forward_cap: "pass_forward_cap p m n = (b, n') \<Longrightarrow> quiet n n'"
  by (auto simp: pass_forward_cap_def clock_now_def Let_def quiet_def split: if_splits option.splits)

lemma quiet_chain_request: "post (quiet n) (process_chain_request p nb m n)"
proof (cases "ref_creator (rq_event m) = nd_id n")
  case True
  then show ?thesis
    by (auto simp: process_chain_request_def quiet_retrace intro!: post_bind_any split: option.splits)
next
  case False
  obtain b n' where f: "pass_forward_cap p m n = (b, n')" by fastforce
  show ?thesis
    using False quiet_forward_cap [OF f] quiet_trans [OF quiet_forward_cap [OF f] quiet_flood]
    by (simp add: process_chain_request_def f Let_def)
qed

lemma quiet_insert_clock: "post (\<lambda>(c, n'). quiet n n') (insert_clock_event p chain n)"
  by (auto simp: insert_clock_event_def next_salt_def clock_now_def Let_def quiet_def
      intro!: post_bind_any split: option.splits)

lemma quiet_create_clock_event: "post (quiet n) (create_clock_event p chain n)"
  unfolding create_clock_event_def Let_def
proof (rule post_bind [OF quiet_insert_clock], clarify)
  fix c n'
  assume q: "quiet n n'"
  let ?u = "emit [Telemetry (Clock_event_created c)] (n'\<lparr>nd_unreferenced := (nd_unreferenced n')[unat chain := []]\<rparr>)"
  let ?f = "foldl (\<lambda>n (i, nb). send_clock_event_notification nb c n) ?u (nd_neighbors ?u)"
  have "quiet n' ?u" by (rule quiet_trans [OF quiet_update(3)], rule quiet_emit) auto
  moreover have "quiet ?u ?f" by (rule quiet_foldl) (auto split: prod.splits)
  ultimately have "quiet n ?f" using q quiet_trans by blast
  then show "post (quiet n) (Inr (if unat chain < length (cfg_chains (nd_config ?f)) \<and>
      0 < cc_keep (cfg_chains (nd_config ?f) ! unat chain)
      then ?f\<lparr>nd_store := prune_chain chain (cc_keep (cfg_chains (nd_config ?f) ! unat chain)) (nd_store ?f)\<rparr>
      else ?f))"
    using quiet_trans [OF _ quiet_update(1)] by simp
qed

lemma quiet_publish: "post (\<lambda>(e, n'). quiet n n') (publish_event p data n)"
  by (auto simp: publish_event_def insert_event_def next_salt_def Let_def quiet_def emit_def
      intro!: post_bind_any)

lemma quiet_overlay:
  "quiet n (add_neighbor j n)" "quiet n (learn_route d h n)" "quiet n (learn_route_at d h w n)"
  by (auto simp: add_neighbor_def learn_route_def learn_route_at_def quiet_def Let_def split: option.splits)

lemma quiet_gc: "quiet n (gc n)"
  unfolding gc_def by (rule quiet_foldl) simp

lemma quiet_schedule:
  "quiet n (schedule_clock_timer p chain n)" "quiet n (schedule_purge_timer p n)"
  by (auto simp: schedule_clock_timer_def schedule_purge_timer_def schedule_after_def Let_def quiet_def emit_def)

lemma quiet_start: "quiet n (start p n)"
proof -
  let ?f = "foldl (\<lambda>n chain. if sint (cc_interval (cfg_chains (nd_config n) ! chain)) > 0
            then schedule_clock_timer p (of_nat chain) n else n) n [0..<length (cfg_chains (nd_config n))]"
  have "quiet n ?f" by (rule quiet_foldl) (simp add: quiet_schedule)
  then show ?thesis
    using quiet_trans [OF _ quiet_schedule(2)] by (simp add: start_def Let_def)
qed

lemma sound_quiet: "results_sound i verify n \<Longrightarrow> post (quiet n) r \<Longrightarrow> post (results_sound i verify) r"
  using quiet_sound by (cases r) auto

section \<open>Responses, discoveries, purging\<close>

lemma sound_chain_response:
  assumes "results_sound i (p_verify p) n"
  shows "post (results_sound i (p_verify p)) (process_chain_response p nb m n)"
proof (cases "rs_originator m = nd_id n")
  case True
  let ?h = "ev_hash (ch_event (rs_chain m))"
  show ?thesis
  proof (cases "om_find ?h (nd_chain_discoveries n)")
    case (Some en)
    note e = results_sound_find(1) [OF assms Some, unfolded sound_chain_entry_def]
    show ?thesis
      using True Some assms e
      by (auto simp: process_chain_response_def Let_def intro!: sound_conclude results_sound_set_chain)
  qed (simp add: process_chain_response_def Let_def True assms)
next
  case False
  have "post (quiet n) (process_chain_response p nb m n)"
    using False by (auto simp: process_chain_response_def Let_def quiet_retrace
        intro!: post_bind_any split: option.splits)
  then show ?thesis by (rule sound_quiet [OF assms])
qed

lemma sound_packet:
  assumes "results_sound i (p_verify p) n"
  shows "post (results_sound i (p_verify p)) (on_packet_received p b n)"
  unfolding on_packet_received_def
  by (auto simp: assms split: sum.split option.split Payload.split
      intro!: sound_chain_response [OF assms] sound_quiet [OF assms] quiet_clock_notification quiet_chain_request)

lemma sound_discover_chain:
  assumes "results_sound i (p_verify p) n"
  shows "post (results_sound i (p_verify p)) (discover_event_chain p e w cb n)"
proof (cases "om_find (ev_hash e) (nd_chain_discoveries n)")
  case None
  obtain d n' where ins: "insert_chain_discovery p e (nd_id n) w cb n = (d, n')" by fastforce
  note s = sound_insert_chain [OF assms ins]
  have "results_sound i (p_verify p) (emit [Telemetry (Chain_discovery_started d)] n')"
    using s by (auto intro!: table_intros)
  then show ?thesis
    using None s sound_conclude quiet_sound [OF _ quiet_flood]
    by (simp add: discover_event_chain_def ins Let_def)
next
  case (Some en)
  note e = results_sound_find(1) [OF assms Some]
  have "results_sound i (p_verify p) (n\<lparr>nd_chain_discoveries := om_put (ev_hash e)
      (en\<lparr>en_callbacks := en_callbacks en @ [cb]\<rparr>) (nd_chain_discoveries n)\<rparr>)"
    using e by (intro results_sound_chain assms) (auto simp: sound_chain_entry_def)
  then show ?thesis
    using Some assms e
    by (auto simp: discover_event_chain_def sound_chain_entry_def split: DiscoveryState.split
        intro!: sound_call_aborted sound_call_completed)
qed

lemma results_sound_insert_bounds:
  assumes "results_sound i verify n" "insert_bounds_discovery p e cb n = (d, n')"
  shows "results_sound i verify n'"
  using assms set_om_emplace_subset [of "ev_hash e" _ "nd_bounds_discoveries n"]
  by (fastforce simp: insert_bounds_discovery_def clock_now_def Let_def results_sound_def
      sound_bounds_entry_def)

lemma results_sound_insert_order:
  assumes "results_sound i verify n" "insert_order_discovery p e f cb n = (d, n')"
  shows "results_sound i verify n'"
  using assms set_om_emplace_subset [of "(ev_hash e, ev_hash f)" _ "nd_order_discoveries n"]
  by (fastforce simp: insert_order_discovery_def clock_now_def Let_def results_sound_def
      sound_order_entry_def)

lemma sound_discover_bounds:
  assumes "results_sound i (p_verify p) n"
  shows "post (results_sound i (p_verify p)) (discover_event_bounds p e w cb n)"
proof (cases "om_find (ev_hash e) (nd_bounds_discoveries n)")
  case None
  obtain d n' where ins: "insert_bounds_discovery p e cb n = (d, n')" by fastforce
  have "results_sound i (p_verify p) (emit [Telemetry (Bounds_discovery_started d)] n')"
    using results_sound_insert_bounds [OF assms ins] by (auto intro!: table_intros)
  then show ?thesis
    using None sound_discover_chain by (simp add: discover_event_bounds_def ins Let_def)
next
  case (Some en)
  note e = results_sound_find(2) [OF assms Some]
  have "results_sound i (p_verify p) (n\<lparr>nd_bounds_discoveries := om_put (ev_hash e)
      (en\<lparr>en_callbacks := en_callbacks en @ [cb]\<rparr>) (nd_bounds_discoveries n)\<rparr>)"
    using e by (intro results_sound_bounds assms) (auto simp: sound_bounds_entry_def)
  then show ?thesis
    using Some assms e
    by (auto simp: discover_event_bounds_def sound_bounds_entry_def split: DiscoveryState.split
        intro!: table_intros)
qed

lemma sound_discover_order:
  assumes "results_sound i (p_verify p) n"
  shows "post (results_sound i (p_verify p)) (discover_event_order p e f w cb n)"
proof (cases "om_find (ev_hash e, ev_hash f) (nd_order_discoveries n)")
  case None
  obtain d n' where ins: "insert_order_discovery p e f cb n = (d, n')" by fastforce
  have "results_sound i (p_verify p) (emit [Telemetry (Order_discovery_started d)] n')"
    using results_sound_insert_order [OF assms ins] by (auto intro!: table_intros)
  then show ?thesis
    using None by (auto simp: discover_event_order_def ins Let_def intro: post_bind sound_discover_chain)
next
  case (Some en)
  note e = results_sound_find(3) [OF assms Some]
  have "results_sound i (p_verify p) (n\<lparr>nd_order_discoveries := om_put (ev_hash e, ev_hash f)
      (en\<lparr>en_callbacks := en_callbacks en @ [cb]\<rparr>) (nd_order_discoveries n)\<rparr>)"
    using e by (intro results_sound_order assms) (auto simp: sound_order_entry_def)
  then show ?thesis
    using Some assms e
    by (auto simp: discover_event_order_def Let_def sound_order_entry_def split: DiscoveryState.split
        intro!: table_intros)
qed

lemma results_sound_erase:
  assumes "results_sound i verify n"
  shows "results_sound i verify (n\<lparr>nd_chain_discoveries := om_erase h (nd_chain_discoveries n)\<rparr>)"
    "results_sound i verify (n\<lparr>nd_bounds_discoveries := om_erase h (nd_bounds_discoveries n)\<rparr>)"
    "results_sound i verify (n\<lparr>nd_order_discoveries := om_erase key (nd_order_discoveries n)\<rparr>)"
    "results_sound i verify (n\<lparr>nd_flood_seen := fs\<rparr>)"
  using assms by (auto simp: results_sound_def om_erase_def)

lemma sound_purge_steps:
  assumes "results_sound i verify n"
  shows "post (results_sound i verify) (purge_chain p limit h n)"
    "post (results_sound i verify) (purge_bounds p limit h n)"
    "post (results_sound i verify) (purge_order p limit key n)"
  using assms
  by (auto simp: purge_chain_def purge_bounds_def purge_order_def Let_def split: option.split
      intro!: post_bind [of "results_sound i verify"] results_sound_erase sound_abort_chain
        sound_abort_bounds sound_abort_order)

lemma sound_purge_folds:
  assumes "results_sound i verify n"
  shows "post (results_sound i verify) (foldE (purge_chain p limit) hs n)"
    "post (results_sound i verify) (foldE (purge_bounds p limit) hs n)"
    "post (results_sound i verify) (foldE (purge_order p limit) keys n)"
  using assms by (auto intro: post_foldE sound_purge_steps)

lemma sound_purge:
  assumes "results_sound i verify n"
  shows "post (results_sound i verify) (purge_discoveries p n)"
proof -
  let ?S = "results_sound i verify"
  have last: "post ?S (Inr (m\<lparr>nd_flood_seen := f m\<rparr>))" if "?S m" for f m
    using that by (simp add: results_sound_erase)
  have "?S (n\<lparr>nd_reads := Suc (nd_reads n)\<rparr>)" using assms by simp
  then show ?thesis
    unfolding purge_discoveries_def clock_now_def Let_def prod.case
    by (intro post_bind_any) (erule sound_purge_folds [THEN postD, rotated] | rule last)+
qed

lemma sound_timer:
  assumes "results_sound i verify n"
  shows "post (results_sound i verify) (on_timer p t n)"
  using assms sound_quiet [OF assms quiet_create_clock_event] sound_purge
  by (auto simp: on_timer_def split: Timer.split
      intro!: post_bind [of "results_sound i verify"] quiet_sound [OF _ quiet_schedule(1)]
        quiet_sound [OF _ quiet_schedule(2)])

lemma sound_handle:
  assumes "results_sound i (p_verify p) n"
  shows "post (results_sound i (p_verify p)) (handle p inp n)"
proof (cases inp)
  case (Publish data)
  have "post (quiet n) (bindE (publish_event p data n) (\<lambda>(_, n'). Inr n'))"
    by (rule post_bind [OF quiet_publish]) auto
  then show ?thesis using Publish sound_quiet [OF assms] by simp
qed (use assms in \<open>auto intro!: sound_packet sound_timer sound_quiet [OF assms quiet_create_clock_event]
    sound_discover_chain sound_discover_bounds sound_discover_order quiet_sound [OF assms quiet_gc]
    quiet_sound [OF assms quiet_start] quiet_sound [OF assms quiet_overlay(1)]
    quiet_sound [OF assms quiet_overlay(2)] quiet_sound [OF assms quiet_overlay(3)]\<close>)

lemma sound_run:
  assumes "results_sound i (p_verify p) n"
  shows "post (results_sound i (p_verify p)) (run p inputs n)"
  unfolding run_def by (rule post_foldE) (rule assms, rule sound_handle)

lemma results_sound_make_node: "make_node i s config = Inr n \<Longrightarrow> results_sound i verify n"
  by (auto simp: make_node_def hydrate_working_state_def results_sound_def Let_def)

end
