(* ===== verification/Recovery.thy ===== *)
theory Recovery
  imports Node_Invariant Result_Safety
begin

text \<open>
  Restart: the working set a node keeps in memory (the neighbors, the routes and, per chain, the
  events its next tick has to reference) is recovered from the store by \<open>hydrate_working_state\<close>. The
  backward scan is shown to compute the longest unreferenced suffix of the event log, and a node that
  does not prune keeps exactly this suffix in memory, so a restart loses and repeats nothing.
\<close>

section \<open>The scan\<close>

text \<open>An event is pinned by a chain when a live clock event of that chain refers to its hash.\<close>

definition pinned :: "u32 \<Rightarrow> InMemoryStore \<Rightarrow> Event \<Rightarrow> bool" where
  "pinned l s e \<longleftrightarrow> (\<exists>(q, c) \<in> set (st_clock_events s). ce_chain c = l \<and> ev_hash e \<in> ref_hash ` set (ce_refs c))"

definition unpinned_tail :: "u32 \<Rightarrow> InMemoryStore \<Rightarrow> Event list" where
  "unpinned_tail l s = rev (takeWhile (\<lambda>e. \<not> pinned l s e) (rev (st_events s)))"

lemma any_on_chain_spec:
  assumes "store_ok s" "set seqs \<subseteq> set (clock_events_referencing h s)"
  shows "any_on_chain l s seqs = Inr (\<exists>q \<in> set seqs. \<exists>c. live s q c \<and> ce_chain c = l)"
  using assms(2)
proof (induction seqs)
  case (Cons q seqs)
  obtain c where c: "clock_event_by_seq q s = Inr c"
    using mem.referencing_resolves [OF assms(1), of q h] Cons.prems by auto
  then have "om_find q (st_clock_events s) = Some c"
    by (auto simp: clock_event_by_seq_def clock_at_def split: option.splits)
  then have "live s q d \<longleftrightarrow> d = c" for d
    using assms(1) by (auto simp: store_ok_def simp flip: om_find_iff [OF clocks_okD(1)])
  then show ?case using Cons c by auto
qed simp

lemma any_on_chain_pinned:
  assumes "store_ok s"
  shows "any_on_chain l s (clock_events_referencing (ev_hash e) s) = Inr (pinned l s e)"
proof -
  have o: "om_ok (st_clock_events s)" using assms by (auto simp: store_ok_def dest: clocks_okD(1))
  have mem: "q \<in> set (clock_events_referencing h s) \<longleftrightarrow>
      (\<exists>c. live s q c \<and> (\<exists>r \<in> set (ce_refs c). ref_hash r = h))" for q h
    using mem.referencing [OF assms, of h] by (simp add: store_dag_def fst_referencing_of)
  have uniq: "live s q c \<Longrightarrow> live s q d \<Longrightarrow> c = d" for q c d
    using o by (metis om_find_iff option.inject)
  have "(\<exists>q \<in> set (clock_events_referencing (ev_hash e) s). \<exists>c. live s q c \<and> ce_chain c = l) \<longleftrightarrow> pinned l s e"
    unfolding pinned_def mem Bex_def using uniq by (auto simp: image_iff) metis+
  then show ?thesis using any_on_chain_spec [OF assms order_refl] by simp
qed

lemma scan_tail_spec:
  assumes "store_ok s" "k \<le> length (st_events s)"
  shows "scan_tail l s k = Inr (takeWhile (\<lambda>e. \<not> pinned l s e) (rev (take k (st_events s))))"
  using assms(2)
proof (induction k)
  case (Suc k)
  then have "rev (take (Suc k) (st_events s)) = st_events s ! k # rev (take k (st_events s))"
    by (simp add: take_Suc_conv_app_nth)
  then show ?case
    using Suc any_on_chain_pinned [OF assms(1)] by (simp add: event_by_seq_def)
qed simp

lemma scan_chains_spec:
  assumes "store_ok s"
  shows "scan_chains s ls = Inr (map (\<lambda>l. unpinned_tail (of_nat l) s) ls)"
  by (induction ls) (simp_all add: scan_tail_spec [OF assms] event_count_def unpinned_tail_def)

lemma hydrate_spec:
  assumes "store_ok (nd_store n)"
  shows "hydrate_working_state n = Inr (n\<lparr>nd_neighbors := st_neighbors (nd_store n),
    nd_routes := st_routes (nd_store n), nd_timed_routes := st_timed_routes (nd_store n),
    nd_unreferenced := map (\<lambda>l. unpinned_tail (of_nat l) (nd_store n)) [0..<nd_num_chains n]\<rparr>)"
  by (simp add: hydrate_working_state_def scan_chains_spec [OF assms] load_neighbors_def load_routes_def
      load_timed_routes_def)

section \<open>Booting\<close>

lemma make_node_total: "store_ok s \<Longrightarrow> \<exists>n. make_node i s config = Inr n"
  by (simp add: make_node_def hydrate_spec Let_def)

lemma make_node_ok:
  assumes "log_ok i (p_verify p) s" "make_node i s config = Inr n"
  shows "node_ok p n" "nd_id n = i" "nd_store n = s" "nd_config n = effective_config config"
  using assms log_okD(1) [OF assms(1)]
  by (auto simp: make_node_def hydrate_spec Let_def node_ok_def store_ok_def effective_config_def)

text \<open>The states of a node: it boots from a store and handles inputs; the clock events it makes have
  fresh hashes.\<close>

inductive reachable :: "NodePorts \<Rightarrow> NodeId \<Rightarrow> InMemoryStore \<Rightarrow> NodeConfig \<Rightarrow> Node \<Rightarrow> bool"
  for p i s config where
  boot: "make_node i s config = Inr n \<Longrightarrow> reachable p i s config n"
| input: "reachable p i s config n \<Longrightarrow> fresh_input p inp n \<Longrightarrow> handle p inp n = Inr n' \<Longrightarrow>
    reachable p i s config n'"

lemma reachable_sound: "reachable p i s config n \<Longrightarrow> results_sound i (p_verify p) n"
proof (induction rule: reachable.induct)
  case (boot n)
  then show ?case by (rule results_sound_make_node)
next
  case (input n inp n')
  then show ?case using postD [OF sound_handle] by blast
qed

lemma reachable_ok:
  assumes "reachable p i s config n" "log_ok i (p_verify p) s" "signs_as p i"
  shows "node_ok p n \<and> nd_id n = i"
  using assms(1)
proof (induction rule: reachable.induct)
  case (boot n)
  then show ?case using make_node_ok [OF assms(2)] by blast
next
  case (input n inp n')
  have "nd_id n' = i"
    using reachable_sound [OF reachable.input [OF input(1-3)]] by (simp add: results_sound_def)
  then show ?case using postD [OF node_ok_handle, of p n inp n'] input assms(3) by auto
qed

section \<open>Memory and store in step\<close>

text \<open>A missing slot and an empty one are the same advertised tip: the slot is grown in memory before
  the store is told of a changed tip.\<close>

definition tip_slot :: "u32 \<Rightarrow> Neighbor \<Rightarrow> EventHash" where
  "tip_slot l nb = (if unat l < length (nb_last_hashes nb) then nb_last_hashes nb ! unat l else [])"

definition same_neighbor :: "NodeId \<times> Neighbor \<Rightarrow> NodeId \<times> Neighbor \<Rightarrow> bool" where
  "same_neighbor a b \<longleftrightarrow> fst a = fst b \<and> nb_node_id (snd a) = fst a \<and> nb_node_id (snd b) = fst b \<and>
     (\<forall>l. tip_slot l (snd a) = tip_slot l (snd b))"

definition in_step :: "Node \<Rightarrow> bool" where
  "in_step n \<longleftrightarrow> list_all2 same_neighbor (nd_neighbors n) (st_neighbors (nd_store n)) \<and>
     nd_routes n = st_routes (nd_store n) \<and> nd_timed_routes n = st_timed_routes (nd_store n) \<and>
     nd_unreferenced n = map (\<lambda>l. unpinned_tail (of_nat l) (nd_store n)) [0..<nd_num_chains n]"

lemma in_step_working: "working m = working n \<Longrightarrow> in_step m \<longleftrightarrow> in_step n"
  by (simp add: in_step_def working_def)

lemma in_step_framed: "in_step n \<Longrightarrow> framed n r \<Longrightarrow> post in_step r"
  by (cases r) (simp_all add: in_step_def working_def)

lemma neighbor_tips_slot:
  "neighbor_tips l nbs = concat (map (\<lambda>(i, nb). if tip_slot l nb = [] then []
     else [\<lparr>ref_creator = nb_node_id nb, ref_hash = tip_slot l nb\<rparr>]) nbs)"
  unfolding neighbor_tips_def tip_slot_def by (intro arg_cong [of _ _ concat] map_cong) auto

lemma neighbor_tips_same: "list_all2 same_neighbor xs ys \<Longrightarrow> neighbor_tips l xs = neighbor_tips l ys"
  unfolding neighbor_tips_slot by (induction rule: list_all2_induct) (auto simp: same_neighbor_def)

lemma keys_same: "list_all2 same_neighbor xs ys \<Longrightarrow> map fst xs = map fst ys"
  by (induction rule: list_all2_induct) (auto simp: same_neighbor_def)

lemma same_neighbor_put:
  assumes "list_all2 same_neighbor xs ys" "same_neighbor (k, a) (k, b)"
  shows "list_all2 same_neighbor (om_put k a xs) (om_put k b ys)"
  using assms(1)
proof (induction rule: list_all2_induct)
  case (Cons x xs y ys)
  then have "fst x = fst y" by (simp add: same_neighbor_def)
  with Cons assms(2) show ?case by (cases x; cases y) auto
qed (use assms(2) in simp)

lemma same_neighbor_find:
  assumes "list_all2 same_neighbor xs ys" "om_find k xs = Some a"
  shows "\<exists>b. om_find k ys = Some b \<and> same_neighbor (k, a) (k, b)"
  using assms
proof (induction rule: list_all2_induct)
  case (Cons x xs y ys)
  then show ?case by (cases x; cases y) (auto simp: same_neighbor_def split: if_splits)
qed simp

text \<open>The events of the log are pinned by the chain whose tick has just referenced the tail.\<close>

lemma pinned_cong:
  "st_clock_events t = st_clock_events s \<Longrightarrow> pinned l t = pinned l s"
  by (simp add: pinned_def fun_eq_iff)

lemma unpinned_tail_cong:
  "st_events t = st_events s \<Longrightarrow> (\<And>e. pinned l t e = pinned l s e) \<Longrightarrow> unpinned_tail l t = unpinned_tail l s"
  by (simp add: unpinned_tail_def)

lemma pinned_append:
  assumes "clocks_ok s" "append_clock_event c s = (q, t)"
  shows "pinned l t e \<longleftrightarrow> pinned l s e \<or> l = ce_chain c \<and> ev_hash e \<in> ref_hash ` set (ce_refs c)"
  using append_clock_fields(3) [OF assms] by (auto simp: pinned_def)

lemma tail_after_tick:
  assumes "clocks_ok s" "append_clock_event c s = (q, t)"
    "\<And>e. e \<in> set (unpinned_tail (ce_chain c) s) \<Longrightarrow> ev_hash e \<in> ref_hash ` set (ce_refs c)"
  shows "unpinned_tail l t = (if l = ce_chain c then [] else unpinned_tail l s)"
proof (cases "l = ce_chain c")
  case True
  have ev: "st_events t = st_events s" by (rule append_clock_fields(8) [OF assms(1,2)])
  show ?thesis
  proof (cases "rev (st_events s)")
    case Nil
    then show ?thesis using True ev by (simp add: unpinned_tail_def)
  next
    case (Cons e es)
    have "pinned l t e"
    proof (cases "pinned l s e")
      case False
      then have "e \<in> set (unpinned_tail (ce_chain c) s)"
        using True Cons by (simp add: unpinned_tail_def)
      then show ?thesis using assms(3) True pinned_append [OF assms(1,2)] by simp
    qed (simp add: pinned_append [OF assms(1,2)])
    then show ?thesis using True ev Cons by (simp add: unpinned_tail_def)
  qed
next
  case False
  then show ?thesis
    using unpinned_tail_cong [of t s] append_clock_fields(8) [OF assms(1,2)] pinned_append [OF assms(1,2)]
    by simp
qed

section \<open>Every input keeps memory and store in step\<close>

definition keeps_all :: "NodeConfig \<Rightarrow> bool" where
  "keeps_all config \<longleftrightarrow> (\<forall>cc \<in> set (cfg_chains config). cc_keep cc = 0) \<and> length (cfg_chains config) < 2 ^ 32"

lemma keeps_allD: "keeps_all config \<Longrightarrow> k < length (cfg_chains config) \<Longrightarrow> cc_keep (cfg_chains config ! k) = 0"
  by (simp add: keeps_all_def)

lemma in_step_publish:
  assumes "in_step n" "publish_event p data n = Inr (e, m)" "fresh_event e (nd_store n)"
  shows "in_step m"
proof -
  let ?t = "snd (append_event e (nd_store n))"
  have m: "nd_store m = ?t" "nd_unreferenced m = map (\<lambda>tail. tail @ [e]) (nd_unreferenced n)"
    "nd_neighbors m = nd_neighbors n" "nd_num_chains m = nd_num_chains n" "nd_routes m = nd_routes n"
    "nd_timed_routes m = nd_timed_routes n"
    using assms(2) by (auto simp: publish_event_def insert_event_def next_salt_def Let_def emit_def)
  have t: "st_events ?t = st_events (nd_store n) @ [e]" "st_neighbors ?t = st_neighbors (nd_store n)"
    "st_clock_events ?t = st_clock_events (nd_store n)" "st_routes ?t = st_routes (nd_store n)"
    "st_timed_routes ?t = st_timed_routes (nd_store n)"
    by (simp_all add: append_event_def Let_def)
  have "\<not> pinned l (nd_store n) e" for l
    using assms(3) by (auto simp: pinned_def fresh_event_def)
  then have "unpinned_tail l ?t = unpinned_tail l (nd_store n) @ [e]" for l
    by (simp add: unpinned_tail_def t(1) pinned_cong [OF t(3)])
  then show ?thesis using assms(1) by (simp add: in_step_def m t o_def)
qed

lemma in_step_create:
  assumes "in_step n" "node_ok p n" "keeps_all (nd_config n)" "create_clock_event p chain n = Inr m"
  shows "in_step m"
proof -
  obtain c n1 where x: "insert_clock_event p chain n = Inr (c, n1)"
    using assms(4) by (cases "insert_clock_event p chain n") (auto simp: create_clock_event_def)
  let ?s = "nd_store n" and ?t = "snd (append_clock_event c (nd_store n))"
  note c = insert_clock_spec [OF assms(2) x]
  obtain q where t: "append_clock_event c ?s = (q, ?t)" by (cases "append_clock_event c ?s") auto
  have "working m = working (n\<lparr>nd_store := ?t, nd_unreferenced := (nd_unreferenced n)[unat chain := []]\<rparr>)"
    using create_clock_event_spec [OF assms(2) x] assms(4) keeps_allD [OF assms(3)]
    by (auto simp: retained_def)
  moreover have "in_step (n\<lparr>nd_store := ?t, nd_unreferenced := (nd_unreferenced n)[unat chain := []]\<rparr>)"
  proof -
    note f = append_clock_fields [OF node_okD(2) [OF assms(2)] t]
    have k: "unat chain < nd_num_chains n" using c(9) node_okD(5) [OF assms(2)] by simp
    have tail: "nd_unreferenced n ! unat chain = unpinned_tail chain ?s"
      using assms(1) k by (simp add: in_step_def)
    have "unpinned_tail l ?t = (if l = chain then [] else unpinned_tail l ?s)" for l
      using tail_after_tick [OF node_okD(2) [OF assms(2)] t, of l] c(2,6) tail
      by (auto simp: image_Un image_image)
    moreover have "(of_nat l = chain) \<longleftrightarrow> l = unat chain" if "l < nd_num_chains n" for l
    proof -
      have "l < 2 ^ 32" using that assms(3) node_okD(6) [OF assms(2)] by (auto simp: keeps_all_def)
      then have "unat (of_nat l :: u32) = l" by (simp add: unat_of_nat take_bit_nat_eq_self)
      then show ?thesis by auto
    qed
    ultimately show ?thesis
      using assms(1) k by (auto simp: in_step_def f intro!: nth_equalityI simp: nth_list_update)
  qed
  ultimately show ?thesis using in_step_working by blast
qed

lemma in_step_gc:
  assumes "in_step n" "keeps_all (nd_config n)"
  shows "in_step (gc n)"
proof -
  have "foldl (\<lambda>n chain. if cc_keep (cfg_chains (nd_config n) ! chain) > 0
     then n\<lparr>nd_store := prune_chain (of_nat chain) (cc_keep (cfg_chains (nd_config n) ! chain)) (nd_store n)\<rparr>
     else n) n xs = n" if "set xs \<subseteq> {0..<length (cfg_chains (nd_config n))}" for xs
    using that by (induction xs) (simp_all add: keeps_allD [OF assms(2)])
  then show ?thesis using assms(1) by (simp add: gc_def)
qed

lemma in_step_overlay:
  assumes "in_step n"
  shows "in_step (add_neighbor i n)" "in_step (learn_route d h n)" "in_step (learn_route_at d h w n)"
proof -
  have u: "unpinned_tail l (put_neighbor nb s) = unpinned_tail l s" "unpinned_tail l (put_route d h s) = unpinned_tail l s"
    "unpinned_tail l (put_timed_routes tr s) = unpinned_tail l s" for l nb s tr
    by (simp_all add: unpinned_tail_def pinned_def put_neighbor_def put_route_def put_timed_routes_def)
  show "in_step (learn_route d h n)" "in_step (learn_route_at d h w n)"
    using assms by (simp_all add: in_step_def learn_route_def learn_route_at_def Let_def u)
      (simp_all add: put_route_def put_timed_routes_def)
  have "same_neighbor (i, \<lparr>nb_node_id = i, nb_last_hashes = []\<rparr>) (i, \<lparr>nb_node_id = i, nb_last_hashes = []\<rparr>)"
    by (simp add: same_neighbor_def)
  with assms show "in_step (add_neighbor i n)"
    by (auto simp: in_step_def add_neighbor_def Let_def u same_neighbor_put split: option.split)
      (simp_all add: put_neighbor_def same_neighbor_put)
qed

lemma bucket_tip_slot:
  assumes "bucket_tip chain h (nb_last_hashes nb) = Inr (changed, hs)"
  shows "tip_slot l (nb\<lparr>nb_last_hashes := hs\<rparr>) = (if l = chain then h else tip_slot l nb)"
    "changed \<longleftrightarrow> tip_slot chain nb \<noteq> h"
proof -
  let ?hs = "nb_last_hashes nb"
  let ?r = "if length ?hs \<le> unat chain then vector_resize (unat (chain + 1)) [] ?hs else ?hs"
  have r: "unat chain < length ?r" "hs = ?r[unat chain := h]" "changed = (?r ! unat chain \<noteq> h)"
    using assms by (auto simp: bucket_tip_def Let_def split: if_splits)
  have same: "(if k < length ?r then ?r ! k else []) = (if k < length ?hs then ?hs ! k else [])" for k
    using r(1) by (auto simp: vector_resize_def nth_append split: if_splits)
  show "changed \<longleftrightarrow> tip_slot chain nb \<noteq> h"
    using r(1,3) same [of "unat chain"] by (simp add: tip_slot_def)
  show "tip_slot l (nb\<lparr>nb_last_hashes := hs\<rparr>) = (if l = chain then h else tip_slot l nb)"
    using r(1,2) same [of "unat l"] unsigned_word_eqI [of chain l] by (auto simp: tip_slot_def nth_list_update)
qed

lemma in_step_update:
  assumes "in_step n" "clocks_ok (nd_store n)" "clock_event_by_hash h (nd_store n) = Inr (Some c)"
  shows "in_step (n\<lparr>nd_store := update_clock_event (c\<lparr>lce_referencing := rs\<rparr>) (nd_store n)\<rparr>)"
proof -
  let ?d = "c\<lparr>lce_referencing := rs\<rparr>" and ?s = "nd_store n"
  have h: "clock_event_by_hash (ce_hash ?d) ?s = Inr (Some c)"
    using assms(2,3) by (cases rule: by_hash_cases [of ?s h]) auto
  obtain q where q: "om_find q (st_clock_events ?s) = Some c"
    "st_clock_events (update_clock_event ?d ?s) = om_put q ?d (st_clock_events ?s)"
    using update_clock_spec(3) [OF assms(2) h] by (auto simp: same_links_def)
  have o: "om_ok (st_clock_events ?s)" by (rule clocks_okD(1) [OF assms(2)])
  have u: "(q, e) \<in> set (st_clock_events ?s) \<longleftrightarrow> e = c" for e
    using q(1) by (auto simp flip: om_find_iff [OF o])
  have p: "pinned l (update_clock_event ?d ?s) e \<longleftrightarrow> pinned l ?s e" for l e
    unfolding pinned_def q(2) set_om_put [OF o] using u by force
  have f: "st_events (update_clock_event ?d ?s) = st_events ?s" "st_neighbors (update_clock_event ?d ?s) = st_neighbors ?s"
    "st_routes (update_clock_event ?d ?s) = st_routes ?s" "st_timed_routes (update_clock_event ?d ?s) = st_timed_routes ?s"
    by (simp_all add: update_clock_event_def split: option.split)
  show ?thesis
    using assms(1) unpinned_tail_cong [OF f(1) p] by (simp add: in_step_def f)
qed

lemma in_step_bucket:
  assumes "in_step n" "node_ok p n" "om_find key (nd_neighbors n) = Some nb"
    and "bucket_tip chain h (nb_last_hashes nb) = Inr (changed, hs)" "nb' = nb\<lparr>nb_last_hashes := hs\<rparr>"
  shows "in_step (n\<lparr>nd_neighbors := om_put key nb' (nd_neighbors n),
      nd_store := if changed then put_neighbor nb' (nd_store n) else nd_store n\<rparr>)"
proof -
  let ?st = "st_neighbors (nd_store n)"
  note slot = bucket_tip_slot [OF assms(4)]
  have al: "list_all2 same_neighbor (nd_neighbors n) ?st" using assms(1) by (simp add: in_step_def)
  obtain b where b: "om_find key ?st = Some b" "same_neighbor (key, nb) (key, b)"
    using same_neighbor_find [OF al assms(3)] by blast
  have id: "nb_node_id nb' = key" "nb_node_id nb = key" using b(2) assms(5) by (simp_all add: same_neighbor_def)
  have st: "om_put key b ?st = ?st"
    using b(1) node_okD(3) [OF assms(2)] by (simp add: store_ok_def om_put_idem)
  have "list_all2 same_neighbor (om_put key nb' (nd_neighbors n)) (if changed then om_put key nb' ?st else ?st)"
  proof (cases changed)
    case True
    then show ?thesis using same_neighbor_put [OF al, of key nb' nb'] id by (simp add: same_neighbor_def)
  next
    case False
    then have "same_neighbor (key, nb') (key, b)"
      using b(2) slot id by (auto simp: same_neighbor_def assms(5))
    then show ?thesis using False same_neighbor_put [OF al, of key nb' b] st by simp
  qed
  moreover have "unpinned_tail l (if changed then put_neighbor nb' (nd_store n) else nd_store n) =
      unpinned_tail l (nd_store n)" for l
    by (simp add: unpinned_tail_def pinned_def put_neighbor_def)
  ultimately show ?thesis
    using assms(1) id(1) by (cases changed) (simp_all add: in_step_def put_neighbor_def)
qed

lemma in_step_learn:
  assumes "in_step m" "clocks_ok (nd_store m)" "clock_event_by_hash h (nd_store m) = Inr ce"
  shows "post in_step (case ce of None \<Rightarrow> Inr m | Some c \<Rightarrow>
    (if edge \<in> set (lce_referencing c) then Inr m else Inr (m\<lparr>nd_store := update_clock_event
       (c\<lparr>lce_referencing := lce_referencing c @ [edge]\<rparr>) (nd_store m)\<rparr>)))"
  using assms in_step_update [OF assms(1,2)] by (auto split: option.split)

lemma in_step_notification:
  assumes "in_step n" "node_ok p n" "om_find key (nd_neighbors n) = Some nb"
  shows "post in_step (process_clock_event_notification key nb chain h h' n)"
proof -
  have ok: "clocks_ok (nd_store (n\<lparr>nd_neighbors := om_put key nb' (nd_neighbors n),
      nd_store := if b then put_neighbor nb' (nd_store n) else nd_store n\<rparr>))" for nb' b
    using node_okD(2) [OF assms(2)] log_okD(2) [OF log_ok_overlay(1) [OF node_okD(1) [OF assms(2)]]] by simp
  show ?thesis
    unfolding process_clock_event_notification_def Let_def
  proof (rule post_bind_any, goal_cases)
    case x: (1 x)
    obtain changed hs where xx: "x = (changed, hs)" by fastforce
    show ?case
      unfolding xx prod.case
      by (rule post_bind_any, rule in_step_learn [OF in_step_bucket [OF assms x [unfolded xx] refl] ok])
  qed
qed

lemma in_step_packet:
  assumes "in_step n" "node_ok p n"
  shows "post in_step (on_packet_received p b n)"
  using in_step_notification [OF assms] in_step_framed [OF assms(1)] frame
  by (simp add: on_packet_received_def assms(1) split: sum.split option.split Payload.split)

lemma in_step_timers [simp]:
  "in_step (schedule_clock_timer q chain n) \<longleftrightarrow> in_step n" "in_step (schedule_purge_timer q n) \<longleftrightarrow> in_step n"
  "in_step (start q n) \<longleftrightarrow> in_step n"
  by (rule in_step_working, simp)+

lemma in_step_handle:
  assumes "in_step n" "node_ok p n" "keeps_all (nd_config n)" "fresh_input p inp n"
  shows "post in_step (handle p inp n)"
proof (cases inp)
  case (Fire t)
  have "post in_step (on_timer p (Clock_timer chain) n)" for chain
    unfolding on_timer_def using in_step_create [OF assms(1-3)] by (auto intro!: post_bind_any)
  moreover have "post in_step (on_timer p Purge_timer n)"
    unfolding on_timer_def
    using post_bind [OF in_step_framed [OF assms(1) frame_purge], of in_step "\<lambda>n. Inr (schedule_purge_timer p n)"]
    by simp
  ultimately show ?thesis using Fire by (cases t) simp_all
next
  case (Tick chain)
  then show ?thesis using in_step_create [OF assms(1-3)] by (auto intro: postI)
next
  case (Publish data)
  then show ?thesis
    using in_step_publish [OF assms(1)] assms(4) by (auto simp: fresh_input_def intro!: post_bind_any)
qed (use assms in_step_packet in_step_overlay in_step_gc in_step_framed frame in \<open>simp_all\<close>)

text \<open>The configuration never changes.\<close>

lemma config_packet: "post (\<lambda>m. nd_config m = nd_config n) (on_packet_received p b n)"
proof -
  have fr: "framed n r \<Longrightarrow> post (\<lambda>m. nd_config m = nd_config n) r" for r
    by (cases r) (simp_all add: working_def)
  have "post (\<lambda>m. nd_config m = nd_config n) (process_clock_event_notification key nb chain h h' n)"
    for key nb chain h h'
    unfolding process_clock_event_notification_def Let_def
    by (auto intro!: post_bind_any split: prod.splits option.splits)
  then show ?thesis
    using fr frame by (simp add: on_packet_received_def split: sum.split option.split Payload.split)
qed

lemma working_config: "working m = working n \<Longrightarrow> nd_config m = nd_config n"
  by (simp add: working_def)

lemma config_create: "post (\<lambda>m. nd_config m = nd_config n) (create_clock_event p chain n)"
proof -
  have i: "post (\<lambda>(c, m). nd_config m = nd_config n) (insert_clock_event p chain n)"
    by (auto simp: insert_clock_event_def next_salt_def clock_now_def Let_def intro!: post_bind_any)
  have "nd_config (foldl (\<lambda>n (i, nb). send_clock_event_notification nb c n) m nbs) = nd_config m"
    for c m and nbs :: "(NodeId, Neighbor) omap"
    by (rule working_config, rule working_foldl) (simp split: prod.split)
  then show ?thesis
    unfolding create_clock_event_def Let_def by (auto simp: emit_def intro!: post_bind [OF i])
qed

lemma config_handle: "post (\<lambda>m. nd_config m = nd_config n) (handle p inp n)"
proof -
  have fr: "framed n r \<Longrightarrow> post (\<lambda>m. nd_config m = nd_config n) r" for r
    by (cases r) (simp_all add: working_def)
  have gc: "nd_config (foldl (\<lambda>n chain. if cc_keep (cfg_chains (nd_config n) ! chain) > 0
     then n\<lparr>nd_store := prune_chain (of_nat chain) (cc_keep (cfg_chains (nd_config n) ! chain)) (nd_store n)\<rparr>
     else n) n xs) = nd_config n" for n xs
    by (induction xs arbitrary: n) simp_all
  have timer: "nd_config (schedule_clock_timer p c m) = nd_config m" "nd_config (schedule_purge_timer p m) = nd_config m"
    "nd_config (start p m) = nd_config m" for c m
    by (rule working_config, simp)+
  show ?thesis
  proof (cases inp)
    case (Fire t)
    then show ?thesis
      by (cases t) (auto simp: on_timer_def timer intro!: post_bind [OF config_create]
          post_bind [OF fr [OF frame_purge]])
  next
    case (Publish data)
    then show ?thesis
      by (auto simp: publish_event_def insert_event_def next_salt_def Let_def emit_def intro!: post_bind_any)
  qed (use config_create config_packet fr frame timer(3) gc in
    \<open>auto simp: add_neighbor_def learn_route_def learn_route_at_def gc_def Let_def split: option.split\<close>)
qed

definition neighbors_keyed :: "InMemoryStore \<Rightarrow> bool" where
  "neighbors_keyed s \<longleftrightarrow> (\<forall>(i, nb) \<in> set (st_neighbors s). nb_node_id nb = i)"

lemma make_node_in_step:
  assumes "store_ok s" "neighbors_keyed s" "make_node i s config = Inr n"
  shows "in_step n"
proof -
  have "list_all2 same_neighbor (st_neighbors s) (st_neighbors s)"
    using assms(2) by (auto simp: neighbors_keyed_def same_neighbor_def intro!: list.rel_refl_strong)
  then show ?thesis
    using assms(1,3) by (auto simp: make_node_def hydrate_spec Let_def in_step_def)
qed

lemma keeps_all_effective [simp]: "keeps_all (effective_config config) \<longleftrightarrow> keeps_all config"
  by (simp add: keeps_all_def effective_config_def)

lemma reachable_in_step:
  assumes "reachable p i s config n" "log_ok i (p_verify p) s" "neighbors_keyed s" "signs_as p i" "keeps_all config"
  shows "in_step n \<and> nd_config n = effective_config config"
  using assms(1)
proof (induction rule: reachable.induct)
  case (boot n)
  then show ?case using make_node_in_step [OF log_okD(1) [OF assms(2)] assms(3)] make_node_ok [OF assms(2)] by blast
next
  case (input n inp n')
  have "node_ok p n" using reachable_ok [OF input(1) assms(2,4)] by simp
  then show ?case
    using postD [OF in_step_handle [of n p inp] input(3)] postD [OF config_handle input(3)] input assms(5)
    by simp
qed

end
