(* ===== verification/Own_Discovery.thy ===== *)
theory Own_Discovery
  imports Recovery
begin

text \<open>
  A node can bound its own events by itself: once an event is published between two ticks of the
  fastest chain, the discovery of its chain completes at once, with the two clock events around it.
  This is where publishing, ticking, pruning, the reverse index, chain building, validation and the
  discovery tables meet.
\<close>

section \<open>The chain around an own event\<close>

definition own_chain :: "Event \<Rightarrow> LocalClockEvent \<Rightarrow> LocalClockEvent \<Rightarrow> EventChain" where
  "own_chain e t c = \<lparr>ch_event = e, ch_lower = [slice t], ch_upper = [slice c]\<rparr>"

text \<open>The event refers first to the clock event \<open>t\<close>, which is found by its hash, and \<open>c\<close> is the only one
  that refers to the event.\<close>

definition encloses :: "InMemoryStore \<Rightarrow> LocalClockEvent \<Rightarrow> Event \<Rightarrow> LocalClockEvent \<Rightarrow> bool" where
  "encloses s t e c \<longleftrightarrow> clock_event_by_hash (ce_hash t) s = Inr (Some t) \<and>
     (\<exists>rest. ev_refs e = ref_of_clock t # rest) \<and>
     (\<exists>q. live s q c \<and> (\<forall>q' d. live s q' d \<longrightarrow> ev_hash e \<in> ref_hash ` set (ce_refs d) \<longrightarrow> q' = q)) \<and>
     ref_of_event e \<in> set (ce_refs c) \<and> sint (ce_timestamp t) \<le> sint (ce_timestamp c)"

definition own_clock :: "NodeId \<Rightarrow> verifier \<Rightarrow> LocalClockEvent \<Rightarrow> bool" where
  "own_clock i verify c \<longleftrightarrow> ce_creator c = i \<and> authentic verify (link_of_clock (slice c))"

lemma own_chain_built:
  assumes "store_ok s" "encloses s t e c" "ce_creator t = i"
  shows "add_local_lower_bound i s (empty_chain_of e) = Inr (True, push_lower t (empty_chain_of e))"
    "add_local_upper_bound s (push_lower t (empty_chain_of e)) = Inr (True, own_chain e t c)"
proof -
  show "add_local_lower_bound i s (empty_chain_of e) = Inr (True, push_lower t (empty_chain_of e))"
    using assms(2,3)
    by (auto simp: encloses_def add_local_lower_bound_def empty_chain_of_def ref_of_clock_def)
  obtain q' where c: "live s q' c" "ref_of_event e \<in> set (ce_refs c)"
    "\<And>a d. live s a d \<Longrightarrow> ev_hash e \<in> ref_hash ` set (ce_refs d) \<Longrightarrow> a = q'"
    using assms(2) by (auto simp: encloses_def)
  let ?ch = "push_lower t (empty_chain_of e)"
  have h: "ref_hash (ln_ref (last (chain_links ?ch))) = ev_hash e"
    by (simp add: last_link_hash) (simp add: empty_chain_of_def)
  have in_idx: "q' \<in> set (clock_events_referencing (ev_hash e) s)"
    using mem.referencing_complete [OF assms(1), of q' c "ref_of_event e"] c(1,2)
    by (simp add: store_dag_def)
  then obtain d a where d: "add_local_upper_bound s ?ch = Inr (True, push_upper d ?ch)" "live s a d"
      "\<exists>r \<in> set (ce_refs d). ref_hash r = ev_hash e"
    using add_local_upper_spec [OF assms(1), of ?ch] unfolding h by auto
  have "a = q'" using d(2,3) c(3) by (metis image_eqI)
  then have "d = c"
    using d(2) c(1) assms(1) clocks_okD(1) unfolding store_ok_def by (metis om_find_iff option.inject)
  then show "add_local_upper_bound s ?ch = Inr (True, own_chain e t c)"
    using d(1) by (simp add: own_chain_def push_upper_def push_lower_def empty_chain_of_def)
qed

lemma own_chain_sound:
  assumes "encloses s t e c" "own_clock i verify t" "own_clock i verify c" "authentic verify (link_of_event e)"
  shows "chain_sound (own_chain e t c) i verify"
proof -
  have "linked [link_of_clock (slice t), link_of_event e, link_of_clock (slice c)]"
    using assms(1) by (simp add: linked_Cons encloses_def) (auto simp: linked_def)
  then show ?thesis
    using assms by (auto simp: chain_sound_def own_chain_def chain_links_def encloses_def own_clock_def)
qed

section \<open>The discovery\<close>

lemma own_discovery_completes:
  assumes "store_ok (nd_store n)" "encloses (nd_store n) t e c"
    and "own_clock (nd_id n) (p_verify p) t" "own_clock (nd_id n) (p_verify p) c"
    and "ev_creator e = nd_id n" "authentic (p_verify p) (link_of_event e)"
    and "om_find (ev_hash e) (nd_chain_discoveries n) = None"
  shows "\<exists>m. discover_event_chain p e w (Client k) n = Inr m \<and>
    Chain_completed k e (own_chain e t c) \<in> set (nd_out m) \<and>
    completed_chain (ev_hash e) m = Some (own_chain e t c)"
proof -
  have "ce_creator t = nd_id n" using assms(3) by (simp add: own_clock_def)
  note built = own_chain_built [OF assms(1,2) this]
  have "cr_ok (verify_chain (own_chain e t c) (nd_id n) (p_verify p))"
    using own_chain_sound [OF assms(2-4,6)] verify_chain_ok by blast
  then show ?thesis
    using assms(5,7) built
    by (simp add: discover_event_chain_def insert_chain_discovery_def clock_now_def Let_def emit_def
        conclude_chain_discovery_def set_chain_discovery_def om_find_simps complete_chain_discovery_def
        validate_chain_discovery_result_def call_completed_def completed_chain_def)
qed

section \<open>Publishing between two ticks\<close>

definition tip_refs :: "InMemoryStore \<Rightarrow> nat list \<Rightarrow> EventReference list" where
  "tip_refs s ls = concat (map (\<lambda>l. case tip_of (of_nat l) s of None \<Rightarrow> [] | Some c \<Rightarrow> [ref_of_clock c]) ls)"

lemma chain_tips_spec: "clocks_ok s \<Longrightarrow> chain_tips s ls = Inr (tip_refs s ls)"
  by (induction ls) (simp_all add: tip_refs_def latest_tip_of split: option.split)

lemma publish_spec:
  assumes "node_ok p n"
  shows "\<exists>e m. publish_event p data n = Inr (e, m) \<and> ev_creator e = nd_id n \<and> ev_data e = data \<and>
    ev_hash e = calculate_event_hash e \<and> ev_signature e = p_sign p (ev_hash e) \<and>
    ev_refs e = tip_refs (nd_store n) [0..<nd_num_chains n] \<and>
    working m = working (n\<lparr>nd_store := snd (append_event e (nd_store n)),
      nd_unreferenced := map (\<lambda>tail. tail @ [e]) (nd_unreferenced n)\<rparr>)"
  using chain_tips_spec [OF node_okD(2) [OF assms], of "[0..<nd_num_chains n]"]
  by (simp add: publish_event_def insert_event_def next_salt_def Let_def calculate_event_hash_def
      event_preimage_def working_def emit_def)

lemma tip_of_live: "tip_of l s = Some t \<Longrightarrow> \<exists>q. last (chain_of l (st_clock_events s)) = (q, t) \<and>
    chain_of l (st_clock_events s) \<noteq> [] \<and> live s q t \<and> ce_chain t = l"
  by (cases "last (chain_of l (st_clock_events s))")
    (auto simp: tip_of_def set_chain_of dest: last_in_set split: if_splits)

text \<open>Pruning keeps what is found by a hash that no dropped clock event has.\<close>

lemma prune_loop_lookup:
  assumes "clocks_ok s" "ring l s = qs" "0 < keep" "om_find h (st_clock_seq s) = Some q"
    and "\<And>a d. a \<in> set (take (length qs - keep) qs) \<Longrightarrow> live s a d \<Longrightarrow> ce_hash d \<noteq> h"
  shows "om_find h (st_clock_seq (prune_loop l keep qs s)) = Some q"
  using assms
proof (induction qs arbitrary: s)
  case (Cons a qs)
  let ?t = "drop_clock_event a (s\<lparr>st_chain_seqs := om_put l qs (st_chain_seqs s)\<rparr>)"
  note f = drop_fields [OF Cons.prems(1,2) refl]
  show ?case
  proof (cases "keep < length (a # qs)")
    case True
    then have qs: "qs \<noteq> []" "length (a # qs) - keep = Suc (length qs - keep)" using Cons.prems(3) by auto
    from f(1) obtain c where c: "live s a c" "st_clock_seq ?t = om_erase (ce_hash c) (st_clock_seq s)"
      by (auto dest: om_find_in)
    have "ce_hash c \<noteq> h" using Cons.prems(5) [OF _ c(1)] qs(2) by simp
    then have "om_find h (st_clock_seq ?t) = Some q" using Cons.prems(4) by (simp add: c(2) om_find_erase)
    moreover have "ce_hash d \<noteq> h" if "b \<in> set (take (length qs - keep) qs)" "live ?t b d" for b d
      using Cons.prems(5) [of b d] that qs(2) by (simp add: f(2) om_erase_def)
    ultimately show ?thesis
      using True Cons.IH [OF drop_ok [OF Cons.prems(1,2) qs(1) refl] _ Cons.prems(3)] f(3) [of l] by simp
  qed (use Cons.prems(4) in simp)
qed simp

lemma store_indexedD: "store_indexed s \<Longrightarrow> live s q c \<Longrightarrow> om_find (ce_hash c) (st_clock_seq s) = Some q"
  by (auto simp: store_indexed_def)

text \<open>The last two clock events of a chain survive a tick unless the chain keeps only one.\<close>

lemma retained_tick:
  assumes "clocks_ok s" "store_indexed s" "append_clock_event c s = (q, u)" "tip_of (ce_chain c) s = Some t"
    and "unat (ce_chain c) < length (cfg_chains config) \<longrightarrow> cc_keep (cfg_chains config ! unat (ce_chain c)) \<noteq> 1"
  shows "clock_event_by_hash (ce_hash t) (retained config (ce_chain c) u) = Inr (Some t)"
    "live (retained config (ce_chain c) u) q c"
proof -
  let ?l = "ce_chain c" let ?r = "retained config ?l u"
  let ?k = "cc_keep (cfg_chains config ! unat ?l)"
  obtain qt old where t: "chain_of ?l (st_clock_events s) = old @ [(qt, t)]" "live s qt t"
    using tip_of_live [OF assms(4)] by (metis append_butlast_last_id)
  note f = append_clock_fields [OF assms(1,3)] and ok = append_clock_ok [OF assms(1,3)]
  have u: "chain_of ?l (st_clock_events u) = old @ [(qt, t), (q, c)]"
    by (simp add: f(3) t(1)) (simp add: chain_of_def)
  have idx: "om_find (ce_hash t) (st_clock_seq u) = Some qt"
    using assms(2) t(2) by (auto simp: store_indexed_def f(4) om_find_emplace)
  have "{(qt, t), (q, c)} \<subseteq> set (chain_of ?l (st_clock_events ?r)) \<and> om_find (ce_hash t) (st_clock_seq ?r) = Some qt"
  proof (cases "unat ?l < length (cfg_chains config) \<and> ?k > 0")
    case True
    then have k: "?k \<ge> 2" using assms(5) by auto
    have "chain_of ?l (st_clock_events ?r) = drop (length old + 2 - ?k) (old @ [(qt, t), (q, c)])"
      using True chain_of_prune_same [OF clocks_okD(1) [OF ok], of ?k ?l] prune_chain_spec(2) [OF ok, of ?l ?k]
      by (simp add: retained_def u)
    also have "\<dots> = drop (length old + 2 - ?k) old @ [(qt, t), (q, c)]" using k by (simp add: drop_append)
    finally have ch: "chain_of ?l (st_clock_events ?r) = drop (length old + 2 - ?k) old @ [(qt, t), (q, c)]" .
    have ring: "ring ?l u = map fst old @ [qt, q]" using clocks_okD(5) [OF ok, of ?l] u by simp
    have "ce_hash d \<noteq> ce_hash t"
      if "a \<in> set (take (length (ring ?l u) - ?k) (ring ?l u))" "live u a d" for a d
    proof -
      have a: "a \<in> fst ` set old" using that(1) k by (auto simp: ring dest: in_set_takeD)
      have "om_ok (old @ [(qt, t)])"
        using om_ok_chain_of [OF clocks_okD(1) [OF assms(1)], of ?l] t(1) by simp
      then have "a \<noteq> qt" using a by (fastforce simp: om_ok_append_iff)
      moreover have "a \<noteq> q" using a clocks_okD(2) [OF assms(1)] f(1) set_chain_of t(1)
        by (metis (no_types, lifting) Un_iff imageE less_irrefl prod.collapse set_append)
      ultimately have "live s a d" "a \<noteq> qt" using that(2) by (auto simp: f(3))
      then show ?thesis
        using store_indexedD [OF assms(2), of a d] store_indexedD [OF assms(2) t(2)] by auto
    qed
    then have "om_find (ce_hash t) (st_clock_seq (prune_loop ?l ?k (ring ?l u) u)) = Some qt"
      using True by (intro prune_loop_lookup [OF ok refl _ idx]) auto
    then show ?thesis
      using True ch ring by (auto simp: retained_def prune_chain_def ring_def split: option.splits)
  next
    case False
    then show ?thesis by (auto simp: retained_def u idx)
  qed
  moreover have "clocks_ok ?r" using ok by (simp add: retained_def prune_chain_spec(1))
  ultimately show "clock_event_by_hash (ce_hash t) ?r = Inr (Some t)" "live ?r q c"
    using om_find_iff [OF clocks_okD(1), of ?r qt t]
    by (auto simp: clock_event_by_hash_def clock_at_def set_chain_of)
qed

lemma retained_within: "clocks_ok u \<Longrightarrow> live (retained config l u) q d \<Longrightarrow> live u q d"
  by (auto simp: retained_def prune_chain_spec(2) split: if_splits)

lemma publish_tick_encloses:
  assumes "node_ok p n" "tip_of 0 (nd_store n) = Some t"
    and "publish_event p data n = Inr (e, n1)" "fresh_event e (nd_store n)"
    and "insert_clock_event p 0 n1 = Inr (c, n1')"
    and "cfg_chains (nd_config n) \<noteq> [] \<longrightarrow> cc_keep (cfg_chains (nd_config n) ! 0) \<noteq> 1"
  shows "encloses (retained (nd_config n1) 0 (snd (append_clock_event c (nd_store n1)))) t e c"
proof -
  have n1: "ev_refs e = tip_refs (nd_store n) [0..<nd_num_chains n]"
    "nd_store n1 = snd (append_event e (nd_store n))" "nd_config n1 = nd_config n"
    "nd_unreferenced n1 = map (\<lambda>tail. tail @ [e]) (nd_unreferenced n)"
    using publish_spec [OF assms(1), of data] assms(3) by (auto simp: working_def)
  have ok1: "node_ok p n1" using postD [OF node_ok_publish [OF assms(1)] assms(3)] by simp
  note c = insert_clock_spec [OF ok1 assms(5)]
  have ev: "st_clock_events (nd_store n1) = st_clock_events (nd_store n)"
    by (simp add: n1(2) append_event_def Let_def)
  have tip: "tip_of 0 (nd_store n1) = Some t" using assms(2) unfolding tip_of_def ev .
  obtain q u where u: "append_clock_event c (nd_store n1) = (q, u)" by fastforce
  note f = append_clock_fields [OF node_okD(2) [OF ok1] u]
  have k: "0 < nd_num_chains n" "nd_unreferenced n \<noteq> []"
    using node_okD(5,6) [OF assms(1)] by auto
  have "\<exists>rest. ev_refs e = ref_of_clock t # rest"
    using k(1) assms(2) by (simp add: n1(1) tip_refs_def upt_conv_Cons)
  moreover have "ref_of_event e \<in> set (ce_refs c)"
    using k(2) by (auto simp: c(6) n1(4))
  moreover have "q' = q" if "live (retained (nd_config n1) 0 u) q' d" "ev_hash e \<in> ref_hash ` set (ce_refs d)" for q' d
    using retained_within [OF append_clock_ok [OF node_okD(2) [OF ok1] u] that(1)] that(2) assms(4)
    by (auto simp: f(3) ev fresh_event_def)
  moreover note retained_tick [OF node_okD(2) [OF ok1] log_okD(3) [OF node_okD(1) [OF ok1]] u,
      of t "nd_config n1"] c(2,7) tip
  ultimately show ?thesis
    using assms(6) u by (auto simp: encloses_def n1(3))
qed

lemma own_event_completes:
  assumes "node_ok p n" "signs_as p (nd_id n)" "tip_of 0 (nd_store n) = Some t"
    and "publish_event p data n = Inr (e, n1)" "fresh_event e (nd_store n)"
    and "cfg_chains (nd_config n) \<noteq> [] \<longrightarrow> cc_keep (cfg_chains (nd_config n) ! 0) \<noteq> 1"
    and "om_find (ev_hash e) (nd_chain_discoveries n) = None"
  shows "\<exists>c n2 m. create_clock_event p 0 n1 = Inr n2 \<and>
    discover_event_chain p e w (Client k) n2 = Inr m \<and>
    Chain_completed k e (own_chain e t c) \<in> set (nd_out m) \<and>
    chain_sound (own_chain e t c) (nd_id n) (p_verify p)"
proof -
  have n1: "ev_creator e = nd_id n" "authentic (p_verify p) (link_of_event e)" "nd_id n1 = nd_id n"
    using publish_spec [OF assms(1), of data] assms(2,4)
    by (auto simp: working_def authentic_def link_of_event_def signs_as_def calculate_event_hash_def)
  have ok1: "node_ok p n1" using postD [OF node_ok_publish [OF assms(1)] assms(4)] by simp
  obtain c n1' where c: "insert_clock_event p 0 n1 = Inr (c, n1')"
    using insert_clock_total [OF ok1, of 0] node_okD(6) [OF ok1] by (auto simp: less_max_iff_disj)
  note cs = insert_clock_spec [OF ok1 c]
  obtain n2 where n2: "create_clock_event p 0 n1 = Inr n2"
    "nd_store n2 = retained (nd_config n1) 0 (snd (append_clock_event c (nd_store n1)))" "nd_id n2 = nd_id n1"
    using create_clock_event_spec [OF ok1 c] by (auto simp: working_def)
  have enc: "encloses (nd_store n2) t e c"
    unfolding n2(2) by (rule publish_tick_encloses [OF assms(1,3-5) c assms(6)])
  obtain q where "live (nd_store n) q t" using tip_of_live [OF assms(3)] by blast
  then have t: "own_clock (nd_id n) (p_verify p) t"
    using log_okD(5,6) [OF node_okD(1) [OF assms(1)]] by (simp add: own_clock_def)
  have c': "own_clock (nd_id n) (p_verify p) c"
    using cs(1,4,5) assms(2) n1(3)
    by (simp add: own_clock_def signs_as_def)
  have "store_ok (nd_store n2)"
    using mem.append_clock_ok [OF node_okD(3) [OF ok1], of c] store_ok_prune by (simp add: n2(2) retained_def)
  moreover have "nd_chain_discoveries n2 = nd_chain_discoveries n"
    using postD [OF quiet_create_clock_event n2(1)] postD [OF quiet_publish assms(4)] by (simp add: quiet_def)
  ultimately show ?thesis
    using own_discovery_completes [of n2 t e c p w k] own_chain_sound [OF enc t c' n1(2)] enc t c' n1 n2 assms(7)
    by auto
qed

section \<open>Sample nodes\<close>

definition sample_ports :: NodePorts where
  "sample_ports = \<lparr>p_now = of_nat, p_salt = of_nat, p_sign = (\<lambda>_. []), p_verify = (\<lambda>_ _ _. True), p_timer = of_nat\<rparr>"

definition sample_config :: NodeConfig where
  "sample_config = \<lparr>cfg_chains = [\<lparr>cc_interval = 10, cc_keep = 0\<rparr>], cfg_discovery_expiry = 100,
     cfg_discovery_hop_limit = 0, cfg_discovery_routing = static_shortest_path, cfg_discovery_fanout = 0,
     cfg_discovery_forward_cap = 0\<rparr>"

lemma log_ok_empty [simp]: "log_ok i verify empty_store"
  by (simp add: log_ok_def log_acyclic_def log_own_def log_authentic_def log_chained_def)
    (simp add: empty_store_def chain_of_def)

lemma sample_signs [simp]: "signs_as sample_ports i"
  by (simp add: signs_as_def sample_ports_def)

lemma sample_keeps_all [simp]: "keeps_all sample_config"
  by (simp add: keeps_all_def sample_config_def)

text \<open>A node that has booted from an empty store and ticked once.\<close>

lemma boot_and_tick:
  assumes "signs_as p i"
  shows "\<exists>n t m. make_node i empty_store sample_config = Inr n \<and>
     fresh_input p (Tick 0) n \<and> handle p (Tick 0) n = Inr m \<and>
     tip_of 0 (nd_store m) = Some t \<and> nd_chain_discoveries m = [] \<and> nd_id m = i \<and>
     nd_config m = sample_config \<and> node_ok p m \<and>
     (\<forall>(q, c) \<in> set (st_clock_events (nd_store m)). ce_refs c = [])"
proof -
  obtain n where n: "make_node i empty_store sample_config = Inr n"
    using make_node_total [OF store_ok_empty] by blast
  note ok = make_node_ok [of _ p, OF log_ok_empty n]
  have cfg: "nd_config n = sample_config" by (simp add: ok(4)) (simp add: effective_config_def sample_config_def)
  have n0: "nd_neighbors n = []" "nd_unreferenced n = [[]]" "nd_chain_discoveries n = []"
    using n by (auto simp: make_node_def hydrate_spec Let_def sample_config_def unpinned_tail_def)
      (simp_all add: empty_store_def)
  have tip0: "tip_of 0 (nd_store n) = None" by (simp add: ok(3) tip_of_def empty_store_def chain_of_def)
  obtain c n' where c: "insert_clock_event p 0 n = Inr (c, n')"
    using insert_clock_total [OF ok(1), of 0] node_okD(6) [OF ok(1)] by (auto simp: less_max_iff_disj)
  note cs = insert_clock_spec [OF ok(1) c]
  have refs: "ce_refs c = []" by (simp add: cs(6) tip0 n0 neighbor_tips_def)
  have fresh: "fresh_input p (Tick 0) n"
    by (simp add: fresh_input_def c fresh_clock_def refs ok(3)) (simp add: empty_store_def)
  obtain m where m: "create_clock_event p 0 n = Inr m" "working m = working (n\<lparr>nd_store :=
      retained (nd_config n) 0 (snd (append_clock_event c (nd_store n))), nd_unreferenced := (nd_unreferenced n)[unat 0 := []]\<rparr>)"
    using create_clock_event_spec [OF ok(1) c] by auto
  have st: "nd_store m = snd (append_clock_event c empty_store)"
    using m(2) ok(3) cfg by (simp add: working_def retained_def sample_config_def)
  have ev: "st_clock_events (nd_store m) = [(0, c)]"
    by (simp add: st append_clock_event_def Let_def empty_store_def om_emplace_def)
  have "nd_chain_discoveries m = []"
    using postD [OF quiet_create_clock_event m(1)] n0(3) by (simp add: quiet_def)
  moreover have "tip_of 0 (nd_store m) = Some c" using cs(2) by (simp add: tip_of_def ev chain_of_def)
  moreover have "node_ok p m"
    using postD [OF node_ok_handle [OF ok(1) _ fresh]] m(1) ok(2) assms by simp
  moreover have "nd_id m = i" "nd_config m = sample_config"
    using m(2) ok(2) cfg by (simp_all add: working_def)
  ultimately show ?thesis using n fresh m(1) ev refs by auto
qed

lemmas sample_boot = boot_and_tick [OF sample_signs, of "node_id_of_u64 1"]

lemma sample_published:
  "\<exists>n0 n t e n1. make_node (node_id_of_u64 1) empty_store sample_config = Inr n0 \<and>
     handle sample_ports (Tick 0) n0 = Inr n \<and> fresh_input sample_ports (Tick 0) n0 \<and>
     node_ok sample_ports n \<and> tip_of 0 (nd_store n) = Some t \<and>
     publish_event sample_ports [1] n = Inr (e, n1) \<and> fresh_event e (nd_store n) \<and>
     nd_config n = sample_config \<and> nd_chain_discoveries n = []"
proof -
  obtain n0 t n where n: "make_node (node_id_of_u64 1) empty_store sample_config = Inr n0"
    "handle sample_ports (Tick 0) n0 = Inr n" "tip_of 0 (nd_store n) = Some t" "nd_chain_discoveries n = []"
    "nd_config n = sample_config" "node_ok sample_ports n" "fresh_input sample_ports (Tick 0) n0"
    "\<forall>(q, c) \<in> set (st_clock_events (nd_store n)). ce_refs c = []"
    using sample_boot by blast
  obtain e n1 where "publish_event sample_ports [1] n = Inr (e, n1)"
    using publish_spec [OF n(6), of "[1]"] by blast
  moreover have "fresh_event e (nd_store n)" using n(8) by (auto simp: fresh_event_def)
  ultimately show ?thesis using n by blast
qed

lemma sample_discovery:
  "\<exists>n0 e inputs n ch. make_node (node_id_of_u64 1) empty_store sample_config = Inr n0 \<and>
     run sample_ports inputs n0 = Inr n \<and> Chain_completed 7 e ch \<in> set (nd_out n)"
proof -
  obtain n0 n t e n1 where n: "make_node (node_id_of_u64 1) empty_store sample_config = Inr n0"
    "handle sample_ports (Tick 0) n0 = Inr n" "node_ok sample_ports n" "tip_of 0 (nd_store n) = Some t"
    "publish_event sample_ports [1] n = Inr (e, n1)" "fresh_event e (nd_store n)"
    "nd_config n = sample_config" "nd_chain_discoveries n = []"
    using sample_published by blast
  obtain c n2 m where "create_clock_event sample_ports 0 n1 = Inr n2"
    "discover_event_chain sample_ports e TimeRange_all (Client 7) n2 = Inr m"
    "Chain_completed 7 e (own_chain e t c) \<in> set (nd_out m)"
    using own_event_completes [OF n(3) sample_signs n(4-6), of TimeRange_all 7] n(7,8)
    by (auto simp: sample_config_def)
  then have "run sample_ports [Tick 0, Publish [1], Tick 0, Discover_chain e TimeRange_all 7] n0 = Inr m \<and>
      Chain_completed 7 e (own_chain e t c) \<in> set (nd_out m)"
    using n(2,5) by (simp add: run_def)
  then show ?thesis using n(1) by blast
qed

end
