(* ===== verification/Discovery_Lifecycle.thy ===== *)
theory Discovery_Lifecycle
  imports Result_Safety
begin

text \<open>
  The life of a chain discovery: once it is completed or aborted, nothing but the purge timer
  changes its entry. Later responses, new discoveries of the same event and everything else leave
  the result as it was first reported.
\<close>

section \<open>Bounds and order discoveries leave the chain discoveries alone\<close>

abbreviation chains_kept :: "Node \<Rightarrow> Node result \<Rightarrow> bool" where
  "chains_kept n \<equiv> post (\<lambda>m. nd_chain_discoveries m = nd_chain_discoveries n)"

named_theorems keeps_chains \<open>operations that leave the chain discoveries alone\<close>

lemma kept_fold:
  assumes "\<And>x m. chains_kept m (f x m)"
  shows "chains_kept n (foldE f xs n)"
proof (rule post_foldE)
  show "chains_kept n (f x m)" if "nd_chain_discoveries m = nd_chain_discoveries n" for x m
    using assms [of m x] that by simp
qed simp

lemma kept_bind:
  assumes "chains_kept n r" "\<And>m. chains_kept m (f m)"
  shows "chains_kept n (bindE r f)"
proof (rule post_bind [OF assms(1)])
  show "chains_kept n (f m)" if "nd_chain_discoveries m = nd_chain_discoveries n" for m
    using assms(2) [of m] that by simp
qed

lemma kept_bookkeeping [keeps_chains]:
  "chains_kept n (abort_bounds_discovery p h n)" "chains_kept n (complete_bounds_discovery p h n)"
  "chains_kept n (abort_order_discovery p h1 h2 n)" "chains_kept n (complete_order_discovery p h1 h2 n)"
  by (auto simp: abort_bounds_discovery_def complete_bounds_discovery_def abort_order_discovery_def
      complete_order_discovery_def clock_now_def Let_def emit_def split: option.split)

lemma kept_upto:
  "nd_chain_discoveries m = nd_chain_discoveries n \<Longrightarrow> chains_kept m r \<Longrightarrow> chains_kept n r"
  by simp

lemma kept_set_order [simp]: "nd_chain_discoveries (set_order key ord n) = nd_chain_discoveries n"
  by (simp add: set_order_def split: option.split)

lemma kept_finish [keeps_chains]: "chains_kept n (finish_bounds p ch n)" "chains_kept n (finish_order p ch key n)"
proof -
  show "chains_kept n (finish_bounds p ch n)"
    by (auto simp: finish_bounds_def Let_def split: option.split intro!: kept_upto [OF _ kept_bookkeeping(2)])
  have "chains_kept n (complete_order_discovery p (fst key) (snd key) (set_order key ord n))" for ord
    by (rule kept_upto [OF _ kept_bookkeeping(4)]) simp
  then show "chains_kept n (finish_order p ch key n)"
    by (auto simp: finish_order_def Let_def split: option.split intro!: post_bind_any)
qed

lemma kept_on_chain [keeps_chains]: "chains_kept n (on_chain_completed p ch n)" "chains_kept n (on_chain_aborted p e n)"
proof -
  show "chains_kept n (on_chain_completed p ch n)"
    unfolding on_chain_completed_def by (intro kept_bind kept_fold keeps_chains)
  have "chains_kept m (abandon_order p h key m)" for h key m
    by (auto simp: abandon_order_def split: option.split intro: keeps_chains)
  then show "chains_kept n (on_chain_aborted p e n)"
    unfolding on_chain_aborted_def by (intro kept_bind kept_fold) (auto intro: keeps_chains)
qed

lemma kept_call [keeps_chains]: "chains_kept n (call_completed p e ch cb n)" "chains_kept n (call_aborted p e cb n)"
  by (auto simp: call_completed_def call_aborted_def emit_def split: ChainCallback.split intro: keeps_chains)

section \<open>Settled entries\<close>

definition settled :: "EventHash \<Rightarrow> (EventChainDiscovery, ChainCallback) Entry \<Rightarrow> Node \<Rightarrow> bool" where
  "settled h en n \<longleftrightarrow> om_find h (nd_chain_discoveries n) = Some en \<and> cd_state (en_discovery en) \<noteq> in_progress"

lemma settled_kept: "settled h en n \<Longrightarrow> chains_kept n r \<Longrightarrow> post (settled h en) r"
  by (cases r) (simp_all add: settled_def)

lemma settled_set: "settled h en n \<Longrightarrow> h' \<noteq> h \<Longrightarrow> settled h en (set_chain_discovery h' d n)"
  by (simp add: settled_def set_chain_discovery_def om_find_put split: option.split)

lemma settled_reads [simp]: "settled h en (n\<lparr>nd_reads := k\<rparr>) \<longleftrightarrow> settled h en n"
  and settled_emit [simp]: "settled h en (emit os n) \<longleftrightarrow> settled h en n"
  by (simp_all add: settled_def emit_def)

lemma settled_fold:
  assumes "settled h en n" "\<And>x m. chains_kept m (f x m)"
  shows "post (settled h en) (foldE f xs n)"
  by (rule settled_kept [OF assms(1)], rule kept_fold, rule assms(2))

lemma settled_abort:
  assumes "settled h en n"
  shows "post (settled h en) (abort_chain_discovery p h' n)"
proof (cases "h' = h")
  case True
  then show ?thesis using assms by (simp add: settled_def abort_chain_discovery_def)
next
  case False
  then show ?thesis
    using assms
    by (auto simp: abort_chain_discovery_def clock_now_def Let_def split: option.split
        intro!: post_bind [OF settled_fold [OF settled_set]] keeps_chains)
qed

lemma settled_complete:
  assumes "settled h en n"
  shows "post (settled h en) (complete_chain_discovery p h' n)"
proof (cases "h' = h")
  case True
  then show ?thesis using assms by (simp add: settled_def complete_chain_discovery_def)
next
  case False
  then show ?thesis
    using assms
    by (auto simp: complete_chain_discovery_def clock_now_def Let_def split: option.split
        intro!: settled_abort post_bind [OF settled_fold [OF settled_set]] keeps_chains)
qed

lemma settled_conclude:
  assumes "settled h en n" "h' \<noteq> h"
  shows "post (settled h en) (conclude_chain_discovery p h' d n)"
  unfolding conclude_chain_discovery_def Let_def
  using assms by (auto intro!: post_bind_any settled_abort settled_complete settled_set)

lemma settled_quiet: "settled h en n \<Longrightarrow> post (quiet n) r \<Longrightarrow> post (settled h en) r"
  by (cases r) (simp_all add: settled_def quiet_def)

lemma settled_response:
  assumes "settled h en n"
  shows "post (settled h en) (process_chain_response p nb m n)"
proof -
  have r: "settled h en (send_chain_response_retrace j ch path n)" for j ch path
    using assms quiet_retrace [of n j ch path] by (simp add: settled_def quiet_def)
  show ?thesis
  proof (cases "ev_hash (ch_event (rs_chain m)) = h")
    case True
    have "om_find h (nd_chain_discoveries n) = Some en" "cd_state (en_discovery en) \<noteq> in_progress"
      using assms by (simp_all add: settled_def)
    then show ?thesis
      using True assms r
      by (auto simp: process_chain_response_def Let_def split: option.split intro!: post_bind_any)
  next
    case False
    then show ?thesis
      using assms r
      by (auto simp: process_chain_response_def Let_def split: option.split
          intro!: post_bind_any settled_conclude settled_set)
  qed
qed

lemma settled_discover_chain:
  assumes "settled h en n"
  shows "post (settled h en) (discover_event_chain p e w cb n)"
proof (cases "om_find (ev_hash e) (nd_chain_discoveries n)")
  case (Some x)
  then show ?thesis
    using assms settled_kept [OF assms] keeps_chains
    by (auto simp: discover_event_chain_def split: DiscoveryState.split)
      (auto simp: settled_def om_find_put)
next
  case None
  then have ne: "ev_hash e \<noteq> h" using assms by (auto simp: settled_def)
  obtain d m where ins: "insert_chain_discovery p e (nd_id n) w cb n = (d, m)" by fastforce
  then have m: "settled h en m" "nd_id m = nd_id n"
    using assms by (auto simp: insert_chain_discovery_def clock_now_def Let_def settled_def om_find_emplace)
  have f: "settled h en (flood_chain_request p dest ctx rq k)" if "settled h en k" for dest ctx rq k
    using that quiet_flood [of k p dest ctx rq] by (simp add: settled_def quiet_def)
  show ?thesis
    using None ne m ins f settled_conclude by (simp add: discover_event_chain_def Let_def)
qed

lemma settled_update [simp]:
  "settled h en (n\<lparr>nd_bounds_discoveries := b\<rparr>) \<longleftrightarrow> settled h en n"
  "settled h en (n\<lparr>nd_order_discoveries := d\<rparr>) \<longleftrightarrow> settled h en n"
  by (simp_all add: settled_def)

lemma settled_discover:
  assumes "settled h en n"
  shows "post (settled h en) (discover_event_bounds p e w k n)" "post (settled h en) (discover_event_order p e f w k n)"
  using assms
  by (auto simp: discover_event_bounds_def discover_event_order_def insert_bounds_discovery_def
      insert_order_discovery_def clock_now_def Let_def split: option.split DiscoveryState.split
      intro!: settled_discover_chain post_bind [OF settled_discover_chain])

lemma settled_packet:
  assumes "settled h en n"
  shows "post (settled h en) (on_packet_received p b n)"
  using settled_response [OF assms] settled_quiet [OF assms quiet_chain_request]
    settled_quiet [OF assms quiet_clock_notification]
  by (simp add: on_packet_received_def assms split: sum.split option.split Payload.split)

lemma settled_handle:
  assumes "settled h en n" "inp \<noteq> Fire Purge_timer"
  shows "post (settled h en) (handle p inp n)"
proof -
  have q: "settled h en m" if "quiet n m" for m
    using settled_quiet [OF assms(1), of "Inr m"] that by simp
  show ?thesis
  proof (cases inp)
    case (Fire t)
    then obtain chain where t: "t = Clock_timer chain" using assms(2) by (cases t) auto
    have "settled h en (schedule_clock_timer p chain m)" if "settled h en m" for m
      using settled_quiet [OF that, of "Inr (schedule_clock_timer p chain m)"] quiet_schedule(1) by simp
    then show ?thesis
      using Fire t by (auto simp: on_timer_def intro!: post_bind [OF settled_quiet [OF assms(1) quiet_create_clock_event]])
  next
    case (Publish data)
    have "post (\<lambda>(e, m). settled h en m) (publish_event p data n)"
      using quiet_publish [of n p data] q by (cases "publish_event p data n") auto
    then show ?thesis using Publish by (auto intro!: post_bind [of "\<lambda>(e, m). settled h en m"])
  qed (use assms q settled_packet settled_discover_chain settled_discover quiet_overlay quiet_gc quiet_start
      settled_quiet [OF assms(1) quiet_create_clock_event] in \<open>auto\<close>)
qed

end
