(* ===== verification/Node_Properties.thy ===== *)
theory Node_Properties
  imports Own_Discovery Discovery_Lifecycle
begin

text \<open>
  The guarantees of a node: its log, its results, its restarts and its own discoveries. Each property
  speaks of the states a node reaches by handling inputs, or of one handler at a state that satisfies
  the invariant of the log.
\<close>

section \<open>Results\<close>

text \<open>C1: Whatever datagrams, timers and calls a node handles, everything it reports is proved: a chain
  handed to a client encloses the event between two clock events of this node and every link of it
  is authentic and linked to the one before; reported bounds are the timestamps of the ends of such
  a chain; a reported order is the comparison of two such chains. No assumption is made on the peers,
  the clock, the random source, the signature scheme or the store.\<close>

theorem discovered_results_sound:
  assumes "make_node i s config = Inr n0" "run p inputs n0 = Inr n"
  shows "(Chain_completed k e ch \<in> set (nd_out n) \<longrightarrow>
      chain_sound ch i (p_verify p) \<and> ev_hash (ch_event ch) = ev_hash e) \<and>
    (Bounds_completed k e lo hi \<in> set (nd_out n) \<longrightarrow>
      (\<exists>ch. chain_sound ch i (p_verify p) \<and> ev_hash (ch_event ch) = ev_hash e \<and>
        lo = ce_timestamp (hd (ch_lower ch)) \<and> hi = ce_timestamp (last (ch_upper ch)) \<and> sint lo \<le> sint hi)) \<and>
    (Order_completed k e f ord \<in> set (nd_out n) \<longrightarrow>
      (\<exists>a b. chain_sound a i (p_verify p) \<and> ev_hash (ch_event a) = ev_hash e \<and>
        chain_sound b i (p_verify p) \<and> ev_hash (ch_event b) = ev_hash f \<and> ord = compare a b))"
proof -
  have "results_sound i (p_verify p) n"
    using postD [OF sound_run [OF results_sound_make_node [OF assms(1)]] assms(2)] .
  then have o: "out \<in> set (nd_out n) \<Longrightarrow> sound_output i (p_verify p) out" for out
    by (simp add: results_sound_def)
  show ?thesis
    using o [of "Chain_completed k e ch"] o [of "Bounds_completed k e lo hi"] o [of "Order_completed k e f ord"]
    by (auto simp: proves_def proves_bounds_def proves_order_def chain_sound_def)
qed

theorem discovered_results_sound_witness:
  "\<exists>n0 e inputs n ch. make_node (node_id_of_u64 1) empty_store sample_config = Inr n0 \<and>
     run sample_ports inputs n0 = Inr n \<and> Chain_completed 7 e ch \<in> set (nd_out n) \<and>
     chain_sound ch (node_id_of_u64 1) (p_verify sample_ports)"
proof -
  obtain n0 e inputs n ch where "make_node (node_id_of_u64 1) empty_store sample_config = Inr n0"
    "run sample_ports inputs n0 = Inr n" "Chain_completed 7 e ch \<in> set (nd_out n)"
    using sample_discovery by blast
  moreover from this have "chain_sound ch (node_id_of_u64 1) (p_verify sample_ports)"
    using discovered_results_sound [of "node_id_of_u64 1" empty_store sample_config n0 sample_ports inputs n 7 e ch]
    by blast
  ultimately show ?thesis by blast
qed

section \<open>The log\<close>

text \<open>C3: The log of a node stays sound: started on a sound store, a node whose signer accepts its own
  signatures and whose new hashes are fresh keeps, through any inputs, a log of authentic clock events
  of its own, in which every chain is hash-linked with timestamps that never decrease, references
  point backwards, and every index of the store agrees with the log.\<close>

theorem node_log_invariant:
  assumes "reachable p i s config n" "log_ok i (p_verify p) s" "signs_as p i"
  shows "log_ok i (p_verify p) (nd_store n) \<and>
    successively (\<lambda>a b. ref_of_clock a \<in> set (ce_refs b) \<and> sint (ce_timestamp a) \<le> sint (ce_timestamp b))
      (map snd (chain_of l (st_clock_events (nd_store n))))"
  using reachable_ok [OF assms] log_okD(7) [OF node_okD(1), of p n l]
  by (auto simp: node_ok_def successively_map succeeds_def)

theorem node_log_invariant_witness:
  "\<exists>n. reachable sample_ports (node_id_of_u64 1) empty_store sample_config n \<and>
     log_ok (node_id_of_u64 1) (p_verify sample_ports) (nd_store n) \<and> tip_of 0 (nd_store n) \<noteq> None"
  using sample_boot node_log_invariant [of sample_ports _ empty_store sample_config]
  by (metis log_ok_empty option.distinct(1) reachable.boot reachable.input sample_signs)

section \<open>Own events\<close>

text \<open>C4: A node that has ticked its fastest chain, publishes an event and ticks that chain again can
  discover the chain of the event at once: the tick succeeds, the discovery completes in the same
  call, the client is told, and the chain it is given consists of the clock events before and after
  the event and is sound. The chain has to retain two clock events, and the hash of the event must
  not have been referenced before.\<close>

theorem own_event_discovery:
  assumes "node_ok p n" "signs_as p (nd_id n)" "tip_of 0 (nd_store n) = Some t"
    and "publish_event p data n = Inr (e, n1)" "fresh_event e (nd_store n)"
    and "cfg_chains (nd_config n) \<noteq> [] \<longrightarrow> cc_keep (cfg_chains (nd_config n) ! 0) \<noteq> 1"
    and "om_find (ev_hash e) (nd_chain_discoveries n) = None"
  shows "\<exists>c n2 m. create_clock_event p 0 n1 = Inr n2 \<and>
    discover_event_chain p e w (Client k) n2 = Inr m \<and>
    Chain_completed k e (own_chain e t c) \<in> set (nd_out m) \<and>
    chain_sound (own_chain e t c) (nd_id n) (p_verify p)"
  by (rule own_event_completes [OF assms])

theorem own_event_discovery_witness:
  "\<exists>n e n1 n2 m ch. publish_event sample_ports [1] n = Inr (e, n1) \<and> create_clock_event sample_ports 0 n1 = Inr n2 \<and>
     discover_event_chain sample_ports e TimeRange_all (Client 7) n2 = Inr m \<and> Chain_completed 7 e ch \<in> set (nd_out m)"
proof -
  obtain t n e n1 where m: "node_ok sample_ports n" "tip_of 0 (nd_store n) = Some t"
    "publish_event sample_ports [1] n = Inr (e, n1)" "fresh_event e (nd_store n)"
    "nd_config n = sample_config" "nd_chain_discoveries n = []"
    using sample_published by blast
  then have "\<exists>c n2 m. create_clock_event sample_ports 0 n1 = Inr n2 \<and>
    discover_event_chain sample_ports e TimeRange_all (Client 7) n2 = Inr m \<and>
    Chain_completed 7 e (own_chain e t c) \<in> set (nd_out m) \<and>
    chain_sound (own_chain e t c) (nd_id n) (p_verify sample_ports)"
    by (intro own_event_discovery) (simp_all add: sample_config_def)
  then show ?thesis using m(3) by blast
qed

section \<open>Restart\<close>

text \<open>C12: A restart loses and repeats nothing: a node that does not prune and is restarted on its store
  comes back with the same unreferenced events for every chain, the same routes and time-dependent
  routes, the same neighbors, and the same advertised tips of the neighbors on every chain, so that
  its next tick refers to what the tick of the running node would have referred to.\<close>

theorem restart_recovers:
  assumes "reachable p i s config n" "log_ok i (p_verify p) s" "neighbors_keyed s" "signs_as p i" "keeps_all config"
  shows "\<exists>m. make_node i (nd_store n) config = Inr m \<and> nd_unreferenced m = nd_unreferenced n \<and>
    nd_routes m = nd_routes n \<and> nd_timed_routes m = nd_timed_routes n \<and>
    map fst (nd_neighbors m) = map fst (nd_neighbors n) \<and>
    (\<forall>l. neighbor_tips l (nd_neighbors m) = neighbor_tips l (nd_neighbors n))"
proof -
  have ok: "node_ok p n" and st: "in_step n" "nd_config n = effective_config config"
    using reachable_ok [OF assms(1,2,4)] reachable_in_step [OF assms] by simp_all
  have k: "nd_num_chains n = max 1 (length (cfg_chains config))"
    using node_okD(6) [OF ok] st(2) by (simp add: effective_config_def)
  have al: "list_all2 same_neighbor (nd_neighbors n) (st_neighbors (nd_store n))"
    using st(1) by (simp add: in_step_def)
  show ?thesis
    using st(1) k keys_same [OF al] neighbor_tips_same [OF al]
    by (simp add: make_node_def hydrate_spec [OF node_okD(3) [OF ok]] hydrate_spec Let_def in_step_def node_okD(3) [OF ok])
qed

theorem restart_recovers_witness:
  "\<exists>n m. reachable sample_ports (node_id_of_u64 1) empty_store sample_config n \<and>
     make_node (node_id_of_u64 1) (nd_store n) sample_config = Inr m \<and> concat (nd_unreferenced n) \<noteq> [] \<and>
     nd_unreferenced m = nd_unreferenced n"
proof -
  obtain n0 n e n1 where n: "make_node (node_id_of_u64 1) empty_store sample_config = Inr n0"
    "handle sample_ports (Tick 0) n0 = Inr n" "fresh_input sample_ports (Tick 0) n0" "node_ok sample_ports n"
    "publish_event sample_ports [1] n = Inr (e, n1)" "fresh_event e (nd_store n)"
    using sample_published by blast
  have "fresh_input sample_ports (Publish [1]) n" using n(5,6) by (simp add: fresh_input_def)
  moreover have "handle sample_ports (Publish [1]) n = Inr n1" using n(5) by simp
  ultimately have r: "reachable sample_ports (node_id_of_u64 1) empty_store sample_config n1"
    using n(1-3) by (meson reachable.intros)
  have "nd_unreferenced n \<noteq> []" "nd_unreferenced n1 = map (\<lambda>tail. tail @ [e]) (nd_unreferenced n)"
    using publish_spec [OF n(4), of "[1]"] n(5) node_okD(5,6) [OF n(4)] by (auto simp: working_def)
  then have "concat (nd_unreferenced n1) \<noteq> []" by auto
  moreover have "neighbors_keyed empty_store" by (simp add: neighbors_keyed_def empty_store_def)
  ultimately show ?thesis
    using restart_recovers [OF r log_ok_empty _ sample_signs sample_keeps_all] r by blast
qed

text \<open>A pruned chain forgets what it pinned: when a chain keeps one clock event and its newest does
  not refer to the last event of the log, the scan at the next start takes that event, and whatever
  precedes it up to the next pinned one, for unreferenced, although the chain had referred to it
  before. The next tick then refers to those events again.\<close>

lemma restart_after_prune_repins:
  assumes "store_ok s" "pinned (ce_chain c) s e" "st_events s = es @ [e]" "ev_hash e \<notin> ref_hash ` set (ce_refs c)"
    and "unat (ce_chain c) < max 1 (length (cfg_chains config))"
  shows "\<exists>m. make_node i (prune_chain (ce_chain c) 1 (snd (append_clock_event c s))) config = Inr m \<and>
    e \<in> set (nd_unreferenced m ! unat (ce_chain c))"
proof -
  let ?l = "ce_chain c" let ?u = "snd (append_clock_event c s)"
  let ?t = "prune_chain ?l 1 ?u"
  obtain q where a: "append_clock_event c s = (q, ?u)" by (cases "append_clock_event c s") auto
  have cs: "clocks_ok s" using assms(1) by (simp add: store_ok_def)
  note ok = append_clock_ok [OF cs a] and f = append_clock_fields [OF cs a]
  have ch: "chain_of ?l (st_clock_events ?t) = [(q, c)]"
    using chain_of_prune_same [OF clocks_okD(1) [OF ok], of 1 ?l]
    by (simp add: prune_chain_spec(2) [OF ok] f(3)) (simp add: chain_of_def)
  have "\<not> pinned ?l ?t e"
  proof
    assume "pinned ?l ?t e"
    then obtain a d where "(a, d) \<in> set (chain_of ?l (st_clock_events ?t))" "ev_hash e \<in> ref_hash ` set (ce_refs d)"
      by (auto simp: pinned_def set_chain_of)
    then show False using ch assms(4) by simp
  qed
  moreover have "st_events ?t = es @ [e]" using assms(3) by (simp add: prune_chain_spec(5) [OF ok] f(8))
  ultimately have "e \<in> set (unpinned_tail ?l ?t)" by (simp add: unpinned_tail_def)
  moreover have "store_ok ?t" using store_ok_prune mem.append_clock_ok [OF assms(1), of c] by blast
  ultimately show ?thesis
    using assms(5) by (simp add: make_node_def hydrate_spec Let_def)
qed

section \<open>Discoveries\<close>

text \<open>A chain discovery is decided once: whatever a node handles after a discovery has been completed or
  aborted (further responses, even forged ones, new discoveries of the same or of other events,
  ticks, publications), its entry, with its chain, its state and its times, stays exactly as it was;
  only the purge timer removes it.\<close>

lemma discovery_decided_once:
  assumes "om_find h (nd_chain_discoveries n) = Some en" "cd_state (en_discovery en) \<noteq> in_progress"
    and "inp \<noteq> Fire Purge_timer" "handle p inp n = Inr m"
  shows "om_find h (nd_chain_discoveries m) = Some en"
  using postD [OF settled_handle [of h en n inp p] assms(4)] assms(1-3) by (simp add: settled_def)

end
