(* ===== verification/Forwarding.thy ===== *)
theory Forwarding
  imports Node_Invariant
begin

text \<open>
  What a node does for others: it encloses a chain in its own clock events, answers and forwards
  requests, and passes responses back along the breadcrumb. Enclosing never fails on a sound log and
  keeps valid chains valid; forwarding never revisits a node and respects the hop limit and the
  fan-in cap; a response takes exactly the breadcrumb back.
\<close>

section \<open>Enclosing a chain\<close>

text \<open>Every reference in the log to the hash of \<open>r\<close> names it by its right creator.\<close>

definition names_truly :: "InMemoryStore \<Rightarrow> EventReference \<Rightarrow> bool" where
  "names_truly s r \<longleftrightarrow> (\<forall>(q, c) \<in> set (st_clock_events s). \<forall>r' \<in> set (ce_refs c). ref_hash r' = ref_hash r \<longrightarrow> r' = r)"

text \<open>An enclosure for a neighbor: the chain extended at both ends, by clock events of this node whose
  outermost ones are linked with the neighbor.\<close>

definition enclosure :: "NodeId \<Rightarrow> verifier \<Rightarrow> InMemoryStore \<Rightarrow> NodeId \<Rightarrow> EventChain \<Rightarrow> EventChain \<Rightarrow> bool" where
  "enclosure i verify s j ch ch' \<longleftrightarrow> ch_event ch' = ch_event ch \<and>
     (\<exists>q c. live s q c \<and> ch_lower ch' \<noteq> [] \<and> hd (ch_lower ch') = slice c \<and> refers_to j (ce_refs c)) \<and>
     (\<exists>q c. live s q c \<and> ch_upper ch' \<noteq> [] \<and> last (ch_upper ch') = slice c \<and> refers_to j (lce_referencing c)) \<and>
     (chain_valid verify ch \<and> names_truly s (ln_ref (last (chain_links ch))) \<longrightarrow> chain_valid verify ch')"

lemma last_links_push_lower [simp]: "last (chain_links (push_lower c ch)) = last (chain_links ch)"
  by simp

lemma enclose_spec:
  assumes "node_ok p n"
  shows "\<exists>r. enclose_for_neighbor nb ch n = Inr r \<and> (\<forall>ch'. r = Some ch' \<longrightarrow>
    enclosure (nd_id n) (p_verify p) (nd_store n) (nb_node_id nb) ch ch')"
proof -
  let ?i = "nd_id n" and ?s = "nd_store n" and ?v = "p_verify p"
  note l = node_okD(1) [OF assms]
  from add_local_lower_spec [OF l, of ch] show ?thesis
  proof (elim disjE exE conjE)
    fix c q
    assume c: "add_local_lower_bound ?i ?s ch = Inr (True, push_lower c ch)" "live ?s q c"
      "ref_of_clock c \<in> set (ln_refs (hd (chain_links ch)))"
    let ?c1 = "push_lower c ch"
    have v1: "chain_valid ?v ch \<Longrightarrow> chain_valid ?v ?c1"
      using valid_push_lower [OF _ log_okD(6) [OF l c(2)] c(3)] .
    from add_local_upper_spec [OF log_okD(1) [OF l], of ?c1] show ?thesis
    proof (elim disjE exE conjE bexE)
      fix d q' r
      assume d: "add_local_upper_bound ?s ?c1 = Inr (True, push_upper d ?c1)" "live ?s q' d"
        "r \<in> set (ce_refs d)" "ref_hash r = ref_hash (ln_ref (last (chain_links ?c1)))"
      let ?c2 = "push_upper d ?c1"
      have v2: "chain_valid ?v ?c2" if "chain_valid ?v ch" "names_truly ?s (ln_ref (last (chain_links ch)))"
        using valid_push_upper [OF v1 [OF that(1)] log_okD(6) [OF l d(2)]] that(2) d(2-4)
        by (auto simp: names_truly_def)
      obtain b3 c3 q3 x3 rest3 where e3: "extend_lower_bound_for_neighbor ?i ?s nb ?c2 = Inr (b3, c3)" "live ?s q3 x3"
        "ch_lower c3 = slice x3 # rest3" "b3 \<longrightarrow> refers_to (nb_node_id nb) (ce_refs x3)"
        "ch_event c3 = ch_event ?c2" "ch_upper c3 = ch_upper ?c2" "chain_valid ?v ?c2 \<longrightarrow> chain_valid ?v c3"
        using extend_lower_spec [OF l c(2), of ?c2 "ch_lower ch" nb] by auto
      obtain b4 c4 q4 x4 front4 where e4: "extend_upper_bound_for_neighbor ?i ?s nb c3 = Inr (b4, c4)" "live ?s q4 x4"
        "ch_upper c4 = front4 @ [slice x4]" "b4 \<longrightarrow> refers_to (nb_node_id nb) (lce_referencing x4)"
        "ch_event c4 = ch_event c3" "ch_lower c4 = ch_lower c3" "chain_valid ?v c3 \<longrightarrow> chain_valid ?v c4"
        using extend_upper_spec [OF l d(2), of c3 "ch_upper ch" nb] e3(6) by auto
      have "enclosure ?i ?v ?s (nb_node_id nb) ch c4" if b3 b4
        using that e3 e4 v2 by (auto simp: enclosure_def)
      then show ?thesis
        using c(1) d(1) e3(1) e4(1) by (simp add: enclose_for_neighbor_def)
    qed (use c(1) in \<open>simp add: enclose_for_neighbor_def\<close>)
  qed (simp add: enclose_for_neighbor_def)
qed

section \<open>Requests and responses always return\<close>

lemma event_by_hash_spec:
  assumes "store_ok s"
  shows "\<exists>r. event_by_hash h s = Inr r \<and> (\<forall>e. r = Some e \<longrightarrow> e \<in> set (st_events s) \<and> ev_hash e = h)"
  using assms by (auto simp: store_ok_def events_ok_def event_by_hash_def split: option.split)

lemma chain_request_returns:
  assumes "node_ok p n"
  shows "\<exists>m. process_chain_request p nb rq n = Inr m"
proof (cases "ref_creator (rq_event rq) = nd_id n")
  case True
  obtain r where r: "event_by_hash (ref_hash (rq_event rq)) (nd_store n) = Inr r"
    using event_by_hash_spec [OF node_okD(3) [OF assms]] by blast
  show ?thesis
  proof (cases r)
    case (Some e)
    obtain x where "enclose_for_neighbor nb (empty_chain_of e) n = Inr x"
      using enclose_spec [OF assms] by blast
    then show ?thesis using True r Some by (cases x) (simp_all add: process_chain_request_def)
  qed (use True r in \<open>simp add: process_chain_request_def\<close>)
next
  case False
  then show ?thesis by (simp add: process_chain_request_def Let_def case_prod_beta)
qed

lemma chain_response_returns:
  assumes "node_ok p n" "rs_originator rs \<noteq> nd_id n"
  shows "\<exists>m. process_chain_response p nb rs n = Inr m"
proof -
  obtain x where "enclose_for_neighbor nb (rs_chain rs) n = Inr x"
    using enclose_spec [OF assms(1)] by blast
  then show ?thesis using assms(2) by (cases x) (simp_all add: process_chain_response_def Let_def)
qed

section \<open>What is sent\<close>

text \<open>The neighbor table is keyed by the identities of the neighbors.\<close>

definition keyed :: "(NodeId, Neighbor) omap \<Rightarrow> bool" where
  "keyed nbs \<longleftrightarrow> (\<forall>(i, nb) \<in> set nbs. nb_node_id nb = i)"

lemma keyed_find: "keyed nbs \<Longrightarrow> om_find i nbs = Some nb \<Longrightarrow> nb_node_id nb = i"
  by (auto simp: keyed_def dest: om_find_in)

definition sent :: "Node \<Rightarrow> Node \<Rightarrow> Output list" where
  "sent n m = drop (length (nd_out n)) (nd_out m)"

lemma sent_simps [simp]: "sent n n = []" "sent n (emit os n) = os"
  by (simp_all add: sent_def emit_def)

text \<open>A request is forwarded to neighbors that are neither this node nor on the breadcrumb.\<close>

definition forward_targets :: "NodeId list \<Rightarrow> NodeId list \<Rightarrow> Node \<Rightarrow> NodeId list" where
  "forward_targets path hops n =
     filter (\<lambda>hop. hop \<noteq> nd_id n \<and> hop \<notin> set path \<and> neighbor_by_id hop n \<noteq> None) hops"

lemma flood_sends:
  assumes "keyed (nd_neighbors n)"
  shows "\<exists>hops. sent n (flood_chain_request p dest ctx m n) =
    map (\<lambda>hop. Send hop (encode_chain_request (nd_id n) (m\<lparr>rq_path := rq_path m @ [nd_id n]\<rparr>)))
      (forward_targets (rq_path m) hops n)"
proof -
  obtain hops n' where h: "next_hops p dest ctx n = (hops, n')" by fastforce
  let ?b = "m\<lparr>rq_path := rq_path m @ [nd_id n]\<rparr>"
  have n': "nd_id n' = nd_id n" "nd_neighbors n' = nd_neighbors n" "nd_out n' = nd_out n"
    using h by (auto simp: next_hops_def Let_def split: DiscoveryRouting.splits prod.splits)
  have "nd_out (foldl (\<lambda>n hop. if hop = nd_id n \<or> hop \<in> set (rq_path m) then n
      else case neighbor_by_id hop n of None \<Rightarrow> n | Some nb \<Rightarrow> send_chain_request nb ?b n) k hs) =
    nd_out k @ map (\<lambda>hop. Send hop (encode_chain_request (nd_id n) ?b)) (forward_targets (rq_path m) hs n)"
    if "nd_id k = nd_id n" "nd_neighbors k = nd_neighbors n" for k hs
    using that
    by (induction hs arbitrary: k)
      (auto simp: forward_targets_def neighbor_by_id_def send_chain_request_def emit_def
        keyed_find [OF assms] split: option.split)
  then have "nd_out (flood_chain_request p dest ctx m n) =
    nd_out n @ map (\<lambda>hop. Send hop (encode_chain_request (nd_id n) ?b)) (forward_targets (rq_path m) hops n)"
    using n' h by (simp add: flood_chain_request_def Let_def)
  then show ?thesis by (auto simp: sent_def)
qed

lemma forward_cap_same:
  "pass_forward_cap p m n = (b, n') \<Longrightarrow> nd_out n' = nd_out n \<and> nd_id n' = nd_id n \<and> nd_neighbors n' = nd_neighbors n"
  by (auto simp: pass_forward_cap_def clock_now_def Let_def split: if_splits option.splits)

lemma request_sends:
  assumes "keyed (nd_neighbors n)" "ref_creator (rq_event m) \<noteq> nd_id n" "process_chain_request p nb m n = Inr n'"
    and "out \<in> set (sent n n')"
  shows "\<exists>j. out = Send j (encode_chain_request (nd_id n) (m\<lparr>rq_path := rq_path m @ [nd_id n]\<rparr>)) \<and>
    j \<noteq> nd_id n \<and> j \<notin> set (rq_path m) \<and> om_find j (nd_neighbors n) \<noteq> None \<and> nd_id n \<notin> set (rq_path m) \<and>
    (rq_hop_limit m = 0 \<or> length (rq_path m) < unat (rq_hop_limit m))"
proof -
  obtain b k where cap: "pass_forward_cap p m n = (b, k)" by fastforce
  note same = forward_cap_same [OF cap]
  have "nd_id n \<notin> set (rq_path m)" "rq_hop_limit m = 0 \<or> length (rq_path m) < unat (rq_hop_limit m)"
    "b" "n' = flood_chain_request p (ref_creator (rq_event m)) \<lparr>rc_range = rq_range m\<rparr> m k"
    using assms(2-4) same
    by (auto simp: process_chain_request_def cap Let_def sent_def word_gt_0 split: if_splits)
  moreover obtain hops where "sent k n' =
      map (\<lambda>hop. Send hop (encode_chain_request (nd_id k) (m\<lparr>rq_path := rq_path m @ [nd_id k]\<rparr>)))
        (forward_targets (rq_path m) hops k)"
    using flood_sends [of k p _ _ m] assms(1) same calculation(4) by auto
  ultimately show ?thesis
    using assms(4) same by (auto simp: sent_def forward_targets_def neighbor_by_id_def)
qed

lemma retrace_sends:
  assumes "keyed (nd_neighbors n)" "out \<in> set (sent n (send_chain_response_retrace j ch path n))"
  shows "path \<noteq> [] \<and> om_find (last path) (nd_neighbors n) \<noteq> None \<and>
    out = Send (last path) (encode_chain_response (nd_id n) \<lparr>rs_originator = j, rs_chain = ch, rs_path = butlast path\<rparr>)"
  using assms
  by (auto simp: send_chain_response_retrace_def neighbor_by_id_def send_chain_response_def
      keyed_find split: if_splits option.splits)

section \<open>The fan-in cap\<close>

text \<open>How many of a sequence of copies of one request pass the cap.\<close>

fun copies_passed :: "NodePorts \<Rightarrow> ChainRequest list \<Rightarrow> Node \<Rightarrow> nat" where
  "copies_passed p [] n = 0"
| "copies_passed p (m # ms) n =
     (let (pass, n) = pass_forward_cap p m n in (if pass then 1 else 0) + copies_passed p ms n)"

definition forwards_of :: "NodeId \<times> EventHash \<Rightarrow> Node \<Rightarrow> u32" where
  "forwards_of key n = (case om_find key (nd_flood_seen n) of None \<Rightarrow> 0 | Some s \<Rightarrow> fs_forwards s)"

lemma forward_cap_step:
  assumes "pass_forward_cap p m n = (b, n')" "cfg_discovery_forward_cap (nd_config n) \<noteq> 0"
  shows "b \<longleftrightarrow> forwards_of (rq_originator m, ref_hash (rq_event m)) n < cfg_discovery_forward_cap (nd_config n)"
    "forwards_of key n' = (if b \<and> key = (rq_originator m, ref_hash (rq_event m))
       then forwards_of key n + 1 else forwards_of key n)"
    "nd_config n' = nd_config n"
  using assms
  by (auto simp: pass_forward_cap_def clock_now_def Let_def forwards_of_def om_find_put word_gt_0
      split: if_splits option.splits)

lemma copies_passed_bound:
  assumes "cfg_discovery_forward_cap (nd_config n) = cap" "cap \<noteq> 0"
    and "\<forall>m \<in> set ms. (rq_originator m, ref_hash (rq_event m)) = key" "forwards_of key n \<le> cap"
  shows "copies_passed p ms n + unat (forwards_of key n) \<le> unat cap"
  using assms
proof (induction ms arbitrary: n)
  case Nil
  then show ?case by (simp add: word_le_nat_alt)
next
  case (Cons m ms)
  obtain b k where k: "pass_forward_cap p m n = (b, k)" by fastforce
  have c: "cfg_discovery_forward_cap (nd_config n) \<noteq> 0" using Cons.prems by simp
  note st = forward_cap_step [OF k c]
  show ?case
  proof (cases b)
    case True
    then have lt: "forwards_of key n < cap" using st(1) Cons.prems by simp
    then have u: "unat (forwards_of key n + 1) = Suc (unat (forwards_of key n))"
      using unsigned_less [of cap, where 'a = nat] by (simp add: unat_word_ariths word_less_nat_alt)
    have "forwards_of key k = forwards_of key n + 1" using st(2) [of key] True Cons.prems by simp
    moreover have "forwards_of key n + 1 \<le> cap" using lt u by (simp add: word_le_nat_alt word_less_nat_alt)
    ultimately show ?thesis
      using Cons.IH [of k] Cons.prems st(3) True u by (simp add: k)
  next
    case False
    then show ?thesis using Cons.IH [of k] Cons.prems st(2) [of key] st(3) by (simp add: k)
  qed
qed

section \<open>Notifications\<close>

lemma bucket_tip_total: "chain \<noteq> -1 \<Longrightarrow> \<exists>r. bucket_tip chain h hs = Inr r"
proof -
  assume "chain \<noteq> -1"
  then have "unat (chain + 1) = Suc (unat chain)" by (metis add.commute add_eq_0_iff unatSuc)
  then show ?thesis by (simp add: bucket_tip_def Let_def)
qed

lemma notification_returns:
  assumes "node_ok p n" "chain \<noteq> -1"
  shows "\<exists>m. process_clock_event_notification key nb chain h h' n = Inr m"
proof -
  obtain changed hs where b: "bucket_tip chain h (nb_last_hashes nb) = Inr (changed, hs)"
    using bucket_tip_total [OF assms(2)] by (metis surj_pair)
  have "clocks_ok (if changed then put_neighbor nb' (nd_store n) else nd_store n)" for nb'
    using node_okD(2) [OF assms(1)] log_okD(2) [OF log_ok_overlay(1) [OF node_okD(1) [OF assms(1)]]] by simp
  then obtain r where "clock_event_by_hash h' (if changed then put_neighbor (nb\<lparr>nb_last_hashes := hs\<rparr>) (nd_store n)
      else nd_store n) = Inr r"
    by (rule by_hash_cases)
  then show ?thesis
    by (simp add: process_clock_event_notification_def b Let_def split: option.split)
qed

lemma packet_returns:
  assumes "node_ok p n"
    and "\<And>dg m. decode b = Inr dg \<Longrightarrow> dg_payload dg = Clock_notification m \<Longrightarrow> cn_chain m \<noteq> -1"
    and "\<And>dg m. decode b = Inr dg \<Longrightarrow> dg_payload dg = Chain_response m \<Longrightarrow> rs_originator m \<noteq> nd_id n"
  shows "\<exists>m. on_packet_received p b n = Inr m"
proof (cases "decode b")
  case (Inr dg)
  show ?thesis
  proof (cases "om_find (dg_sender dg) (nd_neighbors n)")
    case (Some nb)
    then show ?thesis
      using Inr assms(2,3) notification_returns [OF assms(1)] chain_request_returns [OF assms(1)]
        chain_response_returns [OF assms(1)]
      by (cases "dg_payload dg") (simp_all add: on_packet_received_def)
  qed (simp add: on_packet_received_def Inr)
qed (simp add: on_packet_received_def)

end
