(* ===== verification/Protocol_Properties.thy ===== *)
theory Protocol_Properties
  imports Own_Discovery Forwarding
begin

text \<open>
  The properties of the protocol handlers: what a node does with the datagrams of others, and where a
  handler fails.
\<close>

section \<open>Enclosing and answering\<close>

text \<open>C6: Enclosing a chain for a neighbor ends and does not fail on a sound log, whatever chain it is
  given: the two unbounded walks along this node's clock events terminate and no assertion is
  violated. When it produces a chain, the chain has the given event in its middle, its outermost
  clock events are live ones of this node that are cross-linked with the neighbor, and it is valid
  if the given chain was and the log names the end of that chain by its right creator.\<close>

theorem enclosing_ends_valid:
  assumes "node_ok p n"
  shows "\<exists>r. enclose_for_neighbor nb ch n = Inr r \<and> (\<forall>ch'. r = Some ch' \<longrightarrow>
    ch_event ch' = ch_event ch \<and>
    (\<exists>q c. live (nd_store n) q c \<and> ch_lower ch' \<noteq> [] \<and> hd (ch_lower ch') = slice c \<and>
       refers_to (nb_node_id nb) (ce_refs c)) \<and>
    (\<exists>q c. live (nd_store n) q c \<and> ch_upper ch' \<noteq> [] \<and> last (ch_upper ch') = slice c \<and>
       refers_to (nb_node_id nb) (lce_referencing c)) \<and>
    (chain_valid (p_verify p) ch \<and> names_truly (nd_store n) (ln_ref (last (chain_links ch))) \<longrightarrow>
       chain_valid (p_verify p) ch'))"
  using enclose_spec [OF assms, of nb ch] by (auto simp: enclosure_def)

theorem enclosing_ends_valid_witness:
  "\<exists>n r. tip_of 0 (nd_store n) \<noteq> None \<and>
     enclose_for_neighbor \<lparr>nb_node_id = node_id_of_u64 2, nb_last_hashes = []\<rparr> (sample_chain 1 2 []) n = Inr r"
proof -
  obtain n t where "node_ok sample_ports n" "tip_of 0 (nd_store n) = Some t" using sample_boot by blast
  then show ?thesis
    using enclosing_ends_valid [of sample_ports n "\<lparr>nb_node_id = node_id_of_u64 2, nb_last_hashes = []\<rparr>"
        "sample_chain 1 2 []"] by (metis option.distinct(1))
qed



section \<open>Forwarding\<close>

text \<open>C5: A node forwards a request for an event of another node without creating loops: every copy goes
  to a known neighbor that is neither this node nor on the breadcrumb, carries the request unchanged
  but for this node at the end of the breadcrumb, and this node was not on it before, so breadcrumbs
  never repeat a node; with a hop limit set the breadcrumb never exceeds it. Nothing else is sent.\<close>

theorem forwarding_loop_free:
  assumes "keyed (nd_neighbors n)" "ref_creator (rq_event m) \<noteq> nd_id n" "process_chain_request p nb m n = Inr n'"
    and "out \<in> set (sent n n')" "distinct (rq_path m)"
  shows "\<exists>j m'. out = Send j (encode_chain_request (nd_id n) m') \<and> m' = m\<lparr>rq_path := rq_path m @ [nd_id n]\<rparr> \<and>
    om_find j (nd_neighbors n) \<noteq> None \<and> distinct (rq_path m' @ [j]) \<and>
    (rq_hop_limit m' \<noteq> 0 \<longrightarrow> length (rq_path m') \<le> unat (rq_hop_limit m'))"
  using request_sends [OF assms(1-4)] assms(5) by auto

text \<open>A node with one neighbor and a static route through it.\<close>

definition sample_router :: "Node \<Rightarrow> Node" where
  "sample_router n = n\<lparr>nd_neighbors := [(node_id_of_u64 7, \<lparr>nb_node_id = node_id_of_u64 7, nb_last_hashes = []\<rparr>)],
     nd_routes := [(node_id_of_u64 9, node_id_of_u64 7)]\<rparr>"

definition sample_request :: ChainRequest where
  "sample_request = \<lparr>rq_originator = node_id_of_u64 8, rq_event = \<lparr>ref_creator = node_id_of_u64 9, ref_hash = [3]\<rparr>,
     rq_range = TimeRange_all, rq_hop_limit = 5, rq_path = [node_id_of_u64 8]\<rparr>"

theorem forwarding_loop_free_witness:
  "\<exists>n n' b. process_chain_request sample_ports \<lparr>nb_node_id = node_id_of_u64 8, nb_last_hashes = []\<rparr> sample_request n = Inr n' \<and>
     Send (node_id_of_u64 7) b \<in> set (sent n n') \<and>
     b = encode_chain_request (node_id_of_u64 1) (sample_request\<lparr>rq_path := [node_id_of_u64 8, node_id_of_u64 1]\<rparr>)"
proof -
  obtain n0 :: Node where n0: "nd_id n0 = node_id_of_u64 1" "nd_config n0 = sample_config" using sample_boot by blast
  let ?n = "sample_router n0" and ?nb = "\<lparr>nb_node_id = node_id_of_u64 8, nb_last_hashes = []\<rparr>"
  have id: "nd_id ?n = node_id_of_u64 1" by (simp add: sample_router_def n0)
  have k: "keyed (nd_neighbors ?n)" by (simp add: sample_router_def keyed_def)
  obtain n' b where r: "process_chain_request sample_ports ?nb sample_request ?n = Inr n'"
    "Send (node_id_of_u64 7) b \<in> set (sent ?n n')"
    using n0
    by (simp add: process_chain_request_def sample_request_def pass_forward_cap_def sample_config_def
        sample_router_def flood_chain_request_def next_hops_def static_next_hops_def neighbor_by_id_def
        send_chain_request_def sent_def emit_def Let_def)
  from forwarding_loop_free [OF k _ r] obtain j m' where "Send (node_id_of_u64 7) b =
      Send j (encode_chain_request (nd_id ?n) m')" "m' = sample_request\<lparr>rq_path := rq_path sample_request @ [nd_id ?n]\<rparr>"
    using id by (auto simp: sample_request_def)
  then show ?thesis using r id by (intro exI [of _ ?n] exI [of _ n'] exI [of _ b]) (simp add: sample_request_def)
qed



text \<open>A response in transit is passed on along the breadcrumb only: it is sent to the last node of the
  breadcrumb, without that node, and to nobody else; the event of the chain is untouched, and a
  response whose breadcrumb is empty is dropped.\<close>

lemma response_retraces:
  assumes "keyed (nd_neighbors n)" "rs_originator m \<noteq> nd_id n" "process_chain_response p nb m n = Inr n'"
    and "out \<in> set (sent n n')"
  shows "rs_path m \<noteq> [] \<and> (\<exists>ch. out = Send (last (rs_path m)) (encode_chain_response (nd_id n)
      \<lparr>rs_originator = rs_originator m, rs_chain = ch, rs_path = butlast (rs_path m)\<rparr>) \<and>
    enclose_for_neighbor nb (rs_chain m) n = Inr (Some ch))"
proof -
  obtain ch where "enclose_for_neighbor nb (rs_chain m) n = Inr (Some ch)"
    "n' = send_chain_response_retrace (rs_originator m) ch (rs_path m) n"
    using assms(2-4)
    by (cases "enclose_for_neighbor nb (rs_chain m) n")
      (auto simp: process_chain_response_def Let_def split: if_splits option.splits)
  then show ?thesis using retrace_sends [OF assms(1)] assms(4) by blast
qed

definition linked_tick :: LocalClockEvent where
  "linked_tick = \<lparr>ce_creator = node_id_of_u64 1, ce_hash = [1], ce_chain = 0, ce_timestamp = 0, ce_salt = 0,
     ce_refs = [\<lparr>ref_creator = node_id_of_u64 2, ref_hash = [5]\<rparr>, \<lparr>ref_creator = node_id_of_u64 2, ref_hash = [7]\<rparr>],
     ce_signature = [], lce_referencing = [\<lparr>ref_creator = node_id_of_u64 2, ref_hash = [6]\<rparr>]\<rparr>"

definition sample_response :: ChainResponse where
  "sample_response = \<lparr>rs_originator = node_id_of_u64 8,
     rs_chain = \<lparr>ch_event = \<lparr>ev_creator = node_id_of_u64 2, ev_hash = [7], ev_data = [], ev_salt = 0,
       ev_refs = [\<lparr>ref_creator = node_id_of_u64 1, ref_hash = [1]\<rparr>], ev_signature = []\<rparr>, ch_lower = [], ch_upper = []\<rparr>,
     rs_path = [node_id_of_u64 8, node_id_of_u64 7]\<rparr>"

section \<open>Where handlers fail\<close>

text \<open>C19: A notification for chain 4294967295 from any neighbor makes the node access its vector of tips out
  of bounds: the new size \<open>chain + 1\<close> is computed on 32 bits and wraps to zero, so the vector is emptied
  instead of grown before the unchecked access.\<close>

theorem notification_wraps:
  assumes "decode b = Inr dg" "dg_payload dg = Clock_notification m" "cn_chain m = 4294967295"
    and "om_find (dg_sender dg) (nd_neighbors n) = Some nb" "length (nb_last_hashes nb) < 2 ^ 32"
  shows "on_packet_received p b n = Inl Undefined_behaviour"
  using assms
  by (simp add: on_packet_received_def process_clock_event_notification_def bucket_tip_def Let_def vector_resize_def)

definition wrapping_datagram :: Datagram where
  "wrapping_datagram = \<lparr>dg_sender = node_id_of_u64 7,
     dg_payload = Clock_notification \<lparr>cn_chain = 4294967295, cn_last_hash = [1], cn_neighbor_last_hash = []\<rparr>\<rparr>"

theorem notification_wraps_witness:
  "\<exists>n. nd_id n = node_id_of_u64 1 \<and> on_packet_received sample_ports (encode wrapping_datagram) n = Inl Undefined_behaviour"
proof -
  obtain n0 :: Node where n0: "nd_id n0 = node_id_of_u64 1" using sample_boot by blast
  have "wf_datagram wrapping_datagram" by (simp add: wrapping_datagram_def wf_datagram_def)
  then have d: "decode (encode wrapping_datagram) = Inr wrapping_datagram"
    using datagramc.dec_enc_append [of wrapping_datagram "[]"] by (simp add: decode_def)
  have "on_packet_received sample_ports (encode wrapping_datagram) (sample_router n0) = Inl Undefined_behaviour"
    by (rule notification_wraps [OF d]) (simp add: wrapping_datagram_def sample_router_def)+
  then show ?thesis using n0 by (intro exI [of _ "sample_router n0"]) (simp add: sample_router_def)
qed

lemma abandon_orders_bounds:
  "\<exists>m. foldE (abandon_order p h) keys n = Inr m \<and> nd_bounds_discoveries m = nd_bounds_discoveries n"
  by (rule foldE_no_error)
    (auto simp: abandon_order_def abort_order_discovery_def clock_now_def Let_def emit_def split: option.split)

text \<open>C22: The node asserts when a chain discovery it drives for both a bounds and an order discovery is
  aborted: it is registered twice as the callback, and the second call aborts the bounds discovery
  again, which is no longer in progress.\<close>

theorem double_abort_asserts:
  assumes "om_find h (nd_chain_discoveries n) = Some en" "cd_state (en_discovery en) = in_progress"
    and "en_callbacks en = [Self, Self]" "ev_hash (cd_event (en_discovery en)) = h"
    and "om_find h (nd_bounds_discoveries n) = Some be"
  shows "abort_chain_discovery p h n = Inl Assertion_failed"
proof -
  let ?d = "(en_discovery en)\<lparr>cd_end_time := p_now p (nd_reads n), cd_state := aborted\<rparr>"
  let ?n = "set_chain_discovery h ?d (n\<lparr>nd_reads := Suc (nd_reads n)\<rparr>)"
  have stale: "call_aborted p (cd_event ?d) Self m = Inl Assertion_failed"
    if "om_find h (nd_bounds_discoveries m) = Some be'" "bd_state (en_discovery be') \<noteq> in_progress" for m be'
    using that assms(4) by (simp add: call_aborted_def on_chain_aborted_def abort_bounds_discovery_def)
  have b: "om_find h (nd_bounds_discoveries ?n) = Some be"
    using assms(5) by (simp add: set_chain_discovery_def split: option.split)
  have "call_aborted p (cd_event ?d) Self ?n = Inl Assertion_failed \<or>
      (\<exists>m be'. call_aborted p (cd_event ?d) Self ?n = Inr m \<and> om_find h (nd_bounds_discoveries m) = Some be' \<and>
        bd_state (en_discovery be') \<noteq> in_progress)"
  proof (cases "bd_state (en_discovery be) = in_progress")
    case True
    let ?be = "be\<lparr>en_discovery := (en_discovery be)\<lparr>bd_end_time := p_now p (nd_reads ?n), bd_state := aborted\<rparr>\<rparr>"
    obtain m where m: "abort_bounds_discovery p h ?n = Inr m" "om_find h (nd_bounds_discoveries m) = Some ?be"
      using b True by (simp add: abort_bounds_discovery_def clock_now_def Let_def emit_def om_find_put)
    then show ?thesis
      using b assms(4) abandon_orders_bounds [of p h "map fst (nd_order_discoveries m)" m]
      by (auto simp: call_aborted_def on_chain_aborted_def)
  qed (use stale [OF b] in blast)
  then have "foldE (call_aborted p (cd_event ?d)) [Self, Self] ?n = Inl Assertion_failed"
    using stale by auto
  then show ?thesis
    using assms(1-3) by (simp add: abort_chain_discovery_def clock_now_def Let_def)
qed

text \<open>A remote event, asked for twice.\<close>

definition remote_event :: Event where
  "remote_event = \<lparr>ev_creator = node_id_of_u64 9, ev_hash = [3], ev_data = [], ev_salt = 0, ev_refs = [], ev_signature = []\<rparr>"

theorem double_abort_asserts_witness:
  "\<exists>n0 n. run sample_ports [Discover_bounds remote_event TimeRange_all 1,
      Discover_order remote_event (remote_event\<lparr>ev_hash := [4]\<rparr>) TimeRange_all 2] n0 = Inr n \<and>
    abort_chain_discovery sample_ports [3] n = Inl Assertion_failed"
proof -
  obtain n0 where n0: "make_node (node_id_of_u64 1) empty_store sample_config = Inr n0"
    using make_node_total [OF store_ok_empty] by blast
  then have i: "nd_id n0 = node_id_of_u64 1" "nd_neighbors n0 = []" "nd_routes n0 = []" "nd_config n0 = sample_config"
    "nd_chain_discoveries n0 = []" "nd_bounds_discoveries n0 = []" "nd_order_discoveries n0 = []"
    by (auto simp: make_node_def hydrate_spec Let_def effective_config_def sample_config_def) (simp_all add: empty_store_def)
  obtain n en be where n: "run sample_ports [Discover_bounds remote_event TimeRange_all 1,
      Discover_order remote_event (remote_event\<lparr>ev_hash := [4]\<rparr>) TimeRange_all 2] n0 = Inr n"
    "om_find [3] (nd_chain_discoveries n) = Some en" "cd_state (en_discovery en) = in_progress"
    "en_callbacks en = [Self, Self]" "ev_hash (cd_event (en_discovery en)) = [3]"
    "om_find [3] (nd_bounds_discoveries n) = Some be"
    using i
    by (simp add: run_def discover_event_bounds_def discover_event_order_def discover_event_chain_def
        insert_bounds_discovery_def insert_order_discovery_def insert_chain_discovery_def clock_now_def Let_def
        emit_def om_emplace_def om_find_put remote_event_def flood_chain_request_def next_hops_def static_next_hops_def
        sample_config_def)
  then show ?thesis using double_abort_asserts [OF n(2-6)] by blast
qed

end
