(* ===== verification/Record_Codec.thy ===== *)
theory Record_Codec
  imports Wire
begin

text \<open>
  The records that both the snapshot and the durable store write: sequences with a 64-bit count and local
  clock events with their back-references (\<open>src/core/node.cpp\<close>, \<open>src/adapters/os/lmdb_store.cpp\<close>).
\<close>

definition w_many :: "('a \<Rightarrow> bytes) \<Rightarrow> 'a list \<Rightarrow> bytes" where
  "w_many enc xs = w_u64 (of_nat (length xs)) @ concat (map enc xs)"

definition w_local_clock_event :: "LocalClockEvent \<Rightarrow> bytes" where
  "w_local_clock_event c = w_clock_event c @ w_refs (lce_referencing c)"

definition r_many64 :: "'a reader \<Rightarrow> 'a list reader" where
  "r_many64 d = r_bind r_u64 (\<lambda>n. r_many d (unat n))"

definition r_local_clock_event :: "LocalClockEvent reader" where
  "r_local_clock_event = r_bind r_clock_event (\<lambda>c. r_bind r_refs (\<lambda>rs. r_return
     \<lparr>ce_creator = ce_creator c, ce_hash = ce_hash c, ce_chain = ce_chain c, ce_timestamp = ce_timestamp c,
       ce_salt = ce_salt c, ce_refs = ce_refs c, ce_signature = ce_signature c, lce_referencing = rs\<rparr>))"

definition wf_local_clock_event :: "LocalClockEvent \<Rightarrow> bool" where
  "wf_local_clock_event c \<longleftrightarrow> wf_clock_event c \<and> short (lce_referencing c) \<and> list_all wf_ref (lce_referencing c)"

abbreviation short64 :: "'a list \<Rightarrow> bool" where
  "short64 xs \<equiv> length xs < 2 ^ 64"

lemma local_many64 [local_intros]: "local_reader d \<Longrightarrow> local_reader (r_many64 d)"
  unfolding r_many64_def by (intro local_intros)

lemma unat_count64 [simp]: "short64 xs \<Longrightarrow> unat (of_nat (length xs) :: u64) = length xs"
  by (simp add: unat_of_nat take_bit_nat_eq_self)

context codec
begin

lemma many64_dec_enc: "short64 xs \<and> list_all wf xs \<Longrightarrow> r_many64 dec (w_many enc xs @ r) = Inr (xs, r)"
  using many_enc [of xs r] by (simp add: r_many64_def w_many_def r_bind_def u64c.dec_enc_append)

end

interpretation lcec: codec w_local_clock_event r_local_clock_event wf_local_clock_event
proof
  show "local_reader r_local_clock_event" unfolding r_local_clock_event_def by (intro local_intros)
  fix c
  assume w: "wf_local_clock_event c"
  have e: "w_clock_event c = w_clock_event (slice c)" by (simp add: w_clock_event_def)
  have "wf_clock_event (slice c)" using w by (simp add: wf_local_clock_event_def wf_clock_event_def)
  then have "r_clock_event (w_clock_event c @ b) = Inr (slice c, b)" for b
    unfolding e by (rule clockc.dec_enc_append)
  then show "r_local_clock_event (w_local_clock_event c) = Inr (c, [])"
    using w refs_dec_enc_append [of "lce_referencing c" "[]"]
    by (simp add: r_local_clock_event_def w_local_clock_event_def reader_defs wf_local_clock_event_def)
qed

lemma reads_many64 [reads_intros]:
  assumes "reads d (\<lambda>x n. W x \<and> n = length (enc x))"
  shows "reads (r_many64 d) (\<lambda>xs n. (short64 xs \<and> list_all W xs) \<and> n = length (w_many enc xs))"
  unfolding r_many64_def
proof (rule reads_bind [OF reads_u64], rule reads_weaken [OF reads_many [OF assms]])
  fix c :: u64 and m n :: nat and xs
  assume "m = 8" "length xs = unat c \<and> list_all W xs \<and> n = length (concat (map enc xs))"
  then show "(short64 xs \<and> list_all W xs) \<and> m + n = length (w_many enc xs)"
    using unsigned_less [of c, where 'a = nat] by (simp add: w_many_def w_u64_def)
qed

lemma reads_local_clock_event [reads_intros]:
  "reads r_local_clock_event (\<lambda>x n. wf_local_clock_event x \<and> n = length (w_local_clock_event x))"
  unfolding r_local_clock_event_def
  by (rule reads_bind, rule reads_intros)+
    (rule reads_return, simp add: wf_local_clock_event_def w_local_clock_event_def wf_clock_event_def w_clock_event_def)

end
