(* ===== verification/Persistence.thy ===== *)
theory Persistence
  imports Record_Codec Own_Discovery Forwarding
begin

text \<open>
  Snapshots (\<open>Node::snapshot\<close>, \<open>restore\<close> and \<open>load\<close> of \<open>src/core/node.cpp\<close>): the portable backup of a
  node's log, neighbors and routes. The counts are 64-bit and, unlike those of the wire, not checked
  against the size of the blob before the elements are read.
\<close>

section \<open>Writing\<close>

definition kSnapshotVersion :: u64 where "kSnapshotVersion = 3"

definition w_neighbor :: "Neighbor \<Rightarrow> bytes" where
  "w_neighbor nb = w_node_id (nb_node_id nb) @ w_many w_blob (nb_last_hashes nb)"

definition w_route :: "NodeId \<times> NodeId \<Rightarrow> bytes" where
  "w_route r = w_node_id (fst r) @ w_node_id (snd r)"

text \<open>The loop \<open>event_by_seq(0 .. event_count)\<close>.\<close>

fun events_from :: "InMemoryStore \<Rightarrow> nat list \<Rightarrow> Event list result" where
  "events_from s [] = Inr []"
| "events_from s (k # ks) = bindE (event_by_seq k s) (\<lambda>e. bindE (events_from s ks) (\<lambda>es. Inr (e # es)))"

definition snapshot :: "Node \<Rightarrow> bytes result" where
  "snapshot n =
     bindE (events_from (nd_store n) [0..<event_count (nd_store n)]) (\<lambda>events.
       if nd_unreferenced n = [] then Inl Undefined_behaviour
       else Inr (w_u64 kSnapshotVersion @ w_many w_event events @
         w_many w_local_clock_event (load_clock_events (nd_store n)) @
         w_many w_event (hd (nd_unreferenced n)) @ w_many w_neighbor (map snd (nd_neighbors n)) @
         w_many w_route (nd_routes n)))"

section \<open>Reading\<close>

definition r_neighbor :: "Neighbor reader" where
  "r_neighbor = r_bind r_node_id (\<lambda>i. r_bind (r_many64 r_blob) (\<lambda>hs.
     r_return \<lparr>nb_node_id = i, nb_last_hashes = hs\<rparr>))"

definition r_route :: "(NodeId \<times> NodeId) reader" where
  "r_route = r_bind r_node_id (\<lambda>d. r_bind r_node_id (\<lambda>h. r_return (d, h)))"

record Snapshot =
  sn_events :: "Event list"
  sn_clock_events :: "LocalClockEvent list"
  sn_tail :: "Event list"
  sn_neighbors :: "Neighbor list"
  sn_routes :: "(NodeId \<times> NodeId) list"

definition w_snapshot :: "Snapshot \<Rightarrow> bytes" where
  "w_snapshot sn = w_u64 kSnapshotVersion @ w_many w_event (sn_events sn) @
     w_many w_local_clock_event (sn_clock_events sn) @ w_many w_event (sn_tail sn) @
     w_many w_neighbor (sn_neighbors sn) @ w_many w_route (sn_routes sn)"

definition r_snapshot :: "Snapshot reader" where
  "r_snapshot = r_bind r_u64 (\<lambda>v. if v \<noteq> kSnapshotVersion then r_throw Unsupported_snapshot_version else
     r_bind (r_many64 r_event) (\<lambda>es. r_bind (r_many64 r_local_clock_event) (\<lambda>cs.
     r_bind (r_many64 r_event) (\<lambda>tl. r_bind (r_many64 r_neighbor) (\<lambda>nbs.
     r_bind (r_many64 r_route) (\<lambda>rts. r_return \<lparr>sn_events = es, sn_clock_events = cs, sn_tail = tl,
       sn_neighbors = nbs, sn_routes = rts\<rparr>))))))"

section \<open>Loading\<close>

definition load_store :: "Event list \<Rightarrow> LocalClockEvent list \<Rightarrow> (NodeId, Neighbor) omap \<Rightarrow> (NodeId, NodeId) omap \<Rightarrow>
    InMemoryStore \<Rightarrow> InMemoryStore" where
  "load_store events clock_events neighbors routes s =
     (let s = clear_store s;
          s = foldl (\<lambda>s e. snd (append_event e s)) s events;
          s = foldl (\<lambda>s c. snd (append_clock_event c s)) s clock_events;
          s = foldl (\<lambda>s (_, nb). put_neighbor nb s) s neighbors
      in foldl (\<lambda>s (dst, hop). put_route dst hop s) s routes)"

definition load_node :: "Event list \<Rightarrow> LocalClockEvent list \<Rightarrow> (NodeId, Neighbor) omap \<Rightarrow> (NodeId, NodeId) omap \<Rightarrow>
    Node \<Rightarrow> Node result" where
  "load_node events clock_events neighbors routes n =
     hydrate_working_state (n\<lparr>nd_store := load_store events clock_events neighbors routes (nd_store n)\<rparr>)"

definition restore :: "bytes \<Rightarrow> Node \<Rightarrow> Node result" where
  "restore blob n =
     bindE (r_snapshot blob) (\<lambda>(sn, _).
       load_node (sn_events sn) (sn_clock_events sn)
         (foldl (\<lambda>m nb. om_put (nb_node_id nb) nb m) [] (sn_neighbors sn))
         (foldl (\<lambda>m (dst, hop). om_put dst hop m) [] (sn_routes sn)) n)"

section \<open>The codec\<close>

definition wf_neighbor :: "Neighbor \<Rightarrow> bool" where
  "wf_neighbor nb \<longleftrightarrow> wf_node_id (nb_node_id nb) \<and> short64 (nb_last_hashes nb) \<and> list_all short (nb_last_hashes nb)"

definition wf_route :: "NodeId \<times> NodeId \<Rightarrow> bool" where
  "wf_route r \<longleftrightarrow> wf_node_id (fst r) \<and> wf_node_id (snd r)"

definition wf_snapshot :: "Snapshot \<Rightarrow> bool" where
  "wf_snapshot sn \<longleftrightarrow> (short64 (sn_events sn) \<and> list_all wf_event (sn_events sn)) \<and>
     (short64 (sn_clock_events sn) \<and> list_all wf_local_clock_event (sn_clock_events sn)) \<and>
     (short64 (sn_tail sn) \<and> list_all wf_event (sn_tail sn)) \<and>
     (short64 (sn_neighbors sn) \<and> list_all wf_neighbor (sn_neighbors sn)) \<and>
     (short64 (sn_routes sn) \<and> list_all wf_route (sn_routes sn))"

interpretation neighborc: codec w_neighbor r_neighbor wf_neighbor
proof
  show "local_reader r_neighbor" unfolding r_neighbor_def by (intro local_intros)
  fix nb
  assume "wf_neighbor nb"
  then show "r_neighbor (w_neighbor nb) = Inr (nb, [])"
    using blobc.many64_dec_enc [of "nb_last_hashes nb" "[]"]
    by (simp add: r_neighbor_def w_neighbor_def reader_defs codec_simps wf_neighbor_def)
qed

interpretation routec: codec w_route r_route wf_route
  by (unfold_locales) (unfold r_route_def, intro local_intros,
      auto simp: w_route_def reader_defs codec_simps wf_route_def)

interpretation snapshotc: codec w_snapshot r_snapshot wf_snapshot
proof
  show "local_reader r_snapshot"
    unfolding r_snapshot_def by (intro local_intros local_bind) (auto intro!: local_intros
        lcec.dec_local neighborc.dec_local routec.dec_local)
  fix sn
  assume "wf_snapshot sn"
  then show "r_snapshot (w_snapshot sn) = Inr (sn, [])"
    using routec.many64_dec_enc [of "sn_routes sn" "[]"]
    by (simp add: r_snapshot_def w_snapshot_def wf_snapshot_def reader_defs codec_simps kSnapshotVersion_def
        eventc.many64_dec_enc lcec.many64_dec_enc neighborc.many64_dec_enc)
qed

section \<open>What is loaded\<close>

lemma load_events_fields:
  "store_ok s \<Longrightarrow> store_ok (foldl (\<lambda>s e. snd (append_event e s)) s es) \<and>
    st_events (foldl (\<lambda>s e. snd (append_event e s)) s es) = st_events s @ es \<and>
    st_clock_events (foldl (\<lambda>s e. snd (append_event e s)) s es) = st_clock_events s \<and>
    st_neighbors (foldl (\<lambda>s e. snd (append_event e s)) s es) = st_neighbors s \<and>
    st_routes (foldl (\<lambda>s e. snd (append_event e s)) s es) = st_routes s \<and>
    st_timed_routes (foldl (\<lambda>s e. snd (append_event e s)) s es) = st_timed_routes s"
proof (induction es arbitrary: s)
  case (Cons e es)
  have "store_ok (snd (append_event e s))" using append_event_ok Cons.prems by blast
  from Cons.IH [OF this] show ?case by (simp add: append_event_def Let_def)
qed simp

lemma load_clocks_fields:
  "store_ok s \<Longrightarrow> store_ok (foldl (\<lambda>s c. snd (append_clock_event c s)) s cs) \<and>
    load_clock_events (foldl (\<lambda>s c. snd (append_clock_event c s)) s cs) = load_clock_events s @ cs \<and>
    st_events (foldl (\<lambda>s c. snd (append_clock_event c s)) s cs) = st_events s \<and>
    st_neighbors (foldl (\<lambda>s c. snd (append_clock_event c s)) s cs) = st_neighbors s \<and>
    st_routes (foldl (\<lambda>s c. snd (append_clock_event c s)) s cs) = st_routes s \<and>
    st_timed_routes (foldl (\<lambda>s c. snd (append_clock_event c s)) s cs) = st_timed_routes s"
proof (induction cs arbitrary: s)
  case (Cons c cs)
  obtain q t where t: "append_clock_event c s = (q, t)" by fastforce
  have ok: "store_ok t" using mem.append_clock_ok [OF Cons.prems, of c] t by simp
  have f: "st_clock_events t = st_clock_events s @ [(q, c)]" "st_events t = st_events s"
    "st_neighbors t = st_neighbors s" "st_routes t = st_routes s" "st_timed_routes t = st_timed_routes s"
    using append_clock_fields [OF _ t] Cons.prems by (simp_all add: store_ok_def)
  show ?case using Cons.IH [OF ok] by (simp add: t f load_clock_events_def)
qed simp

lemma load_neighbors_fields:
  "foldl (\<lambda>s (_, nb). put_neighbor nb s) s nbs =
     s\<lparr>st_neighbors := foldl (\<lambda>m (_, nb). om_put (nb_node_id nb) nb m) (st_neighbors s) nbs\<rparr>"
  by (induction nbs arbitrary: s) (auto simp: put_neighbor_def)

lemma load_routes_fields:
  "foldl (\<lambda>s (d, h). put_route d h s) s rs =
     s\<lparr>st_routes := foldl (\<lambda>m (d, h). om_put d h m) (st_routes s) rs\<rparr>"
  by (induction rs arbitrary: s) (auto simp: put_route_def)

lemma om_ok_foldl_put: "om_ok m \<Longrightarrow> om_ok (foldl (\<lambda>m x. om_put (f x) (g x) m) m xs)"
  by (induction xs arbitrary: m) auto

lemma store_ok_update:
  "store_ok s \<Longrightarrow> om_ok nbs \<Longrightarrow> om_ok rs \<Longrightarrow> store_ok (s\<lparr>st_neighbors := nbs, st_routes := rs\<rparr>)"
  using clocks_ok_cong [of "s\<lparr>st_neighbors := nbs, st_routes := rs\<rparr>" s]
  by (simp add: store_ok_def events_ok_def)

lemma load_store_fields:
  fixes events clock_events neighbors routes s
  defines "t \<equiv> load_store events clock_events neighbors routes s"
  shows "store_ok t" "st_events t = events" "load_clock_events t = clock_events"
    "st_neighbors t = foldl (\<lambda>m (_, nb). om_put (nb_node_id nb) nb m) [] neighbors"
    "st_routes t = foldl (\<lambda>m (d, h). om_put d h m) [] routes" "st_timed_routes t = []"
proof -
  have c: "clear_store s = empty_store" by (simp add: clear_store_def empty_store_def)
  let ?e = "foldl (\<lambda>s e. snd (append_event e s)) empty_store events"
  let ?c = "foldl (\<lambda>s c. snd (append_clock_event c s)) ?e clock_events"
  note e = load_events_fields [OF store_ok_empty, of events]
  note f = load_clocks_fields [of ?e clock_events]
  have t: "t = ?c\<lparr>st_neighbors := foldl (\<lambda>m (_, nb). om_put (nb_node_id nb) nb m) [] neighbors,
      st_routes := foldl (\<lambda>m (d, h). om_put d h m) [] routes\<rparr>"
    using e f by (simp add: t_def load_store_def c Let_def load_neighbors_fields load_routes_fields empty_store_def)
  have "om_ok (foldl (\<lambda>m (_, nb). om_put (nb_node_id nb) nb m) [] neighbors)"
    "om_ok (foldl (\<lambda>m (d, h). om_put d h m) [] routes)"
    using om_ok_foldl_put [of "[]" "\<lambda>x. nb_node_id (snd x)" snd neighbors] om_ok_foldl_put [of "[]" fst snd routes]
    by (simp_all add: case_prod_beta')
  then show "store_ok t" using e f store_ok_update by (simp add: t)
  show "st_events t = events" "load_clock_events t = clock_events"
    "st_neighbors t = foldl (\<lambda>m (_, nb). om_put (nb_node_id nb) nb m) [] neighbors"
    "st_routes t = foldl (\<lambda>m (d, h). om_put d h m) [] routes" "st_timed_routes t = []"
    using e f by (simp_all add: t) (simp_all add: load_clock_events_def empty_store_def)
qed

lemma pinned_load: "pinned l s e \<longleftrightarrow>
    (\<exists>c \<in> set (load_clock_events s). ce_chain c = l \<and> ev_hash e \<in> ref_hash ` set (ce_refs c))"
  by (force simp: pinned_def load_clock_events_def)

lemma events_from_spec:
  "set ks \<subseteq> {0..<length (st_events s)} \<Longrightarrow> events_from s ks = Inr (map ((!) (st_events s)) ks)"
  by (induction ks) (simp_all add: event_by_seq_def)

definition snapshot_of :: "Node \<Rightarrow> Snapshot" where
  "snapshot_of n = \<lparr>sn_events = st_events (nd_store n), sn_clock_events = load_clock_events (nd_store n),
     sn_tail = hd (nd_unreferenced n), sn_neighbors = map snd (nd_neighbors n), sn_routes = nd_routes n\<rparr>"

lemma snapshot_spec:
  assumes "nd_unreferenced n \<noteq> []"
  shows "snapshot n = Inr (w_snapshot (snapshot_of n))"
  using events_from_spec [of "[0..<event_count (nd_store n)]" "nd_store n"] assms
  by (simp add: snapshot_def w_snapshot_def snapshot_of_def event_count_def map_nth)

lemma keyed_put: "keyed nbs \<Longrightarrow>
    foldl (\<lambda>m nb. om_put (nb_node_id nb) nb m) m (map snd nbs) = foldl (\<lambda>m (k, v). om_put k v m) m nbs"
  by (induction nbs arbitrary: m) (auto simp: keyed_def)

lemma keyed_put_pairs: "keyed nbs \<Longrightarrow>
    foldl (\<lambda>m (_, nb). om_put (nb_node_id nb) nb m) m nbs = foldl (\<lambda>m (k, v). om_put k v m) m nbs"
  by (induction nbs arbitrary: m) (auto simp: keyed_def)

section \<open>Any blob\<close>

lemma reads_neighbor [reads_intros]: "reads r_neighbor (\<lambda>x n. wf_neighbor x \<and> n = length (w_neighbor x))"
  unfolding r_neighbor_def
  by (rule reads_bind [OF reads_node_id], rule reads_bind [OF reads_many64 [OF reads_blob]], rule reads_return)
    (simp add: wf_neighbor_def w_neighbor_def)

lemma reads_route [reads_intros]: "reads r_route (\<lambda>x n. wf_route x \<and> n = length (w_route x))"
  unfolding r_route_def
  by (rule reads_bind, rule reads_intros)+ (rule reads_return, simp add: wf_route_def w_route_def)

lemma reads_snapshot: "reads r_snapshot (\<lambda>x n. wf_snapshot x)"
  unfolding r_snapshot_def
proof (rule reads_bind [OF reads_u64])
  fix v :: u64 and m :: nat
  show "reads (if v \<noteq> kSnapshotVersion then r_throw Unsupported_snapshot_version else
     r_bind (r_many64 r_event) (\<lambda>es. r_bind (r_many64 r_local_clock_event) (\<lambda>cs.
     r_bind (r_many64 r_event) (\<lambda>tl. r_bind (r_many64 r_neighbor) (\<lambda>nbs.
     r_bind (r_many64 r_route) (\<lambda>rts. r_return \<lparr>sn_events = es, sn_clock_events = cs, sn_tail = tl,
       sn_neighbors = nbs, sn_routes = rts\<rparr>)))))) (\<lambda>x n. wf_snapshot x)"
  proof (cases "v = kSnapshotVersion")
    case True
    then show ?thesis
      by (simp, intro reads_bind [OF reads_many64 [OF reads_event]] reads_bind [OF reads_many64 [OF reads_local_clock_event]]
          reads_bind [OF reads_many64 [OF reads_neighbor]] reads_bind [OF reads_many64 [OF reads_route]] reads_return)
        (simp add: wf_snapshot_def)
  qed (simp add: reads_throw catchable_def)
qed

lemma w_snapshot_nonempty: "w_snapshot sn \<noteq> []"
  by (simp add: w_snapshot_def w_u64_def)

text \<open>A snapshot is a faithful backup: restored into any node, it brings back the events and the clock
  events of the log in order, with their back-references, and the neighbors and the routes; the
  store it fills is consistent, and every chain's unreferenced events are those that the log of the
  snapshot leaves unreferenced. The time-dependent routes are not part of it.\<close>

lemma restore_snapshot:
  assumes "nd_unreferenced n \<noteq> []" "wf_snapshot (snapshot_of n)"
    and "keyed (nd_neighbors n)" "om_ok (nd_neighbors n)" "om_ok (nd_routes n)"
  shows "\<exists>b m. snapshot n = Inr b \<and> b \<noteq> [] \<and> restore b k = Inr m \<and> store_ok (nd_store m) \<and>
    st_events (nd_store m) = st_events (nd_store n) \<and>
    load_clock_events (nd_store m) = load_clock_events (nd_store n) \<and>
    nd_neighbors m = nd_neighbors n \<and> nd_routes m = nd_routes n \<and> nd_timed_routes m = [] \<and> nd_out m = nd_out k \<and>
    nd_unreferenced m = map (\<lambda>l. unpinned_tail (of_nat l) (nd_store n)) [0..<nd_num_chains k]"
proof -
  let ?s = "load_store (st_events (nd_store n)) (load_clock_events (nd_store n)) (nd_neighbors n) (nd_routes n) (nd_store k)"
  have m: "foldl (\<lambda>m (_, nb). om_put (nb_node_id nb) nb m) [] (nd_neighbors n) = nd_neighbors n"
    "foldl (\<lambda>m nb. om_put (nb_node_id nb) nb m) [] (map snd (nd_neighbors n)) = nd_neighbors n"
    "foldl (\<lambda>m (d, h). om_put d h m) [] (nd_routes n) = nd_routes n"
    using foldl_om_put [of "[]"] keyed_put keyed_put_pairs assms(3-5) by simp_all
  have "unpinned_tail l ?s = unpinned_tail l (nd_store n)" for l
    by (rule unpinned_tail_cong) (simp_all add: load_store_fields pinned_load)
  then show ?thesis
    using snapshot_spec [OF assms(1)] snapshotc.dec_enc [OF assms(2)] w_snapshot_nonempty
    by (simp add: restore_def load_node_def hydrate_spec load_store_fields m snapshot_of_def)
qed

section \<open>Properties\<close>

text \<open>No blob brings a node down: restoring arbitrary bytes either succeeds, with a consistent store and
  every chain's unreferenced events rederived from it, or throws an exception that can be caught; no
  count and no length in the blob makes the node read out of bounds or violate an assertion.\<close>

lemma restore_total:
  "(\<exists>m. restore b n = Inr m \<and> store_ok (nd_store m) \<and>
      nd_unreferenced m = map (\<lambda>l. unpinned_tail (of_nat l) (nd_store m)) [0..<nd_num_chains n]) \<or>
   (\<exists>e. restore b n = Inl e \<and> catchable e)"
proof (cases "r_snapshot b")
  case (Inl e)
  then have "catchable e" using reads_snapshot by (auto simp: reads_def split: sum.splits)
  then show ?thesis using Inl by (simp add: restore_def)
next
  case (Inr x)
  then show ?thesis
    by (cases x) (simp add: restore_def load_node_def hydrate_spec load_store_fields)
qed

end
