(* ===== verification/Lmdb_Store.thy ===== *)
theory Lmdb_Store
  imports Record_Codec Memory_Store
begin

text \<open>
  The production store, \<open>src/adapters/os/lmdb_store.cpp\<close>: nine tables of an LMDB environment, the sequence
  counters, and the tips and rings of the chains in RAM. LMDB itself (\<open>third_party/lmdb\<close>) is a
  parameter: a record of the functions the store calls, over an abstract type of contents. A write
  transaction is the contents it has produced so far; aborting it is forgetting them. A store
  operation returns its result, or the exception it throws, together with the state it leaves behind.
\<close>

section \<open>The interface of LMDB\<close>

datatype rc = MDB_SUCCESS | MDB_NOTFOUND | MDB_MAP_FULL | MDB_BAD_VALSIZE | MDB_OTHER int

text \<open>The handles of the named tables; \<open>db_referencing\<close> is opened with \<open>MDB_DUPSORT\<close>.\<close>

datatype dbi =
    db_meta | db_events | db_event_index | db_clock_events | db_clock_index
  | db_neighbors | db_routes | db_timed_routes | db_referencing

datatype SyncPolicy = sync_safe | sync_lazy

text \<open>\<open>mdb_walk\<close> stands for opening a cursor and moving it with \<open>MDB_FIRST\<close> and \<open>MDB_NEXT\<close>: the entries it
  yields and the return code that ends it; \<open>mdb_dups\<close> is the same for \<open>MDB_SET_KEY\<close> and \<open>MDB_NEXT_DUP\<close>,
  \<open>mdb_last\<close> for \<open>MDB_LAST\<close>. \<open>mdb_env_open\<close> stands for creating, configuring and opening the
  environment; the first argument of \<open>mdb_txn_begin\<close> says whether the transaction is read-only.\<close>

record 'db Lmdb =
  mdb_env_open :: "SyncPolicy \<Rightarrow> nat \<Rightarrow> 'db \<Rightarrow> rc \<times> 'db"
  mdb_dbi_open :: "dbi \<Rightarrow> 'db \<Rightarrow> rc \<times> 'db"
  mdb_txn_begin :: "bool \<Rightarrow> 'db \<Rightarrow> rc"
  mdb_txn_commit :: "'db \<Rightarrow> rc \<times> 'db"
  mdb_get :: "dbi \<Rightarrow> bytes \<Rightarrow> 'db \<Rightarrow> rc \<times> bytes"
  mdb_put :: "dbi \<Rightarrow> bytes \<Rightarrow> bytes \<Rightarrow> 'db \<Rightarrow> rc \<times> 'db"
  mdb_del :: "dbi \<Rightarrow> bytes \<Rightarrow> bytes option \<Rightarrow> 'db \<Rightarrow> rc \<times> 'db"
  mdb_drop :: "dbi \<Rightarrow> 'db \<Rightarrow> rc \<times> 'db"
  mdb_walk :: "dbi \<Rightarrow> 'db \<Rightarrow> (bytes \<times> bytes) list \<times> rc"
  mdb_last :: "dbi \<Rightarrow> 'db \<Rightarrow> rc \<times> bytes \<times> bytes"
  mdb_dups :: "dbi \<Rightarrow> bytes \<Rightarrow> 'db \<Rightarrow> bytes list \<times> rc"
  mdb_entries :: "dbi \<Rightarrow> 'db \<Rightarrow> rc \<times> nat"
  mdb_env_sync :: "'db \<Rightarrow> rc"
  mdb_env_set_mapsize :: "nat \<Rightarrow> 'db \<Rightarrow> rc \<times> 'db"

section \<open>State\<close>

text \<open>\<open>ls_env\<close> is what has been committed; \<open>ls_writer\<close> tells that a write transaction was left open.\<close>

record 'db LmdbStore =
  ls_map_size :: nat
  ls_sync_policy :: SyncPolicy
  ls_env :: 'db
  ls_writer :: bool
  ls_format_version :: u64
  ls_next_event_seq :: nat
  ls_next_clock_seq :: nat
  ls_chain_tip_seq :: "(u32, nat) omap"
  ls_chain_seqs :: "(u32, nat list) omap"

record 'db Batch =
  bt_txn :: 'db
  bt_event_seq :: nat
  bt_clock_seq :: nat
  bt_pending :: "(u32 \<times> nat) list"

definition kFormatVersion :: u64 where "kFormatVersion = 4"

definition kVersionKey :: bytes where "kVersionKey = [118, 101, 114, 115, 105, 111, 110]"

text \<open>The ceiling of the map for a build with \<open>bits\<close>-bit addresses, 0 for none.\<close>

definition kMaxMapSize :: "nat \<Rightarrow> nat" where
  "kMaxMapSize bits = (if bits \<ge> 64 then 0 else 3 * 2 ^ 29)"

section \<open>Helpers\<close>

definition check :: "rc \<Rightarrow> unit result" where
  "check rc = (if rc = MDB_SUCCESS then Inr () else Inl Lmdb_failure)"

definition check_write :: "rc \<Rightarrow> unit result" where
  "check_write rc = (if rc = MDB_MAP_FULL then Inl Lmdb_map_full else check rc)"

definition put_u64_be :: "nat \<Rightarrow> bytes" where
  "put_u64_be v = be_list 8 (of_nat v :: u64)"

text \<open>These two read a fixed number of bytes behind a pointer.\<close>

definition get_u64_be :: "bytes \<Rightarrow> nat result" where
  "get_u64_be b = (if length b < 8 then Inl Undefined_behaviour else Inr (unat (be_fold (take 8 b) :: u64)))"

definition get_node_id :: "bytes \<Rightarrow> NodeId result" where
  "get_node_id b = (if length b < 16 then Inl Undefined_behaviour else Inr (NodeId (take 16 b)))"

definition put_node_id :: "NodeId \<Rightarrow> bytes" where
  "put_node_id i = node_bytes i"

definition next_seq :: "'db Lmdb \<Rightarrow> dbi \<Rightarrow> 'db \<Rightarrow> nat result" where
  "next_seq L d db =
     (let (rc, k, _) = mdb_last L d db in
      if rc = MDB_SUCCESS then bindE (get_u64_be k) (\<lambda>q. Inr (unat (of_nat q + 1 :: u64)))
      else if rc \<noteq> MDB_NOTFOUND then Inl Lmdb_failure
      else Inr 0)"

definition for_each :: "'db Lmdb \<Rightarrow> 'db \<Rightarrow> dbi \<Rightarrow> (bytes \<times> bytes \<Rightarrow> 'a \<Rightarrow> 'a result) \<Rightarrow> 'a \<Rightarrow> 'a result" where
  "for_each L env d fn acc =
     bindE (check (mdb_txn_begin L True env)) (\<lambda>_.
       let (es, rc) = mdb_walk L d env in
       bindE (foldE fn es acc) (\<lambda>acc. if rc \<noteq> MDB_NOTFOUND then Inl Lmdb_failure else Inr acc))"

definition entry_count :: "'db Lmdb \<Rightarrow> 'db \<Rightarrow> dbi \<Rightarrow> nat result" where
  "entry_count L env d =
     bindE (check (mdb_txn_begin L True env)) (\<lambda>_.
       let (rc, n) = mdb_entries L d env in bindE (check rc) (\<lambda>_. Inr n))"

text \<open>A \<open>Reader\<close> over the whole value; what it leaves unread is ignored.\<close>

definition read_value :: "'a reader \<Rightarrow> bytes \<Rightarrow> 'a result" where
  "read_value d v = bindE (d v) (\<lambda>(x, _). Inr x)"

section \<open>Transactions\<close>

text \<open>LMDB admits one writer: \<open>mdb_txn_begin\<close> waits for a write transaction that was left open.\<close>

definition begin_write :: "'db Lmdb \<Rightarrow> 'db LmdbStore \<Rightarrow> 'db result" where
  "begin_write L s =
     (if ls_writer s then Inl Diverges
      else bindE (check (mdb_txn_begin L False (ls_env s))) (\<lambda>_. Inr (ls_env s)))"

definition put_checked :: "'db Lmdb \<Rightarrow> dbi \<Rightarrow> bytes \<Rightarrow> bytes \<Rightarrow> 'db \<Rightarrow> 'db result" where
  "put_checked L d k v txn =
     (let (rc, txn) = mdb_put L d k v txn in bindE (check_write rc) (\<lambda>_. Inr txn))"

definition lmdb_begin :: "'db Lmdb \<Rightarrow> 'db LmdbStore \<Rightarrow> 'db Batch result" where
  "lmdb_begin L s = bindE (begin_write L s) (\<lambda>txn.
     Inr \<lparr>bt_txn = txn, bt_event_seq = ls_next_event_seq s, bt_clock_seq = ls_next_clock_seq s, bt_pending = []\<rparr>)"

definition batch_append_event :: "'db Lmdb \<Rightarrow> Event \<Rightarrow> 'db Batch \<Rightarrow> (nat \<times> 'db Batch) result" where
  "batch_append_event L e b =
     (let seq = bt_event_seq b in
      bindE (put_checked L db_events (put_u64_be seq) (w_event e) (bt_txn b)) (\<lambda>txn.
      bindE (put_checked L db_event_index (ev_hash e) (put_u64_be seq) txn) (\<lambda>txn.
        Inr (seq, b\<lparr>bt_txn := txn, bt_event_seq := Suc seq\<rparr>))))"

definition batch_append_clock_event :: "'db Lmdb \<Rightarrow> LocalClockEvent \<Rightarrow> 'db Batch \<Rightarrow> (nat \<times> 'db Batch) result" where
  "batch_append_clock_event L c b =
     (let seq = bt_clock_seq b in
      bindE (put_checked L db_clock_events (put_u64_be seq) (w_local_clock_event c) (bt_txn b)) (\<lambda>txn.
      bindE (put_checked L db_clock_index (ce_hash c) (put_u64_be seq) txn) (\<lambda>txn.
      bindE (foldE (\<lambda>r. put_checked L db_referencing (ref_hash r) (put_u64_be seq)) (ce_refs c) txn) (\<lambda>txn.
        Inr (seq, b\<lparr>bt_txn := txn, bt_clock_seq := Suc seq, bt_pending := bt_pending b @ [(ce_chain c, seq)]\<rparr>)))))"

definition batch_update_clock_event :: "'db Lmdb \<Rightarrow> LocalClockEvent \<Rightarrow> 'db Batch \<Rightarrow> (unit \<times> 'db Batch) result" where
  "batch_update_clock_event L c b =
     (let (rc, sv) = mdb_get L db_clock_index (ce_hash c) (bt_txn b) in
      if rc = MDB_NOTFOUND then Inl Unknown_clock_event
      else bindE (check rc) (\<lambda>_.
        if length sv < 8 then Inl Undefined_behaviour
        else bindE (put_checked L db_clock_events (take 8 sv) (w_local_clock_event c) (bt_txn b)) (\<lambda>txn.
          Inr ((), b\<lparr>bt_txn := txn\<rparr>))))"

definition batch_put_neighbor :: "'db Lmdb \<Rightarrow> Neighbor \<Rightarrow> 'db Batch \<Rightarrow> (unit \<times> 'db Batch) result" where
  "batch_put_neighbor L n b =
     bindE (put_checked L db_neighbors (put_node_id (nb_node_id n)) (w_many w_blob (nb_last_hashes n)) (bt_txn b))
       (\<lambda>txn. Inr ((), b\<lparr>bt_txn := txn\<rparr>))"

definition batch_put_route :: "'db Lmdb \<Rightarrow> NodeId \<Rightarrow> NodeId \<Rightarrow> 'db Batch \<Rightarrow> (unit \<times> 'db Batch) result" where
  "batch_put_route L dst next_hop b =
     bindE (put_checked L db_routes (put_node_id dst) (put_node_id next_hop) (bt_txn b))
       (\<lambda>txn. Inr ((), b\<lparr>bt_txn := txn\<rparr>))"

definition lmdb_ring :: "u32 \<Rightarrow> 'db LmdbStore \<Rightarrow> nat list" where
  "lmdb_ring l s = (case om_find l (ls_chain_seqs s) of None \<Rightarrow> [] | Some qs \<Rightarrow> qs)"

definition apply_append :: "u32 \<times> nat \<Rightarrow> 'db LmdbStore \<Rightarrow> 'db LmdbStore" where
  "apply_append p s = (case p of (chain, seq) \<Rightarrow>
     s\<lparr>ls_chain_tip_seq := om_put chain seq (ls_chain_tip_seq s),
       ls_chain_seqs := om_put chain (lmdb_ring chain s @ [seq]) (ls_chain_seqs s)\<rparr>)"

definition batch_commit :: "'db Lmdb \<Rightarrow> 'db Batch \<Rightarrow> 'db LmdbStore \<Rightarrow> unit result \<times> 'db LmdbStore" where
  "batch_commit L b s =
     (let (rc, env) = mdb_txn_commit L (bt_txn b) in
      case check_write rc of
        Inl e \<Rightarrow> (Inl e, s)
      | Inr _ \<Rightarrow> (Inr (), fold apply_append (bt_pending b)
          (s\<lparr>ls_env := env, ls_next_event_seq := bt_event_seq b, ls_next_clock_seq := bt_clock_seq b\<rparr>)))"

definition grow_map :: "'db Lmdb \<Rightarrow> nat \<Rightarrow> 'db LmdbStore \<Rightarrow> unit result \<times> 'db LmdbStore" where
  "grow_map L bits s =
     (let next = ls_map_size s * 2 mod 2 ^ bits; limit = kMaxMapSize bits in
      if limit \<noteq> 0 \<and> (ls_map_size s \<ge> limit \<or> next < ls_map_size s) then (Inl Lmdb_store_full, s)
      else
        let next = (if limit \<noteq> 0 \<and> next > limit then limit else next);
            (rc, env) = mdb_env_set_mapsize L next (ls_env s)
        in (check rc, s\<lparr>ls_map_size := next, ls_env := env\<rparr>))"

text \<open>One round of \<open>durable\<close>: a batch that is not committed is aborted by its destructor.\<close>

definition attempt :: "'db Lmdb \<Rightarrow> ('db Batch \<Rightarrow> ('a \<times> 'db Batch) result) \<Rightarrow> 'db LmdbStore \<Rightarrow>
    'a result \<times> 'db LmdbStore" where
  "attempt L op s =
     (case bindE (lmdb_begin L s) op of
        Inl e \<Rightarrow> (Inl e, s)
      | Inr (x, b) \<Rightarrow>
          (case batch_commit L b s of
             (Inl e, s) \<Rightarrow> (Inl e, s)
           | (Inr _, s) \<Rightarrow> (Inr x, s)))"

partial_function (option) durable :: "'db Lmdb \<Rightarrow> nat \<Rightarrow> ('db Batch \<Rightarrow> ('a \<times> 'db Batch) result) \<Rightarrow>
    'db LmdbStore \<Rightarrow> ('a result \<times> 'db LmdbStore) option" where
  "durable L bits op s =
     (case attempt L op s of
        (Inr x, s) \<Rightarrow> Some (Inr x, s)
      | (Inl e, s) \<Rightarrow>
          if e = Lmdb_map_full
          then (case grow_map L bits s of
                  (Inl e, s) \<Rightarrow> Some (Inl e, s)
                | (Inr _, s) \<Rightarrow> durable L bits op s)
          else Some (Inl e, s))"

section \<open>Writes\<close>

definition lmdb_append_event :: "'db Lmdb \<Rightarrow> nat \<Rightarrow> Event \<Rightarrow> 'db LmdbStore \<Rightarrow> (nat result \<times> 'db LmdbStore) option" where
  "lmdb_append_event L bits e s = durable L bits (batch_append_event L e) s"

definition lmdb_append_clock_event ::
    "'db Lmdb \<Rightarrow> nat \<Rightarrow> LocalClockEvent \<Rightarrow> 'db LmdbStore \<Rightarrow> (nat result \<times> 'db LmdbStore) option" where
  "lmdb_append_clock_event L bits c s = durable L bits (batch_append_clock_event L c) s"

definition lmdb_update_clock_event ::
    "'db Lmdb \<Rightarrow> nat \<Rightarrow> LocalClockEvent \<Rightarrow> 'db LmdbStore \<Rightarrow> (unit result \<times> 'db LmdbStore) option" where
  "lmdb_update_clock_event L bits c s = durable L bits (batch_update_clock_event L c) s"

definition lmdb_put_neighbor :: "'db Lmdb \<Rightarrow> nat \<Rightarrow> Neighbor \<Rightarrow> 'db LmdbStore \<Rightarrow> (unit result \<times> 'db LmdbStore) option" where
  "lmdb_put_neighbor L bits n s = durable L bits (batch_put_neighbor L n) s"

definition lmdb_put_route ::
    "'db Lmdb \<Rightarrow> nat \<Rightarrow> NodeId \<Rightarrow> NodeId \<Rightarrow> 'db LmdbStore \<Rightarrow> (unit result \<times> 'db LmdbStore) option" where
  "lmdb_put_route L bits dst next_hop s = durable L bits (batch_put_route L dst next_hop) s"

definition w_timed_route :: "TimedRoute \<Rightarrow> bytes" where
  "w_timed_route rt = w_time_range (rt_validity rt) @ w_node_ids (rt_next_hops rt)"

text \<open>The transaction is opened by hand and nothing aborts it when a \<open>mdb_put\<close> fails.\<close>

definition lmdb_put_timed_routes :: "'db Lmdb \<Rightarrow> TimedRouteTable \<Rightarrow> 'db LmdbStore \<Rightarrow> unit result \<times> 'db LmdbStore" where
  "lmdb_put_timed_routes L table s =
     (case begin_write L s of
        Inl e \<Rightarrow> (Inl e, s)
      | Inr txn \<Rightarrow>
          let (_, txn) = mdb_drop L db_timed_routes txn in
          case foldE (\<lambda>(dest, routes). put_checked L db_timed_routes (put_node_id dest) (w_many w_timed_route routes))
              table txn of
            Inl e \<Rightarrow> (Inl e, s\<lparr>ls_writer := True\<rparr>)
          | Inr txn \<Rightarrow>
              let (rc, env) = mdb_txn_commit L txn in
              case check_write rc of
                Inl e \<Rightarrow> (Inl e, s)
              | Inr _ \<Rightarrow> (Inr (), s\<lparr>ls_env := env\<rparr>))"

text \<open>\<open>mdb_del\<close> that may find nothing.\<close>

definition del_checked :: "'db Lmdb \<Rightarrow> dbi \<Rightarrow> bytes \<Rightarrow> bytes option \<Rightarrow> 'db \<Rightarrow> 'db result" where
  "del_checked L d k v txn =
     (let (rc, txn) = mdb_del L d k v txn in
      if rc \<noteq> MDB_SUCCESS \<and> rc \<noteq> MDB_NOTFOUND then Inl Lmdb_failure else Inr txn)"

definition prune_one :: "'db Lmdb \<Rightarrow> nat \<Rightarrow> 'db \<Rightarrow> 'db result" where
  "prune_one L seq txn =
     (let (rc, cv) = mdb_get L db_clock_events (put_u64_be seq) txn in
      if rc = MDB_NOTFOUND then Inr txn
      else bindE (check rc) (\<lambda>_.
        bindE (read_value r_clock_event cv) (\<lambda>ce.
        bindE (foldE (\<lambda>r. del_checked L db_referencing (ref_hash r) (Some (put_u64_be seq))) (ce_refs ce) txn) (\<lambda>txn.
        bindE (del_checked L db_clock_index (ce_hash ce) None txn) (\<lambda>txn.
        let (rc, txn) = mdb_del L db_clock_events (put_u64_be seq) None txn in
        bindE (check rc) (\<lambda>_. Inr txn))))))"

text \<open>A failing \<open>mdb_txn_commit\<close> has freed the transaction that the handler then aborts.\<close>

definition lmdb_prune_chain :: "'db Lmdb \<Rightarrow> u32 \<Rightarrow> nat \<Rightarrow> 'db LmdbStore \<Rightarrow> unit result \<times> 'db LmdbStore" where
  "lmdb_prune_chain L chain keep s =
     (case om_find chain (ls_chain_seqs s) of
        None \<Rightarrow> (Inr (), s)
      | Some qs \<Rightarrow>
          if keep = 0 \<or> length qs \<le> keep then (Inr (), s)
          else
            case begin_write L s of
              Inl e \<Rightarrow> (Inl e, s)
            | Inr txn \<Rightarrow>
                let to_prune = length qs - keep in
                case foldE (prune_one L) (take to_prune qs) txn of
                  Inl e \<Rightarrow> (Inl e, s)
                | Inr txn \<Rightarrow>
                    let (rc, env) = mdb_txn_commit L txn in
                    if rc \<noteq> MDB_SUCCESS then (Inl Undefined_behaviour, s)
                    else (Inr (), s\<lparr>ls_env := env, ls_chain_seqs := om_put chain (drop to_prune qs) (ls_chain_seqs s)\<rparr>))"

definition drop_checked :: "'db Lmdb \<Rightarrow> dbi \<Rightarrow> 'db \<Rightarrow> 'db result" where
  "drop_checked L d txn = (let (rc, txn) = mdb_drop L d txn in bindE (check rc) (\<lambda>_. Inr txn))"

definition lmdb_reset :: "'db Lmdb \<Rightarrow> 'db LmdbStore \<Rightarrow> unit result \<times> 'db LmdbStore" where
  "lmdb_reset L s =
     (case bindE (begin_write L s) (foldE (drop_checked L) [db_events, db_event_index, db_clock_events, db_clock_index,
         db_referencing, db_neighbors, db_routes, db_timed_routes]) of
        Inl e \<Rightarrow> (Inl e, s)
      | Inr txn \<Rightarrow>
          let (rc, env) = mdb_txn_commit L txn in
          case check rc of
            Inl e \<Rightarrow> (Inl e, s)
          | Inr _ \<Rightarrow> (Inr (), s\<lparr>ls_env := env, ls_next_event_seq := 0, ls_next_clock_seq := 0,
              ls_chain_tip_seq := [], ls_chain_seqs := []\<rparr>))"

definition lmdb_sync :: "'db Lmdb \<Rightarrow> 'db LmdbStore \<Rightarrow> unit result" where
  "lmdb_sync L s = check (mdb_env_sync L (ls_env s))"

section \<open>Reads\<close>

definition get_bytes :: "'db Lmdb \<Rightarrow> dbi \<Rightarrow> bytes \<Rightarrow> 'db LmdbStore \<Rightarrow> bytes option result" where
  "get_bytes L d k s =
     bindE (check (mdb_txn_begin L True (ls_env s))) (\<lambda>_.
       let (rc, v) = mdb_get L d k (ls_env s) in
       if rc \<noteq> MDB_SUCCESS \<and> rc \<noteq> MDB_NOTFOUND then Inl Lmdb_failure
       else Inr (if rc = MDB_SUCCESS then Some v else None))"

definition seq_of :: "'db Lmdb \<Rightarrow> dbi \<Rightarrow> EventHash \<Rightarrow> 'db LmdbStore \<Rightarrow> nat option result" where
  "seq_of L index hash s =
     bindE (get_bytes L index hash s) (\<lambda>v. case v of
       None \<Rightarrow> Inr None
     | Some b \<Rightarrow> if length b \<noteq> 8 then Inl Bad_index_value else bindE (get_u64_be b) (\<lambda>q. Inr (Some q)))"

definition lmdb_event_by_seq :: "'db Lmdb \<Rightarrow> nat \<Rightarrow> 'db LmdbStore \<Rightarrow> Event result" where
  "lmdb_event_by_seq L seq s =
     bindE (get_bytes L db_events (put_u64_be seq) s) (\<lambda>v. case v of
       None \<Rightarrow> Inl Out_of_range
     | Some b \<Rightarrow> read_value r_event b)"

definition lmdb_event_by_hash :: "'db Lmdb \<Rightarrow> EventHash \<Rightarrow> 'db LmdbStore \<Rightarrow> Event option result" where
  "lmdb_event_by_hash L hash s =
     bindE (seq_of L db_event_index hash s) (\<lambda>q. case q of
       None \<Rightarrow> Inr None
     | Some seq \<Rightarrow> bindE (lmdb_event_by_seq L seq s) (\<lambda>e. Inr (Some e)))"

definition lmdb_clock_event_by_seq :: "'db Lmdb \<Rightarrow> nat \<Rightarrow> 'db LmdbStore \<Rightarrow> LocalClockEvent result" where
  "lmdb_clock_event_by_seq L seq s =
     bindE (get_bytes L db_clock_events (put_u64_be seq) s) (\<lambda>v. case v of
       None \<Rightarrow> Inl Out_of_range
     | Some b \<Rightarrow> read_value r_local_clock_event b)"

definition lmdb_clock_event_by_hash :: "'db Lmdb \<Rightarrow> EventHash \<Rightarrow> 'db LmdbStore \<Rightarrow> LocalClockEvent option result" where
  "lmdb_clock_event_by_hash L hash s =
     bindE (seq_of L db_clock_index hash s) (\<lambda>q. case q of
       None \<Rightarrow> Inr None
     | Some seq \<Rightarrow> bindE (lmdb_clock_event_by_seq L seq s) (\<lambda>c. Inr (Some c)))"

definition lmdb_clock_event_seq :: "'db Lmdb \<Rightarrow> EventHash \<Rightarrow> 'db LmdbStore \<Rightarrow> nat option result" where
  "lmdb_clock_event_seq L hash s = seq_of L db_clock_index hash s"

definition lmdb_clock_events_referencing :: "'db Lmdb \<Rightarrow> EventHash \<Rightarrow> 'db LmdbStore \<Rightarrow> nat list result" where
  "lmdb_clock_events_referencing L hash s =
     bindE (check (mdb_txn_begin L True (ls_env s))) (\<lambda>_.
       let (vs, rc) = mdb_dups L db_referencing hash (ls_env s) in
       bindE (foldE (\<lambda>v out. bindE (get_u64_be v) (\<lambda>q. Inr (out @ [q]))) vs []) (\<lambda>out.
         if rc \<noteq> MDB_NOTFOUND then Inl Lmdb_failure else Inr out))"

definition lmdb_latest_clock_event :: "'db Lmdb \<Rightarrow> 'db LmdbStore \<Rightarrow> LocalClockEvent option result" where
  "lmdb_latest_clock_event L s =
     bindE (check (mdb_txn_begin L True (ls_env s))) (\<lambda>_.
       let (rc, _, v) = mdb_last L db_clock_events (ls_env s) in
       if rc = MDB_SUCCESS then bindE (read_value r_local_clock_event v) (\<lambda>c. Inr (Some c))
       else if rc \<noteq> MDB_NOTFOUND then Inl Lmdb_failure
       else Inr None)"

definition lmdb_latest_clock_event_on :: "'db Lmdb \<Rightarrow> u32 \<Rightarrow> 'db LmdbStore \<Rightarrow> LocalClockEvent option result" where
  "lmdb_latest_clock_event_on L chain s =
     (case om_find chain (ls_chain_tip_seq s) of
        None \<Rightarrow> Inr None
      | Some seq \<Rightarrow> bindE (lmdb_clock_event_by_seq L seq s) (\<lambda>c. Inr (Some c)))"

definition lmdb_event_count :: "'db Lmdb \<Rightarrow> 'db LmdbStore \<Rightarrow> nat result" where
  "lmdb_event_count L s = entry_count L (ls_env s) db_events"

definition lmdb_clock_event_count :: "'db Lmdb \<Rightarrow> 'db LmdbStore \<Rightarrow> nat result" where
  "lmdb_clock_event_count L s = entry_count L (ls_env s) db_clock_events"

definition lmdb_load_events :: "'db Lmdb \<Rightarrow> 'db LmdbStore \<Rightarrow> Event list result" where
  "lmdb_load_events L s = for_each L (ls_env s) db_events
     (\<lambda>(_, v) out. bindE (read_value r_event v) (\<lambda>e. Inr (out @ [e]))) []"

definition lmdb_load_clock_events :: "'db Lmdb \<Rightarrow> 'db LmdbStore \<Rightarrow> LocalClockEvent list result" where
  "lmdb_load_clock_events L s = for_each L (ls_env s) db_clock_events
     (\<lambda>(_, v) out. bindE (read_value r_local_clock_event v) (\<lambda>c. Inr (out @ [c]))) []"

definition lmdb_load_neighbors :: "'db Lmdb \<Rightarrow> 'db LmdbStore \<Rightarrow> (NodeId, Neighbor) omap result" where
  "lmdb_load_neighbors L s = for_each L (ls_env s) db_neighbors
     (\<lambda>(k, v) out. bindE (get_node_id k) (\<lambda>i. bindE (read_value (r_many64 r_blob) v) (\<lambda>hs.
        Inr (om_put i \<lparr>nb_node_id = i, nb_last_hashes = hs\<rparr> out)))) []"

definition lmdb_load_routes :: "'db Lmdb \<Rightarrow> 'db LmdbStore \<Rightarrow> (NodeId, NodeId) omap result" where
  "lmdb_load_routes L s = for_each L (ls_env s) db_routes
     (\<lambda>(k, v) out. bindE (get_node_id k) (\<lambda>i. bindE (get_node_id v) (\<lambda>hop. Inr (om_put i hop out)))) []"

definition r_timed_route :: "TimedRoute reader" where
  "r_timed_route = r_bind r_time_range (\<lambda>w. r_bind r_node_ids (\<lambda>hops. r_return \<lparr>rt_validity = w, rt_next_hops = hops\<rparr>))"

definition lmdb_load_timed_routes :: "'db Lmdb \<Rightarrow> 'db LmdbStore \<Rightarrow> TimedRouteTable result" where
  "lmdb_load_timed_routes L s = for_each L (ls_env s) db_timed_routes
     (\<lambda>(k, v) out. bindE (get_node_id k) (\<lambda>i. bindE (read_value (r_many64 r_timed_route) v) (\<lambda>rts.
        Inr (om_put i rts out)))) []"

section \<open>Opening\<close>

definition seed_chain_tips :: "'db Lmdb \<Rightarrow> 'db LmdbStore \<Rightarrow> 'db LmdbStore result" where
  "seed_chain_tips L s = for_each L (ls_env s) db_clock_events
     (\<lambda>(k, v) s. bindE (get_u64_be k) (\<lambda>seq. bindE (read_value r_clock_event v) (\<lambda>c.
        Inr (apply_append (ce_chain c, seq) s))))
     (s\<lparr>ls_chain_tip_seq := [], ls_chain_seqs := []\<rparr>)"

definition put_plain :: "'db Lmdb \<Rightarrow> dbi \<Rightarrow> bytes \<Rightarrow> bytes \<Rightarrow> 'db \<Rightarrow> 'db result" where
  "put_plain L d k v txn = (let (rc, txn) = mdb_put L d k v txn in bindE (check rc) (\<lambda>_. Inr txn))"

definition rebuild_referencing_index :: "'db Lmdb \<Rightarrow> 'db \<Rightarrow> 'db result" where
  "rebuild_referencing_index L txn =
     (let (es, rc) = mdb_walk L db_clock_events txn in
      bindE (foldE (\<lambda>(ck, cv) txn.
          if length ck < 8 then Inl Undefined_behaviour
          else bindE (read_value r_clock_event cv) (\<lambda>ce.
            foldE (\<lambda>r. put_plain L db_referencing (ref_hash r) (take 8 ck)) (ce_refs ce) txn)) es txn) (\<lambda>txn.
        if rc \<noteq> MDB_NOTFOUND then Inl Lmdb_failure else Inr txn))"

text \<open>The version of the store on disk, which is stamped on a fresh one and migrated from 1.\<close>

definition ensure_version :: "'db Lmdb \<Rightarrow> 'db \<Rightarrow> 'db result" where
  "ensure_version L txn =
     (let (rc, v) = mdb_get L db_meta kVersionKey txn;
          stamp = put_plain L db_meta kVersionKey (be_list 8 kFormatVersion)
      in if rc = MDB_NOTFOUND then stamp txn
         else bindE (check rc) (\<lambda>_.
           if length v \<noteq> 8 then Inl Bad_version_record
           else bindE (get_u64_be v) (\<lambda>version.
             if version = 1 then bindE (rebuild_referencing_index L txn) stamp
             else if version \<noteq> unat kFormatVersion then Inl Unsupported_store_version
             else Inr txn)))"

definition open_dbi :: "'db Lmdb \<Rightarrow> dbi \<Rightarrow> 'db \<Rightarrow> 'db result" where
  "open_dbi L d txn = (let (rc, txn) = mdb_dbi_open L d txn in bindE (check rc) (\<lambda>_. Inr txn))"

definition lmdb_open :: "'db Lmdb \<Rightarrow> nat \<Rightarrow> SyncPolicy \<Rightarrow> 'db \<Rightarrow> 'db LmdbStore result" where
  "lmdb_open L map_size sync disk =
     (let (rc, env) = mdb_env_open L sync map_size disk in
      bindE (check rc) (\<lambda>_.
      bindE (check (mdb_txn_begin L False env)) (\<lambda>_.
      bindE (foldE (open_dbi L) [db_meta, db_events, db_event_index, db_clock_events, db_clock_index, db_neighbors,
          db_routes, db_timed_routes, db_referencing] env) (\<lambda>txn.
      bindE (ensure_version L txn) (\<lambda>txn.
      bindE (next_seq L db_events txn) (\<lambda>next_event.
      bindE (next_seq L db_clock_events txn) (\<lambda>next_clock.
      let (rc, env) = mdb_txn_commit L txn in
      if rc \<noteq> MDB_SUCCESS then Inl Undefined_behaviour
      else seed_chain_tips L \<lparr>ls_map_size = map_size, ls_sync_policy = sync, ls_env = env, ls_writer = False,
        ls_format_version = kFormatVersion, ls_next_event_seq = next_event, ls_next_clock_seq = next_clock,
        ls_chain_tip_seq = [], ls_chain_seqs = []\<rparr>)))))))"

end
