(* ===== verification/Lmdb_Refinement.thy ===== *)
theory Lmdb_Refinement
  imports Lmdb_Store
begin

text \<open>
  What the production store makes of LMDB: under the documented behaviour of LMDB it represents an
  \<open>InMemoryStore\<close>, its writes are the writes of that store or leave it as it was, and its reads are the
  reads of that store.
\<close>

section \<open>The documented behaviour of LMDB\<close>

text \<open>Keys have 1 to 511 bytes (\<open>MDB_MAXKEYSIZE\<close>). The contents of an environment are, for every plain table, a
  map sorted by key, and for the \<open>MDB_DUPSORT\<close> table a set of pairs.\<close>

definition valid_key :: "bytes \<Rightarrow> bool" where
  "valid_key k \<longleftrightarrow> k \<noteq> [] \<and> length k \<le> 511"

definition lmdb_reads :: "'db Lmdb \<Rightarrow> ('db \<Rightarrow> dbi \<Rightarrow> (bytes, bytes) omap) \<Rightarrow> ('db \<Rightarrow> (bytes \<times> bytes) set) \<Rightarrow> bool" where
  "lmdb_reads L tbl dup \<longleftrightarrow>
     (\<forall>db. mdb_txn_begin L True db = MDB_SUCCESS) \<and>
     (\<forall>db d k. d \<noteq> db_referencing \<longrightarrow> valid_key k \<longrightarrow> mdb_get L d k db =
        (case om_find k (tbl db d) of None \<Rightarrow> (MDB_NOTFOUND, []) | Some v \<Rightarrow> (MDB_SUCCESS, v))) \<and>
     (\<forall>db d. d \<noteq> db_referencing \<longrightarrow> mdb_walk L d db = (tbl db d, MDB_NOTFOUND)) \<and>
     (\<forall>db d. d \<noteq> db_referencing \<longrightarrow> mdb_last L d db =
        (if tbl db d = [] then (MDB_NOTFOUND, [], []) else (MDB_SUCCESS, last (tbl db d)))) \<and>
     (\<forall>db k. valid_key k \<longrightarrow> mdb_dups L db_referencing k db =
        (sorted_list_of_set {v. (k, v) \<in> dup db}, MDB_NOTFOUND)) \<and>
     (\<forall>db d. d \<noteq> db_referencing \<longrightarrow> mdb_entries L d db = (MDB_SUCCESS, length (tbl db d)))"

definition lmdb_writes :: "'db Lmdb \<Rightarrow> ('db \<Rightarrow> dbi \<Rightarrow> (bytes, bytes) omap) \<Rightarrow> ('db \<Rightarrow> (bytes \<times> bytes) set) \<Rightarrow> bool" where
  "lmdb_writes L tbl dup \<longleftrightarrow>
     (\<forall>db d k v db'. mdb_put L d k v db = (MDB_SUCCESS, db') \<longrightarrow> valid_key k \<and>
        (if d = db_referencing then tbl db' = tbl db \<and> dup db' = insert (k, v) (dup db)
         else tbl db' = (tbl db)(d := om_put k v (tbl db d)) \<and> dup db' = dup db)) \<and>
     (\<forall>db k v db' rc. mdb_del L db_referencing k (Some v) db = (rc, db') \<longrightarrow> rc = MDB_SUCCESS \<or> rc = MDB_NOTFOUND \<longrightarrow>
        tbl db' = tbl db \<and> dup db' = dup db - {(k, v)}) \<and>
     (\<forall>db d k db' rc. d \<noteq> db_referencing \<longrightarrow> mdb_del L d k None db = (rc, db') \<longrightarrow>
        rc = MDB_SUCCESS \<or> rc = MDB_NOTFOUND \<longrightarrow> tbl db' = (tbl db)(d := om_erase k (tbl db d)) \<and> dup db' = dup db) \<and>
     (\<forall>db d db'. mdb_drop L d db = (MDB_SUCCESS, db') \<longrightarrow>
        (if d = db_referencing then tbl db' = tbl db \<and> dup db' = {} else tbl db' = (tbl db)(d := []) \<and> dup db' = dup db)) \<and>
     (\<forall>db db'. mdb_txn_commit L db = (MDB_SUCCESS, db') \<longrightarrow> tbl db' = tbl db \<and> dup db' = dup db) \<and>
     (\<forall>db n. tbl (snd (mdb_env_set_mapsize L n db)) = tbl db \<and> dup (snd (mdb_env_set_mapsize L n db)) = dup db) \<and>
     (\<forall>db d db'. mdb_dbi_open L d db = (MDB_SUCCESS, db') \<longrightarrow> tbl db' = tbl db \<and> dup db' = dup db) \<and>
     (\<forall>db n y db'. mdb_env_open L y n db = (MDB_SUCCESS, db') \<longrightarrow> tbl db' = tbl db \<and> dup db' = dup db)"

lemma lmdb_readsD:
  assumes "lmdb_reads L tbl dup"
  shows "mdb_txn_begin L True db = MDB_SUCCESS"
    and "d \<noteq> db_referencing \<Longrightarrow> valid_key k \<Longrightarrow> mdb_get L d k db =
      (case om_find k (tbl db d) of None \<Rightarrow> (MDB_NOTFOUND, []) | Some v \<Rightarrow> (MDB_SUCCESS, v))"
    and "d \<noteq> db_referencing \<Longrightarrow> mdb_walk L d db = (tbl db d, MDB_NOTFOUND)"
    and "d \<noteq> db_referencing \<Longrightarrow> mdb_last L d db =
      (if tbl db d = [] then (MDB_NOTFOUND, [], []) else (MDB_SUCCESS, last (tbl db d)))"
    and "valid_key k \<Longrightarrow> mdb_dups L db_referencing k db = (sorted_list_of_set {v. (k, v) \<in> dup db}, MDB_NOTFOUND)"
    and "d \<noteq> db_referencing \<Longrightarrow> mdb_entries L d db = (MDB_SUCCESS, length (tbl db d))"
  using assms unfolding lmdb_reads_def by blast+

lemmas lmdb_writes_laws = lmdb_writes_def [THEN iffD1]
lemmas lmdb_put_law = lmdb_writes_laws [THEN conjunct1, rule_format]
lemmas lmdb_del_dup_law = lmdb_writes_laws [THEN conjunct2, THEN conjunct1, rule_format]
lemmas lmdb_del_law = lmdb_writes_laws [THEN conjunct2, THEN conjunct2, THEN conjunct1, rule_format]
lemmas lmdb_drop_law = lmdb_writes_laws [THEN conjunct2, THEN conjunct2, THEN conjunct2, THEN conjunct1, rule_format]
lemmas lmdb_commit_law = lmdb_writes_laws [THEN conjunct2, THEN conjunct2, THEN conjunct2, THEN conjunct2, THEN conjunct1, rule_format]
lemmas lmdb_mapsize_law = lmdb_writes_laws [THEN conjunct2, THEN conjunct2, THEN conjunct2, THEN conjunct2, THEN conjunct2, THEN conjunct1, rule_format]
lemmas lmdb_dbi_open_law = lmdb_writes_laws [THEN conjunct2, THEN conjunct2, THEN conjunct2, THEN conjunct2, THEN conjunct2, THEN conjunct2, THEN conjunct1, rule_format]
lemmas lmdb_env_open_law = lmdb_writes_laws [THEN conjunct2, THEN conjunct2, THEN conjunct2, THEN conjunct2, THEN conjunct2, THEN conjunct2, THEN conjunct2, rule_format]

section \<open>What a store represents\<close>

definition enc_table :: "InMemoryStore \<Rightarrow> dbi \<Rightarrow> (bytes, bytes) omap" where
  "enc_table m d =
     (case d of
        db_meta \<Rightarrow> [(kVersionKey, be_list 8 kFormatVersion)]
      | db_events \<Rightarrow> om_encode put_u64_be w_event (enumerate 0 (st_events m))
      | db_event_index \<Rightarrow> om_encode id put_u64_be (st_event_seq m)
      | db_clock_events \<Rightarrow> om_encode put_u64_be w_local_clock_event (st_clock_events m)
      | db_clock_index \<Rightarrow> om_encode id put_u64_be (st_clock_seq m)
      | db_neighbors \<Rightarrow> om_encode node_bytes (\<lambda>n. w_many w_blob (nb_last_hashes n)) (st_neighbors m)
      | db_routes \<Rightarrow> om_encode node_bytes node_bytes (st_routes m)
      | db_timed_routes \<Rightarrow> om_encode node_bytes (w_many w_timed_route) (st_timed_routes m)
      | db_referencing \<Rightarrow> [])"

definition enc_dups :: "InMemoryStore \<Rightarrow> (bytes \<times> bytes) set" where
  "enc_dups m = (\<lambda>(h, q). (h, put_u64_be q)) ` set (st_referencing m)"

definition wf_timed_route :: "TimedRoute \<Rightarrow> bool" where
  "wf_timed_route rt \<longleftrightarrow> short (rt_next_hops rt) \<and> list_all wf_node_id (rt_next_hops rt)"

text \<open>Every record can be written, sequence numbers fit into 64 bits, and the counter is one past the newest
  live clock event.\<close>

definition wf_store :: "InMemoryStore \<Rightarrow> bool" where
  "wf_store m \<longleftrightarrow> store_ok m \<and> length (st_events m) \<le> 2 ^ 64 \<and> list_all wf_event (st_events m) \<and>
     st_next_clock_seq m \<le> 2 ^ 64 \<and> (\<forall>(q, c) \<in> set (st_clock_events m). wf_local_clock_event c) \<and>
     st_next_clock_seq m = (if st_clock_events m = [] then 0 else Suc (fst (last (st_clock_events m)))) \<and>
     om_ok (st_clock_seq m) \<and> om_ok (st_chain_tip_seq m) \<and> om_ok (st_chain_seqs m) \<and>
     (\<forall>(l, qs) \<in> set (st_chain_seqs m). qs \<noteq> []) \<and>
     (\<forall>(i, n) \<in> set (st_neighbors m). nb_node_id n = i \<and> wf_node_id i \<and> short64 (nb_last_hashes n) \<and>
        list_all short (nb_last_hashes n)) \<and>
     (\<forall>(i, h) \<in> set (st_routes m). wf_node_id i \<and> wf_node_id h) \<and>
     om_ok (st_timed_routes m) \<and>
     (\<forall>(i, rts) \<in> set (st_timed_routes m). wf_node_id i \<and> short64 rts \<and> list_all wf_timed_route rts)"

definition same_ram :: "'db LmdbStore \<Rightarrow> InMemoryStore \<Rightarrow> bool" where
  "same_ram s m \<longleftrightarrow> \<not> ls_writer s \<and> ls_next_event_seq s = length (st_events m) \<and> ls_next_clock_seq s = st_next_clock_seq m \<and>
     ls_chain_tip_seq s = st_chain_tip_seq m \<and> ls_chain_seqs s = st_chain_seqs m"

definition holds :: "('db \<Rightarrow> dbi \<Rightarrow> (bytes, bytes) omap) \<Rightarrow> ('db \<Rightarrow> (bytes \<times> bytes) set) \<Rightarrow> 'db \<Rightarrow> InMemoryStore \<Rightarrow> bool" where
  "holds tbl dup db m \<longleftrightarrow> (\<forall>d. d \<noteq> db_referencing \<longrightarrow> tbl db d = enc_table m d) \<and> dup db = enc_dups m"

definition represents :: "('db \<Rightarrow> dbi \<Rightarrow> (bytes, bytes) omap) \<Rightarrow> ('db \<Rightarrow> (bytes \<times> bytes) set) \<Rightarrow> 'db LmdbStore \<Rightarrow> InMemoryStore \<Rightarrow> bool" where
  "represents tbl dup s m \<longleftrightarrow> wf_store m \<and> same_ram s m \<and> holds tbl dup (ls_env s) m"

section \<open>Keys\<close>

lemma put_u64_be_less: "a < 2 ^ 64 \<Longrightarrow> b < 2 ^ 64 \<Longrightarrow> put_u64_be a < put_u64_be b \<longleftrightarrow> a < b"
  by (simp add: put_u64_be_def be_list_less unat_of_nat take_bit_nat_eq_self)

lemma put_u64_be_eq: "a < 2 ^ 64 \<Longrightarrow> b < 2 ^ 64 \<Longrightarrow> put_u64_be a = put_u64_be b \<longleftrightarrow> a = b"
  by (metis put_u64_be_less less_irrefl linorder_less_linear)

lemma valid_key_u64 [simp]: "valid_key (put_u64_be q)"
  by (simp add: valid_key_def put_u64_be_def flip: length_0_conv)

lemma get_put_u64_be [simp]: "q < 2 ^ 64 \<Longrightarrow> get_u64_be (put_u64_be q) = Inr q"
  by (simp add: get_u64_be_def put_u64_be_def be_fold_be_list unat_of_nat take_bit_nat_eq_self)

lemma length_put_u64_be [simp]: "length (put_u64_be q) = 8"
  by (simp add: put_u64_be_def)

lemma get_node_bytes [simp]: "wf_node_id i \<Longrightarrow> get_node_id (node_bytes i) = Inr i"
  by (cases i) (simp add: get_node_id_def wf_node_id_def)

lemma valid_key_node [simp]: "wf_node_id i \<Longrightarrow> valid_key (node_bytes i)"
  by (auto simp: valid_key_def wf_node_id_def)

lemma node_bytes_less: "node_bytes a < node_bytes b \<longleftrightarrow> a < b"
  by (simp add: less_NodeId_def)

lemma inj_node_bytes [simp]: "inj_on node_bytes A"
  by (auto simp: inj_on_def intro: NodeId.expand)

lemma inj_put_u64_be: "A \<subseteq> {..<2 ^ 64} \<Longrightarrow> inj_on put_u64_be A"
  by (auto simp: inj_on_def subset_iff put_u64_be_eq)

lemmas put_u64_encode = om_put_encode [where A = "{..<2 ^ 64}" and f = put_u64_be]
lemmas put_node_encode = om_put_encode [where A = UNIV and f = node_bytes]
lemmas put_hash_encode = om_put_encode [where A = UNIV and f = "id :: bytes \<Rightarrow> bytes"]

section \<open>Reads\<close>

lemma wf_storeD:
  assumes "wf_store m"
  shows "store_ok m" "clocks_ok m" "om_ok (st_clock_events m)" "om_ok (st_event_seq m)" "om_ok (st_clock_seq m)"
    and "om_ok (st_neighbors m)" "om_ok (st_routes m)" "om_ok (st_timed_routes m)"
    and "i < length (st_events m) \<Longrightarrow> i < 2 ^ 64"
    and "i < length (st_events m) \<Longrightarrow> wf_event (st_events m ! i)"
    and "om_find h (st_event_seq m) = Some i \<Longrightarrow> i < length (st_events m)"
    and "(q, c) \<in> set (st_clock_events m) \<Longrightarrow> q < 2 ^ 64 \<and> wf_local_clock_event c"
    and "om_find h (st_clock_seq m) = Some q \<Longrightarrow> q < 2 ^ 64"
    and "(h, q) \<in> set (st_referencing m) \<Longrightarrow> q < 2 ^ 64"
proof -
  show ok: "store_ok m" using assms by (simp add: wf_store_def)
  then show cl: "clocks_ok m" by (simp add: store_ok_def)
  show "om_ok (st_clock_events m)" "om_ok (st_event_seq m)" "om_ok (st_clock_seq m)" "om_ok (st_neighbors m)"
    "om_ok (st_routes m)" "om_ok (st_timed_routes m)"
    using assms ok cl by (auto simp: wf_store_def store_ok_def events_ok_def clocks_okD)
  show "i < length (st_events m) \<Longrightarrow> i < 2 ^ 64" "i < length (st_events m) \<Longrightarrow> wf_event (st_events m ! i)"
    using assms by (auto simp: wf_store_def list_all_length)
  show "om_find h (st_event_seq m) = Some i \<Longrightarrow> i < length (st_events m)"
    using ok by (auto simp: store_ok_def events_ok_def)
  have q: "q < 2 ^ 64 \<and> wf_local_clock_event c" if "(q, c) \<in> set (st_clock_events m)" for q c
  proof -
    have "st_next_clock_seq m \<le> 2 ^ 64" "\<forall>(q, c) \<in> set (st_clock_events m). wf_local_clock_event c"
      using assms by (simp_all add: wf_store_def)
    then show ?thesis using clocks_okD(2) [OF cl that] that by auto
  qed
  then show "(q, c) \<in> set (st_clock_events m) \<Longrightarrow> q < 2 ^ 64 \<and> wf_local_clock_event c" by blast
  show "om_find h (st_clock_seq m) = Some q \<Longrightarrow> q < 2 ^ 64"
    using clocks_okD(3) [OF cl, of h q] om_find_in q by metis
  show "(h, q) \<in> set (st_referencing m) \<Longrightarrow> q < 2 ^ 64"
    using clocks_okD(4) [OF cl, of h q] q by metis
qed

lemma fst_enumerate: "fst ` set (enumerate 0 xs) = {..<length xs}"
  by (simp only: list.set_map [symmetric] map_fst_enumerate) (simp add: atLeast0LessThan)

lemma find_enumerate: "om_find i (enumerate k xs) = (if k \<le> i \<and> i < k + length xs then Some (xs ! (i - k)) else None)"
  by (induction xs arbitrary: k) (auto simp: nth_Cons')

lemma find_events:
  assumes "wf_store m" "i < 2 ^ 64"
  shows "om_find (put_u64_be i) (enc_table m db_events) =
    (if i < length (st_events m) then Some (w_event (st_events m ! i)) else None)"
proof -
  have "inj_on put_u64_be (insert i (fst ` set (enumerate 0 (st_events m))))"
    using assms by (intro inj_put_u64_be) (auto simp: fst_enumerate wf_store_def)
  then show ?thesis by (simp add: enc_table_def om_find_encode find_enumerate)
qed

lemma find_clocks:
  assumes "wf_store m" "q < 2 ^ 64"
  shows "om_find (put_u64_be q) (enc_table m db_clock_events) =
    map_option w_local_clock_event (om_find q (st_clock_events m))"
proof -
  have "inj_on put_u64_be (insert q (fst ` set (st_clock_events m)))"
    using assms wf_storeD(12) [OF assms(1)] by (intro inj_put_u64_be) auto
  then show ?thesis by (simp add: enc_table_def om_find_encode)
qed

lemma find_hash [simp]:
  "om_find h (enc_table m db_event_index) = map_option put_u64_be (om_find h (st_event_seq m))"
  "om_find h (enc_table m db_clock_index) = map_option put_u64_be (om_find h (st_clock_seq m))"
  using om_find_encode [of id h] by (auto simp: enc_table_def)

lemma read_event [simp]: "wf_event e \<Longrightarrow> read_value r_event (w_event e) = Inr e"
  by (simp add: read_value_def eventc.dec_enc)

lemma read_local_clock_event [simp]: "wf_local_clock_event c \<Longrightarrow> read_value r_local_clock_event (w_local_clock_event c) = Inr c"
  by (simp add: read_value_def lcec.dec_enc)

lemma read_clock_event [simp]:
  assumes "wf_local_clock_event c"
  shows "read_value r_clock_event (w_local_clock_event c) = Inr (slice c)"
proof -
  have "wf_clock_event (slice c)" using assms by (simp add: wf_local_clock_event_def wf_clock_event_def)
  moreover have "w_clock_event c = w_clock_event (slice c)" by (simp add: w_clock_event_def)
  ultimately show ?thesis
    by (simp add: read_value_def w_local_clock_event_def clockc.dec_enc_append del: slice_simps)
qed

lemma get_bytes_spec:
  assumes "lmdb_reads L tbl dup" "represents tbl dup s m" "d \<noteq> db_referencing" "valid_key k"
  shows "get_bytes L d k s = Inr (om_find k (enc_table m d))"
  using assms lmdb_readsD(1,2) [OF assms(1)]
  by (auto simp: get_bytes_def check_def represents_def holds_def split: option.split)

lemma seq_of_spec:
  assumes "lmdb_reads L tbl dup" "represents tbl dup s m" "valid_key h"
  shows "seq_of L db_event_index h s = Inr (om_find h (st_event_seq m))"
    and "seq_of L db_clock_index h s = Inr (om_find h (st_clock_seq m))"
proof -
  have w: "wf_store m" using assms(2) by (simp add: represents_def)
  show "seq_of L db_event_index h s = Inr (om_find h (st_event_seq m))"
    using wf_storeD(9) [OF w wf_storeD(11) [OF w]] assms(3)
    by (auto simp: seq_of_def get_bytes_spec [OF assms(1,2)] split: option.split)
  show "seq_of L db_clock_index h s = Inr (om_find h (st_clock_seq m))"
    using wf_storeD(13) [OF w] assms(3)
    by (auto simp: seq_of_def get_bytes_spec [OF assms(1,2)] split: option.split)
qed

lemma event_by_seq_agrees:
  assumes "lmdb_reads L tbl dup" "represents tbl dup s m" "i < 2 ^ 64"
  shows "lmdb_event_by_seq L i s = event_by_seq i m"
proof -
  have w: "wf_store m" using assms(2) by (simp add: represents_def)
  show ?thesis using assms(3) wf_storeD(10) [OF w]
    by (simp add: lmdb_event_by_seq_def get_bytes_spec [OF assms(1,2)] find_events [OF w] event_by_seq_def)
qed

lemma clock_event_by_seq_agrees:
  assumes "lmdb_reads L tbl dup" "represents tbl dup s m" "q < 2 ^ 64"
  shows "lmdb_clock_event_by_seq L q s = clock_event_by_seq q m"
proof -
  have w: "wf_store m" using assms(2) by (simp add: represents_def)
  show ?thesis using assms(3) wf_storeD(12) [OF w om_find_in]
    by (auto simp: lmdb_clock_event_by_seq_def get_bytes_spec [OF assms(1,2)] find_clocks [OF w]
        clock_event_by_seq_def clock_at_def split: option.split)
qed

lemma by_hash_agrees:
  assumes "lmdb_reads L tbl dup" "represents tbl dup s m" "valid_key h"
  shows "lmdb_event_by_hash L h s = event_by_hash h m"
    and "lmdb_clock_event_by_hash L h s = clock_event_by_hash h m"
    and "lmdb_clock_event_seq L h s = Inr (clock_event_seq h m)"
proof -
  have w: "wf_store m" using assms(2) by (simp add: represents_def)
  show "lmdb_event_by_hash L h s = event_by_hash h m"
    using event_by_seq_agrees [OF assms(1,2) wf_storeD(9) [OF w wf_storeD(11) [OF w]]] wf_storeD(11) [OF w]
    by (auto simp: lmdb_event_by_hash_def seq_of_spec [OF assms] event_by_hash_def event_by_seq_def split: option.split)
  show "lmdb_clock_event_by_hash L h s = clock_event_by_hash h m"
    using clock_event_by_seq_agrees [OF assms(1,2) wf_storeD(13) [OF w]]
    by (auto simp: lmdb_clock_event_by_hash_def seq_of_spec [OF assms] clock_event_by_hash_def
        clock_event_by_seq_def split: option.split)
  show "lmdb_clock_event_seq L h s = Inr (clock_event_seq h m)"
    by (simp add: lmdb_clock_event_seq_def seq_of_spec [OF assms] clock_event_seq_def)
qed

lemma sorted_keys:
  assumes "finite A" "A \<subseteq> {..<2 ^ 64}"
  shows "sorted_list_of_set (put_u64_be ` A) = map put_u64_be (sorted_list_of_set A)"
proof (rule sorted_distinct_set_unique)
  have "\<forall>x \<in> set (sorted_list_of_set A). x < 2 ^ 64" using assms by auto
  then have "sorted_wrt (<) (map put_u64_be (sorted_list_of_set A))"
    unfolding sorted_wrt_map
    by (intro sorted_wrt_mono_rel [OF _ strict_sorted_list_of_set]) (simp add: put_u64_be_less)
  then show "sorted (map put_u64_be (sorted_list_of_set A))" "distinct (map put_u64_be (sorted_list_of_set A))"
    by (simp_all add: strict_sorted_iff)
qed (use assms in simp_all)

lemma fold_get_u64:
  "\<forall>q \<in> set qs. q < 2 ^ 64 \<Longrightarrow>
    foldE (\<lambda>v out. bindE (get_u64_be v) (\<lambda>q. Inr (out @ [q]))) (map put_u64_be qs) acc = Inr (acc @ qs)"
  by (induction qs arbitrary: acc) simp_all

lemma remdups_sorted: "sorted xs \<Longrightarrow> remdups xs = sorted_list_of_set (set xs)"
  by (rule sorted_distinct_set_unique) (simp_all add: sorted_remdups)

lemma referencing_agrees:
  assumes "lmdb_reads L tbl dup" "represents tbl dup s m" "valid_key h"
  shows "lmdb_clock_events_referencing L h s = Inr (remdups (clock_events_referencing h m))"
proof -
  have w: "wf_store m" using assms(2) by (simp add: represents_def)
  have d: "dup (ls_env s) = enc_dups m" using assms(2) by (simp add: represents_def holds_def)
  let ?A = "set (clock_events_referencing h m)"
  have A: "?A = {q. (h, q) \<in> set (st_referencing m)}"
    by (auto simp: clock_events_referencing_def set_mm_range)
  have b: "?A \<subseteq> {..<2 ^ 64}" using wf_storeD(14) [OF w] by (auto simp: A)
  have "{v. (h, v) \<in> dup (ls_env s)} = put_u64_be ` ?A"
    by (force simp: d enc_dups_def A)
  then have "sorted_list_of_set {v. (h, v) \<in> dup (ls_env s)} = map put_u64_be (sorted_list_of_set ?A)"
    using sorted_keys [OF _ b] by simp
  then show ?thesis
    using b remdups_sorted [of "clock_events_referencing h m"]
    by (simp add: lmdb_clock_events_referencing_def lmdb_readsD [OF assms(1)] assms(3) check_def fold_get_u64
        clock_events_referencing_def subset_iff)
qed

lemma om_last_encode: "m \<noteq> [] \<Longrightarrow> last (om_encode f g m) = (f (fst (last m)), g (snd (last m)))"
  by (simp add: om_encode_def last_map case_prod_beta)

lemma latest_agrees:
  assumes "lmdb_reads L tbl dup" "represents tbl dup s m"
  shows "lmdb_latest_clock_event L s = Inr (latest_clock_event m)"
    and "lmdb_latest_clock_event_on L l s = latest_clock_event_on l m"
proof -
  have w: "wf_store m" and t: "tbl (ls_env s) db_clock_events = om_encode put_u64_be w_local_clock_event (st_clock_events m)"
    and r: "ls_chain_tip_seq s = st_chain_tip_seq m"
    using assms(2) by (simp_all add: represents_def holds_def enc_table_def same_ram_def)
  have "st_clock_events m \<noteq> [] \<Longrightarrow> wf_local_clock_event (snd (last (st_clock_events m)))"
    using wf_storeD(12) [OF w, of "fst (last (st_clock_events m))"] by simp
  then show "lmdb_latest_clock_event L s = Inr (latest_clock_event m)"
    by (simp add: lmdb_latest_clock_event_def lmdb_readsD [OF assms(1)] check_def t om_last_encode latest_clock_event_def)
  show "lmdb_latest_clock_event_on L l s = latest_clock_event_on l m"
  proof (cases "om_find l (st_chain_tip_seq m)")
    case (Some q)
    have "q \<in> set (ring l m)"
      using clocks_okD(6) [OF wf_storeD(2) [OF w], of l] Some by (auto split: if_splits)
    then have "q < 2 ^ 64"
      using clocks_okD(5) [OF wf_storeD(2) [OF w], of l] wf_storeD(12) [OF w] by (fastforce simp: set_chain_of)
    then show ?thesis
      using Some clock_event_by_seq_agrees [OF assms]
      by (simp add: lmdb_latest_clock_event_on_def r latest_clock_event_on_def clock_event_by_seq_def)
  qed (simp add: lmdb_latest_clock_event_on_def r latest_clock_event_on_def)
qed

lemma counts_agree:
  assumes "lmdb_reads L tbl dup" "represents tbl dup s m"
  shows "lmdb_event_count L s = Inr (event_count m)" "lmdb_clock_event_count L s = Inr (clock_event_count m)"
  using assms(2)
  by (simp_all add: lmdb_event_count_def lmdb_clock_event_count_def entry_count_def lmdb_readsD [OF assms(1)] check_def
      represents_def holds_def enc_table_def event_count_def clock_event_count_def)

lemma for_each_spec:
  assumes "lmdb_reads L tbl dup" "represents tbl dup s m" "d \<noteq> db_referencing"
  shows "for_each L (ls_env s) d fn acc = foldE fn (enc_table m d) acc"
  using assms
  by (cases "foldE fn (enc_table m d) acc") (simp_all add: for_each_def lmdb_readsD [OF assms(1)] check_def represents_def holds_def)

lemma foldE_append_encode:
  "\<forall>(k, x) \<in> set xs. read_value d (g x) = Inr x \<Longrightarrow>
    foldE (\<lambda>(_, v) out. bindE (read_value d v) (\<lambda>x. Inr (out @ [x]))) (om_encode f g xs) acc = Inr (acc @ map snd xs)"
  by (induction xs arbitrary: acc) auto

lemma foldE_put_encode:
  assumes "\<And>k x out. (k, x) \<in> set xs \<Longrightarrow> F (f k, g x) out = Inr (om_put k x out)"
  shows "foldE F (om_encode f g xs) acc = Inr (foldl (\<lambda>m (k, x). om_put k x m) acc xs)"
  using assms by (induction xs arbitrary: acc) auto

interpretation trc: codec w_timed_route r_timed_route wf_timed_route
  by (unfold_locales) (unfold r_timed_route_def, intro local_intros,
      auto simp: w_timed_route_def reader_defs codec_simps wf_timed_route_def)

lemma read_timed_routes:
  "short64 rts \<Longrightarrow> list_all wf_timed_route rts \<Longrightarrow>
    read_value (r_many64 r_timed_route) (w_many w_timed_route rts) = Inr rts"
  using trc.many64_dec_enc [of rts "[]"] by (simp add: read_value_def)

lemma loads_agree:
  assumes "lmdb_reads L tbl dup" "represents tbl dup s m"
  shows "lmdb_load_events L s = Inr (st_events m)"
    and "lmdb_load_clock_events L s = Inr (load_clock_events m)"
    and "lmdb_load_neighbors L s = Inr (load_neighbors m)"
    and "lmdb_load_routes L s = Inr (load_routes m)"
    and "lmdb_load_timed_routes L s = Inr (load_timed_routes m)"
proof -
  have w: "wf_store m" using assms(2) by (simp add: represents_def)
  note fe = for_each_spec [OF assms, of db_events, simplified] for_each_spec [OF assms, of db_clock_events, simplified]
    for_each_spec [OF assms, of db_neighbors, simplified] for_each_spec [OF assms, of db_routes, simplified]
    for_each_spec [OF assms, of db_timed_routes, simplified] enc_table_def
  have "\<forall>(k, x) \<in> set (enumerate 0 (st_events m)). read_value r_event (w_event x) = Inr x"
    using wf_storeD(10) [OF w] by (auto simp: in_set_enumerate_eq)
  then show "lmdb_load_events L s = Inr (st_events m)"
    by (simp add: lmdb_load_events_def fe foldE_append_encode)
  have "\<forall>(k, x) \<in> set (st_clock_events m). read_value r_local_clock_event (w_local_clock_event x) = Inr x"
    using wf_storeD(12) [OF w] by auto
  then show "lmdb_load_clock_events L s = Inr (load_clock_events m)"
    by (simp add: lmdb_load_clock_events_def fe foldE_append_encode load_clock_events_def)
  have n: "wf_node_id i" "read_value (r_many64 r_blob) (w_many w_blob (nb_last_hashes n)) = Inr (nb_last_hashes n)"
    "\<lparr>nb_node_id = i, nb_last_hashes = nb_last_hashes n\<rparr> = n"
    if "(i, n) \<in> set (st_neighbors m)" for i n
    using w that blobc.many64_dec_enc [of "nb_last_hashes n" "[]"] by (auto simp: wf_store_def read_value_def)
  show "lmdb_load_neighbors L s = Inr (load_neighbors m)"
    unfolding lmdb_load_neighbors_def fe load_neighbors_def dbi.simps
    using foldl_om_put [of "[]" "st_neighbors m"] wf_storeD(6) [OF w] n
    by (subst foldE_put_encode) simp_all
  have "wf_node_id i \<and> wf_node_id h" if "(i, h) \<in> set (st_routes m)" for i h
    using w that by (auto simp: wf_store_def)
  then show "lmdb_load_routes L s = Inr (load_routes m)"
    unfolding lmdb_load_routes_def fe load_routes_def dbi.simps
    using foldl_om_put [of "[]" "st_routes m"] wf_storeD(7) [OF w]
    by (subst foldE_put_encode) simp_all
  have "wf_node_id i \<and> short64 rts \<and> list_all wf_timed_route rts" if "(i, rts) \<in> set (st_timed_routes m)" for i rts
    using w that by (auto simp: wf_store_def)
  then show "lmdb_load_timed_routes L s = Inr (load_timed_routes m)"
    unfolding lmdb_load_timed_routes_def fe load_timed_routes_def dbi.simps
    using foldl_om_put [of "[]" "st_timed_routes m"] wf_storeD(8) [OF w]
    by (subst foldE_put_encode) (simp_all add: read_timed_routes)
qed

section \<open>Transactions\<close>

lemma check_simps [simp]: "check rc = Inr u \<longleftrightarrow> rc = MDB_SUCCESS" "check_write rc = Inr u \<longleftrightarrow> rc = MDB_SUCCESS"
  by (auto simp: check_def check_write_def)

lemma put_checkedD:
  assumes "lmdb_writes L tbl dup" "put_checked L d k v db = Inr db'"
  shows "valid_key k"
    and "d \<noteq> db_referencing \<Longrightarrow> tbl db' = (tbl db)(d := om_put k v (tbl db d)) \<and> dup db' = dup db"
    and "d = db_referencing \<Longrightarrow> tbl db' = tbl db \<and> dup db' = insert (k, v) (dup db)"
proof -
  have "mdb_put L d k v db = (MDB_SUCCESS, db')"
    using assms(2) by (auto simp: put_checked_def split: prod.splits)
  note p = lmdb_put_law [OF assms(1) this]
  show "valid_key k" "d \<noteq> db_referencing \<Longrightarrow> tbl db' = (tbl db)(d := om_put k v (tbl db d)) \<and> dup db' = dup db"
    "d = db_referencing \<Longrightarrow> tbl db' = tbl db \<and> dup db' = insert (k, v) (dup db)"
    using p by (auto split: if_splits)
qed

lemma put_referencesD:
  assumes "lmdb_writes L tbl dup"
  shows "foldE (\<lambda>r. put_checked L db_referencing (ref_hash r) v) rs db = Inr db' \<Longrightarrow>
    tbl db' = tbl db \<and> dup db' = dup db \<union> (\<lambda>r. (ref_hash r, v)) ` set rs \<and> (\<forall>r \<in> set rs. valid_key (ref_hash r))"
proof (induction rs arbitrary: db)
  case (Cons r rs)
  then obtain db1 where d: "put_checked L db_referencing (ref_hash r) v db = Inr db1"
    "foldE (\<lambda>r. put_checked L db_referencing (ref_hash r) v) rs db1 = Inr db'" by auto
  show ?case using put_checkedD [OF assms d(1)] Cons.IH [OF d(2)] by auto
qed simp

lemma attempt_failed: "attempt L op s = (Inl e, s') \<Longrightarrow> s' = s"
  by (auto simp: attempt_def batch_commit_def split: sum.splits prod.splits)

lemma attempt_done:
  assumes "attempt L op s = (Inr x, s')"
  shows "\<exists>b env. op \<lparr>bt_txn = ls_env s, bt_event_seq = ls_next_event_seq s, bt_clock_seq = ls_next_clock_seq s,
      bt_pending = []\<rparr> = Inr (x, b) \<and> mdb_txn_commit L (bt_txn b) = (MDB_SUCCESS, env) \<and>
    s' = fold apply_append (bt_pending b)
      (s\<lparr>ls_env := env, ls_next_event_seq := bt_event_seq b, ls_next_clock_seq := bt_clock_seq b\<rparr>)"
  using assms
  by (fastforce simp: attempt_def batch_commit_def lmdb_begin_def begin_write_def bindE_eq_Inl split: sum.splits prod.splits if_splits)

lemma represents_grow:
  assumes "lmdb_writes L tbl dup" "represents tbl dup s m" "grow_map L bits s = (r, s')"
  shows "represents tbl dup s' m"
proof -
  have "s' = s \<or> (\<exists>n. s' = s\<lparr>ls_map_size := n, ls_env := snd (mdb_env_set_mapsize L n (ls_env s))\<rparr>)"
    using assms(3) by (auto simp: grow_map_def Let_def split: if_splits prod.splits) (metis snd_conv)+
  then show ?thesis
    using assms(2) lmdb_mapsize_law [OF assms(1)] by (auto simp: represents_def same_ram_def holds_def)
qed

definition durable_result :: "'db Lmdb \<Rightarrow> ('db Batch \<Rightarrow> ('a \<times> 'db Batch) result) \<Rightarrow> ('db LmdbStore \<Rightarrow> bool) \<Rightarrow>
    'a result \<times> 'db LmdbStore \<Rightarrow> bool" where
  "durable_result L op Q y \<longleftrightarrow>
     (\<exists>e. fst y = Inl e \<and> Q (snd y)) \<or> (\<exists>x t. fst y = Inr x \<and> Q t \<and> attempt L op t = (Inr x, snd y))"

lemma durable_cases:
  assumes "lmdb_writes L tbl dup" "represents tbl dup s m" "durable L bits op s = Some y"
  shows "durable_result L op (\<lambda>t. represents tbl dup t m) y"
proof -
  have "L = L' \<longrightarrow> lmdb_writes L' tbl dup \<longrightarrow> represents tbl dup s m \<longrightarrow> durable_result L' op (\<lambda>t. represents tbl dup t m) y"
    if "durable L' bits op s = Some y" for L'
    using that
  proof (rule durable.raw_induct [where P = "\<lambda>L' bits op s y. L = L' \<longrightarrow> lmdb_writes L' tbl dup \<longrightarrow>
      represents tbl dup s m \<longrightarrow> durable_result L' op (\<lambda>t. represents tbl dup t m) y", rotated], intro impI, goal_cases)
    case (1 durable L' bits op s y)
    obtain a t where a: "attempt L' op s = (a, t)" by fastforce
    obtain g u where g: "grow_map L' bits s = (g, u)" by fastforce
    show ?case
    proof (cases a)
      case (Inl e)
      then have t: "t = s" using a attempt_failed by fastforce
      have u: "represents tbl dup u m" by (rule represents_grow [OF 1(5,6) g])
      show ?thesis
        using 1(1) [of L' bits op u y] 1(2-6) u
        by (auto simp: a Inl t g durable_result_def split: if_splits sum.splits)
    qed (use 1 a in \<open>auto simp: durable_result_def\<close>)
  qed
  then show ?thesis using assms by blast
qed

section \<open>Writes\<close>

lemma commit_holds:
  assumes "lmdb_writes L tbl dup" "mdb_txn_commit L txn = (MDB_SUCCESS, env)" "holds tbl dup txn m"
  shows "holds tbl dup env m"
  using lmdb_commit_law [OF assms(1,2)] assms(3) by (simp add: holds_def)

lemma wf_append_event:
  assumes "wf_store m" "wf_event e" "length (st_events m) < 2 ^ 64"
  shows "wf_store (snd (append_event e m))"
proof -
  have "store_ok (snd (append_event e m))" using append_event_ok wf_storeD(1) [OF assms(1)] by blast
  then show ?thesis using assms by (simp add: wf_store_def append_event_def Let_def)
qed

lemma append_event_simulates:
  assumes W: "lmdb_writes L tbl dup" and t: "represents tbl dup t m"
    and e: "wf_event e" "length (st_events m) < 2 ^ 64" "om_find (ev_hash e) (st_event_seq m) = None"
    and a: "attempt L (batch_append_event L e) t = (Inr q, s')"
  shows "q = fst (append_event e m) \<and> represents tbl dup s' (snd (append_event e m))"
proof -
  let ?m = "snd (append_event e m)" and ?n = "length (st_events m)"
  have w: "wf_store m" and r: "same_ram t m" and h: "holds tbl dup (ls_env t) m"
    using t by (simp_all add: represents_def)
  obtain txn1 txn env where p: "put_checked L db_events (put_u64_be ?n) (w_event e) (ls_env t) = Inr txn1"
      "put_checked L db_event_index (ev_hash e) (put_u64_be ?n) txn1 = Inr txn"
      "mdb_txn_commit L txn = (MDB_SUCCESS, env)"
    and s': "q = ?n" "s' = t\<lparr>ls_env := env, ls_next_event_seq := Suc ?n\<rparr>"
    using attempt_done [OF a] r by (auto simp: batch_append_event_def Let_def same_ram_def)
  note d = put_checkedD(2) [OF W p(1)] put_checkedD(2) [OF W p(2)]
  have "om_put (put_u64_be ?n) (w_event e) (enc_table m db_events) = enc_table ?m db_events"
    using put_u64_encode [of ?n "enumerate 0 (st_events m)" w_event e] e(2) om_put_snoc [of "enumerate 0 (st_events m)" ?n e]
    by (simp add: enc_table_def append_event_def Let_def put_u64_be_less fst_enumerate enumerate_append_eq subset_iff)
  moreover have "om_put (ev_hash e) (put_u64_be ?n) (enc_table m db_event_index) = enc_table ?m db_event_index"
    using put_hash_encode [of "ev_hash e" "st_event_seq m" put_u64_be ?n] e(3)
    by (simp add: enc_table_def append_event_def Let_def om_emplace_def)
  ultimately have "holds tbl dup txn ?m"
    using h d by (auto simp: holds_def enc_dups_def append_event_def Let_def) (auto simp: enc_table_def split: dbi.splits)
  then have "holds tbl dup env ?m" by (rule commit_holds [OF W p(3)])
  then show ?thesis
    using s' r wf_append_event [OF w e(1,2)] by (simp add: represents_def same_ram_def append_event_def Let_def)
qed

lemma wf_append_clock:
  assumes "wf_store m" "wf_local_clock_event c" "st_next_clock_seq m < 2 ^ 64"
  shows "wf_store (snd (append_clock_event c m))"
proof -
  obtain q t where a: "append_clock_event c m = (q, t)" by fastforce
  note f = append_clock_fields [OF wf_storeD(2) [OF assms(1)] a]
  have "store_ok t" using mem.append_clock_ok [OF wf_storeD(1) [OF assms(1)], of c] a by simp
  moreover have "om_ok (st_chain_tip_seq t)" "om_ok (st_chain_seqs t)" "\<forall>(l, qs) \<in> set (st_chain_seqs t). qs \<noteq> []"
    using a assms(1) by (auto simp: append_clock_event_def Let_def wf_store_def set_om_put)
  ultimately show ?thesis using assms by (auto simp: wf_store_def a f)
qed

lemma append_clock_event_simulates:
  assumes W: "lmdb_writes L tbl dup" and t: "represents tbl dup t m"
    and e: "wf_local_clock_event c" "st_next_clock_seq m < 2 ^ 64" "om_find (ce_hash c) (st_clock_seq m) = None"
    and a: "attempt L (batch_append_clock_event L c) t = (Inr q, s')"
  shows "q = fst (append_clock_event c m) \<and> represents tbl dup s' (snd (append_clock_event c m))"
proof -
  let ?n = "st_next_clock_seq m"
  have w: "wf_store m" and r: "same_ram t m" and h: "holds tbl dup (ls_env t) m"
    using t by (simp_all add: represents_def)
  obtain m' where b: "append_clock_event c m = (?n, m')" by (simp add: append_clock_event_def Let_def)
  note f = append_clock_fields [OF wf_storeD(2) [OF w] b]
  obtain txn1 txn2 txn env where p:
      "put_checked L db_clock_events (put_u64_be ?n) (w_local_clock_event c) (ls_env t) = Inr txn1"
      "put_checked L db_clock_index (ce_hash c) (put_u64_be ?n) txn1 = Inr txn2"
      "foldE (\<lambda>r. put_checked L db_referencing (ref_hash r) (put_u64_be ?n)) (ce_refs c) txn2 = Inr txn"
      "mdb_txn_commit L txn = (MDB_SUCCESS, env)"
    and s': "q = ?n" "s' = apply_append (ce_chain c, ?n) (t\<lparr>ls_env := env,
      ls_next_event_seq := length (st_events m), ls_next_clock_seq := Suc ?n\<rparr>)"
    using attempt_done [OF a] r by (auto simp: batch_append_clock_event_def Let_def same_ram_def)
  note d = put_checkedD(2) [OF W p(1)] put_checkedD(2) [OF W p(2)] put_referencesD [OF W p(3)]
  have k: "\<forall>a \<in> fst ` set (st_clock_events m). a < ?n" using clocks_okD(2) [OF wf_storeD(2) [OF w]] by auto
  have sub: "insert ?n (fst ` set (st_clock_events m)) \<subseteq> {..<2 ^ 64}" using k e(2) by auto
  have "om_put (put_u64_be ?n) (w_local_clock_event c) (enc_table m db_clock_events) = enc_table m' db_clock_events"
    unfolding enc_table_def dbi.simps f(3) om_put_snoc [OF k, of c, symmetric]
    by (rule put_u64_encode [OF _ sub]) (simp add: put_u64_be_less)
  moreover have "om_put (ce_hash c) (put_u64_be ?n) (enc_table m db_clock_index) = enc_table m' db_clock_index"
    using put_hash_encode [of "ce_hash c" "st_clock_seq m" put_u64_be ?n] e(3)
    by (simp add: enc_table_def f(4) om_emplace_def)
  moreover have "enc_dups m' = enc_dups m \<union> (\<lambda>r. (ref_hash r, put_u64_be ?n)) ` set (ce_refs c)"
    unfolding enc_dups_def f(5) image_Un by auto
  ultimately have "holds tbl dup txn m'"
    using h d by (auto simp: holds_def) (auto simp: enc_table_def f(8-12) split: dbi.splits)
  then have "holds tbl dup env m'" by (rule commit_holds [OF W p(4)])
  moreover have "wf_store m'" using wf_append_clock [OF w e(1,2)] b by simp
  moreover have "same_ram s' m'"
    using s' r b by (auto simp: same_ram_def apply_append_def lmdb_ring_def append_clock_event_def Let_def ring_def)
  ultimately show ?thesis using s' b by (simp add: represents_def apply_append_def)
qed

lemma wf_update_clock:
  assumes "wf_store m" "wf_local_clock_event c" "clock_event_by_hash (ce_hash c) m = Inr (Some c0)" "same_links c c0"
  shows "wf_store (update_clock_event c m)"
proof -
  note w = wf_storeD [OF assms(1)] and u = update_clock_spec [OF wf_storeD(2) [OF assms(1)] assms(3,4)]
  obtain q where q: "om_find q (st_clock_events m) = Some c0" "om_find (ce_hash c) (st_clock_seq m) = Some q"
    using assms(3) by (auto simp: clock_event_by_hash_def clock_at_def split: option.splits)
  have e: "update_clock_event c m = m\<lparr>st_clock_events := om_put q c (st_clock_events m)\<rparr>"
    using q by (simp add: update_clock_event_def)
  have k: "map fst (om_put q c (st_clock_events m)) = map fst (st_clock_events m)"
    using om_put_same_keys [OF w(3), of q c] q(1) by simp
  then have ne: "om_put q c (st_clock_events m) \<noteq> []" "st_clock_events m \<noteq> []" using q(1) by auto
  then have "fst (last (om_put q c (st_clock_events m))) = fst (last (st_clock_events m))"
    using k by (metis last_map)
  moreover have "store_ok (update_clock_event c m)" using u(1) w(1) by (simp add: store_ok_def e events_ok_def)
  moreover have "\<forall>(a, d) \<in> set (om_put q c (st_clock_events m)). wf_local_clock_event d"
    using assms(1,2) set_om_put_subset [of q c "st_clock_events m"] by (fastforce simp: wf_store_def)
  ultimately show ?thesis using assms(1) ne by (simp add: wf_store_def e)
qed

lemma update_clock_event_simulates:
  assumes R: "lmdb_reads L tbl dup" and W: "lmdb_writes L tbl dup" and t: "represents tbl dup t m"
    and c: "wf_local_clock_event c" "valid_key (ce_hash c)"
      "\<forall>c0. clock_event_by_hash (ce_hash c) m = Inr (Some c0) \<longrightarrow> same_links c c0"
    and a: "attempt L (batch_update_clock_event L c) t = (Inr u, s')"
  shows "represents tbl dup s' (update_clock_event c m)"
proof -
  have w: "wf_store m" and r: "same_ram t m" and h: "holds tbl dup (ls_env t) m"
    using t by (simp_all add: represents_def)
  have i: "tbl (ls_env t) db_clock_index = enc_table m db_clock_index" using h by (simp add: holds_def)
  obtain q txn env where q: "om_find (ce_hash c) (st_clock_seq m) = Some q"
    and p: "put_checked L db_clock_events (put_u64_be q) (w_local_clock_event c) (ls_env t) = Inr txn"
      "mdb_txn_commit L txn = (MDB_SUCCESS, env)"
    and s': "s' = t\<lparr>ls_env := env, ls_next_event_seq := length (st_events m), ls_next_clock_seq := st_next_clock_seq m\<rparr>"
    using attempt_done [OF a] r
    by (auto simp: batch_update_clock_event_def lmdb_readsD(2) [OF R _ c(2)] i same_ram_def split: option.splits)
  obtain c0 where c0: "om_find q (st_clock_events m) = Some c0" "clock_event_by_hash (ce_hash c) m = Inr (Some c0)"
    using clocks_okD(3) [OF wf_storeD(2) [OF w] q] q by (auto simp: clock_event_by_hash_def clock_at_def)
  have e: "update_clock_event c m = m\<lparr>st_clock_events := om_put q c (st_clock_events m)\<rparr>"
    using q by (simp add: update_clock_event_def)
  have sub: "insert q (fst ` set (st_clock_events m)) \<subseteq> {..<2 ^ 64}"
    using wf_storeD(12) [OF w] wf_storeD(13) [OF w q] by auto
  have "om_put (put_u64_be q) (w_local_clock_event c) (enc_table m db_clock_events) =
      enc_table (update_clock_event c m) db_clock_events"
    using put_u64_encode [OF put_u64_be_less sub, of w_local_clock_event c] by (simp add: enc_table_def e)
  then have "holds tbl dup txn (update_clock_event c m)"
    using h put_checkedD(2) [OF W p(1)] by (auto simp: holds_def enc_dups_def e) (auto simp: enc_table_def split: dbi.splits)
  then have "holds tbl dup env (update_clock_event c m)" by (rule commit_holds [OF W p(2)])
  then show ?thesis
    using wf_update_clock [OF w c(1) c0(2)] c(3) c0(2) r by (simp add: represents_def s' same_ram_def e)
qed

lemma overlay_simulates:
  assumes W: "lmdb_writes L tbl dup" and t: "represents tbl dup t m"
  shows "wf_node_id (nb_node_id n) \<Longrightarrow> short64 (nb_last_hashes n) \<Longrightarrow> list_all short (nb_last_hashes n) \<Longrightarrow>
      attempt L (batch_put_neighbor L n) t = (Inr u, s') \<Longrightarrow> represents tbl dup s' (put_neighbor n m)"
    and "wf_node_id dst \<Longrightarrow> wf_node_id hop \<Longrightarrow>
      attempt L (batch_put_route L dst hop) t = (Inr u, s') \<Longrightarrow> represents tbl dup s' (put_route dst hop m)"
proof -
  have w: "wf_store m" and r: "same_ram t m" and h: "holds tbl dup (ls_env t) m"
    using t by (simp_all add: represents_def)
  have st: "store_ok (m\<lparr>st_neighbors := ns, st_routes := rs\<rparr>)" if "om_ok ns" "om_ok rs" for ns rs
    using clocks_ok_cong [of "m\<lparr>st_neighbors := ns, st_routes := rs\<rparr>" m] wf_storeD(1) [OF w] that
    by (simp add: store_ok_def events_ok_def)
  show "represents tbl dup s' (put_neighbor n m)"
    if n: "wf_node_id (nb_node_id n)" "short64 (nb_last_hashes n)" "list_all short (nb_last_hashes n)"
      and a: "attempt L (batch_put_neighbor L n) t = (Inr u, s')"
  proof -
    obtain txn env where p: "put_checked L db_neighbors (node_bytes (nb_node_id n)) (w_many w_blob (nb_last_hashes n))
        (ls_env t) = Inr txn" "mdb_txn_commit L txn = (MDB_SUCCESS, env)"
      and s': "s' = t\<lparr>ls_env := env, ls_next_event_seq := length (st_events m), ls_next_clock_seq := st_next_clock_seq m\<rparr>"
      using attempt_done [OF a] r by (auto simp: batch_put_neighbor_def put_node_id_def same_ram_def)
    have "om_put (node_bytes (nb_node_id n)) (w_many w_blob (nb_last_hashes n)) (enc_table m db_neighbors) =
        enc_table (put_neighbor n m) db_neighbors"
      using put_node_encode [of "nb_node_id n" "st_neighbors m" "\<lambda>n. w_many w_blob (nb_last_hashes n)" n]
      by (simp add: enc_table_def put_neighbor_def node_bytes_less)
    then have "holds tbl dup txn (put_neighbor n m)"
      using h put_checkedD(2) [OF W p(1)] by (auto simp: holds_def enc_dups_def put_neighbor_def) (auto simp: enc_table_def split: dbi.splits)
    then have "holds tbl dup env (put_neighbor n m)" by (rule commit_holds [OF W p(2)])
    moreover have "wf_store (put_neighbor n m)"
      using w n st [of "om_put (nb_node_id n) n (st_neighbors m)" "st_routes m"] wf_storeD(6,7) [OF w]
      by (auto simp: wf_store_def put_neighbor_def set_om_put)
    ultimately show ?thesis using r by (simp add: represents_def s' same_ram_def put_neighbor_def)
  qed
  show "represents tbl dup s' (put_route dst hop m)"
    if n: "wf_node_id dst" "wf_node_id hop" and a: "attempt L (batch_put_route L dst hop) t = (Inr u, s')"
  proof -
    obtain txn env where p: "put_checked L db_routes (node_bytes dst) (node_bytes hop) (ls_env t) = Inr txn"
        "mdb_txn_commit L txn = (MDB_SUCCESS, env)"
      and s': "s' = t\<lparr>ls_env := env, ls_next_event_seq := length (st_events m), ls_next_clock_seq := st_next_clock_seq m\<rparr>"
      using attempt_done [OF a] r by (auto simp: batch_put_route_def put_node_id_def same_ram_def)
    have "om_put (node_bytes dst) (node_bytes hop) (enc_table m db_routes) = enc_table (put_route dst hop m) db_routes"
      using put_node_encode [of dst "st_routes m" node_bytes hop]
      by (simp add: enc_table_def put_route_def node_bytes_less)
    then have "holds tbl dup txn (put_route dst hop m)"
      using h put_checkedD(2) [OF W p(1)] by (auto simp: holds_def enc_dups_def put_route_def) (auto simp: enc_table_def split: dbi.splits)
    then have "holds tbl dup env (put_route dst hop m)" by (rule commit_holds [OF W p(2)])
    moreover have "wf_store (put_route dst hop m)"
      using w n st [of "st_neighbors m" "om_put dst hop (st_routes m)"] wf_storeD(6,7) [OF w]
      by (auto simp: wf_store_def put_route_def set_om_put)
    ultimately show ?thesis using r by (simp add: represents_def s' same_ram_def put_route_def)
  qed
qed

end
