(* ===== verification/Lmdb_Properties.thy ===== *)
theory Lmdb_Properties
  imports Lmdb_Refinement
begin

text \<open>
  The production store, continued: pruning, clearing, reopening and the retry loop of its writes.
\<close>

section \<open>Pruning\<close>

text \<open>What pruning needs of the store while it is between two entries.\<close>

definition prunable :: "InMemoryStore \<Rightarrow> bool" where
  "prunable m \<longleftrightarrow> om_ok (st_clock_events m) \<and>
     (\<forall>(q, c) \<in> set (st_clock_events m). q < 2 ^ 64 \<and> wf_local_clock_event c) \<and>
     (\<forall>(h, q) \<in> set (st_referencing m). q < 2 ^ 64)"

lemma set_fold_filter:
  "set (foldl (\<lambda>m r. filter (\<lambda>(h, q'). h = ref_hash r \<longrightarrow> q' \<noteq> q) m) xs rs) =
    set xs - (\<lambda>r. (ref_hash r, q)) ` set rs"
  by (induction rs arbitrary: xs) auto

lemma prunable_drop: "prunable m \<Longrightarrow> prunable (drop_clock_event q m)"
  by (auto simp: prunable_def drop_clock_event_def om_erase_def om_ok_filter set_fold_filter split: option.split)

lemma del_referencesD:
  assumes "lmdb_writes L tbl dup"
  shows "foldE (\<lambda>r. del_checked L db_referencing (ref_hash r) (Some v)) rs db = Inr db' \<Longrightarrow>
    tbl db' = tbl db \<and> dup db' = dup db - (\<lambda>r. (ref_hash r, v)) ` set rs"
proof (induction rs arbitrary: db)
  case (Cons r rs)
  then obtain db1 where d: "del_checked L db_referencing (ref_hash r) (Some v) db = Inr db1"
    "foldE (\<lambda>r. del_checked L db_referencing (ref_hash r) (Some v)) rs db1 = Inr db'" by auto
  have "tbl db1 = tbl db \<and> dup db1 = dup db - {(ref_hash r, v)}"
    using d(1) lmdb_del_dup_law [OF assms, of "ref_hash r" v db] by (auto simp: del_checked_def split: prod.splits if_splits)
  then show ?case using Cons.IH [OF d(2)] by auto
qed simp

lemma prune_one_holds:
  assumes R: "lmdb_reads L tbl dup" and W: "lmdb_writes L tbl dup"
    and m: "prunable m" "holds tbl dup txn m" "q < 2 ^ 64" and p: "prune_one L q txn = Inr txn'"
  shows "holds tbl dup txn' (drop_clock_event q m)"
proof -
  have inj: "inj_on put_u64_be (insert q (fst ` set (st_clock_events m)))"
    using m(1,3) by (intro inj_put_u64_be) (auto simp: prunable_def)
  have f: "om_find (put_u64_be q) (tbl txn db_clock_events) = map_option w_local_clock_event (om_find q (st_clock_events m))"
    using m(2) om_find_encode [OF inj] by (simp add: holds_def enc_table_def)
  show ?thesis
  proof (cases "om_find q (st_clock_events m)")
    case None
    then show ?thesis using p m(2) by (simp add: prune_one_def lmdb_readsD(2) [OF R] f drop_clock_event_def)
  next
    case (Some c)
    have c: "wf_local_clock_event c" using om_find_in [OF Some] m(1) by (auto simp: prunable_def)
    obtain txn1 txn2 where d:
        "foldE (\<lambda>r. del_checked L db_referencing (ref_hash r) (Some (put_u64_be q))) (ce_refs c) txn = Inr txn1"
        "del_checked L db_clock_index (ce_hash c) None txn1 = Inr txn2"
        "fst (mdb_del L db_clock_events (put_u64_be q) None txn2) = MDB_SUCCESS"
        "snd (mdb_del L db_clock_events (put_u64_be q) None txn2) = txn'"
      using p Some c
      by (auto simp: prune_one_def lmdb_readsD(2) [OF R] f check_def Let_def case_prod_beta bindE_assoc split: if_splits)
    have e1: "tbl txn1 = tbl txn \<and> dup txn1 = dup txn - (\<lambda>r. (ref_hash r, put_u64_be q)) ` set (ce_refs c)"
      by (rule del_referencesD [OF W d(1)])
    have e2: "tbl txn2 = (tbl txn1)(db_clock_index := om_erase (ce_hash c) (tbl txn1 db_clock_index)) \<and> dup txn2 = dup txn1"
      using d(2) lmdb_del_law [OF W, of db_clock_index "ce_hash c" txn1]
      by (auto simp: del_checked_def split: prod.splits if_splits)
    have e3: "tbl txn' = (tbl txn2)(db_clock_events := om_erase (put_u64_be q) (tbl txn2 db_clock_events)) \<and> dup txn' = dup txn2"
      using lmdb_del_law [OF W _ prod_eqI [of "mdb_del L db_clock_events (put_u64_be q) None txn2" "(MDB_SUCCESS, txn')"]] d(3,4)
      by simp
    let ?m = "drop_clock_event q m"
    have m': "?m = m\<lparr>st_clock_seq := om_erase (ce_hash c) (st_clock_seq m), st_referencing := st_referencing ?m,
        st_clock_events := om_erase q (st_clock_events m)\<rparr>"
      by (simp add: drop_clock_event_def Some)
    have "set (st_referencing ?m) = set (st_referencing m) - (\<lambda>r. (ref_hash r, q)) ` set (ce_refs c)"
      by (simp add: drop_clock_event_def Some set_fold_filter)
    moreover have "(\<lambda>(h, q). (h, put_u64_be q)) ` (set (st_referencing m) - (\<lambda>r. (ref_hash r, q)) ` set (ce_refs c)) =
        enc_dups m - (\<lambda>r. (ref_hash r, put_u64_be q)) ` set (ce_refs c)"
    proof -
      have "inj_on (\<lambda>(h, q). (h, put_u64_be q)) {(h :: bytes, q). q < 2 ^ 64}"
        by (auto simp: inj_on_def put_u64_be_eq)
      then show ?thesis
        using m(1,3) unfolding enc_dups_def
        by (subst inj_on_image_set_diff) (auto simp: prunable_def image_image)
    qed
    ultimately have "enc_dups ?m = enc_dups m - (\<lambda>r. (ref_hash r, put_u64_be q)) ` set (ce_refs c)"
      by (simp add: enc_dups_def)
    moreover have "om_erase (put_u64_be q) (enc_table m db_clock_events) = enc_table ?m db_clock_events"
      using om_erase_encode [OF inj] by (subst m') (simp add: enc_table_def)
    moreover have "om_erase (ce_hash c) (enc_table m db_clock_index) = enc_table ?m db_clock_index"
      using om_erase_encode [of id "ce_hash c"] by (subst m') (simp add: enc_table_def)
    moreover have "enc_table ?m d = enc_table m d" if "d \<notin> {db_clock_events, db_clock_index}" for d
      using that by (subst m') (auto simp: enc_table_def split: dbi.splits)
    ultimately show ?thesis using m(2) e1 e2 e3 by (auto simp: holds_def)
  qed
qed

lemma prune_loop_holds:
  assumes R: "lmdb_reads L tbl dup" and W: "lmdb_writes L tbl dup"
  shows "prunable m \<Longrightarrow> holds tbl dup txn m \<Longrightarrow> \<forall>q \<in> set qs. q < 2 ^ 64 \<Longrightarrow>
    foldE (prune_one L) (take (length qs - keep) qs) txn = Inr txn' \<Longrightarrow> holds tbl dup txn' (prune_loop l keep qs m)"
proof (induction qs arbitrary: m txn)
  case (Cons q qs)
  show ?case
  proof (cases "keep < length (q # qs)")
    case True
    let ?m = "m\<lparr>st_chain_seqs := om_put l qs (st_chain_seqs m)\<rparr>"
    have "length (q # qs) - keep = Suc (length qs - keep)" using True by simp
    then obtain txn1 where p: "prune_one L q txn = Inr txn1" "foldE (prune_one L) (take (length qs - keep) qs) txn1 = Inr txn'"
      using Cons.prems(4) by auto
    have "prunable ?m" "holds tbl dup txn ?m"
      using Cons.prems(1,2) by (simp_all add: prunable_def holds_def enc_table_def enc_dups_def cong: dbi.case_cong)
    then have "prunable (drop_clock_event q ?m)" "holds tbl dup txn1 (drop_clock_event q ?m)"
      using prunable_drop prune_one_holds [OF R W _ _ _ p(1)] Cons.prems(3) by simp_all
    then show ?thesis using Cons.IH [OF _ _ _ p(2)] Cons.prems(3) True by simp
  next
    case False
    then show ?thesis using Cons.prems by simp
  qed
qed simp

lemma drop_ram [simp]:
  "st_chain_seqs (drop_clock_event q m) = st_chain_seqs m" "st_chain_tip_seq (drop_clock_event q m) = st_chain_tip_seq m"
  "om_ok (st_clock_seq m) \<Longrightarrow> om_ok (st_clock_seq (drop_clock_event q m))"
  by (simp_all add: drop_clock_event_def split: option.split)

lemma prune_loop_ram:
  "st_chain_tip_seq (prune_loop l keep qs m) = st_chain_tip_seq m"
  "om_ok (st_clock_seq m) \<Longrightarrow> om_ok (st_clock_seq (prune_loop l keep qs m))"
  "keep < length qs \<Longrightarrow> st_chain_seqs (prune_loop l keep qs m) = om_put l (drop (length qs - keep) qs) (st_chain_seqs m)"
  "\<not> keep < length qs \<Longrightarrow> prune_loop l keep qs m = m"
proof (induction qs arbitrary: m)
  case (Cons q qs)
  { case 1 then show ?case using Cons by simp
  next
    case 2 then show ?case using Cons by simp
  next
    case 3
    show ?case
    proof (cases "keep < length qs")
      case True
      then show ?thesis using Cons.IH(3) by (simp add: Suc_diff_le drop_Cons')
    next
      case False
      then have "length qs = keep" using 3 by simp
      then show ?thesis using Cons.IH(4) by simp
    qed
  next
    case 4 then show ?case by simp
  }
qed simp_all

lemma last_filter: "xs \<noteq> [] \<Longrightarrow> P (last xs) \<Longrightarrow> filter P xs \<noteq> [] \<and> last (filter P xs) = last xs"
  by (induction xs rule: rev_induct) auto

lemma last_not_overdue:
  assumes "om_ok cs" "cs \<noteq> []" "last cs = (q, c)"
  shows "q \<notin> set (overdue l keep cs)"
proof
  assume "q \<in> set (overdue l keep cs)"
  then have k: "keep \<noteq> 0" and o: "q \<in> fst ` set (take (length (chain_of l cs) - keep) (chain_of l cs))"
    by (auto simp: overdue_def split: if_splits)
  let ?k = "length (chain_of l cs) - keep"
  have "drop ?k (chain_of l cs) \<noteq> []" using k o by auto
  then obtain b d where bd: "(b, d) \<in> set (drop ?k (chain_of l cs))" by (metis last_in_set prod.collapse)
  have "om_ok (take ?k (chain_of l cs) @ drop ?k (chain_of l cs))" using om_ok_chain_of [OF assms(1)] by simp
  then have "q < b" using o bd unfolding om_ok_append_iff by fastforce
  moreover have "(b, d) \<in> set cs" using bd by (auto dest: in_set_dropD simp: set_chain_of)
  then have "b \<le> q"
    using assms append_butlast_last_id [OF assms(2)] om_ok_append_iff [of "butlast cs" "[(q, c)]"]
    by (metis (no_types, lifting) UnE case_prodD empty_iff in_set_conv_decomp insert_iff less_imp_le list.set(1,2) order_refl
        prod.inject set_append)
  ultimately show False by simp
qed

lemma wf_prune:
  assumes "wf_store m"
  shows "wf_store (prune_chain l keep m)"
proof -
  note w = wf_storeD [OF assms] and f = prune_chain_spec [OF wf_storeD(2) [OF assms], of l keep]
  let ?P = "\<lambda>(q, c). q \<notin> set (overdue l keep (st_clock_events m))"
  have "st_clock_events m \<noteq> [] \<Longrightarrow> filter ?P (st_clock_events m) \<noteq> [] \<and> last (filter ?P (st_clock_events m)) = last (st_clock_events m)"
    using last_not_overdue [OF w(3) _ prod.collapse [symmetric]] by (intro last_filter) (auto simp: case_prod_beta)
  moreover have "om_ok (st_clock_seq (prune_chain l keep m))" "st_chain_tip_seq (prune_chain l keep m) = st_chain_tip_seq m"
    using w(5) by (auto simp: prune_chain_def prune_loop_ram split: option.split)
  moreover have "om_ok (st_chain_seqs (prune_chain l keep m)) \<and> (\<forall>(l, qs) \<in> set (st_chain_seqs (prune_chain l keep m)). qs \<noteq> [])"
  proof (cases "om_find l (st_chain_seqs m)")
    case (Some qs)
    then show ?thesis
      using assms prune_loop_ram(3,4) [of keep qs l m]
      by (cases "keep < length qs") (auto simp: prune_chain_def wf_store_def set_om_put)
  qed (use assms in \<open>simp add: prune_chain_def wf_store_def\<close>)
  ultimately show ?thesis
    using assms store_ok_prune [OF w(1), of l keep] by (auto simp: wf_store_def f)
qed

lemma begin_write_env: "begin_write L s = Inr txn \<Longrightarrow> txn = ls_env s"
  by (auto simp: begin_write_def split: if_splits)

lemma prune_outcomes:
  assumes "lmdb_prune_chain L l keep s = (r, s')" "om_find l (ls_chain_seqs s) = Some qs" "keep \<noteq> 0" "keep < length qs"
  shows "(\<exists>e. r = Inl e \<and> s' = s) \<or>
    (\<exists>txn env. foldE (prune_one L) (take (length qs - keep) qs) (ls_env s) = Inr txn \<and>
      mdb_txn_commit L txn = (MDB_SUCCESS, env) \<and> r = Inr () \<and>
      s' = s\<lparr>ls_env := env, ls_chain_seqs := om_put l (drop (length qs - keep) qs) (ls_chain_seqs s)\<rparr>)"
proof (cases "begin_write L s")
  case (Inl e)
  then show ?thesis using assms by (auto simp: lmdb_prune_chain_def)
next
  case (Inr txn0)
  note b = this and e = begin_write_env [OF this]
  show ?thesis
  proof (cases "foldE (prune_one L) (take (length qs - keep) qs) (ls_env s)")
    case (Inl x)
    then show ?thesis using assms b e by (auto simp: lmdb_prune_chain_def Let_def)
  next
    case (Inr txn)
    obtain rc env where c: "mdb_txn_commit L txn = (rc, env)" by fastforce
    then show ?thesis using assms b e Inr by (auto simp: lmdb_prune_chain_def Let_def split: if_splits)
  qed
qed

lemma prune_simulates:
  assumes R: "lmdb_reads L tbl dup" and W: "lmdb_writes L tbl dup" and t: "represents tbl dup s m"
    and p: "lmdb_prune_chain L l keep s = (r, s')"
  shows "case r of Inl e \<Rightarrow> s' = s | Inr _ \<Rightarrow> represents tbl dup s' (prune_chain l keep m)"
proof -
  have w: "wf_store m" and r: "same_ram s m" and h: "holds tbl dup (ls_env s) m"
    using t by (simp_all add: represents_def)
  show ?thesis
  proof (cases "om_find l (st_chain_seqs m)")
    case None
    then show ?thesis using p r t by (auto simp: lmdb_prune_chain_def prune_chain_def same_ram_def)
  next
    case (Some qs)
    have ls: "om_find l (ls_chain_seqs s) = Some qs" using Some r by (simp add: same_ram_def)
    show ?thesis
    proof (cases "keep = 0 \<or> length qs \<le> keep")
      case True
      then show ?thesis
        using p t Some ls prune_loop_ram(4) [of keep qs l m] by (auto simp: lmdb_prune_chain_def prune_chain_def)
    next
      case False
      have q: "\<forall>q \<in> set qs. q < 2 ^ 64"
        using clocks_okD(5) [OF wf_storeD(2) [OF w], of l] wf_storeD(12) [OF w] Some by (fastforce simp: ring_def set_chain_of)
      have m: "prunable m" using wf_storeD(3,12,14) [OF w] by (auto simp: prunable_def)
      have k: "keep \<noteq> 0" "keep < length qs" using False by auto
      consider e where "r = Inl e" "s' = s"
        | txn env where "foldE (prune_one L) (take (length qs - keep) qs) (ls_env s) = Inr txn"
          "mdb_txn_commit L txn = (MDB_SUCCESS, env)" "r = Inr ()"
          "s' = s\<lparr>ls_env := env, ls_chain_seqs := om_put l (drop (length qs - keep) qs) (ls_chain_seqs s)\<rparr>"
        using prune_outcomes [OF p ls k] by blast
      then show ?thesis
      proof cases
        case 2
        have pm: "prune_chain l keep m = prune_loop l keep qs m" using Some k by (simp add: prune_chain_def)
        have "holds tbl dup env (prune_chain l keep m)"
          unfolding pm by (rule commit_holds [OF W 2(2) prune_loop_holds [OF R W m h q 2(1)]])
        then show ?thesis
          using wf_prune [OF w, of l keep] r k 2(3,4) prune_chain_spec(4,5) [OF wf_storeD(2) [OF w], of l keep]
            prune_loop_ram(1) [of l keep qs m] prune_loop_ram(3) [of keep qs l m]
          by (simp add: represents_def same_ram_def pm)
      qed simp
    qed
  qed
qed

section \<open>Clearing\<close>

lemma clear_is_empty: "clear_store m = empty_store"
  by (simp add: clear_store_def empty_store_def)

lemma wf_empty: "wf_store empty_store"
  using store_ok_empty by (simp add: wf_store_def) (simp add: empty_store_def)

lemma drop_checkedD:
  assumes "lmdb_writes L tbl dup"
  shows "foldE (drop_checked L) ds db = Inr db' \<Longrightarrow>
    (\<forall>d. d \<noteq> db_referencing \<longrightarrow> tbl db' d = (if d \<in> set ds then [] else tbl db d)) \<and>
    dup db' = (if db_referencing \<in> set ds then {} else dup db)"
proof (induction ds arbitrary: db)
  case (Cons d ds)
  then obtain db1 where d: "drop_checked L d db = Inr db1" "foldE (drop_checked L) ds db1 = Inr db'" by auto
  have "mdb_drop L d db = (MDB_SUCCESS, db1)" using d(1) by (auto simp: drop_checked_def split: prod.splits)
  from lmdb_drop_law [OF assms this] Cons.IH [OF d(2)] show ?case by (auto split: if_splits)
qed simp

lemma reset_simulates:
  assumes W: "lmdb_writes L tbl dup" and t: "represents tbl dup s m" and p: "lmdb_reset L s = (r, s')"
  shows "case r of Inl e \<Rightarrow> s' = s | Inr _ \<Rightarrow> represents tbl dup s' (clear_store m)"
proof -
  let ?ds = "[db_events, db_event_index, db_clock_events, db_clock_index, db_referencing, db_neighbors, db_routes, db_timed_routes]"
  show ?thesis
  proof (cases "bindE (begin_write L s) (foldE (drop_checked L) ?ds)")
    case (Inl e)
    then show ?thesis using p by (auto simp: lmdb_reset_def)
  next
    case (Inr txn)
    then have f: "foldE (drop_checked L) ?ds (ls_env s) = Inr txn" using begin_write_env by fastforce
    obtain rc env where c: "mdb_txn_commit L txn = (rc, env)" by fastforce
    show ?thesis
    proof (cases "rc = MDB_SUCCESS")
      case True
      have "tbl (ls_env s) db_meta = enc_table m db_meta" using t by (simp add: represents_def holds_def)
      then have "holds tbl dup txn empty_store"
        using drop_checkedD [OF W f] by (auto simp: holds_def enc_dups_def enc_table_def empty_store_def split: dbi.split)
      then have "holds tbl dup env empty_store" using commit_holds [OF W] c True by blast
      then show ?thesis
        using p t wf_empty
        by (auto simp: lmdb_reset_def Inr c True check_def clear_is_empty represents_def same_ram_def) (simp_all add: empty_store_def)
    qed (use p in \<open>auto simp: lmdb_reset_def Inr c check_def\<close>)
  qed
qed

section \<open>Opening\<close>

lemma foldE_seed:
  assumes "\<forall>(q, c) \<in> set xs. q < 2 ^ 64 \<and> wf_local_clock_event c"
  shows "foldE (\<lambda>(k, v) s. bindE (get_u64_be k) (\<lambda>seq. bindE (read_value r_clock_event v) (\<lambda>c.
      Inr (apply_append (ce_chain c, seq) s)))) (om_encode put_u64_be w_local_clock_event xs) s =
    Inr (fold apply_append (map (\<lambda>(q, c). (ce_chain c, q)) xs) s)"
  using assms by (induction xs arbitrary: s) auto

lemma fold_append_ram:
  "\<exists>a b. fold apply_append (map (\<lambda>(q, c). (ce_chain c, q)) xs) (s\<lparr>ls_chain_tip_seq := [], ls_chain_seqs := []\<rparr>) =
      s\<lparr>ls_chain_tip_seq := a, ls_chain_seqs := b\<rparr> \<and> om_ok a \<and> om_ok b \<and>
    (\<forall>l. om_find l b = (if chain_of l xs = [] then None else Some (map fst (chain_of l xs)))) \<and>
    (\<forall>l. om_find l a = (if chain_of l xs = [] then None else Some (fst (last (chain_of l xs)))))"
proof (induction xs rule: rev_induct)
  case Nil
  show ?case by (rule exI [of _ "[]"], rule exI [of _ "[]"]) (simp add: chain_of_def)
next
  case (snoc x xs)
  then obtain a b where i: "fold apply_append (map (\<lambda>(q, c). (ce_chain c, q)) xs)
        (s\<lparr>ls_chain_tip_seq := [], ls_chain_seqs := []\<rparr>) = s\<lparr>ls_chain_tip_seq := a, ls_chain_seqs := b\<rparr>" "om_ok a" "om_ok b"
    "\<And>l. om_find l b = (if chain_of l xs = [] then None else Some (map fst (chain_of l xs)))"
    "\<And>l. om_find l a = (if chain_of l xs = [] then None else Some (fst (last (chain_of l xs))))" by blast
  obtain q c where x: "x = (q, c)" by fastforce
  have one: "chain_of l [(q, c)] = (if ce_chain c = l then [(q, c)] else [])" for l by (simp add: chain_of_def)
  have st: "apply_append (ce_chain c, q) (s\<lparr>ls_chain_tip_seq := a, ls_chain_seqs := b\<rparr>) = s\<lparr>ls_chain_tip_seq := om_put (ce_chain c) q a,
      ls_chain_seqs := om_put (ce_chain c) (map fst (chain_of (ce_chain c) xs) @ [q]) b\<rparr>"
    by (simp add: apply_append_def lmdb_ring_def i(4))
  show ?case
    by (rule exI [of _ "om_put (ce_chain c) q a"], rule exI [of _ "om_put (ce_chain c) (map fst (chain_of (ce_chain c) xs) @ [q]) b"])
      (simp add: i x st om_find_put one)
qed

lemma seed_spec:
  assumes R: "lmdb_reads L tbl dup" and w: "wf_store m" and h: "holds tbl dup (ls_env s) m"
  shows "seed_chain_tips L s = Inr (s\<lparr>ls_chain_tip_seq := st_chain_tip_seq m, ls_chain_seqs := st_chain_seqs m\<rparr>)"
proof -
  let ?s = "s\<lparr>ls_chain_tip_seq := [], ls_chain_seqs := []\<rparr>"
  obtain a b where f: "fold apply_append (map (\<lambda>(q, c). (ce_chain c, q)) (st_clock_events m)) ?s =
      s\<lparr>ls_chain_tip_seq := a, ls_chain_seqs := b\<rparr>" "om_ok a" "om_ok b"
    "\<And>l. om_find l b = (if chain_of l (st_clock_events m) = [] then None else Some (map fst (chain_of l (st_clock_events m))))"
    "\<And>l. om_find l a = (if chain_of l (st_clock_events m) = [] then None else Some (fst (last (chain_of l (st_clock_events m)))))"
    using fold_append_ram [of "st_clock_events m" s] by blast
  have "tbl (ls_env s) db_clock_events = om_encode put_u64_be w_local_clock_event (st_clock_events m)"
    using h by (simp add: holds_def enc_table_def)
  then have "seed_chain_tips L s = Inr (s\<lparr>ls_chain_tip_seq := a, ls_chain_seqs := b\<rparr>)"
    using foldE_seed [of "st_clock_events m" ?s] wf_storeD(12) [OF w]
    by (auto simp: seed_chain_tips_def for_each_def lmdb_readsD [OF R] check_def f)
  moreover note c = clocks_okD(5,6) [OF wf_storeD(2) [OF w]]
  have "b = st_chain_seqs m"
  proof (rule om_eqI)
    fix l
    have "om_find l (st_chain_seqs m) \<noteq> Some []" using w by (auto simp: wf_store_def dest: om_find_in)
    then show "om_find l b = om_find l (st_chain_seqs m)"
      using c(1) [of l] by (auto simp: f ring_def split: option.splits)
  qed (use f w in \<open>auto simp: wf_store_def\<close>)
  moreover have "a = st_chain_tip_seq m"
  proof (rule om_eqI)
    show "om_find l a = om_find l (st_chain_tip_seq m)" for l
      using c [of l] by (simp add: f last_map)
  qed (use f w in \<open>auto simp: wf_store_def\<close>)
  ultimately show ?thesis by simp
qed

lemma next_seq_spec:
  assumes R: "lmdb_reads L tbl dup" and h: "holds tbl dup db m" and w: "wf_store m"
    and b: "length (st_events m) < 2 ^ 64" "st_next_clock_seq m < 2 ^ 64"
  shows "next_seq L db_events db = Inr (length (st_events m))" "next_seq L db_clock_events db = Inr (st_next_clock_seq m)"
proof -
  have t: "tbl db db_events = om_encode put_u64_be w_event (enumerate 0 (st_events m))"
    "tbl db db_clock_events = om_encode put_u64_be w_local_clock_event (st_clock_events m)"
    using h by (simp_all add: holds_def enc_table_def)
  have up: "unat (of_nat q + 1 :: u64) = Suc q" if "Suc q < 2 ^ 64" for q
  proof -
    have "unat (of_nat (Suc q) :: u64) = Suc q" using that by (subst unat_of_nat) (simp add: take_bit_nat_eq_self)
    then show ?thesis by (simp add: add.commute)
  qed
  show "next_seq L db_events db = Inr (length (st_events m))"
  proof (cases "st_events m" rule: rev_cases)
    case (snoc es e)
    then have "last (enumerate 0 (st_events m)) = (length es, e)" by (simp add: enumerate_append_eq)
    then show ?thesis using snoc b(1) up by (simp add: next_seq_def lmdb_readsD(4) [OF R] t om_last_encode enumerate_append_eq)
  qed (simp add: next_seq_def lmdb_readsD(4) [OF R] t)
  show "next_seq L db_clock_events db = Inr (st_next_clock_seq m)"
    using w b(2) up by (auto simp: next_seq_def lmdb_readsD(4) [OF R] t om_last_encode wf_store_def split: if_splits)
qed

lemma ensure_version_spec:
  assumes R: "lmdb_reads L tbl dup" and h: "holds tbl dup db m"
  shows "ensure_version L db = Inr db"
proof -
  have "om_find kVersionKey (tbl db db_meta) = Some (be_list 8 kFormatVersion)" using h by (simp add: holds_def enc_table_def)
  moreover have "valid_key kVersionKey" by (simp add: valid_key_def kVersionKey_def)
  ultimately have "mdb_get L db_meta kVersionKey db = (MDB_SUCCESS, be_list 8 kFormatVersion)"
    by (simp add: lmdb_readsD(2) [OF R])
  then show ?thesis by (simp add: ensure_version_def get_u64_be_def be_fold_be_list kFormatVersion_def)
qed

lemma open_tables:
  assumes W: "lmdb_writes L tbl dup" and o: "\<forall>d db. fst (mdb_dbi_open L d db) = MDB_SUCCESS"
  shows "holds tbl dup db m \<Longrightarrow> \<exists>db'. foldE (open_dbi L) ds db = Inr db' \<and> holds tbl dup db' m"
proof (induction ds arbitrary: db)
  case (Cons d ds)
  obtain db1 where d: "mdb_dbi_open L d db = (MDB_SUCCESS, db1)" using o by (metis prod.collapse)
  then have "holds tbl dup db1 m" using lmdb_dbi_open_law [OF W d] Cons.prems by (simp add: holds_def)
  then show ?case using Cons.IH d by (simp add: open_dbi_def)
qed simp

section \<open>The retry loop\<close>

lemma durable_ends:
  fixes f :: "'db LmdbStore \<Rightarrow> nat"
  assumes step: "\<And>s s'. I s \<Longrightarrow> attempt L op s = (Inl Lmdb_map_full, s) \<Longrightarrow> grow_map L bits s = (Inr (), s') \<Longrightarrow> I s' \<and> f s' < f s"
  shows "I s \<Longrightarrow> \<exists>r s'. durable L bits op s = Some (r, s') \<and> r \<noteq> Inl Lmdb_map_full"
proof (induction s rule: measure_induct_rule [of f])
  case (less s)
  obtain a t where a: "attempt L op s = (a, t)" by fastforce
  obtain g u where g: "grow_map L bits s = (g, u)" by fastforce
  show ?case
  proof (cases a)
    case (Inl e)
    then have t: "t = s" using a attempt_failed by fastforce
    show ?thesis
    proof (cases "e = Lmdb_map_full")
      case True
      show ?thesis
      proof (cases g)
        case Inr': (Inl x)
        have "x \<noteq> Lmdb_map_full" using g Inr' by (auto simp: grow_map_def Let_def check_def split: if_splits prod.splits)
        then show ?thesis by (subst durable.simps) (simp add: a Inl t True g Inr')
      next
        case (Inr x)
        then have "I u" "f u < f s" using step [of s u] less.prems a Inl t True g by simp_all
        then obtain r s' where "durable L bits op u = Some (r, s')" "r \<noteq> Inl Lmdb_map_full" using less.IH by blast
        then show ?thesis by (subst durable.simps) (simp add: a Inl t True g Inr)
      qed
    next
      case False
      then show ?thesis by (subst durable.simps) (simp add: a Inl)
    qed
  next
    case (Inr x)
    then show ?thesis by (subst durable.simps) (simp add: a)
  qed
qed

lemma grow_doubles_64:
  assumes "grow_map L 64 s = (Inr (), s')" "0 < ls_map_size s" "ls_map_size s < 2 ^ 63"
  shows "ls_map_size s' = 2 * ls_map_size s"
  using assms by (auto simp: grow_map_def kMaxMapSize_def Let_def split: prod.splits)

lemma grow_32:
  assumes "grow_map L 32 s = (Inr (), s')" "0 < ls_map_size s"
  shows "ls_map_size s < ls_map_size s' \<and> ls_map_size s' \<le> 3 * 2 ^ 29"
  using assms by (auto simp: grow_map_def kMaxMapSize_def Let_def split: prod.splits if_splits)

lemma durable_ends_32:
  assumes "0 < ls_map_size s"
  shows "\<exists>r s'. durable L 32 op s = Some (r, s') \<and> r \<noteq> Inl Lmdb_map_full"
proof (rule durable_ends [where I = "\<lambda>s. 0 < ls_map_size s" and f = "\<lambda>s. 3 * 2 ^ 29 - ls_map_size s"])
  fix s s' :: "'a LmdbStore"
  assume "0 < ls_map_size s" "grow_map L 32 s = (Inr (), s')"
  then show "0 < ls_map_size s' \<and> 3 * 2 ^ 29 - ls_map_size s' < 3 * 2 ^ 29 - ls_map_size s"
    using grow_32 [of L s s'] by auto
qed (rule assms)

end
