(* ===== verification/Text.thy ===== *)
theory Text
  imports Domain
begin

text \<open>
  The text that crosses the command line and the control socket: decimal and hexadecimal
  numerals, the tokens of a request, node identities and event hashes as they are typed
  (the helpers at the top of \<open>src/app/lotid/lotid.cpp\<close> and \<open>src/app/loti/loti.cpp\<close>), with the parts of
  the C and C++ libraries they use. A \<open>std::string\<close> is a list of characters.
\<close>

section \<open>Bytes and characters\<close>

definition byte_of_char :: "char \<Rightarrow> byte" where
  "byte_of_char c = of_nat (of_char c)"

definition char_of_byte :: "byte \<Rightarrow> char" where
  "char_of_byte b = char_of (unat b)"

lemma of_char_less [simp]: "(of_char c :: nat) < 256"
  by (rule nat_of_char_less_256)

lemma byte_char_inverse [simp]: "char_of_byte (byte_of_char c) = c" "byte_of_char (char_of_byte b) = b"
proof -
  have "unat (of_nat (of_char c) :: byte) = of_char c" by (simp add: unat_of_nat)
  then show "char_of_byte (byte_of_char c) = c" by (simp add: byte_of_char_def char_of_byte_def)
  have "unat b < 256" using unsigned_less [of b, where 'a = nat] by simp
  then show "byte_of_char (char_of_byte b) = b" by (simp add: byte_of_char_def char_of_byte_def)
qed

definition bytes_of_string :: "string \<Rightarrow> bytes" where
  "bytes_of_string = map byte_of_char"

definition string_of_bytes :: "bytes \<Rightarrow> string" where
  "string_of_bytes = map char_of_byte"

lemma string_bytes_inverse [simp]:
  "string_of_bytes (bytes_of_string s) = s" "bytes_of_string (string_of_bytes b) = b"
  by (simp_all add: bytes_of_string_def string_of_bytes_def comp_def)

section \<open>Numerals\<close>

definition digit_char :: "nat \<Rightarrow> char" where
  "digit_char d = char_of (48 + d)"

fun decimal :: "nat \<Rightarrow> string" where
  "decimal n = (if n < 10 then [digit_char n] else decimal (n div 10) @ [digit_char (n mod 10)])"

declare decimal.simps [simp del]

text \<open>\<open>std::to_string\<close>.\<close>

definition to_string :: "int \<Rightarrow> string" where
  "to_string i = (if i < 0 then CHR ''-'' # decimal (nat (- i)) else decimal (nat i))"

text \<open>The value of a character as a digit of the given base, as the C library reads numerals.\<close>

definition digit_value :: "char \<Rightarrow> nat option" where
  "digit_value c =
     (let n = of_char c :: nat in
      if 48 \<le> n \<and> n \<le> 57 then Some (n - 48)
      else if 97 \<le> n \<and> n \<le> 122 then Some (n - 87)
      else if 65 \<le> n \<and> n \<le> 90 then Some (n - 55)
      else None)"

definition is_digit :: "nat \<Rightarrow> char \<Rightarrow> bool" where
  "is_digit base c \<longleftrightarrow> (case digit_value c of None \<Rightarrow> False | Some v \<Rightarrow> v < base)"

definition is_space :: "char \<Rightarrow> bool" where
  "is_space c \<longleftrightarrow> c = CHR '' '' \<or> (9 \<le> (of_char c :: nat) \<and> (of_char c :: nat) \<le> 13)"

definition read_digits :: "nat \<Rightarrow> string \<Rightarrow> nat" where
  "read_digits base s = foldl (\<lambda>n c. n * base + the (digit_value c)) 0 (takeWhile (is_digit base) s)"

text \<open>Leading white space and a sign, common to \<open>atoi\<close>, \<open>stoll\<close> and \<open>strtoull\<close>.\<close>

definition read_sign :: "string \<Rightarrow> bool \<times> string" where
  "read_sign s =
     (case dropWhile is_space s of
        [] \<Rightarrow> (False, [])
      | c # cs \<Rightarrow> if c = CHR ''-'' then (True, cs) else if c = CHR ''+'' then (False, cs) else (False, c # cs))"

definition read_int :: "string \<Rightarrow> int" where
  "read_int s = (let (neg, cs) = read_sign s; v = int (read_digits 10 cs) in if neg then - v else v)"

text \<open>\<open>std::atoi\<close>: the behaviour is undefined when the value is not an \<open>int\<close>.\<close>

definition atoi :: "string \<Rightarrow> int result" where
  "atoi s = (let v = read_int s in if - (2 ^ 31) \<le> v \<and> v < 2 ^ 31 then Inr v else Inl Undefined_behaviour)"

text \<open>\<open>std::stoll\<close>: no value when it throws, for want of a digit or beyond the range of \<open>long long\<close>.\<close>

definition stoll :: "string \<Rightarrow> int option" where
  "stoll s =
     (case snd (read_sign s) of
        [] \<Rightarrow> None
      | c # cs \<Rightarrow>
          (let v = read_int s
           in if is_digit 10 c \<and> - (2 ^ 63) \<le> v \<and> v < 2 ^ 63 then Some v else None))"

text \<open>\<open>std::strtoull\<close> with base 0: a prefix selects hexadecimal or octal, a value out of range
  saturates, a minus sign negates.\<close>

definition strtoull :: "string \<Rightarrow> u64" where
  "strtoull s =
     (let (neg, cs) = read_sign s;
          v = (if cs \<noteq> [] \<and> hd cs = CHR ''0''
               then if length cs > 2 \<and> (cs ! 1 = CHR ''x'' \<or> cs ! 1 = CHR ''X'') \<and> is_digit 16 (cs ! 2)
                 then read_digits 16 (drop 2 cs) else read_digits 8 cs
               else read_digits 10 cs)
      in if v \<ge> 2 ^ 64 then - 1 else if neg then - of_nat v else of_nat v)"

text \<open>What \<open>printf\<close> or \<open>fputs\<close> shows of a string ends at its first zero.\<close>

definition c_str :: "string \<Rightarrow> string" where
  "c_str s = takeWhile (\<lambda>c. c \<noteq> CHR 0x00) s"

section \<open>Tokens\<close>

fun tokens_loop :: "string \<Rightarrow> string list \<Rightarrow> string \<Rightarrow> string list" where
  "tokens_loop cur out [] = (if cur = [] then out else out @ [cur])"
| "tokens_loop cur out (c # cs) =
     (if c = CHR '' '' \<or> c = CHR 0x09 \<or> c = CHR 0x0D
      then (if cur = [] then tokens_loop [] out cs else tokens_loop [] (out @ [cur]) cs)
      else tokens_loop (cur @ [c]) out cs)"

definition tokenize :: "string \<Rightarrow> string list" where
  "tokenize s = tokens_loop [] [] s"

fun split_loop :: "char \<Rightarrow> string \<Rightarrow> string list \<Rightarrow> string \<Rightarrow> string list" where
  "split_loop sep cur parts [] = parts @ [cur]"
| "split_loop sep cur parts (c # cs) =
     (if c = sep then split_loop sep [] (parts @ [cur]) cs else split_loop sep (cur @ [c]) parts cs)"

definition split :: "string \<Rightarrow> char \<Rightarrow> string list" where
  "split s sep = split_loop sep [] [] s"

text \<open>The words with a single space between them.\<close>

fun join_words :: "string list \<Rightarrow> string" where
  "join_words [] = []"
| "join_words [w] = w"
| "join_words (w # ws) = w @ CHR '' '' # join_words ws"

section \<open>Hexadecimal\<close>

definition hex :: "bytes \<Rightarrow> string" where
  "hex h = concat (map hex_byte h)"

text \<open>\<open>hex_bytes\<close> is the same loop, on any bytes.\<close>

definition hex_id :: "NodeId \<Rightarrow> string" where
  "hex_id i = ''0x'' @ concat (map hex_byte (node_bytes i))"

definition nibble :: "char \<Rightarrow> nat option" where
  "nibble c =
     (let n = of_char c :: nat in
      if 48 \<le> n \<and> n \<le> 57 then Some (n - 48)
      else if 97 \<le> n \<and> n \<le> 102 then Some (n - 97 + 10)
      else if 65 \<le> n \<and> n \<le> 70 then Some (n - 65 + 10)
      else None)"

fun unhex_pairs :: "string \<Rightarrow> bytes option" where
  "unhex_pairs (a # b # cs) =
     (case (nibble a, nibble b) of
        (Some hi, Some lo) \<Rightarrow> map_option (\<lambda>bs. of_nat (16 * hi + lo) # bs) (unhex_pairs cs)
      | _ \<Rightarrow> None)"
| "unhex_pairs _ = Some []"

text \<open>The daemon refuses the empty string, the client does not.\<close>

definition unhex :: "string \<Rightarrow> bytes option" where
  "unhex s = (if s = [] \<or> odd (length s) then None else unhex_pairs s)"

definition cli_unhex :: "string \<Rightarrow> bytes option" where
  "cli_unhex s = (if odd (length s) then None else unhex_pairs s)"

definition printable :: "bytes \<Rightarrow> string" where
  "printable b = map (\<lambda>c. if 0x20 \<le> c \<and> c < 0x7F then char_of_byte c else CHR ''.'') b"

text \<open>\<open>parse_node_id\<close>: 32 hexadecimal digits, possibly after 0x, or a number. Two hexadecimal
  digits read by \<open>std::stoul\<close> are the byte that \<open>unhex_pairs\<close> reads.\<close>

definition parse_node_id :: "string \<Rightarrow> NodeId" where
  "parse_node_id s =
     (let h = (if length s > 2 \<and> s ! 0 = CHR ''0'' \<and> (s ! 1 = CHR ''x'' \<or> s ! 1 = CHR ''X'') then drop 2 s else s)
      in if length h = 32 \<and> list_all (\<lambda>c. c \<in> set ''0123456789abcdefABCDEF'') h
         then NodeId (the (unhex_pairs h))
         else node_id_of_u64 (strtoull s))"

definition parse_range :: "string list \<Rightarrow> nat \<Rightarrow> TimeRange" where
  "parse_range args at =
     (if at + 1 \<ge> length args then TimeRange_all
      else case (stoll (args ! at), stoll (args ! (at + 1))) of
        (Some lo, Some hi) \<Rightarrow> \<lparr>tr_lo = of_int lo, tr_hi = of_int hi\<rparr>
      | _ \<Rightarrow> TimeRange_all)"

section \<open>Round trips\<close>

lemma digit_char_simps:
  assumes "d < 10"
  shows "digit_value (digit_char d) = Some d" "is_digit 10 (digit_char d)" "\<not> is_space (digit_char d)"
    "digit_char d \<noteq> CHR ''-''" "digit_char d \<noteq> CHR ''+''"
proof -
  have "(48 + d) mod 256 = 48 + d" using assms by simp
  then have c: "(of_char (digit_char d) :: nat) = 48 + d" by (simp only: digit_char_def of_char_of)
  show "digit_value (digit_char d) = Some d" using assms by (simp add: digit_value_def Let_def c)
  then show "is_digit 10 (digit_char d)" using assms by (simp add: is_digit_def)
  have "(of_char (CHR '' '') :: nat) = 32" "(of_char (CHR ''-'') :: nat) = 45" "(of_char (CHR ''+'') :: nat) = 43"
    by simp_all
  then show "\<not> is_space (digit_char d)" "digit_char d \<noteq> CHR ''-''" "digit_char d \<noteq> CHR ''+''"
    using c by (auto simp: is_space_def)
qed

lemma decimal_digits: "list_all (is_digit 10) (decimal n)" "decimal n \<noteq> []"
  by (induction n rule: decimal.induct) (subst decimal.simps; simp add: digit_char_simps)+

lemma decimal_value: "foldl (\<lambda>n c. n * 10 + the (digit_value c)) 0 (decimal n) = n"
proof (induction n rule: decimal.induct)
  case (1 n)
  have d: "the (digit_value (digit_char (n mod 10))) = n mod 10" by (simp add: digit_char_simps)
  show ?case
  proof (cases "n < 10")
    case True
    then show ?thesis by (subst decimal.simps) (simp add: digit_char_simps)
  next
    case False
    then show ?thesis using 1 by (subst decimal.simps) (simp add: d)
  qed
qed

text \<open>A printed number is read back, whatever follows it that is not a digit.\<close>

lemma read_decimal:
  assumes "\<forall>c cs. rest = c # cs \<longrightarrow> \<not> is_digit 10 c"
  shows "read_digits 10 (decimal n @ rest) = n"
proof -
  have "takeWhile (is_digit 10) (decimal n @ rest) = decimal n"
    using decimal_digits(1) [of n] assms by (cases rest) (auto simp: takeWhile_append2 list_all_iff)
  then show ?thesis by (simp add: read_digits_def decimal_value)
qed

lemma decimal_head: "\<exists>d ds. decimal n = digit_char d # ds \<and> d < 10"
proof (induction n rule: decimal.induct)
  case (1 n)
  then show ?case
  proof (cases "n < 10")
    case True
    then show ?thesis by (subst decimal.simps) auto
  next
    case False
    then show ?thesis using 1 by (subst decimal.simps) auto
  qed
qed

lemma read_sign_decimal: "read_sign (decimal n @ rest) = (False, decimal n @ rest)"
  using decimal_head [of n] by (auto simp: read_sign_def digit_char_simps)

lemma read_int_to_string:
  assumes "\<forall>c cs. rest = c # cs \<longrightarrow> \<not> is_digit 10 c"
  shows "read_int (to_string i @ rest) = i"
proof (cases "i < 0")
  case True
  then have "read_sign (to_string i @ rest) = (True, decimal (nat (- i)) @ rest)"
    by (simp add: to_string_def read_sign_def is_space_def)
  then show ?thesis using True by (simp add: read_int_def read_decimal [OF assms])
next
  case False
  then show ?thesis
    by (simp add: read_int_def to_string_def read_sign_decimal read_decimal [OF assms])
qed

lemma atoi_to_string: "- (2 ^ 31) \<le> i \<Longrightarrow> i < 2 ^ 31 \<Longrightarrow> atoi (to_string i) = Inr i"
  using read_int_to_string [of "[]" i] by (simp add: atoi_def)

lemma stoll_to_string: "- (2 ^ 63) \<le> i \<Longrightarrow> i < 2 ^ 63 \<Longrightarrow> stoll (to_string i) = Some i"
proof -
  have "\<exists>d ds. snd (read_sign (to_string i)) = digit_char d # ds \<and> d < 10"
  proof (cases "i < 0")
    case True
    then show ?thesis using decimal_head by (simp add: to_string_def read_sign_def is_space_def)
  next
    case False
    then show ?thesis using decimal_head read_sign_decimal [of _ "[]"] by (simp add: to_string_def)
  qed
  then show "- (2 ^ 63) \<le> i \<Longrightarrow> i < 2 ^ 63 \<Longrightarrow> stoll (to_string i) = Some i"
    using read_int_to_string [of "[]" i] by (auto simp: stoll_def digit_char_simps)
qed

lemma nibble_hex: "k < 16 \<Longrightarrow> nibble (hex_digits ! k) = Some k"
proof -
  have "list_all (\<lambda>k. nibble (hex_digits ! k) = Some k) [0..<16]" by code_simp
  then show "k < 16 \<Longrightarrow> nibble (hex_digits ! k) = Some k" by (simp add: list_all_iff)
qed

lemma hex_digit_char: "k < 16 \<Longrightarrow> hex_digits ! k \<in> set ''0123456789abcdefABCDEF''"
proof -
  have "list_all (\<lambda>k. hex_digits ! k \<in> set ''0123456789abcdefABCDEF'') [0..<16]" by code_simp
  then show "k < 16 \<Longrightarrow> ?thesis" by (simp only: list_all_iff) simp
qed

lemma byte_nibbles:
  fixes b :: byte
  shows "unat (drop_bit 4 b) < 16" "unat (b AND 0x0F) < 16" "of_nat (16 * unat (drop_bit 4 b) + unat (b AND 0x0F)) = b"
proof -
  have m: "b AND 0x0F = take_bit 4 b" by (simp add: take_bit_eq_mask mask_eq_exp_minus_1)
  have "unat (drop_bit 4 b) = drop_bit 4 (unat b)" by (simp only: unsigned_drop_bit_eq take_bit_nat_eq_self unsigned_less)
  then have hi: "unat (drop_bit 4 b) = unat b div 16" by (simp add: drop_bit_eq_div)
  have "unat b < 256" using unsigned_less [of b, where 'a = nat] by simp
  then show "unat (drop_bit 4 b) < 16" unfolding hi by simp
  have "unat (b AND 0x0F) = take_bit 4 (unat b)" unfolding m by (rule unsigned_take_bit_eq)
  then have lo: "unat (b AND 0x0F) = unat b mod 16" by (simp add: take_bit_eq_mod)
  then show "unat (b AND 0x0F) < 16" by simp
  have "16 * unat (drop_bit 4 b) + unat (b AND 0x0F) = unat b"
    unfolding hi lo by simp
  then show "of_nat (16 * unat (drop_bit 4 b) + unat (b AND 0x0F)) = b" by simp
qed

lemma length_hex [simp]: "length (hex b) = 2 * length b"
  by (induction b) (simp_all add: hex_def hex_byte_def)

lemma unhex_pairs_hex [simp]: "unhex_pairs (hex b) = Some b"
  by (induction b) (simp_all add: hex_def hex_byte_def nibble_hex byte_nibbles del: of_nat_add of_nat_mult)

lemma unhex_hex: "b \<noteq> [] \<Longrightarrow> unhex (hex b) = Some b" "cli_unhex (hex b) = Some b"
  using length_hex [of b] by (auto simp: unhex_def cli_unhex_def simp del: length_hex)

lemma hex_all_digits: "list_all (\<lambda>c. c \<in> set ''0123456789abcdefABCDEF'') (hex b)"
  by (induction b) (simp_all only: hex_def hex_byte_def list.map concat.simps list_all_append list.pred_inject
    hex_digit_char byte_nibbles simp_thms append.simps)

lemma show_node_id_hex: "show_node_id i = ''0x'' @ hex (node_bytes i)" "hex_id = show_node_id"
  by (simp_all add: show_node_id_def hex_id_def hex_def fun_eq_iff)

lemma parse_show_node_id:
  assumes "wf_node_id i"
  shows "parse_node_id (show_node_id i) = i" "parse_node_id (hex (node_bytes i)) = i"
proof -
  have l: "length (hex (node_bytes i)) = 32" using assms by (simp add: wf_node_id_def)
  show "parse_node_id (show_node_id i) = i"
    using l hex_all_digits [of "node_bytes i"]
    by (simp add: parse_node_id_def show_node_id_hex(1) del: length_hex)
  have "hex (node_bytes i) ! 1 \<in> set (hex (node_bytes i))" using l by (intro nth_mem) simp
  then have "hex (node_bytes i) ! 1 \<in> set ''0123456789abcdefABCDEF''"
    using hex_all_digits [of "node_bytes i"] unfolding list_all_iff by blast
  then have "hex (node_bytes i) ! 1 \<noteq> CHR ''x''" "hex (node_bytes i) ! 1 \<noteq> CHR ''X''" by auto
  then show "parse_node_id (hex (node_bytes i)) = i"
    using l hex_all_digits [of "node_bytes i"] by (simp add: parse_node_id_def del: length_hex)
qed

end
