(* ===== verification/File_Store.thy ===== *)
theory File_Store
  imports Text
begin

text \<open>
  Files: the snapshot files of \<open>src/adapters/os/store.hpp\<close>. A file system is a partial map from
  paths to contents; what the operating system answers is an argument. An operation yields all the
  states of the file system it goes through, so that a crash after any of them can be spoken of.
\<close>

type_synonym Files = "string \<Rightarrow> bytes option"

section \<open>Operations\<close>

definition file_load :: "string \<Rightarrow> Files \<Rightarrow> bytes option" where
  "file_load path fs =
     (case fs path of
        None \<Rightarrow> None
      | Some b \<Rightarrow> if b = [] then None else Some b)"

text \<open>The answers to the calls of \<open>save\<close>: whether the temporary file opens, how many bytes are
  written (all of them or not), whether the file is installed and whether a leftover is removed.\<close>

record SaveCalls =
  sv_open :: bool
  sv_written :: nat
  sv_rename :: bool
  sv_remove :: bool

definition tmp_of :: "string \<Rightarrow> string" where
  "tmp_of path = path @ ''.tmp''"

definition remove_file :: "bool \<Rightarrow> string \<Rightarrow> Files \<Rightarrow> Files" where
  "remove_file done path fs = (if done then fs(path := None) else fs)"

text \<open>\<open>save\<close> with the states it goes through, the last one first.\<close>

definition file_save :: "SaveCalls \<Rightarrow> string \<Rightarrow> bytes \<Rightarrow> Files \<Rightarrow> unit result \<times> Files list" where
  "file_save calls path blob fs =
     (let tmp = tmp_of path in
      if \<not> sv_open calls then (Inl File_failure, [fs])
      else
        let created = fs(tmp \<mapsto> []); written = fs(tmp \<mapsto> take (sv_written calls) blob) in
        if sv_written calls < length blob
        then (Inl File_failure, [remove_file (sv_remove calls) tmp written, written, created, fs])
        else if \<not> sv_rename calls
        then (Inl File_failure, [remove_file (sv_remove calls) tmp written, written, created, fs])
        else (Inr (), [(written(path := written tmp))(tmp := None), written, created, fs]))"

section \<open>Crashes and round trips\<close>

lemma tmp_of_neq [simp]: "tmp_of path \<noteq> path" "path \<noteq> tmp_of path"
  by (simp_all add: tmp_of_def)

text \<open>C26: A backup is all or nothing: in whatever state the saving of a snapshot stops, the file holds
  its old content or the whole snapshot, and no other file but the temporary one has changed; when
  it reports success the snapshot is there and is what loading returns, and when it fails the old
  content is.\<close>

theorem backup_atomic:
  assumes "file_save calls path blob fs = (r, states)" "blob \<noteq> []"
  shows "(\<forall>st \<in> set states. st path \<in> {fs path, Some blob} \<and> (\<forall>q. q \<notin> {path, tmp_of path} \<longrightarrow> st q = fs q)) \<and>
    (r = Inr () \<longrightarrow> file_load path (hd states) = Some blob \<and> hd states (tmp_of path) = None) \<and>
    (r \<noteq> Inr () \<longrightarrow> hd states path = fs path)"
  using assms by (auto simp: file_save_def file_load_def remove_file_def Let_def split: if_splits)

theorem backup_atomic_witness:
  "file_load ''a'' (hd (snd (file_save \<lparr>sv_open = True, sv_written = 3, sv_rename = True, sv_remove = True\<rparr>
     ''a'' [1, 2, 3] (\<lambda>_. None)))) = Some [1, 2, 3]"
  using backup_atomic [of "\<lparr>sv_open = True, sv_written = 3, sv_rename = True, sv_remove = True\<rparr>" "''a''" "[1, 2, 3]" "\<lambda>_. None"]
  by (simp add: file_save_def Let_def)

end
