(* ===== verification/Control.thy ===== *)
theory Control
  imports Text
begin

text \<open>
  The control channel between the daemon and its command-line client
  (\<open>src/adapters/os/control.hpp\<close>): the reply as the daemon writes it and as the client reads it
  back, whatever pieces the stream arrives in. The results of the system calls are arguments.
\<close>

abbreviation LF :: char where "LF \<equiv> CHR 0x0A"
abbreviation TAB :: char where "TAB \<equiv> CHR 0x09"

type_synonym ControlFields = "(string \<times> string) list"

record ControlReply =
  rp_ok :: bool
  rp_code :: int
  rp_message :: string
  rp_fields :: ControlFields

definition kControlVersion :: string where
  "kControlVersion = ''LOTI/1''"

section \<open>The server\<close>

definition format_reply :: "int \<Rightarrow> string \<Rightarrow> ControlFields \<Rightarrow> string" where
  "format_reply code error fs =
     kControlVersion @
     (if error = [] then '' OK '' @ to_string code @ [LF]
      else '' ERR '' @ to_string code @ '' '' @ error @ [LF]) @
     concat (map (\<lambda>(k, v). k @ [TAB] @ v @ [LF]) fs) @ [LF]"

text \<open>\<open>w k\<close> is the result of the k-th \<open>write\<close>. Returns whether all was written, and what was.\<close>

function write_all :: "(nat \<Rightarrow> int) \<Rightarrow> nat \<Rightarrow> 'a list \<Rightarrow> bool \<times> 'a list" where
  "write_all w k s =
     (if s = [] then (True, [])
      else let n = w k in
        if n \<le> 0 then (False, [])
        else let (ok, d) = write_all w (Suc k) (drop (nat n) s) in (ok, take (nat n) s @ d))"
  by auto
termination
  by (relation "measure (\<lambda>(w, k, s). length s)") (auto simp: nat_0_iff neq_Nil_conv)

declare write_all.simps [simp del]

section \<open>The client\<close>

text \<open>\<open>std::string::find\<close> from a position. The position after one that was not found is zero, since
  \<open>npos\<close> is the largest \<open>size_t\<close>.\<close>

definition find_from :: "char \<Rightarrow> string \<Rightarrow> nat \<Rightarrow> nat option" where
  "find_from c s pos =
     (let i = pos + length (takeWhile (\<lambda>x. x \<noteq> c) (drop pos s)) in if i < length s then Some i else None)"

definition after_pos :: "nat option \<Rightarrow> nat" where
  "after_pos p = (case p of None \<Rightarrow> 0 | Some i \<Rightarrow> i + 1)"

text \<open>The characters from one position up to another, or to the end.\<close>

definition between :: "string \<Rightarrow> nat \<Rightarrow> nat option \<Rightarrow> string" where
  "between s i j = (case j of None \<Rightarrow> drop i s | Some j \<Rightarrow> take (j - i) (drop i s))"

text \<open>The status line; no value when it is malformed.\<close>

definition parse_status :: "string \<Rightarrow> (bool \<times> int \<times> string) option result" where
  "parse_status status =
     (let s1 = find_from CHR '' '' status 0;
          s2 = find_from CHR '' '' status (after_pos s1);
          s3 = find_from CHR '' '' status (after_pos s2)
      in case (s1, s2) of
        (Some i1, Some i2) \<Rightarrow>
          (let ok = (between status (i1 + 1) (Some i2) = ''OK'')
           in bindE (atoi (between status (i2 + 1) s3)) (\<lambda>code.
             Inr (Some (ok, code,
               (case s3 of Some i3 \<Rightarrow> if ok then [] else drop (i3 + 1) status | None \<Rightarrow> [])))))
      | _ \<Rightarrow> Inr None)"

definition next_line :: "string \<Rightarrow> string \<times> string" where
  "next_line buf = (takeWhile (\<lambda>c. c \<noteq> LF) buf, drop 1 (dropWhile (\<lambda>c. c \<noteq> LF) buf))"

definition parse_field :: "string \<Rightarrow> string \<times> string" where
  "parse_field line =
     (case find_from TAB line 0 of
        None \<Rightarrow> (line, [])
      | Some tab \<Rightarrow> (take tab line, drop (tab + 1) line))"

function parse_fields :: "string \<Rightarrow> ControlFields" where
  "parse_fields buf =
     (if buf = [] then []
      else let (line, rest) = next_line buf in
        if line = [] then [] else parse_field line # parse_fields rest)"
  by auto
termination
proof (relation "measure length")
  fix buf :: string and p line rest
  assume "buf \<noteq> []" "p = next_line buf" "(line, rest) = p"
  then have "rest = drop 1 (dropWhile (\<lambda>c. c \<noteq> LF) buf)" by (simp add: next_line_def)
  then show "(rest, buf) \<in> measure length"
    using \<open>buf \<noteq> []\<close> length_dropWhile_le [of "\<lambda>c. c \<noteq> LF" buf] by (cases buf) auto
qed auto

declare parse_fields.simps [simp del]

definition parse_reply :: "string \<Rightarrow> ControlReply option result" where
  "parse_reply buf =
     (if buf = [] then Inr None
      else let (status, rest) = next_line buf in
        bindE (parse_status status) (\<lambda>st.
          Inr (case st of
            None \<Rightarrow> None
          | Some (ok, code, message) \<Rightarrow>
              Some \<lparr>rp_ok = ok, rp_code = code, rp_message = message, rp_fields = parse_fields rest\<rparr>)))"

fun has_blank_line :: "string \<Rightarrow> bool" where
  "has_blank_line (a # b # cs) \<longleftrightarrow> a = LF \<and> b = LF \<or> has_blank_line (b # cs)"
| "has_blank_line _ \<longleftrightarrow> False"

text \<open>The loop over \<open>read\<close>: a piece of the stream, nothing when the server has closed it, or an
  error. When no more arrives the client waits forever.\<close>

datatype Read = Data string | Closed | Read_failed

fun read_reply :: "string \<Rightarrow> Read list \<Rightarrow> string option result" where
  "read_reply buf [] = Inl Diverges"
| "read_reply buf (Read_failed # rs) = Inr None"
| "read_reply buf (Closed # rs) = Inr (Some buf)"
| "read_reply buf (Data c # rs) = (if has_blank_line (buf @ c) then Inr (Some (buf @ c)) else read_reply (buf @ c) rs)"

text \<open>The request as the daemon receives it, and the reply.\<close>

definition control_request :: "bool \<Rightarrow> (nat \<Rightarrow> int) \<Rightarrow> Read list \<Rightarrow> string \<Rightarrow> (string \<times> ControlReply option) result" where
  "control_request connected w reads request =
     (if \<not> connected then Inr ([], None)
      else let (ok, sent) = write_all w 0 (request @ [LF]) in
        if \<not> ok then Inr (sent, None)
        else bindE (read_reply [] reads) (\<lambda>buf.
          case buf of
            None \<Rightarrow> Inr (sent, None)
          | Some b \<Rightarrow> bindE (parse_reply b) (\<lambda>r. Inr (sent, r))))"

section \<open>Writing\<close>

lemma write_all_complete: "write_all w k s = (True, d) \<Longrightarrow> d = s"
proof (induction w k s arbitrary: d rule: write_all.induct)
  case (1 w k s)
  show ?case
  proof (cases "s = [] \<or> w k \<le> 0")
    case False
    obtain ok d' where d': "write_all w (Suc k) (drop (nat (w k)) s) = (ok, d')" by fastforce
    then have ok: "ok" "d = take (nat (w k)) s @ d'"
      using "1.prems" False by (auto simp: write_all.simps [of w k s] Let_def)
    have "d' = drop (nat (w k)) s" using "1.IH" [of "w k" d'] False d' ok(1) by simp
    then show ?thesis using ok(2) by simp
  qed (use "1.prems" in \<open>auto simp: write_all.simps [of w k s] Let_def split: if_splits\<close>)
qed

lemma write_all_partial: "\<exists>rest. s = snd (write_all w k s) @ rest"
proof (induction w k s rule: write_all.induct)
  case (1 w k s)
  show ?case
  proof (cases "s = [] \<or> w k \<le> 0")
    case False
    then obtain rest where "drop (nat (w k)) s = snd (write_all w (Suc k) (drop (nat (w k)) s)) @ rest" using 1 by auto
    then have "s = take (nat (w k)) s @ snd (write_all w (Suc k) (drop (nat (w k)) s)) @ rest"
      by (metis append_take_drop_id)
    then show ?thesis using False by (auto simp: write_all.simps [of w k s] Let_def case_prod_beta)
  qed (auto simp: write_all.simps [of w k s])
qed

section \<open>Reading back\<close>

lemma find_from_split:
  assumes "c \<notin> set xs" "pos = length ps"
  shows "find_from c (ps @ xs @ c # ys) pos = Some (length ps + length xs)"
    "find_from c (ps @ xs) pos = None"
proof -
  have t: "takeWhile (\<lambda>x. x \<noteq> c) xs = xs" "takeWhile (\<lambda>x. x \<noteq> c) (xs @ c # ys) = xs"
    using assms(1) by (induction xs) auto
  show "find_from c (ps @ xs @ c # ys) pos = Some (length ps + length xs)"
    "find_from c (ps @ xs) pos = None" using assms(2) by (simp_all add: find_from_def t)
qed

lemma next_line_line:
  assumes "LF \<notin> set line"
  shows "next_line (line @ LF # rest) = (line, rest)"
proof -
  have "takeWhile (\<lambda>c. c \<noteq> LF) (line @ LF # rest) = line" "dropWhile (\<lambda>c. c \<noteq> LF) (line @ LF # rest) = LF # rest"
    using assms by (induction line) auto
  then show ?thesis by (simp add: next_line_def)
qed

lemma parse_field_line: "TAB \<notin> set k \<Longrightarrow> parse_field (k @ TAB # v) = (k, v)"
  using find_from_split(1) [of TAB k 0 "[]" v] by (simp add: parse_field_def)

text \<open>Fields that survive the line protocol.\<close>

definition safe_field :: "string \<times> string \<Rightarrow> bool" where
  "safe_field f \<longleftrightarrow> TAB \<notin> set (fst f) \<and> LF \<notin> set (fst f) \<and> LF \<notin> set (snd f)"

definition field_lines :: "ControlFields \<Rightarrow> string" where
  "field_lines fs = concat (map (\<lambda>(k, v). k @ [TAB] @ v @ [LF]) fs)"

lemma parse_fields_lines:
  assumes "list_all safe_field fs"
  shows "parse_fields (field_lines fs @ [LF]) = fs"
  using assms
proof (induction fs)
  case Nil
  then show ?case by (subst parse_fields.simps) (simp add: field_lines_def next_line_def)
next
  case (Cons f fs)
  obtain k v where f: "f = (k, v)" by (cases f)
  have "next_line ((k @ TAB # v) @ LF # field_lines fs @ [LF]) = (k @ TAB # v, field_lines fs @ [LF])"
    using Cons.prems f by (intro next_line_line) (auto simp: safe_field_def)
  then have n: "next_line (field_lines (f # fs) @ [LF]) = (k @ TAB # v, field_lines fs @ [LF])"
    by (simp add: field_lines_def f)
  have "TAB \<notin> set k" using Cons.prems f by (simp add: safe_field_def)
  then show ?case using Cons n by (subst parse_fields.simps) (simp add: parse_field_line f)
qed

lemma to_string_chars: "c \<in> set (to_string i) \<Longrightarrow> c = CHR ''-'' \<or> is_digit 10 c"
  using decimal_digits(1) by (auto simp: to_string_def list_all_iff split: if_splits)

lemma digit_plain: "\<not> is_digit 10 (CHR '' '')" "\<not> is_digit 10 LF" "\<not> is_digit 10 TAB"
  by (simp_all add: is_digit_def digit_value_def)

lemma to_string_plain: "CHR '' '' \<notin> set (to_string i)" "LF \<notin> set (to_string i)" "TAB \<notin> set (to_string i)"
  using to_string_chars [of _ i] digit_plain by fastforce+

lemma parse_status_OK:
  assumes "- (2 ^ 31) \<le> code" "code < 2 ^ 31"
  shows "parse_status (''LOTI/1 OK '' @ to_string code) = Inr (Some (True, code, []))"
proof -
  let ?s = "''LOTI/1 OK '' @ to_string code"
  have "find_from CHR '' '' ?s 0 = Some 6" using find_from_split(1) [of "CHR '' ''" "''LOTI/1''" 0 "[]"] by simp
  moreover have "find_from CHR '' '' ?s 7 = Some 9"
    using find_from_split(1) [of "CHR '' ''" "''OK''" 7 "''LOTI/1 ''"] by simp
  moreover have "find_from CHR '' '' ?s 10 = None"
    using find_from_split(2) [of "CHR '' ''" "to_string code" 10 "''LOTI/1 OK ''"] to_string_plain by simp
  ultimately show ?thesis
    using atoi_to_string [OF assms] by (simp add: parse_status_def Let_def after_pos_def between_def numeral_eq_Suc)
qed

lemma parse_status_ERR:
  assumes "- (2 ^ 31) \<le> code" "code < 2 ^ 31"
  shows "parse_status (''LOTI/1 ERR '' @ to_string code @ '' '' @ error) = Inr (Some (False, code, error))"
proof -
  let ?s = "''LOTI/1 ERR '' @ to_string code @ '' '' @ error"
  have "find_from CHR '' '' ?s 0 = Some 6" using find_from_split(1) [of "CHR '' ''" "''LOTI/1''" 0 "[]"] by simp
  moreover have "find_from CHR '' '' ?s 7 = Some 10"
    using find_from_split(1) [of "CHR '' ''" "''ERR''" 7 "''LOTI/1 ''"] by simp
  moreover have "find_from CHR '' '' ?s 11 = Some (11 + length (to_string code))"
    using find_from_split(1) [of "CHR '' ''" "to_string code" 11 "''LOTI/1 ERR ''" error] to_string_plain by simp
  ultimately show ?thesis
    using atoi_to_string [OF assms] by (simp add: parse_status_def Let_def after_pos_def between_def numeral_eq_Suc)
qed

lemma has_blank_line_append: "has_blank_line xs \<Longrightarrow> has_blank_line (xs @ ys)"
  by (induction xs rule: has_blank_line.induct) auto

lemma has_blank_line_skip:
  assumes "LF \<notin> set l"
  shows "has_blank_line (l @ LF # rest) \<longleftrightarrow> has_blank_line (LF # rest)"
  using assms
proof (induction l)
  case (Cons a l)
  then show ?case by (cases l) auto
qed simp

lemma lines_no_blank:
  assumes "list_all (\<lambda>l. l \<noteq> [] \<and> LF \<notin> set l) ls"
  shows "\<not> has_blank_line (LF # concat (map (\<lambda>l. l @ [LF]) ls))"
  using assms
proof (induction ls)
  case (Cons l ls)
  then show ?case using has_blank_line_skip [of l] by (cases l) auto
qed simp

text \<open>The reply as lines: the blank line is at its end and nowhere before.\<close>

definition status_line :: "int \<Rightarrow> string \<Rightarrow> string" where
  "status_line code error = kControlVersion @
     (if error = [] then '' OK '' @ to_string code else '' ERR '' @ to_string code @ '' '' @ error)"

lemma format_reply_lines:
  "format_reply code error fs = status_line code error @ LF # field_lines fs @ [LF]"
  by (simp add: format_reply_def status_line_def field_lines_def)

lemma blank_line_last:
  assumes "list_all safe_field fs" "LF \<notin> set error" "p @ q = format_reply code error fs" "has_blank_line p"
  shows "q = []"
proof (rule ccontr)
  assume "q \<noteq> []"
  then obtain q' x where q: "q = q' @ [x]" by (cases q rule: rev_cases) auto
  define ls where "ls = map (\<lambda>(k, v). k @ [TAB] @ v) fs"
  have "field_lines fs = concat (map (\<lambda>l. l @ [LF]) ls)"
    unfolding field_lines_def ls_def map_map by (intro arg_cong [where f = concat] map_cong) auto
  moreover have "list_all (\<lambda>l. l \<noteq> [] \<and> LF \<notin> set l) ls"
    using assms(1) by (auto simp: ls_def list_all_iff safe_field_def)
  moreover have "LF \<notin> set (status_line code error)"
    using assms(2) to_string_plain by (auto simp: status_line_def kControlVersion_def)
  ultimately have "\<not> has_blank_line (status_line code error @ LF # field_lines fs)"
    by (simp add: has_blank_line_skip lines_no_blank)
  moreover have "(p @ q') @ [x] = (status_line code error @ LF # field_lines fs) @ [LF]"
    using assms(3) unfolding format_reply_lines q by simp
  then have "p @ q' = status_line code error @ LF # field_lines fs" by blast
  ultimately show False using has_blank_line_append [OF assms(4), of q'] by simp
qed

text \<open>Whatever pieces the reply arrives in, the client reads all of it before it stops.\<close>

lemma read_reply_whole:
  assumes "list_all safe_field fs" "LF \<notin> set error" "buf @ concat cs = format_reply code error fs"
    and "\<not> has_blank_line buf"
  shows "read_reply buf (map Data cs @ Closed # rs) = Inr (Some (format_reply code error fs))"
  using assms(3,4)
proof (induction cs arbitrary: buf)
  case (Cons c cs)
  show ?case
  proof (cases "has_blank_line (buf @ c)")
    case True
    then have e: "concat cs = []" using blank_line_last [OF assms(1,2), of "buf @ c" "concat cs"] Cons.prems by simp
    have "buf @ c = format_reply code error fs" using Cons.prems(1) unfolding concat.simps e by simp
    then show ?thesis using True by simp
  qed (use Cons in simp)
qed simp

lemma parse_reply_format:
  assumes "list_all safe_field fs" "LF \<notin> set error" "- (2 ^ 31) \<le> code" "code < 2 ^ 31"
  shows "parse_reply (format_reply code error fs) =
    Inr (Some \<lparr>rp_ok = (error = []), rp_code = code, rp_message = error, rp_fields = fs\<rparr>)"
proof -
  have "LF \<notin> set (status_line code error)"
    using assms(2) to_string_plain by (auto simp: status_line_def kControlVersion_def)
  then have "next_line (format_reply code error fs) = (status_line code error, field_lines fs @ [LF])"
    unfolding format_reply_lines by (rule next_line_line)
  moreover have "parse_status (status_line code error) = Inr (Some (error = [], code, error))"
    using parse_status_OK [OF assms(3,4)] parse_status_ERR [OF assms(3,4), of error]
    by (auto simp: status_line_def kControlVersion_def)
  moreover have "format_reply code error fs \<noteq> []" by (simp add: format_reply_def)
  ultimately show ?thesis by (simp add: parse_reply_def parse_fields_lines [OF assms(1)])
qed

text \<open>The client sees exactly what the daemon answered: for fields without line breaks and keys
  without tabs, in whatever pieces the stream delivers the reply, the request ends with the code,
  the message and the fields that were written, and the daemon has received the whole request line.\<close>

lemma control_round_trip:
  assumes "list_all safe_field fs" "LF \<notin> set error" "- (2 ^ 31) \<le> code" "code < 2 ^ 31"
    and "concat cs = format_reply code error fs" and "fst (write_all w 0 (request @ [LF]))"
  shows "control_request True w (map Data cs @ Closed # rs) request =
    Inr (request @ [LF], Some \<lparr>rp_ok = (error = []), rp_code = code, rp_message = error, rp_fields = fs\<rparr>)"
proof -
  have "write_all w 0 (request @ [LF]) = (True, request @ [LF])"
    using assms(6) write_all_complete by (metis prod.collapse)
  then show ?thesis
    using read_reply_whole [OF assms(1,2), of "[]" cs code rs] assms(5)
    by (simp add: control_request_def parse_reply_format [OF assms(1-4)])
qed

end
