(* ===== verification/Keystore.thy ===== *)
theory Keystore
  imports File_Store Control Proof_Format Own_Discovery
begin

text \<open>
  Identities: the Ed25519 key store of \<open>src/adapters/os/keystore.cpp\<close> and the null signers. OpenSSL
  is a parameter, the record \<open>Ed25519\<close> of the calls the code makes; what its documentation says of
  keys and signatures is the predicate \<open>ed25519_laws\<close>. A call that fails yields no value.
\<close>

section \<open>OpenSSL\<close>

record 'k Ed25519 =
  ed_keygen :: "'k option"
  ed_public :: "'k \<Rightarrow> bytes option"
  ed_private :: "'k \<Rightarrow> bytes option"
  ed_from_private :: "bytes \<Rightarrow> 'k option"
  ed_from_public :: "bytes \<Rightarrow> 'k option"
  ed_sign :: "'k \<Rightarrow> bytes \<Rightarrow> bytes option"
  ed_verify :: "'k \<Rightarrow> bytes \<Rightarrow> bytes \<Rightarrow> bool"

text \<open>The documented behaviour: a signature verifies under the public key of the key that made it,
  and a key rebuilt from the raw private key has the same public key.\<close>

definition ed25519_laws :: "'k Ed25519 \<Rightarrow> bool" where
  "ed25519_laws E \<longleftrightarrow>
     (\<forall>k p m s. ed_public E k = Some p \<longrightarrow> ed_sign E k m = Some s \<longrightarrow>
        (\<exists>pk. ed_from_public E p = Some pk \<and> ed_verify E pk s m)) \<and>
     (\<forall>k r. ed_private E k = Some r \<longrightarrow> (\<exists>k'. ed_from_private E r = Some k' \<and> ed_public E k' = ed_public E k))"

lemmas ed25519_signs = ed25519_laws_def [THEN iffD1, THEN conjunct1, rule_format]
lemmas ed25519_reload = ed25519_laws_def [THEN iffD1, THEN conjunct2, rule_format]

section \<open>The key store\<close>

definition kEd25519Raw :: nat where "kEd25519Raw = 32"
definition kEd25519Sig :: nat where "kEd25519Sig = 64"

record 'k KeyStore =
  ks_pkey :: 'k
  ks_public_key :: bytes

definition adopt_generated :: "'k Ed25519 \<Rightarrow> 'k \<Rightarrow> 'k KeyStore result" where
  "adopt_generated E k =
     (case ed_public E k of
        None \<Rightarrow> Inl Key_failure
      | Some p \<Rightarrow> if length p \<noteq> kEd25519Raw then Inl Key_failure else Inr \<lparr>ks_pkey = k, ks_public_key = p\<rparr>)"

definition make_keystore :: "'k Ed25519 \<Rightarrow> 'k KeyStore result" where
  "make_keystore E =
     (case ed_keygen E of None \<Rightarrow> Inl Key_failure | Some k \<Rightarrow> adopt_generated E k)"

definition set_private_key :: "'k Ed25519 \<Rightarrow> bytes \<Rightarrow> 'k KeyStore result" where
  "set_private_key E raw =
     (if length raw \<noteq> kEd25519Raw then Inl Key_failure
      else case ed_from_private E raw of None \<Rightarrow> Inl Key_failure | Some k \<Rightarrow> adopt_generated E k)"

text \<open>The answers to the calls: whether the key file can be read, and those that persist a new key.\<close>

record KeyCalls =
  kc_read :: bool
  kc_open :: bool
  kc_write :: "nat \<Rightarrow> int"
  kc_close :: bool
  kc_rename :: bool

text \<open>A key that can be read from disk wins; otherwise the generated key is persisted. Every failure
  removes the temporary file.\<close>

definition load_or_generate ::
    "'k Ed25519 \<Rightarrow> KeyCalls \<Rightarrow> string \<Rightarrow> Files \<Rightarrow> 'k KeyStore \<Rightarrow> 'k KeyStore result \<times> Files" where
  "load_or_generate E calls path fs ks =
     (if fs path \<noteq> None \<and> kc_read calls then (set_private_key E (the (fs path)), fs)
      else case ed_private E (ks_pkey ks) of
        None \<Rightarrow> (Inl Key_failure, fs)
      | Some raw \<Rightarrow>
        if length raw \<noteq> kEd25519Raw then (Inl Key_failure, fs)
        else
          let tmp = tmp_of path; fs = fs(tmp := None) in
          if \<not> kc_open calls then (Inl Key_failure, fs)
          else
            let (ok, written) = write_all (kc_write calls) 0 raw; fs = fs(tmp \<mapsto> written) in
            if \<not> ok then (Inl Key_failure, fs(tmp := None))
            else if \<not> kc_close calls then (Inl Key_failure, fs(tmp := None))
            else if \<not> kc_rename calls then (Inl Key_failure, fs(tmp := None))
            else (Inr ks, (fs(path := fs tmp))(tmp := None)))"

definition keystore_sign :: "'k Ed25519 \<Rightarrow> 'k KeyStore \<Rightarrow> bytes \<Rightarrow> Signature result" where
  "keystore_sign E ks message =
     (case ed_sign E (ks_pkey ks) message of
        None \<Rightarrow> Inl Key_failure
      | Some sig \<Rightarrow> if length sig \<noteq> kEd25519Sig then Inl Key_failure else Inr (sig @ ks_public_key ks))"

definition keystore_fingerprint :: "bytes \<Rightarrow> NodeId" where
  "keystore_fingerprint public_key =
     (let digest = sha256 public_key
      in NodeId (foldl (\<lambda>bs i. if i < length digest then bs[i := digest ! i] else bs) (replicate 16 0) [0..<16]))"

definition keystore_verify :: "'k Ed25519 \<Rightarrow> verifier" where
  "keystore_verify E message signature signer \<longleftrightarrow>
     (if signature = [] then False
      else if length signature \<noteq> kEd25519Sig + kEd25519Raw then False
      else let pub = drop kEd25519Sig signature in
        if keystore_fingerprint pub \<noteq> signer then False
        else case ed_from_public E pub of
          None \<Rightarrow> False
        | Some pk \<Rightarrow> ed_verify E pk (take kEd25519Sig signature) message)"

definition keystore_node_id :: "'k KeyStore \<Rightarrow> NodeId" where
  "keystore_node_id ks = keystore_fingerprint (ks_public_key ks)"

definition null_sign :: "bytes \<Rightarrow> Signature" where
  "null_sign message = []"

definition null_verify :: verifier where
  "null_verify message signature signer \<longleftrightarrow> True"

section \<open>Properties\<close>

lemma fingerprints_agree: "keystore_fingerprint = fingerprint"
  by (simp add: fun_eq_iff keystore_fingerprint_def fingerprint_def)

text \<open>A key store as the constructor or a reload leaves it.\<close>

definition keystore_ok :: "'k Ed25519 \<Rightarrow> 'k KeyStore \<Rightarrow> bool" where
  "keystore_ok E ks \<longleftrightarrow> ed_public E (ks_pkey ks) = Some (ks_public_key ks) \<and> length (ks_public_key ks) = kEd25519Raw"

lemma adopt_generated_ok: "adopt_generated E k = Inr ks \<Longrightarrow> keystore_ok E ks \<and> ks_pkey ks = k"
  by (auto simp: adopt_generated_def keystore_ok_def split: option.splits if_splits)

lemma keystores_ok:
  "make_keystore E = Inr ks \<Longrightarrow> keystore_ok E ks"
  "set_private_key E raw = Inr ks \<Longrightarrow> keystore_ok E ks"
  "load_or_generate E calls path fs ks0 = (Inr ks, fs') \<Longrightarrow> keystore_ok E ks0 \<Longrightarrow> keystore_ok E ks"
proof -
  show 1: "set_private_key E raw = Inr ks \<Longrightarrow> keystore_ok E ks" for raw
    by (auto simp: set_private_key_def dest: adopt_generated_ok split: option.splits if_splits)
  show "make_keystore E = Inr ks \<Longrightarrow> keystore_ok E ks"
    by (auto simp: make_keystore_def dest: adopt_generated_ok split: option.splits)
  show "load_or_generate E calls path fs ks0 = (Inr ks, fs') \<Longrightarrow> keystore_ok E ks0 \<Longrightarrow> keystore_ok E ks"
    using 1 by (auto simp: load_or_generate_def Let_def case_prod_beta split: option.splits if_splits)
qed

lemma keystore_verify_iff:
  "keystore_verify E m s i \<longleftrightarrow> length s = 96 \<and> fingerprint (drop 64 s) = i \<and>
     (\<exists>pk. ed_from_public E (drop 64 s) = Some pk \<and> ed_verify E pk (take 64 s) m)"
  by (auto simp: keystore_verify_def Let_def kEd25519Sig_def kEd25519Raw_def fingerprints_agree split: option.split)

lemma keystore_signs:
  assumes "ed25519_laws E" "keystore_ok E ks" "keystore_sign E ks m = Inr s"
  shows "keystore_verify E m s (keystore_node_id ks)"
proof -
  obtain sig where sig: "ed_sign E (ks_pkey ks) m = Some sig" "length sig = 64" "s = sig @ ks_public_key ks"
    using assms(3) by (auto simp: keystore_sign_def kEd25519Sig_def split: option.splits if_splits)
  then show ?thesis
    using ed25519_signs [OF assms(1) _ sig(1)] assms(2)
    by (auto simp: keystore_verify_iff keystore_ok_def keystore_node_id_def kEd25519Raw_def fingerprints_agree)
qed

text \<open>The ports of a node that signs with the key store.\<close>

definition keystore_ports :: "'k Ed25519 \<Rightarrow> 'k KeyStore \<Rightarrow> NodePorts \<Rightarrow> NodePorts" where
  "keystore_ports E ks p =
     p\<lparr>p_sign := (\<lambda>m. case keystore_sign E ks m of Inr s \<Rightarrow> s | Inl _ \<Rightarrow> []), p_verify := keystore_verify E\<rparr>"

lemma keystore_signs_as:
  assumes "ed25519_laws E" "keystore_ok E ks" "\<forall>m. \<exists>s. keystore_sign E ks m = Inr s"
  shows "signs_as (keystore_ports E ks p) (keystore_node_id ks)"
proof -
  have "keystore_verify E h (case keystore_sign E ks h of Inr s \<Rightarrow> s | Inl _ \<Rightarrow> []) (keystore_node_id ks)" for h
    using assms(3) [rule_format, of h] keystore_signs [OF assms(1,2)] by auto
  then show ?thesis by (simp add: signs_as_def keystore_ports_def)
qed

lemma generate_outcome:
  assumes "fs path = None \<or> \<not> kc_read calls" "load_or_generate E calls path fs ks = (r, fs')"
  shows "r = Inr ks \<and> (\<exists>raw. ed_private E (ks_pkey ks) = Some raw \<and> length raw = kEd25519Raw \<and>
      fs' = fs(path \<mapsto> raw, tmp_of path := None)) \<or>
    r = Inl Key_failure \<and> fs' path = fs path"
proof (cases "ed_private E (ks_pkey ks)")
  case (Some raw)
  obtain ok d where w: "write_all (kc_write calls) 0 raw = (ok, d)" by fastforce
  have "ok \<Longrightarrow> d = raw" using write_all_complete [of "kc_write calls" 0 raw d] w by simp
  then show ?thesis
    using assms Some w by (auto simp: load_or_generate_def Let_def fun_upd_twist split: if_splits)
qed (use assms in \<open>auto simp: load_or_generate_def\<close>)

text \<open>C27: An identity survives restarts: once a daemon without a key has generated and persisted one,
  every later start that can read the key file comes up with the same public key and the same
  node identity, whatever key it generated for itself meanwhile; and a start that fails to persist
  its key leaves the key file as it was.\<close>

theorem identity_persists:
  assumes "ed25519_laws E" "keystore_ok E ks" "fs path = None"
    and "load_or_generate E calls path fs ks = (r, fs')"
  shows "(r = Inr ks \<and> (\<forall>calls' ks'. kc_read calls' \<longrightarrow>
      (\<exists>ks''. load_or_generate E calls' path fs' ks' = (Inr ks'', fs') \<and>
        ks_public_key ks'' = ks_public_key ks \<and> keystore_node_id ks'' = keystore_node_id ks))) \<or>
    r = Inl Key_failure \<and> fs' path = None"
proof (cases "r = Inr ks")
  case True
  then obtain raw where raw: "ed_private E (ks_pkey ks) = Some raw" "length raw = kEd25519Raw" "fs' path = Some raw"
    using generate_outcome [OF _ assms(4)] assms(3) by auto
  obtain k where k: "ed_from_private E raw = Some k" "ed_public E k = Some (ks_public_key ks)"
    using ed25519_reload [OF assms(1) raw(1)] assms(2) by (auto simp: keystore_ok_def)
  have "load_or_generate E calls' path fs' ks' = (Inr \<lparr>ks_pkey = k, ks_public_key = ks_public_key ks\<rparr>, fs')"
    if "kc_read calls'" for calls' ks'
    using that raw k assms(2) by (simp add: load_or_generate_def set_private_key_def adopt_generated_def keystore_ok_def)
  then show ?thesis using True by (auto simp: keystore_node_id_def)
qed (use generate_outcome [OF _ assms(4)] assms(3) in auto)

text \<open>A signature scheme with the laws: the reference instance for the witnesses.\<close>

definition ref_signature :: "bytes \<Rightarrow> bytes \<Rightarrow> bytes" where
  "ref_signature k m = take 64 (k @ m @ replicate 64 0)"

definition ref_ed :: "bytes Ed25519" where
  "ref_ed = \<lparr>ed_keygen = Some (replicate 32 7), ed_public = Some, ed_private = Some, ed_from_private = Some,
     ed_from_public = Some, ed_sign = (\<lambda>k m. Some (ref_signature k m)), ed_verify = (\<lambda>k s m. s = ref_signature k m)\<rparr>"

lemma ref_ed_laws: "ed25519_laws ref_ed"
  by (simp add: ed25519_laws_def ref_ed_def)

definition ref_keystore :: "byte \<Rightarrow> bytes KeyStore" where
  "ref_keystore b = \<lparr>ks_pkey = replicate 32 b, ks_public_key = replicate 32 b\<rparr>"

lemma ref_keystore_ok: "keystore_ok ref_ed (ref_keystore b)"
  by (simp add: keystore_ok_def ref_ed_def ref_keystore_def kEd25519Raw_def)

lemma ref_keystore_sign: "keystore_sign ref_ed (ref_keystore b) m = Inr (ref_signature (replicate 32 b) m @ replicate 32 b)"
  by (simp add: keystore_sign_def ref_ed_def ref_keystore_def ref_signature_def kEd25519Sig_def)

definition all_succeed :: KeyCalls where
  "all_succeed = \<lparr>kc_read = True, kc_open = True, kc_write = (\<lambda>_. 32), kc_close = True, kc_rename = True\<rparr>"

theorem identity_persists_witness:
  "\<exists>fs ks. load_or_generate ref_ed all_succeed ''key'' (\<lambda>_. None) (ref_keystore 1) = (Inr (ref_keystore 1), fs) \<and>
     load_or_generate ref_ed all_succeed ''key'' fs (ref_keystore 2) = (Inr ks, fs) \<and>
     keystore_node_id ks = keystore_node_id (ref_keystore 1)"
proof -
  obtain r fs where f: "load_or_generate ref_ed all_succeed ''key'' (\<lambda>_. None) (ref_keystore 1) = (r, fs)" by fastforce
  have "write_all (\<lambda>_. 32) 0 (replicate 32 (1 :: byte)) = (True, replicate 32 1)"
    by (simp add: write_all.simps)
  then have "r = Inr (ref_keystore 1)"
    using f by (simp add: load_or_generate_def ref_ed_def ref_keystore_def all_succeed_def kEd25519Raw_def)
  moreover have "kc_read all_succeed" by (simp add: all_succeed_def)
  ultimately show ?thesis
    using identity_persists [OF ref_ed_laws ref_keystore_ok _ f] f by (metis Inr_not_Inl)
qed

text \<open>C28: What the key store accepts is attributable: in a chain that validates, every clock event and
  the event itself carries a signature of 96 bytes whose last 32 are a public key that hashes to the
  creator's identity, and under that key the first 64 sign the hash of its content; an unsigned
  element is never accepted, and one signature is accepted for one identity only.\<close>

theorem accepted_chain_attributed:
  assumes "cr_ok (verify_chain ch reference (keystore_verify E))" "l \<in> set (chain_links ch)"
  shows "length (ln_signature l) = 96 \<and> fingerprint (drop 64 (ln_signature l)) = ref_creator (ln_ref l) \<and>
    (\<exists>pk. ed_from_public E (drop 64 (ln_signature l)) = Some pk \<and>
      ed_verify E pk (take 64 (ln_signature l)) (sha256 (ln_preimage l))) \<and>
    (\<forall>m i. keystore_verify E m (ln_signature l) i \<longrightarrow> i = ref_creator (ln_ref l))"
  using assms by (auto simp: verify_chain_ok chain_sound_def authentic_def keystore_verify_iff)

definition signed_tick :: "byte \<Rightarrow> Timestamp \<Rightarrow> EventReference list \<Rightarrow> ClockEvent" where
  "signed_tick b t rs =
     (let c = \<lparr>ce_creator = keystore_node_id (ref_keystore b), ce_hash = [], ce_chain = 0, ce_timestamp = t, ce_salt = 5,
        ce_refs = rs, ce_signature = []\<rparr>;
          c = c\<lparr>ce_hash := calculate_clock_event_hash c\<rparr>
      in c\<lparr>ce_signature := ref_signature (replicate 32 b) (ce_hash c) @ replicate 32 b\<rparr>)"

definition signed_event :: "byte \<Rightarrow> EventReference list \<Rightarrow> Event" where
  "signed_event b rs =
     (let e = \<lparr>ev_creator = keystore_node_id (ref_keystore b), ev_hash = [], ev_data = [1, 2, 3], ev_salt = 6,
        ev_refs = rs, ev_signature = []\<rparr>;
          e = e\<lparr>ev_hash := calculate_event_hash e\<rparr>
      in e\<lparr>ev_signature := ref_signature (replicate 32 b) (ev_hash e) @ replicate 32 b\<rparr>)"

definition signed_chain :: EventChain where
  "signed_chain =
     (let lo = signed_tick 1 10 []; e = signed_event 2 [ref_of_clock lo]; hi = signed_tick 1 20 [ref_of_event e]
      in \<lparr>ch_event = e, ch_lower = [lo], ch_upper = [hi]\<rparr>)"

lemma signed_authentic:
  "authentic (keystore_verify ref_ed) (link_of_clock (signed_tick b t rs))"
  "authentic (keystore_verify ref_ed) (link_of_event (signed_event b rs))"
proof -
  have v: "keystore_verify ref_ed h (ref_signature (replicate 32 b) h @ replicate 32 b) (keystore_node_id (ref_keystore b))" for h b
    using keystore_signs [OF ref_ed_laws ref_keystore_ok ref_keystore_sign] .
  show "authentic (keystore_verify ref_ed) (link_of_clock (signed_tick b t rs))"
    using v by (simp add: authentic_def link_of_clock_def ref_of_clock_def signed_tick_def Let_def
        calculate_clock_event_hash_def clock_event_preimage_def)
  show "authentic (keystore_verify ref_ed) (link_of_event (signed_event b rs))"
    using v by (simp add: authentic_def link_of_event_def ref_of_event_def signed_event_def Let_def
        calculate_event_hash_def event_preimage_def)
qed

lemma signed_simps [simp]:
  "ce_creator (signed_tick b t rs) = keystore_node_id (ref_keystore b)" "ce_timestamp (signed_tick b t rs) = t"
  "ce_refs (signed_tick b t rs) = rs" "ev_refs (signed_event b rs) = rs"
  "ev_creator (signed_event b rs) = keystore_node_id (ref_keystore b)"
  by (simp_all add: signed_tick_def signed_event_def Let_def)

lemma signed_chain_sound: "chain_sound signed_chain (keystore_node_id (ref_keystore 1)) (keystore_verify ref_ed)"
  using signed_authentic
  by (simp add: chain_sound_def signed_chain_def chain_links_def Let_def link_of_clock_def link_of_event_def
      ref_of_clock_def ref_of_event_def)

theorem accepted_chain_attributed_witness:
  "fingerprint (drop 64 (ev_signature (ch_event signed_chain))) = keystore_node_id (ref_keystore 2)"
proof -
  have l: "link_of_event (ch_event signed_chain) \<in> set (chain_links signed_chain)" by (simp add: chain_links_def)
  have "fingerprint (drop 64 (ln_signature (link_of_event (ch_event signed_chain)))) =
      ref_creator (ln_ref (link_of_event (ch_event signed_chain)))"
    using accepted_chain_attributed [OF _ l, of "keystore_node_id (ref_keystore 1)" ref_ed] signed_chain_sound
    by (simp add: verify_chain_ok)
  then show ?thesis by (simp add: link_of_event_def ref_of_event_def signed_chain_def Let_def)
qed

text \<open>A node that signs with its key store keeps an attributable log: started on a sound store, every
  clock event it ever stores is its own and bears a signature of the key its identity is the fingerprint
  of, as long as OpenSSL keeps signing.\<close>

lemma keyed_node_log:
  assumes "ed25519_laws E" "keystore_ok E ks" "\<forall>m. \<exists>s. keystore_sign E ks m = Inr s"
    and "reachable (keystore_ports E ks p) (keystore_node_id ks) s config n"
    and "log_ok (keystore_node_id ks) (keystore_verify E) s"
    and "(q, c) \<in> set (st_clock_events (nd_store n))"
  shows "ce_creator c = fingerprint (ks_public_key ks) \<and> fingerprint (drop 64 (ce_signature c)) = ce_creator c \<and>
    keystore_verify E (calculate_clock_event_hash c) (ce_signature c) (ce_creator c)"
proof -
  have "node_ok (keystore_ports E ks p) n \<and> nd_id n = keystore_node_id ks"
    using reachable_ok [OF assms(4) _ keystore_signs_as [OF assms(1-3)]] assms(5) by (simp add: keystore_ports_def)
  then have ok: "log_ok (keystore_node_id ks) (keystore_verify E) (nd_store n)"
    using node_okD(1) [of "keystore_ports E ks p" n] by (simp add: keystore_ports_def)
  have "ce_creator c = keystore_node_id ks" "authentic (keystore_verify E) (link_of_clock (slice c))"
    using log_okD(5,6) [OF ok, of q c] assms(6) by simp_all
  then show ?thesis
    by (auto simp: authentic_def link_of_clock_def ref_of_clock_def keystore_node_id_def fingerprints_agree
        keystore_verify_iff calculate_clock_event_hash_def clock_event_preimage_def)
qed

end
