(* ===== verification/Udp_Transport.thy ===== *)
theory Udp_Transport
  imports Own_Discovery Protocol_Properties
begin

text \<open>
  The UDP transport of \<open>src/adapters/os/transport.hpp\<close> and the loop of the daemon that drains its
  socket into the node. The socket is the queue of the datagrams that have arrived, with their source
  addresses; \<open>inet_pton\<close> is a parameter.
\<close>

section \<open>Peers and sending\<close>

record SockAddr =
  sa_addr :: bytes
  sa_port :: "16 word"

record UdpTransport =
  ut_peers :: "(NodeId, SockAddr) omap"

definition UdpTransport_init :: UdpTransport where
  "UdpTransport_init = \<lparr>ut_peers = []\<rparr>"

definition set_peer :: "(string \<Rightarrow> bytes option) \<Rightarrow> (string \<Rightarrow> bytes option) \<Rightarrow>
    NodeId \<Rightarrow> string \<Rightarrow> 16 word \<Rightarrow> UdpTransport \<Rightarrow> UdpTransport result" where
  "set_peer pton6 pton4 i ip port t =
     bindE (case pton6 ip of
         Some a \<Rightarrow> Inr a
       | None \<Rightarrow> (case pton4 ip of
           None \<Rightarrow> Inl Bad_peer_address
         | Some v4 \<Rightarrow> Inr (replicate 10 0 @ [0xFF, 0xFF] @ v4)))
       (\<lambda>a. Inr (t\<lparr>ut_peers := om_put i \<lparr>sa_addr = a, sa_port = port\<rparr> (ut_peers t)\<rparr>))"

text \<open>What goes out on the socket.\<close>

definition udp_send :: "UdpTransport \<Rightarrow> NodeId \<Rightarrow> bytes \<Rightarrow> (SockAddr \<times> bytes) option" where
  "udp_send t to datagram = map_option (\<lambda>a. (a, datagram)) (om_find to (ut_peers t))"

section \<open>Receiving\<close>

definition kMaxDatagram :: nat where "kMaxDatagram = 65535"

definition same_source :: "SockAddr \<Rightarrow> SockAddr \<Rightarrow> bool" where
  "same_source a b \<longleftrightarrow> sa_port a = sa_port b \<and> sa_addr a = sa_addr b"

type_synonym Socket = "(SockAddr \<times> bytes) list"

text \<open>A datagram of a known peer from another address is skipped. An empty result stands for a socket
  that would block, and for an empty datagram.\<close>

fun receive :: "UdpTransport \<Rightarrow> Socket \<Rightarrow> bytes \<times> Socket" where
  "receive t [] = ([], [])"
| "receive t ((src, b) # q) =
     (let buf = take kMaxDatagram b in
      if buf = [] then ([], q)
      else case sender_of buf of
        None \<Rightarrow> (buf, q)
      | Some sender \<Rightarrow>
          (case om_find sender (ut_peers t) of
             None \<Rightarrow> (buf, q)
           | Some a \<Rightarrow> if same_source a src then (buf, q) else receive t q))"

lemma receive_le: "length (snd (receive t q)) \<le> length q - 1"
proof (induction t q rule: receive.induct)
  case (2 t src b q)
  have "length (snd (receive t q)) \<le> length q" if "length (snd (receive t q)) \<le> length q - 1" using that by simp
  with 2 show ?case by (auto simp: Let_def split: option.split)
qed simp

lemma receive_shrinks: "receive t q = (b, q') \<Longrightarrow> q \<noteq> [] \<Longrightarrow> length q' < length q"
  using receive_le [of t q] by (cases q) auto

text \<open>The reader of the daemon: everything that is waiting goes to the node. The handlers of a node
  with a sound log raise no exception (see \<open>datagram_handled\<close>), so that what the loop does after one is not modelled: it
  stops there.\<close>

function drain :: "NodePorts \<Rightarrow> UdpTransport \<Rightarrow> Socket \<Rightarrow> Node \<Rightarrow> (Socket \<times> Node) result" where
  "drain p t q n =
     (let (datagram, q') = receive t q in
      if datagram = [] then Inr (q', n)
      else bindE (on_packet_received p datagram n) (\<lambda>n. drain p t q' n))"
  by auto
termination
proof (relation "measure (\<lambda>(p, t, q, n). length q)")
  fix p :: NodePorts and t q n x datagram q' and n' :: Node
  assume *: "x = receive t q" "(datagram, q') = x" "datagram \<noteq> []"
  then have "receive t q = (datagram, q')" by simp
  moreover have "q \<noteq> []" using * by auto
  ultimately show "((p, t, q', n'), p, t, q, n) \<in> measure (\<lambda>(p, t, q, n). length q)"
    using receive_shrinks by fastforce
qed simp

declare drain.simps [simp del]

section \<open>What reaches the node\<close>

text \<open>A datagram that the source check lets through.\<close>

definition genuine :: "UdpTransport \<Rightarrow> SockAddr \<Rightarrow> bytes \<Rightarrow> bool" where
  "genuine t src b \<longleftrightarrow>
     (\<forall>sender a. sender_of b = Some sender \<longrightarrow> om_find sender (ut_peers t) = Some a \<longrightarrow> src = a)"

lemma same_source_eq [simp]: "same_source a b \<longleftrightarrow> a = b"
  by (cases a; cases b) (auto simp: same_source_def)

text \<open>The datagrams delivered by one drain of the socket, and what stays behind.\<close>

definition waiting :: "Socket \<Rightarrow> Socket" where
  "waiting q = takeWhile (\<lambda>(src, b). b \<noteq> []) q"

definition delivered :: "UdpTransport \<Rightarrow> Socket \<Rightarrow> bytes list" where
  "delivered t q = map snd (filter (\<lambda>(src, b). genuine t src b) (map (\<lambda>(src, b). (src, take kMaxDatagram b)) (waiting q)))"

definition left_behind :: "Socket \<Rightarrow> Socket" where
  "left_behind q = drop 1 (dropWhile (\<lambda>(src, b). b \<noteq> []) q)"

lemma receive_spec:
  "receive t q = (case delivered t q of [] \<Rightarrow> ([], left_behind q) | b # _ \<Rightarrow> (b, snd (receive t q))) \<and>
   (case delivered t q of [] \<Rightarrow> True | b # bs \<Rightarrow> b \<noteq> [] \<and> delivered t (snd (receive t q)) = bs \<and>
     left_behind (snd (receive t q)) = left_behind q)"
proof (induction t q rule: receive.induct)
  case (2 t src b q)
  show ?case
  proof (cases "b = []")
    case True
    then show ?thesis by (simp add: delivered_def waiting_def left_behind_def)
  next
    case False
    have buf: "take kMaxDatagram b \<noteq> []" using False by (simp add: kMaxDatagram_def)
    show ?thesis
    proof (cases "genuine t src (take kMaxDatagram b)")
      case True
      then have "receive t ((src, b) # q) = (take kMaxDatagram b, q)"
        using buf by (auto simp: genuine_def Let_def split: option.split)
      then show ?thesis using True False buf by (simp add: delivered_def waiting_def left_behind_def)
    next
      case spoofed: False
      then obtain s a where sa: "sender_of (take kMaxDatagram b) = Some s" "om_find s (ut_peers t) = Some a" "src \<noteq> a"
        by (auto simp: genuine_def)
      then have r: "receive t ((src, b) # q) = receive t q" using buf by (auto simp: Let_def)
      have d: "delivered t ((src, b) # q) = delivered t q" "left_behind ((src, b) # q) = left_behind q"
        using spoofed False by (simp_all add: delivered_def waiting_def left_behind_def)
      have "\<not> same_source a src" using sa(3) by simp
      then show ?thesis unfolding r d by (rule "2.IH" [OF refl buf sa(1,2)])
    qed
  qed
qed (simp add: delivered_def waiting_def left_behind_def)

lemma drain_delivers:
  "drain p t q n = bindE (foldE (on_packet_received p) (delivered t q) n) (\<lambda>n. Inr (left_behind q, n))"
proof (induction "delivered t q" arbitrary: q n)
  case Nil
  then show ?case using receive_spec [of t q] by (subst drain.simps) simp
next
  case (Cons b bs)
  obtain q' where r: "receive t q = (b, q')" "b \<noteq> []" "delivered t q' = bs" "left_behind q' = left_behind q"
    using receive_spec [of t q] Cons(2) [symmetric] by (cases "receive t q") auto
  show ?case
    using Cons(1) [of q'] r Cons(2) [symmetric]
    by (subst drain.simps) (cases "on_packet_received p b n"; simp)
qed

text \<open>C29: The source check keeps outsiders out: when every neighbor of the node has a registered address,
  datagrams that do not come from the address of the peer they name leave the node exactly as it
  was, in whatever number and order they arrive, and the loop over them ends.\<close>

theorem outsiders_have_no_effect:
  assumes "\<forall>i \<in> fst ` set (nd_neighbors n). om_find i (ut_peers t) \<noteq> None"
    and "\<forall>(src, b) \<in> set q. \<forall>i a. sender_of (take kMaxDatagram b) = Some i \<longrightarrow> om_find i (ut_peers t) = Some a \<longrightarrow> src \<noteq> a"
  shows "drain p t q n = Inr (left_behind q, n)"
proof -
  have quiet: "on_packet_received p b n = Inr n" if b: "b \<in> set (delivered t q)" for b
  proof -
    obtain src b0 where b0: "(src, b0) \<in> set q" "b = take kMaxDatagram b0" "genuine t src b"
      using b set_takeWhileD [of _ _ q] unfolding delivered_def waiting_def by fastforce
    have "om_find i (nd_neighbors n) = None" if "sender_of b = Some i" for i
    proof -
      have "om_find i (ut_peers t) = None"
        using assms(2) b0 that by (auto simp: genuine_def split: option.splits)
      then show ?thesis using assms(1) by (auto simp: om_find_None)
    qed
    then show ?thesis using sender_of_decoded [of b] by (auto simp: on_packet_received_def split: sum.split)
  qed
  have "foldE (on_packet_received p) bs n = Inr n" if "set bs \<subseteq> set (delivered t q)" for bs
    using that quiet by (induction bs) auto
  then show ?thesis by (simp add: drain_delivers)
qed

theorem outsiders_have_no_effect_witness:
  "\<exists>n. nd_neighbors n \<noteq> [] \<and>
     drain sample_ports \<lparr>ut_peers = [(node_id_of_u64 7, \<lparr>sa_addr = replicate 16 1, sa_port = 7000\<rparr>)]\<rparr>
       [(\<lparr>sa_addr = replicate 16 2, sa_port = 7000\<rparr>, encode sample_datagram)] n = Inr ([], n)"
proof -
  obtain n0 :: Node where "nd_id n0 = node_id_of_u64 1" using sample_boot by blast
  let ?n = "n0\<lparr>nd_neighbors := [(node_id_of_u64 7, \<lparr>nb_node_id = node_id_of_u64 7, nb_last_hashes = []\<rparr>)]\<rparr>"
  let ?src = "\<lparr>sa_addr = replicate 16 2, sa_port = 7000\<rparr>"
  have "?src \<noteq> \<lparr>sa_addr = replicate 16 1, sa_port = 7000\<rparr>" by simp
  then have "drain sample_ports \<lparr>ut_peers = [(node_id_of_u64 7, \<lparr>sa_addr = replicate 16 1, sa_port = 7000\<rparr>)]\<rparr>
      [(?src, encode sample_datagram)] ?n = Inr (left_behind [(?src, encode sample_datagram)], ?n)"
    by (intro outsiders_have_no_effect) (auto split: if_splits)
  moreover have "left_behind [(?src, encode sample_datagram)] = []" by (simp add: left_behind_def)
  ultimately show ?thesis by (intro exI [of _ ?n]) simp
qed

lemma notification_sets_tip:
  assumes "clocks_ok (nd_store n)" "om_find key (nd_neighbors n) = Some nb" "chain < 4294967295"
  shows "\<exists>n' nb'. process_clock_event_notification key nb chain h g n = Inr n' \<and>
    om_find key (nd_neighbors n') = Some nb' \<and> nb_last_hashes nb' ! unat chain = h"
proof -
  let ?hs = "if length (nb_last_hashes nb) \<le> unat chain then vector_resize (unat (chain + 1)) [] (nb_last_hashes nb) else nb_last_hashes nb"
  have "unat chain < 4294967295" using assms(3) by (simp add: word_less_nat_alt)
  then have "unat (chain + 1) = Suc (unat chain)" by (simp add: unat_word_ariths)
  then have l: "unat chain < length ?hs" by (simp add: length_vector_resize)
  then obtain changed hs where t: "bucket_tip chain h (nb_last_hashes nb) = Inr (changed, hs)" "hs ! unat chain = h"
    by (simp only: bucket_tip_def Let_def) simp
  let ?nb = "nb\<lparr>nb_last_hashes := hs\<rparr>"
  let ?n = "n\<lparr>nd_neighbors := om_put key ?nb (nd_neighbors n),
    nd_store := if changed then put_neighbor ?nb (nd_store n) else nd_store n\<rparr>"
  have "clocks_ok (nd_store ?n)"
    using assms(1) clocks_ok_cong [of "put_neighbor ?nb (nd_store n)" "nd_store n"] by (simp add: put_neighbor_def)
  then have "\<exists>n'. process_clock_event_notification key nb chain h g n = Inr n' \<and> nd_neighbors n' = nd_neighbors ?n"
    by (rule by_hash_cases [of _ g]) (auto simp: process_clock_event_notification_def t Let_def simp del: bindE_eq_Inr)
  moreover have "om_find key (nd_neighbors ?n) = Some ?nb" by (simp add: om_find_put)
  ultimately show ?thesis using t(2) by fastforce
qed

text \<open>C30: After a restart the source check is off: the neighbors come back from the store, their addresses
  do not, and a datagram that names a neighbor without a registered address is accepted from anywhere. A
  single notification from an arbitrary source replaces the neighbor's tip, which the node's next
  clock event will refer to.\<close>

theorem restart_trusts_any_source:
  assumes "make_node i s config = Inr n" "store_ok s" "om_find v (st_neighbors s) = Some nb"
    and "wf_node_id v" "chain < 4294967295" "length h \<le> 32"
    and "b = encode \<lparr>dg_sender = v, dg_payload = Clock_notification \<lparr>cn_chain = chain, cn_last_hash = h, cn_neighbor_last_hash = []\<rparr>\<rparr>"
  shows "\<exists>n' nb'. drain p UdpTransport_init [(src, b)] n = Inr ([], n') \<and>
    om_find v (nd_neighbors n') = Some nb' \<and> nb_last_hashes nb' ! unat chain = h"
proof -
  let ?d = "\<lparr>dg_sender = v, dg_payload = Clock_notification \<lparr>cn_chain = chain, cn_last_hash = h, cn_neighbor_last_hash = []\<rparr>\<rparr>"
  have "wf_datagram ?d" using assms(4,6) by (simp add: wf_datagram_def)
  then have d: "decode b = Inr ?d" using datagramc.dec_enc_append [of ?d "[]"] assms(7) by (simp add: decode_def)
  have "length b = 33 + length h"
    using assms(4,7) by (simp add: encode_def encode_clock_notification_def write_header_def w_blob_def
        w_node_id_def w_u8_def w_u64_def w_u32_def wf_node_id_def)
  then have l: "b \<noteq> []" "take kMaxDatagram b = b" using assms(6) by (auto simp: kMaxDatagram_def)
  have n: "nd_store n = s" "nd_neighbors n = st_neighbors s"
    using assms(1,2) by (auto simp: make_node_def hydrate_spec Let_def)
  obtain n' nb' where "on_packet_received p b n = Inr n'" "om_find v (nd_neighbors n') = Some nb'" "nb_last_hashes nb' ! unat chain = h"
    using notification_sets_tip [of n v nb chain h "[]"] assms(2,3,5) n d
    by (auto simp: on_packet_received_def store_ok_def)
  moreover have "delivered UdpTransport_init [(src, b)] = [b]" "left_behind [(src, b)] = []"
    using l by (simp_all add: delivered_def waiting_def left_behind_def genuine_def UdpTransport_init_def)
  ultimately show ?thesis by (simp add: drain_delivers)
qed

theorem restart_trusts_any_source_witness:
  "\<exists>n n' nb'. make_node (node_id_of_u64 1) (put_neighbor \<lparr>nb_node_id = node_id_of_u64 7, nb_last_hashes = []\<rparr> empty_store) sample_config = Inr n \<and>
     drain sample_ports UdpTransport_init [(\<lparr>sa_addr = replicate 16 9, sa_port = 9\<rparr>,
       encode \<lparr>dg_sender = node_id_of_u64 7, dg_payload = Clock_notification \<lparr>cn_chain = 0, cn_last_hash = [6], cn_neighbor_last_hash = []\<rparr>\<rparr>)] n =
       Inr ([], n') \<and> om_find (node_id_of_u64 7) (nd_neighbors n') = Some nb' \<and> nb_last_hashes nb' ! 0 = [6]"
proof -
  let ?s = "put_neighbor \<lparr>nb_node_id = node_id_of_u64 7, nb_last_hashes = []\<rparr> empty_store"
  have ok: "store_ok ?s" by (rule log_okD(1) [OF log_ok_overlay(1) [OF log_ok_empty]])
  then obtain n where n: "make_node (node_id_of_u64 1) ?s sample_config = Inr n" using make_node_total by blast
  show ?thesis
    using restart_trusts_any_source [OF n ok _ _ _ _ refl, of "node_id_of_u64 7" _ 0 "[6]"] n
    by (simp add: put_neighbor_def om_find_put)
qed

end
