(* ===== verification/Daemon_Replies.thy ===== *)
theory Daemon_Replies
  imports Keystore Udp_Transport Persistence
begin

text \<open>
  The state of the daemon \<open>src/app/lotid/lotid.cpp\<close> and the way its asynchronous replies travel: the
  connections of the control socket, the tables of the clients that wait for a discovery, and the callbacks by which
  the node reports a discovery. An entry of a multimap carries the address of its tree node, so that
  an iterator is an address and one that outlives its entry can be told: using it is undefined
  behaviour. Everything that answers returns the state together with its outcome.
\<close>

section \<open>State\<close>

record Reply =
  rl_code :: int
  rl_deferred :: bool
  rl_error :: string
  rl_fields :: ControlFields

definition kOk :: int where "kOk = 0"
definition kUsage :: int where "kUsage = 2"
definition kNotFound :: int where "kNotFound = 4"
definition kInvalidResult :: int where "kInvalidResult = 6"

record ProofRequest =
  pr_fd :: int
  pr_kind :: Kind

record OrderProof =
  op_fd :: int
  op_a :: EventHash
  op_b :: EventHash
  op_chain_a :: "EventChain option"
  op_chain_b :: "EventChain option"

text \<open>\<open>d_public_key\<close> is the key of the key store, if the daemon signs with one; \<open>d_lmdb\<close> the path of
  the store, if it is persistent; \<open>d_sent\<close> what has been written to the control connections and
  \<open>d_wire\<close> to the network.\<close>

record Lotid =
  d_node :: Node
  d_node_id :: NodeId
  d_public_key :: "bytes option"
  d_last_event :: EventHash
  d_lmdb :: "string option"
  d_peers :: "(NodeId \<times> string \<times> 16 word) list"
  d_transport :: UdpTransport
  d_running :: bool
  d_stdin_buf :: string
  d_stdout :: string
  d_files :: Files
  d_client_buf :: "(int, string) omap"
  d_pending_bounds :: "(EventHash, nat \<times> int) mmap"
  d_pending_chain :: "(EventHash, nat \<times> int) mmap"
  d_pending_order :: "(EventHash \<times> EventHash, nat \<times> int) omap"
  d_pending_proof :: "(EventHash, nat \<times> ProofRequest) mmap"
  d_order_proofs :: "OrderProof list"
  d_next_addr :: nat
  d_sent :: "(int \<times> string) list"
  d_wire :: "(SockAddr \<times> bytes) list"

type_synonym 'a act = "Lotid \<Rightarrow> 'a result \<times> Lotid"

definition act_return :: "'a \<Rightarrow> 'a act" where
  "act_return x d = (Inr x, d)"

definition act_throw :: "exn \<Rightarrow> 'a act" where
  "act_throw e d = (Inl e, d)"

definition act_bind :: "'a act \<Rightarrow> ('a \<Rightarrow> 'b act) \<Rightarrow> 'b act" where
  "act_bind m f d = (case m d of (Inl e, d) \<Rightarrow> (Inl e, d) | (Inr x, d) \<Rightarrow> f x d)"

definition act_result :: "'a result \<Rightarrow> 'a act" where
  "act_result r d = (r, d)"

definition act_update :: "(Lotid \<Rightarrow> Lotid) \<Rightarrow> unit act" where
  "act_update f d = (Inr (), f d)"

section \<open>Connections\<close>

definition purge_pending_for_fd :: "int \<Rightarrow> Lotid \<Rightarrow> Lotid" where
  "purge_pending_for_fd fd d =
     d\<lparr>d_pending_bounds := filter (\<lambda>(_, _, f). f \<noteq> fd) (d_pending_bounds d),
       d_pending_chain := filter (\<lambda>(_, _, f). f \<noteq> fd) (d_pending_chain d),
       d_pending_order := filter (\<lambda>(_, _, f). f \<noteq> fd) (d_pending_order d),
       d_pending_proof := filter (\<lambda>(_, _, p). pr_fd p \<noteq> fd) (d_pending_proof d),
       d_order_proofs := filter (\<lambda>o'. op_fd o' \<noteq> fd) (d_order_proofs d)\<rparr>"

definition is_open :: "int \<Rightarrow> Lotid \<Rightarrow> bool" where
  "is_open fd d \<longleftrightarrow> om_find fd (d_client_buf d) \<noteq> None"

definition close_client :: "int \<Rightarrow> Lotid \<Rightarrow> Lotid" where
  "close_client fd d =
     (if \<not> is_open fd d then d
      else let d = purge_pending_for_fd fd d in d\<lparr>d_client_buf := om_erase fd (d_client_buf d)\<rparr>)"

text \<open>A failing write is not noticed.\<close>

definition respond :: "int \<Rightarrow> Reply \<Rightarrow> Lotid \<Rightarrow> Lotid" where
  "respond fd r d =
     (if \<not> is_open fd d then d
      else close_client fd
        (d\<lparr>d_sent := d_sent d @ [(fd, format_reply (rl_code r) (rl_error r) (rl_fields r))]\<rparr>))"

section \<open>Answering those who wait\<close>

definition at_address :: "nat \<Rightarrow> ('k \<times> nat \<times> 'v) list \<Rightarrow> 'v option" where
  "at_address a m = map_of (map snd m) a"

text \<open>A loop over the range of a key. The iterator is dereferenced, the body runs, and then the
  iterator is advanced: both need its entry to be there.\<close>

fun range_loop :: "(Lotid \<Rightarrow> ('k \<times> nat \<times> 'v) list) \<Rightarrow> ('v \<Rightarrow> unit act) \<Rightarrow> nat list \<Rightarrow> unit act" where
  "range_loop container body [] d = (Inr (), d)"
| "range_loop container body (a # as) d =
     (case at_address a (container d) of
        None \<Rightarrow> (Inl Undefined_behaviour, d)
      | Some v \<Rightarrow>
          (case body v d of
             (Inl e, d) \<Rightarrow> (Inl e, d)
           | (Inr _, d) \<Rightarrow>
               if at_address a (container d) = None then (Inl Undefined_behaviour, d)
               else range_loop container body as d))"

definition range_of :: "'k \<Rightarrow> ('k \<times> nat \<times> 'v) list \<Rightarrow> nat list" where
  "range_of k m = map fst (mm_range k m)"

text \<open>Which of the two tables of waiting clients.\<close>

datatype Query = Bounds_query | Chain_query

definition pending :: "Query \<Rightarrow> Lotid \<Rightarrow> (EventHash, nat \<times> int) mmap" where
  "pending q d = (case q of Bounds_query \<Rightarrow> d_pending_bounds d | Chain_query \<Rightarrow> d_pending_chain d)"

definition set_pending :: "Query \<Rightarrow> (EventHash, nat \<times> int) mmap \<Rightarrow> Lotid \<Rightarrow> Lotid" where
  "set_pending q m d =
     (case q of Bounds_query \<Rightarrow> d\<lparr>d_pending_bounds := m\<rparr> | Chain_query \<Rightarrow> d\<lparr>d_pending_chain := m\<rparr>)"

definition erase_key :: "'k \<Rightarrow> ('k \<times> 'v) list \<Rightarrow> ('k \<times> 'v) list" where
  "erase_key k m = filter (\<lambda>(a, _). a \<noteq> k) m"

definition answer :: "Query \<Rightarrow> EventHash \<Rightarrow> Reply \<Rightarrow> unit act" where
  "answer q h r d =
     act_bind (range_loop (pending q) (\<lambda>fd d. (Inr (), respond fd r d)) (range_of h (pending q d)))
       (\<lambda>_. act_update (\<lambda>d. set_pending q (erase_key h (pending q d)) d)) d"

definition aborted_reply :: Reply where
  "aborted_reply = \<lparr>rl_code = kInvalidResult, rl_deferred = False, rl_error = ''discovery aborted'', rl_fields = []\<rparr>"

definition abort_pending :: "Query \<Rightarrow> EventHash \<Rightarrow> unit act" where
  "abort_pending q h = answer q h aborted_reply"

definition ok_reply :: "ControlFields \<Rightarrow> Reply" where
  "ok_reply fs = \<lparr>rl_code = kOk, rl_deferred = False, rl_error = [], rl_fields = fs\<rparr>"

section \<open>Proofs\<close>

definition kind_name :: "Kind \<Rightarrow> string" where
  "kind_name k =
     (if k = kind_bounds then ''bounds'' else if k = kind_order then ''order''
      else if k = kind_chain then ''chain'' else ''unknown'')"

definition stamp :: "Timestamp \<Rightarrow> string" where
  "stamp t = to_string (sint t)"

definition chain_length :: "EventChain \<Rightarrow> string" where
  "chain_length c = to_string (int (length (ch_lower c) + length (ch_upper c)))"

definition proof_reply :: "Proof \<Rightarrow> Reply result" where
  "proof_reply p =
     (let fs = [(''proof'', hex (serialize p)), (''kind'', kind_name (pf_kind p)),
          (''reference'', hex_id (rf_node (pf_reference p))), (''chainLength'', chain_length (pf_chain p))]
      in if pf_kind p = kind_order
         then Inr (ok_reply (fs @ [(''chain2Length'', chain_length (pf_chain2 p)), (''order'', to_string (pf_order p))]))
         else if ch_lower (pf_chain p) = [] \<or> ch_upper (pf_chain p) = [] then Inl Undefined_behaviour
         else Inr (ok_reply (fs @ [(''lower'', stamp (ce_timestamp (hd (ch_lower (pf_chain p))))),
           (''upper'', stamp (ce_timestamp (last (ch_upper (pf_chain p)))))])))"

definition my_reference :: "Lotid \<Rightarrow> Reference" where
  "my_reference d = \<lparr>rf_node = d_node_id d, rf_pubkey = (case d_public_key d of None \<Rightarrow> [] | Some k \<Rightarrow> k)\<rparr>"

definition single_proof :: "Lotid \<Rightarrow> Kind \<Rightarrow> EventChain \<Rightarrow> Proof" where
  "single_proof d kind c =
     \<lparr>pf_kind = kind, pf_reference = my_reference d, pf_chain = c, pf_chain2 = empty_chain, pf_order = order_undetermined\<rparr>"

definition finish_single_proof :: "EventHash \<Rightarrow> EventChain \<Rightarrow> unit act" where
  "finish_single_proof h c d =
     act_bind (range_loop d_pending_proof
         (\<lambda>rq d. case proof_reply (single_proof d (pr_kind rq) c) of
            Inl e \<Rightarrow> (Inl e, d)
          | Inr r \<Rightarrow> (Inr (), respond (pr_fd rq) r d))
         (range_of h (d_pending_proof d)))
       (\<lambda>_. act_update (\<lambda>d. d\<lparr>d_pending_proof := erase_key h (d_pending_proof d)\<rparr>)) d"

definition abort_single_proof :: "EventHash \<Rightarrow> unit act" where
  "abort_single_proof h d =
     act_bind (range_loop d_pending_proof (\<lambda>rq d. (Inr (), respond (pr_fd rq) aborted_reply d))
         (range_of h (d_pending_proof d)))
       (\<lambda>_. act_update (\<lambda>d. d\<lparr>d_pending_proof := erase_key h (d_pending_proof d)\<rparr>)) d"

definition compare_chains :: "EventChain \<Rightarrow> EventChain \<Rightarrow> Order result" where
  "compare_chains a b =
     (if ch_upper a = [] \<or> ch_lower b = [] then Inl Undefined_behaviour
      else if sint (ce_timestamp (last (ch_upper a))) < sint (ce_timestamp (hd (ch_lower b))) then Inr order_before
      else if ch_upper b = [] \<or> ch_lower a = [] then Inl Undefined_behaviour
      else if sint (ce_timestamp (last (ch_upper b))) < sint (ce_timestamp (hd (ch_lower a))) then Inr order_after
      else Inr order_undetermined)"

definition note_chain :: "EventHash \<Rightarrow> EventChain \<Rightarrow> OrderProof \<Rightarrow> OrderProof" where
  "note_chain h c o' =
     (let o' = (if op_a o' = h \<and> op_chain_a o' = None then o'\<lparr>op_chain_a := Some c\<rparr> else o')
      in if op_b o' = h \<and> op_chain_b o' = None then o'\<lparr>op_chain_b := Some c\<rparr> else o')"

text \<open>The vector of order proofs, split at the iterator: those before it and those from it on. An
  iterator is invalid once an element up to its own has been erased.\<close>

definition erase_at :: "OrderProof list \<Rightarrow> OrderProof \<Rightarrow> OrderProof list \<Rightarrow> Lotid \<Rightarrow> unit result \<times> Lotid" where
  "erase_at kept o' rest d =
     (if take (Suc (length kept)) (d_order_proofs d) \<noteq> kept @ [o'] then (Inl Undefined_behaviour, d)
      else (Inr (), d\<lparr>d_order_proofs := kept @ drop (Suc (length kept)) (d_order_proofs d)\<rparr>))"

fun finish_order_loop :: "EventHash \<Rightarrow> EventChain \<Rightarrow> OrderProof list \<Rightarrow> OrderProof list \<Rightarrow> unit act" where
  "finish_order_loop h c kept [] d = (Inr (), d)"
| "finish_order_loop h c kept (o0 # rest) d =
     (let o' = note_chain h c o0; d = d\<lparr>d_order_proofs := kept @ o' # rest\<rparr> in
      case (op_chain_a o', op_chain_b o') of
        (Some ca, Some cb) \<Rightarrow>
          (case bindE (compare_chains ca cb) (\<lambda>ord. proof_reply
              \<lparr>pf_kind = kind_order, pf_reference = my_reference d, pf_chain = ca, pf_chain2 = cb, pf_order = ord\<rparr>) of
             Inl e \<Rightarrow> (Inl e, d)
           | Inr r \<Rightarrow>
               act_bind (erase_at kept o' rest) (\<lambda>_. finish_order_loop h c kept rest) (respond (op_fd o') r d))
      | _ \<Rightarrow> finish_order_loop h c (kept @ [o']) rest d)"

definition finish_order_proof :: "EventHash \<Rightarrow> EventChain \<Rightarrow> unit act" where
  "finish_order_proof h c d = finish_order_loop h c [] (d_order_proofs d) d"

fun abort_order_loop :: "EventHash \<Rightarrow> OrderProof list \<Rightarrow> OrderProof list \<Rightarrow> unit act" where
  "abort_order_loop h kept [] d = (Inr (), d)"
| "abort_order_loop h kept (o' # rest) d =
     (if op_a o' = h \<or> op_b o' = h
      then act_bind (erase_at kept o' rest) (\<lambda>_. abort_order_loop h kept rest) (respond (op_fd o') aborted_reply d)
      else abort_order_loop h (kept @ [o']) rest d)"

definition abort_order_proof :: "EventHash \<Rightarrow> unit act" where
  "abort_order_proof h d = abort_order_loop h [] (d_order_proofs d) d"

section \<open>Callbacks\<close>

definition clock_line :: "ClockEvent \<Rightarrow> string" where
  "clock_line ce = ''creator='' @ hex_id (ce_creator ce) @ '' hash='' @ hex (ce_hash ce) @ '' ts='' @ stamp (ce_timestamp ce)"

definition chain_path_fields :: "EventChain \<Rightarrow> ControlFields" where
  "chain_path_fields c =
     [(''reference'', hex_id (case ch_lower c of [] \<Rightarrow> node_id_of_u64 0 | ce # _ \<Rightarrow> ce_creator ce))] @
     map (\<lambda>ce. (''lower'', clock_line ce)) (ch_lower c) @
     [(''event'', hex (ev_hash (ch_event c))), (''content'', printable (ev_data (ch_event c)))] @
     map (\<lambda>ce. (''upper'', clock_line ce)) (ch_upper c) @
     [(''clockEvents'', to_string (int (length (ch_lower c) + length (ch_upper c))))]"

definition lotid_chain_completed :: "Event \<Rightarrow> EventChain \<Rightarrow> unit act" where
  "lotid_chain_completed e c d =
     act_bind (if range_of (ev_hash e) (d_pending_chain d) \<noteq> []
         then answer Chain_query (ev_hash e) (ok_reply (chain_path_fields c)) else act_return ())
       (\<lambda>_. act_bind (finish_single_proof (ev_hash e) c) (\<lambda>_. finish_order_proof (ev_hash e) c)) d"

definition lotid_chain_aborted :: "Event \<Rightarrow> unit act" where
  "lotid_chain_aborted e =
     act_bind (abort_pending Chain_query (ev_hash e)) (\<lambda>_.
       act_bind (abort_single_proof (ev_hash e)) (\<lambda>_. abort_order_proof (ev_hash e)))"

text \<open>The interval is the difference of two \<open>int64_t\<close>.\<close>

definition lotid_bounds_completed :: "Event \<Rightarrow> Timestamp \<Rightarrow> Timestamp \<Rightarrow> unit act" where
  "lotid_bounds_completed e lo hi =
     (if \<not> (- (2 ^ 63) \<le> sint hi - sint lo \<and> sint hi - sint lo < 2 ^ 63) then act_throw Undefined_behaviour
      else answer Bounds_query (ev_hash e) (ok_reply [(''event'', hex (ev_hash e)), (''lower'', stamp lo),
        (''upper'', stamp hi), (''interval'', to_string (sint hi - sint lo))]))"

definition lotid_bounds_aborted :: "Event \<Rightarrow> unit act" where
  "lotid_bounds_aborted e = abort_pending Bounds_query (ev_hash e)"

text \<open>The iterator found before the reply is erased after it.\<close>

definition conclude_order :: "EventHash \<times> EventHash \<Rightarrow> Reply \<Rightarrow> unit act" where
  "conclude_order key r d =
     (case om_find key (d_pending_order d) of
        None \<Rightarrow> (Inr (), d)
      | Some (a, fd) \<Rightarrow>
          (let d = respond fd r d in
           if at_address a (d_pending_order d) = None then (Inl Undefined_behaviour, d)
           else (Inr (), d\<lparr>d_pending_order := om_erase key (d_pending_order d)\<rparr>)))"

definition lotid_order_completed :: "Event \<Rightarrow> Event \<Rightarrow> Order \<Rightarrow> unit act" where
  "lotid_order_completed a b o' =
     conclude_order (ev_hash a, ev_hash b)
       (ok_reply [(''event1'', hex (ev_hash a)), (''event2'', hex (ev_hash b)), (''order'', to_string o')])"

definition lotid_order_aborted :: "Event \<Rightarrow> Event \<Rightarrow> unit act" where
  "lotid_order_aborted a b = conclude_order (ev_hash a, ev_hash b) aborted_reply"

text \<open>What the node reports while it handles a call. Timers go to the reactor (theory \<open>Timers\<close>) and telemetry to
  the log.\<close>

definition deliver :: "Output \<Rightarrow> unit act" where
  "deliver out =
     (case out of
        Send to datagram \<Rightarrow> act_update (\<lambda>d. d\<lparr>d_wire := d_wire d @
          (case udp_send (d_transport d) to datagram of None \<Rightarrow> [] | Some x \<Rightarrow> [x])\<rparr>)
      | Chain_completed _ e c \<Rightarrow> lotid_chain_completed e c
      | Chain_aborted _ e \<Rightarrow> lotid_chain_aborted e
      | Bounds_completed _ e lo hi \<Rightarrow> lotid_bounds_completed e lo hi
      | Bounds_aborted _ e \<Rightarrow> lotid_bounds_aborted e
      | Order_completed _ a b o' \<Rightarrow> lotid_order_completed a b o'
      | Order_aborted _ a b \<Rightarrow> lotid_order_aborted a b
      | Schedule _ _ _ \<Rightarrow> act_return ()
      | Cancel _ \<Rightarrow> act_return ()
      | Telemetry _ \<Rightarrow> act_return ())"

fun deliver_all :: "Output list \<Rightarrow> unit act" where
  "deliver_all [] d = (Inr (), d)"
| "deliver_all (out # outs) d = act_bind (deliver out) (\<lambda>_. deliver_all outs) d"

text \<open>A call of the node. The callbacks do not look at the node, so that they can run once the call has
  returned; a call that throws leaves the node of the model as it was.\<close>

definition with_node :: "(Node \<Rightarrow> ('a \<times> Node) result) \<Rightarrow> 'a act" where
  "with_node f d =
     (case f (d_node d) of
        Inl e \<Rightarrow> (Inl e, d)
      | Inr (x, n) \<Rightarrow> act_bind (deliver_all (drop (length (nd_out (d_node d))) (nd_out n)))
          (\<lambda>_. act_return x) (d\<lparr>d_node := n\<rparr>))"

end
