(* ===== verification/Client.thy ===== *)
theory Client
  imports Daemon_Replies
begin

text \<open>
  The command-line client \<open>src/app/loti/loti.cpp\<close>: the requests it sends, its JSON writer, and the commands
  that make, show and verify proofs. The answer of the daemon to a request line is a parameter, like the
  outcomes of the calls on files; what a command prints and its exit code are its result.
\<close>

section \<open>Printing\<close>

definition order_name :: "Order \<Rightarrow> string" where
  "order_name o' =
     (if o' = order_before then ''before'' else if o' = order_after then ''after'' else ''undetermined'')"

text \<open>\<open>gmtime_r\<close> and \<open>strftime\<close> with the format of an ISO date: the seconds of a nanosecond count are in the years
  1677 to 2262, so that the year has four digits. Division of \<open>int64_t\<close> rounds to zero.\<close>

definition truncated_div :: "int \<Rightarrow> int \<Rightarrow> int" where
  "truncated_div a b = (if a \<ge> 0 then a div b else - ((- a) div b))"

definition civil_from_days :: "int \<Rightarrow> int \<times> int \<times> int" where
  "civil_from_days days =
     (let z = days + 719468; era = z div 146097; doe = z mod 146097;
          yoe = (doe - doe div 1460 + doe div 36524 - doe div 146096) div 365;
          doy = doe - (365 * yoe + yoe div 4 - yoe div 100);
          mp = (5 * doy + 2) div 153;
          m = (if mp < 10 then mp + 3 else mp - 9)
      in (yoe + era * 400 + (if m \<le> 2 then 1 else 0), m, doy - (153 * mp + 2) div 5 + 1))"

definition two_digits :: "int \<Rightarrow> string" where
  "two_digits n = to_string (n div 10) @ to_string (n mod 10)"

definition gmtime_text :: "int \<Rightarrow> string" where
  "gmtime_text secs =
     (let (y, m, d) = civil_from_days (secs div 86400); s = secs mod 86400
      in to_string y @ ''-'' @ two_digits m @ ''-'' @ two_digits d @ ''T'' @ two_digits (s div 3600) @ '':'' @
         two_digits (s div 60 mod 60) @ '':'' @ two_digits (s mod 60) @ ''Z'')"

definition format_ts :: "Timestamp \<Rightarrow> string" where
  "format_ts ns = gmtime_text (truncated_div (sint ns) 1000000000) @ '' (raw '' @ to_string (sint ns) @ '')''"

section \<open>JSON\<close>

fun json_escape :: "string \<Rightarrow> string" where
  "json_escape [] = []"
| "json_escape (c # cs) =
     (if c = CHR 0x22 then [CHR 0x5C, CHR 0x22]
      else if c = CHR 0x5C then [CHR 0x5C, CHR 0x5C]
      else if c = LF then [CHR 0x5C, CHR ''n'']
      else if c = TAB then [CHR 0x5C, CHR ''t'']
      else [c]) @ json_escape cs"

datatype Json =
    JNull
  | JBool bool
  | JNum string
  | JStr string
  | JArr "Json list"
  | JObj "(string \<times> Json) list"

definition indent :: "nat \<Rightarrow> string" where
  "indent d = replicate (2 * d) (CHR '' '')"

definition quoted :: "string \<Rightarrow> string" where
  "quoted s = CHR 0x22 # json_escape s @ [CHR 0x22]"

fun json_emit :: "Json \<Rightarrow> nat \<Rightarrow> string"
  and emit_items :: "Json list \<Rightarrow> nat \<Rightarrow> string"
  and emit_members :: "(string \<times> Json) list \<Rightarrow> nat \<Rightarrow> string" where
  "json_emit JNull depth = ''null''"
| "json_emit (JBool b) depth = (if b then ''true'' else ''false'')"
| "json_emit (JNum t) depth = t"
| "json_emit (JStr s) depth = quoted s"
| "json_emit (JArr items) depth =
     (if items = [] then ''[]'' else ''['' @ [LF] @ emit_items items depth @ indent depth @ '']'')"
| "json_emit (JObj members) depth =
     (if members = [] then ''{}'' else ''{'' @ [LF] @ emit_members members depth @ indent depth @ ''}'')"
| "emit_items [] depth = []"
| "emit_items (j # js) depth =
     indent (depth + 1) @ json_emit j (depth + 1) @ (if js \<noteq> [] then '','' else []) @ [LF] @ emit_items js depth"
| "emit_members [] depth = []"
| "emit_members ((k, j) # ms) depth =
     indent (depth + 1) @ quoted k @ '': '' @ json_emit j (depth + 1) @ (if ms \<noteq> [] then '','' else []) @ [LF] @
     emit_members ms depth"

definition json_pretty :: "Json \<Rightarrow> string" where
  "json_pretty j = json_emit j 0 @ [LF]"

definition json_numeric_key :: "string \<Rightarrow> bool" where
  "json_numeric_key k \<longleftrightarrow> k \<in> set [''size'', ''references'', ''clockEvents'', ''peers'', ''interval'', ''order'',
     ''events'', ''snapshotBytes'', ''diskBytes'']"

definition is_decimal :: "char \<Rightarrow> bool" where
  "is_decimal c \<longleftrightarrow> c \<in> set ''0123456789''"

definition json_value :: "string \<Rightarrow> string \<Rightarrow> Json" where
  "json_value key val =
     (if json_numeric_key key \<and> val \<noteq> []
      then let ds = (if hd val = CHR ''-'' then tl val else val) in
        if ds \<noteq> [] \<and> list_all is_decimal ds then JNum val else JStr val
      else JStr val)"

section \<open>Replies as JSON\<close>

function clock_fields :: "string \<Rightarrow> string \<times> string \<times> string \<Rightarrow> string \<times> string \<times> string" where
  "clock_fields v (creator, h, ts) =
     (if v = [] then (creator, h, ts)
      else
        let tok = takeWhile (\<lambda>c. c \<noteq> CHR '' '') v; rest = dropWhile (\<lambda>c. c \<noteq> CHR '' '') v;
            acc = (case find_from (CHR ''='') tok 0 of
              None \<Rightarrow> (creator, h, ts)
            | Some eq \<Rightarrow>
                let key = take eq tok; val = drop (eq + 1) tok in
                if key = ''creator'' then (val, h, ts)
                else if key = ''hash'' then (creator, val, ts)
                else if key = ''ts'' then (creator, h, val)
                else (creator, h, ts))
        in if rest = [] then acc else clock_fields (tl rest) acc)"
  by pat_completeness auto
termination
proof (relation "measure (\<lambda>(v, acc). length v)")
  fix v :: string and rest
  assume "v \<noteq> []" "rest = dropWhile (\<lambda>c. c \<noteq> CHR '' '') v" "rest \<noteq> []"
  then have "length rest \<le> length v" "0 < length rest" using length_dropWhile_le by simp_all
  then have "length (tl rest) < length v" by (cases rest) simp_all
  then show "((tl rest, acc), v, creator, h, ts) \<in> measure (\<lambda>(v, acc). length v)" for acc creator h ts by simp
qed simp

declare clock_fields.simps [simp del]

definition json_clock_from_line :: "string \<Rightarrow> Json" where
  "json_clock_from_line v =
     (let (creator, h, ts) = clock_fields v ([], [], [])
      in JObj [(''creator'', JStr creator), (''hash'', JStr h), (''timestamp'', JStr ts)])"

text \<open>The objects below are under construction: they are the lists of their members.\<close>

definition json_base :: "ControlReply \<Rightarrow> (string \<times> Json) list" where
  "json_base r =
     [(''ok'', JBool (rp_ok r)), (''code'', JNum (to_string (rp_code r)))] @
     (if \<not> rp_ok r then [(''error'', JStr (rp_message r))] else [])"

text \<open>The last field of a key wins.\<close>

definition last_field :: "string \<Rightarrow> ControlFields \<Rightarrow> string" where
  "last_field k fs = (case filter (\<lambda>(a, _). a = k) fs of [] \<Rightarrow> [] | xs \<Rightarrow> snd (last xs))"

definition json_build_chain :: "ControlReply \<Rightarrow> (string \<times> Json) list" where
  "json_build_chain r =
     (let fs = rp_fields r;
          bound = (\<lambda>k. JArr (map (\<lambda>(_, v). json_clock_from_line v) (filter (\<lambda>(a, _). a = k) fs)));
          n = last_field ''clockEvents'' fs
      in [(''reference'', JStr (last_field ''reference'' fs)), (''lowerBound'', bound ''lower''),
          (''event'', JStr (last_field ''event'' fs)), (''content'', JStr (last_field ''content'' fs)),
          (''upperBound'', bound ''upper'')] @ (if n \<noteq> [] then [(''clockEvents'', json_value ''clockEvents'' n)] else []))"

fun find_matches :: "(string \<times> Json) list list \<Rightarrow> ControlFields \<Rightarrow> (string \<times> Json) list list" where
  "find_matches ms [] = ms"
| "find_matches ms ((k, v) # fs) =
     find_matches
       (if k = ''event'' then ms @ [[(''event'', JStr v)]]
        else if k = ''content'' \<and> ms \<noteq> [] then butlast ms @ [last ms @ [(''content'', JStr v)]]
        else ms) fs"

definition json_build_find :: "ControlReply \<Rightarrow> (string \<times> Json) list" where
  "json_build_find r = [(''matches'', JArr (map JObj (find_matches [] (rp_fields r))))]"

fun key_order :: "string list \<Rightarrow> ControlFields \<Rightarrow> string list" where
  "key_order ks [] = ks"
| "key_order ks ((k, _) # fs) = key_order (if k \<in> set ks then ks else ks @ [k]) fs"

definition json_build_generic :: "ControlReply \<Rightarrow> (string \<times> Json) list" where
  "json_build_generic r =
     map (\<lambda>k. (k, case map snd (filter (\<lambda>(a, _). a = k) (rp_fields r)) of
         [v] \<Rightarrow> json_value k v
       | vs \<Rightarrow> JArr (map (json_value k) vs))) (key_order [] (rp_fields r))"

definition reply_to_json :: "string list \<Rightarrow> ControlReply \<Rightarrow> Json" where
  "reply_to_json args r =
     JObj (json_base r @
       (if \<not> rp_ok r then []
        else if hd args = ''chain'' then json_build_chain r
        else if hd args = ''event'' \<and> length args > 1 \<and> args ! 1 = ''find'' then json_build_find r
        else json_build_generic r))"

definition json_clock :: "ClockEvent \<Rightarrow> Json" where
  "json_clock ce =
     JObj [(''creator'', JStr (hex_id (ce_creator ce))), (''hash'', JStr (hex (ce_hash ce))),
       (''timestamp'', JStr (stamp (ce_timestamp ce)))]"

definition json_chain :: "EventChain \<Rightarrow> Json" where
  "json_chain c =
     JObj [(''lowerBound'', JArr (map json_clock (ch_lower c))),
       (''event'', JObj [(''creator'', JStr (hex_id (ev_creator (ch_event c)))), (''hash'', JStr (hex (ev_hash (ch_event c)))),
         (''content'', JStr (printable (ev_data (ch_event c))))]),
       (''upperBound'', JArr (map json_clock (ch_upper c)))]"

section \<open>Requests\<close>

definition join_from :: "nat \<Rightarrow> string \<Rightarrow> string list \<Rightarrow> string" where
  "join_from i verb a = verb @ concat (map (\<lambda>w. '' '' @ w) (drop i a))"

definition to_request :: "string list \<Rightarrow> string \<Rightarrow> string" where
  "to_request a range' =
     (if a = [] then []
      else let c = a ! 0; n = length a in
      if c = ''status'' then ''status''
      else if c = ''events'' then ''events''
      else if c = ''publish'' \<and> n \<ge> 2 then join_from 1 ''publish'' a
      else if c = ''bounds'' \<and> n \<ge> 2 then ''bounds '' @ a ! 1 @ range'
      else if c = ''chain'' \<and> n \<ge> 2 then ''chain '' @ a ! 1 @ range'
      else if c = ''order'' \<and> n \<ge> 3 then ''order '' @ a ! 1 @ '' '' @ a ! 2 @ range'
      else if c = ''key'' then ''key''
      else if c = ''stop'' then ''quit''
      else if c = ''event'' \<and> n \<ge> 3 \<and> a ! 1 = ''show'' then ''event '' @ a ! 2
      else if c = ''event'' \<and> n \<ge> 3 \<and> a ! 1 = ''find'' then join_from 2 ''event-find'' a
      else if c = ''peer'' \<and> n \<ge> 3 \<and> a ! 1 = ''add'' then ''peer-add '' @ a ! 2
      else if c = ''peer'' \<and> n \<ge> 2 \<and> a ! 1 = ''ls'' then ''peer-ls''
      else if c = ''node'' \<and> n \<ge> 2 \<and> a ! 1 = ''status'' then ''status''
      else if c = ''node'' \<and> n \<ge> 2 \<and> a ! 1 = ''stop'' then ''quit''
      else [])"

section \<open>Commands\<close>

text \<open>Exit code, standard output and standard error.\<close>

record CliExit =
  x_code :: int
  x_out :: string
  x_err :: string

definition complain :: "int \<Rightarrow> string \<Rightarrow> CliExit" where
  "complain code msg = \<lparr>x_code = code, x_out = [], x_err = msg @ [LF]\<rparr>"

text \<open>The text of an exception, how \<open>mkdir\<close>, \<open>fopen\<close> and \<open>fwrite\<close> end, and the daemon behind the control
  socket: the reply to a request line, if there is one.\<close>

datatype Mkdir = Made | Exists | Refused string

record CliEnv =
  cl_what :: "exn \<Rightarrow> string"
  cl_mkdir :: Mkdir
  cl_fopen :: bool
  cl_written :: nat
  cl_keycalls :: KeyCalls
  cl_ask :: "string \<Rightarrow> ControlReply option result"

definition read_file :: "string \<Rightarrow> Files \<Rightarrow> bytes option" where
  "read_file path fs = fs path"

definition write_file :: "CliEnv \<Rightarrow> string \<Rightarrow> bytes \<Rightarrow> Files \<Rightarrow> bool \<times> Files" where
  "write_file env path b fs =
     (if \<not> cl_fopen env then (False, fs)
      else (cl_written env \<ge> length b, fs(path \<mapsto> take (cl_written env) b)))"

definition config_text :: "string \<Rightarrow> string" where
  "config_text home =
     ''# lotid config written by `loti init`'' @ [LF] @ ''port=7000'' @ [LF] @ ''key='' @ c_str (home @ ''/key'') @ [LF] @
     ''store='' @ c_str (home @ ''/state.lmdb'') @ [LF] @ ''control='' @ c_str (home @ ''/control.sock'') @ [LF]"

definition do_init :: "'k Ed25519 \<Rightarrow> CliEnv \<Rightarrow> string \<Rightarrow> Files \<Rightarrow> CliExit result \<times> Files" where
  "do_init E env home fs =
     (case cl_mkdir env of
        Refused why \<Rightarrow> (Inr (complain 1 (''loti init: cannot create '' @ c_str home @ '': '' @ why)), fs)
      | _ \<Rightarrow>
        let keypath = home @ ''/key'' in
        case make_keystore E of
          Inl e \<Rightarrow> (Inl e, fs)
        | Inr ks \<Rightarrow>
          (case load_or_generate E (cl_keycalls env) keypath fs ks of
             (Inl e, fs) \<Rightarrow> (Inl e, fs)
           | (Inr ks, fs) \<Rightarrow>
               let fs = (if cl_fopen env
                 then fs(home @ ''/config'' \<mapsto> bytes_of_string (config_text home)) else fs)
               in (Inr \<lparr>x_code = 0, x_out =
                   ''initialized '' @ c_str home @ [LF] @ ''node id: '' @ hex_id (keystore_node_id ks) @ [LF] @
                   ''public key: '' @ hex (ks_public_key ks) @ [LF] @
                   ''start: lotid --key '' @ c_str keypath @ '' --port 7000 --store '' @ c_str (home @ ''/state.lmdb'') @
                   '' --control '' @ c_str (home @ ''/control.sock'') @ [LF], x_err = []\<rparr>, fs)))"

definition no_daemon :: "string \<Rightarrow> CliExit" where
  "no_daemon control = complain 1 (''loti: cannot reach daemon at '' @ c_str control)"

definition error_line :: "ControlReply \<Rightarrow> string" where
  "error_line r = ''error('' @ to_string (rp_code r) @ ''): '' @ c_str (rp_message r)"

definition field_or :: "string \<Rightarrow> string \<Rightarrow> ControlFields \<Rightarrow> string" where
  "field_or dflt k fs = (if k \<in> fst ` set fs then last_field k fs else dflt)"

definition do_prove :: "CliEnv \<Rightarrow> string list \<Rightarrow> string \<Rightarrow> string \<Rightarrow> bool \<Rightarrow> string \<Rightarrow> Files \<Rightarrow> CliExit result \<times> Files" where
  "do_prove env args control out silent range' fs =
     (if out = [] then (Inr (complain 2 ''loti: prove requires --out <file>''), fs)
      else case cl_ask env (join_words args @ range') of
        Inl e \<Rightarrow> (Inl e, fs)
      | Inr None \<Rightarrow> (Inr (no_daemon control), fs)
      | Inr (Some reply) \<Rightarrow>
          if \<not> rp_ok reply then (Inr (complain (rp_code reply) (error_line reply)), fs)
          else case cli_unhex (last_field ''proof'' (rp_fields reply)) of
            None \<Rightarrow> (Inr (complain 1 ''loti: daemon returned no proof''), fs)
          | Some b \<Rightarrow>
              if b = [] then (Inr (complain 1 ''loti: daemon returned no proof''), fs)
              else case write_file env out b fs of
                (False, fs) \<Rightarrow> (Inr (complain 1 (''loti: cannot write '' @ c_str out)), fs)
              | (True, fs) \<Rightarrow>
                  (Inr \<lparr>x_code = 0, x_out = (if silent then [] else
                     ''wrote '' @ c_str out @ ''  ('' @ c_str (field_or ''?'' ''kind'' (rp_fields reply)) @
                     '' proof, chain length '' @ c_str (field_or ''?'' ''chainLength'' (rp_fields reply)) @
                     '', reference '' @ c_str (field_or ''?'' ''reference'' (rp_fields reply)) @ '')'' @ [LF]), x_err = []\<rparr>, fs))"

text \<open>How \<open>do_db\<close> and \<open>main\<close> show a reply.\<close>

definition show_control_reply :: "string list \<Rightarrow> bool \<Rightarrow> bool \<Rightarrow> ControlReply \<Rightarrow> CliExit" where
  "show_control_reply args json silent reply =
     \<lparr>x_code = rp_code reply,
      x_out = (if json then c_str (json_pretty (reply_to_json args reply))
        else if silent then [] else concat (map (\<lambda>(k, v). c_str k @ '': '' @ c_str v @ [LF]) (rp_fields reply))),
      x_err = (if \<not> json \<and> \<not> silent \<and> \<not> rp_ok reply then error_line reply @ [LF] else [])\<rparr>"

definition ask_daemon :: "CliEnv \<Rightarrow> string list \<Rightarrow> string \<Rightarrow> bool \<Rightarrow> bool \<Rightarrow> string \<Rightarrow> CliExit result" where
  "ask_daemon env args control json silent request =
     bindE (cl_ask env request) (\<lambda>reply.
       Inr (case reply of None \<Rightarrow> no_daemon control | Some r \<Rightarrow> show_control_reply args json silent r))"

definition do_db :: "CliEnv \<Rightarrow> string list \<Rightarrow> string \<Rightarrow> string \<Rightarrow> bool \<Rightarrow> bool \<Rightarrow> CliExit result" where
  "do_db env args control out json silent =
     (if length args < 2 then Inr (complain 2 ''usage: loti db <stat | gc | backup --out <file> | restore <file>>'')
      else let sub = args ! 1; ask = ask_daemon env args control json silent in
      if sub = ''stat'' then ask ''db-stat''
      else if sub = ''gc'' then ask ''db-gc''
      else if sub = ''backup''
      then if out = [] then Inr (complain 2 ''loti: db backup requires --out <file>'') else ask (''db-backup '' @ out)
      else if sub = ''restore''
      then if length args < 3 then Inr (complain 2 ''usage: loti db restore <file>'') else ask (''db-restore '' @ args ! 2)
      else Inr (complain 2 (''loti: unknown db subcommand: '' @ c_str sub)))"

definition pubkey_member :: "Proof \<Rightarrow> (string \<times> Json) list" where
  "pubkey_member p =
     (if rf_pubkey (pf_reference p) \<noteq> [] then [(''pubkey'', JStr (''ed25519:'' @ hex (rf_pubkey (pf_reference p))))] else [])"

definition pubkey_line :: "Proof \<Rightarrow> string" where
  "pubkey_line p =
     (if rf_pubkey (pf_reference p) \<noteq> [] then ''pubkey: ed25519:'' @ hex (rf_pubkey (pf_reference p)) @ [LF] else [])"

text \<open>A file is read and parsed the same way by the two commands on proofs.\<close>

definition load_proof :: "CliEnv \<Rightarrow> string \<Rightarrow> Files \<Rightarrow> (CliExit + Proof) result" where
  "load_proof env path fs =
     (case read_file path fs of
        None \<Rightarrow> Inr (Inl (complain 4 (''loti: cannot read '' @ c_str path)))
      | Some b \<Rightarrow>
          (case deserialize b of
             Inl e \<Rightarrow> if catchable e then Inr (Inl (complain 4 (''loti: '' @ cl_what env e))) else Inl e
           | Inr p \<Rightarrow> Inr (Inr p)))"

definition do_proof_show :: "CliEnv \<Rightarrow> string list \<Rightarrow> bool \<Rightarrow> Files \<Rightarrow> CliExit result" where
  "do_proof_show env args json fs =
     (if length args < 3 then Inr (complain 2 ''usage: loti proof show <file> [--json]'')
      else bindE (load_proof env (args ! 2) fs) (\<lambda>x. case x of
        Inl stop \<Rightarrow> Inr stop
      | Inr p \<Rightarrow>
          if json
          then Inr \<lparr>x_code = 0, x_out = c_str (json_pretty (JObj
              ([(''loti_proof'', JNum (to_string 1)), (''kind'', JStr (kind_name (pf_kind p))),
                (''reference'', JObj ((''node'', JStr (hex_id (rf_node (pf_reference p)))) # pubkey_member p)),
                (''chain'', json_chain (pf_chain p))] @
               (if pf_kind p = kind_order
                then [(''chain2'', json_chain (pf_chain2 p)), (''order'', JStr (order_name (pf_order p)))] else [])))), x_err = []\<rparr>
          else if pf_kind p \<noteq> kind_order \<and> (ch_lower (pf_chain p) = [] \<or> ch_upper (pf_chain p) = [])
          then Inl Undefined_behaviour
          else Inr \<lparr>x_code = 0, x_out =
            ''kind: '' @ kind_name (pf_kind p) @ [LF] @ ''reference: '' @ hex_id (rf_node (pf_reference p)) @ [LF] @
            pubkey_line p @ ''event: '' @ hex (ev_hash (ch_event (pf_chain p))) @ [LF] @
            ''chainLength: '' @ chain_length (pf_chain p) @ [LF] @
            (if pf_kind p = kind_order
             then ''event2: '' @ hex (ev_hash (ch_event (pf_chain2 p))) @ [LF] @ ''order: '' @ order_name (pf_order p) @ [LF]
             else ''lower: '' @ format_ts (ce_timestamp (hd (ch_lower (pf_chain p)))) @ [LF] @
               ''upper: '' @ format_ts (ce_timestamp (last (ch_upper (pf_chain p)))) @ [LF]) @
            ''(not verified '' @ [CHR 0xE2, CHR 0x80, CHR 0x94] @ '' run `loti verify '' @ c_str (args ! 2) @ ''`)'' @ [LF], x_err = []\<rparr>))"

definition do_verify :: "'k Ed25519 \<Rightarrow> CliEnv \<Rightarrow> string list \<Rightarrow> string list \<Rightarrow> bool \<Rightarrow> Files \<Rightarrow> CliExit result" where
  "do_verify E env args trust json fs =
     (if length args < 2 then Inr (complain 2 ''usage: loti verify <file> [--trust <node>]... [--json]'')
      else bindE (load_proof env (args ! 1) fs) (\<lambda>x. case x of
        Inl stop \<Rightarrow> Inr stop
      | Inr p \<Rightarrow>
          bindE (make_keystore E) (\<lambda>_.
          let res = verify_proof p (keystore_verify E);
              node = rf_node (pf_reference p);
              trusted = (trust = [] \<or> list_ex (\<lambda>t. parse_node_id t = node) trust)
          in Inr (if json
            then \<lparr>x_code = (if vr_valid res then 0 else 6), x_out = c_str (json_pretty (JObj
                ([(''valid'', JBool (vr_valid res)), (''kind'', JStr (kind_name (pf_kind p))), (''reference'', JStr (hex_id node))] @
                 pubkey_member p @
                 (if \<not> vr_valid res then [(''reason'', JStr (vr_reason res))]
                  else if pf_kind p = kind_order then [(''order'', JStr (order_name (vr_order res)))]
                  else [(''lower'', JStr (stamp (vr_lower res))), (''upper'', JStr (stamp (vr_upper res)))]) @
                 (if trust \<noteq> [] then [(''trusted'', JBool trusted)] else [])))), x_err = []\<rparr>
            else if \<not> vr_valid res then complain 6 (''invalid: '' @ c_str (vr_reason res))
            else \<lparr>x_code = 0, x_out =
                ''valid: '' @ kind_name (pf_kind p) @ '' proof'' @ [LF] @ ''reference: '' @ hex_id node @ [LF] @ pubkey_line p @
                (if pf_kind p = kind_order
                 then ''order: '' @ order_name (vr_order res) @ '' (relative to the reference node''  @ [CHR 0x27] @ ''s clock)'' @ [LF]
                 else ''lower: '' @ format_ts (vr_lower res) @ [LF] @ ''upper: '' @ format_ts (vr_upper res) @ [LF] @
                   ''(bounds are in the reference node'' @ [CHR 0x27] @ ''s clock)'' @ [LF]),
              x_err = (if trust \<noteq> [] \<and> \<not> trusted
                then ''warning: reference '' @ hex_id node @ '' is not in the --trust set'' @ [LF] else [])\<rparr>))))"

section \<open>The program\<close>

record CliOptions =
  opt_control :: string
  opt_home :: string
  opt_out :: string
  opt_trust :: "string list"
  opt_from :: string
  opt_to :: string
  opt_json :: bool
  opt_quiet :: bool
  opt_help :: bool
  opt_args :: "string list"

text \<open>An option that wants a value and is the last word is an ordinary word.\<close>

fun parse_options :: "string list \<Rightarrow> CliOptions \<Rightarrow> CliOptions" where
  "parse_options [] o' = o'"
| "parse_options (a # as) o' =
     (if a = ''--json'' then parse_options as (o'\<lparr>opt_json := True\<rparr>)
      else if a = ''--quiet'' \<or> a = ''-q'' then parse_options as (o'\<lparr>opt_quiet := True\<rparr>)
      else if a = ''--help'' \<or> a = ''-h'' then parse_options as (o'\<lparr>opt_help := True\<rparr>)
      else case as of
        [] \<Rightarrow> parse_options as (o'\<lparr>opt_args := opt_args o' @ [a]\<rparr>)
      | v # as' \<Rightarrow>
          if a = ''--control'' then parse_options as' (o'\<lparr>opt_control := v\<rparr>)
          else if a = ''--home'' then parse_options as' (o'\<lparr>opt_home := v\<rparr>)
          else if a = ''--out'' then parse_options as' (o'\<lparr>opt_out := v\<rparr>)
          else if a = ''--trust'' then parse_options as' (o'\<lparr>opt_trust := opt_trust o' @ [v]\<rparr>)
          else if a = ''--from'' then parse_options as' (o'\<lparr>opt_from := v\<rparr>)
          else if a = ''--to'' then parse_options as' (o'\<lparr>opt_to := v\<rparr>)
          else parse_options as (o'\<lparr>opt_args := opt_args o' @ [a]\<rparr>))"

definition initial_options :: "string option \<Rightarrow> string option \<Rightarrow> CliOptions" where
  "initial_options loti_control home =
     \<lparr>opt_control = (case loti_control of Some c \<Rightarrow> c | None \<Rightarrow> ''loti.sock''),
      opt_home = (case home of Some h \<Rightarrow> h @ ''/.loti'' | None \<Rightarrow> ''.loti''), opt_out = [], opt_trust = [],
      opt_from = [], opt_to = [], opt_json = False, opt_quiet = False, opt_help = False, opt_args = []\<rparr>"

text \<open>The text of the help is a parameter.\<close>

definition loti_main :: "'k Ed25519 \<Rightarrow> CliEnv \<Rightarrow> string \<Rightarrow> string option \<Rightarrow> string option \<Rightarrow> string list \<Rightarrow> Files \<Rightarrow> CliExit result \<times> Files" where
  "loti_main E env help_text loti_control home argv fs =
     (let o' = parse_options argv (initial_options loti_control home); args = opt_args o';
          range' = (if opt_from o' \<noteq> [] \<and> opt_to o' \<noteq> [] then '' '' @ opt_from o' @ '' '' @ opt_to o' else [])
      in if opt_help o' \<or> (args \<noteq> [] \<and> args ! 0 = ''help'') then (Inr \<lparr>x_code = 0, x_out = help_text, x_err = []\<rparr>, fs)
      else if args = []
      then (Inr (complain 2 (''usage: loti [global options] <command> [args]'' @ [LF] @ ''run `loti --help` for the full command list'')), fs)
      else if args ! 0 = ''init'' then do_init E env (opt_home o') fs
      else if args ! 0 = ''prove'' then do_prove env args (opt_control o') (opt_out o') (opt_quiet o') range' fs
      else if args ! 0 = ''verify'' then (do_verify E env args (opt_trust o') (opt_json o') fs, fs)
      else if args ! 0 = ''proof'' \<and> length args \<ge> 2 \<and> args ! 1 = ''show'' then (do_proof_show env args (opt_json o') fs, fs)
      else if args ! 0 = ''db'' then (do_db env args (opt_control o') (opt_out o') (opt_json o') (opt_quiet o'), fs)
      else
        let request = to_request args range' in
        if request = [] then (Inr (complain 2 ''loti: unknown or malformed command''), fs)
        else (ask_daemon env args (opt_control o') (opt_json o') (opt_quiet o') request, fs))"

end
