(* ===== verification/Daemon.thy ===== *)
theory Daemon
  imports Daemon_Replies
begin

text \<open>
  The commands of the daemon \<open>src/app/lotid/lotid.cpp\<close>, its two front ends (standard input and the
  control socket), its start and everything that can happen to it.
\<close>

section \<open>Environment\<close>

text \<open>The ports of the node, \<open>inet_pton\<close> for the two families, the text of an exception, how the calls
  of a backup end, the size of a file on disk, and the outcome of \<open>LmdbStore::sync\<close>.\<close>

record LotidEnv =
  le_ports :: NodePorts
  le_pton6 :: "string \<Rightarrow> bytes option"
  le_pton4 :: "string \<Rightarrow> bytes option"
  le_what :: "exn \<Rightarrow> string"
  le_save :: SaveCalls
  le_disk :: "string \<Rightarrow> nat option"
  le_sync :: "unit result"

definition node_call :: "LotidEnv \<Rightarrow> Input \<Rightarrow> unit act" where
  "node_call env i = with_node (\<lambda>n. bindE (handle (le_ports env) i n) (\<lambda>n. Inr ((), n)))"

section \<open>Looking events up\<close>

fun contains :: "string \<Rightarrow> string \<Rightarrow> bool" where
  "contains needle [] \<longleftrightarrow> needle = []"
| "contains needle (c # cs) \<longleftrightarrow> take (length needle) (c # cs) = needle \<or> contains needle cs"

fun scan_prefix :: "string \<Rightarrow> InMemoryStore \<Rightarrow> nat list \<Rightarrow> Event option result" where
  "scan_prefix pre s [] = Inr None"
| "scan_prefix pre s (i # is) =
     bindE (event_by_seq i s) (\<lambda>e.
       if take (length pre) (hex (ev_hash e)) = pre then Inr (Some e) else scan_prefix pre s is)"

definition find_by_hash_prefix :: "string \<Rightarrow> Lotid \<Rightarrow> Event option result" where
  "find_by_hash_prefix pre d =
     (let s = nd_store (d_node d) in
      if length pre = 64
      then (case unhex pre of Some b \<Rightarrow> event_by_hash b s | None \<Rightarrow> Inr None)
      else scan_prefix pre s [0..<event_count s])"

definition find_event :: "string \<Rightarrow> Lotid \<Rightarrow> Event option result" where
  "find_event ref d =
     (if ref = ''last''
      then (if d_last_event d = [] then Inr None else find_by_hash_prefix (hex (d_last_event d)) d)
      else find_by_hash_prefix ref d)"

definition resolve_event :: "string \<Rightarrow> Lotid \<Rightarrow> Event option result" where
  "resolve_event ref d =
     (case find_from (CHR '':'') ref 0 of
        Some colon \<Rightarrow>
          (case unhex (drop (colon + 1) ref) of
             None \<Rightarrow> Inr None
           | Some h \<Rightarrow>
               if length h \<noteq> 32 then Inr None
               else Inr (Some ((ch_event empty_chain)\<lparr>ev_creator := parse_node_id (take colon ref), ev_hash := h\<rparr>)))
      | None \<Rightarrow> find_event ref d)"

definition act_read :: "(Lotid \<Rightarrow> 'a result) \<Rightarrow> 'a act" where
  "act_read f d = (f d, d)"

section \<open>Replies\<close>

definition error_reply :: "int \<Rightarrow> string \<Rightarrow> Reply" where
  "error_reply code msg = \<lparr>rl_code = code, rl_deferred = False, rl_error = msg, rl_fields = []\<rparr>"

definition deferred_reply :: Reply where
  "deferred_reply = \<lparr>rl_code = kOk, rl_deferred = True, rl_error = [], rl_fields = []\<rparr>"

definition count_fields :: "Lotid \<Rightarrow> ControlFields" where
  "count_fields d =
     [(''events'', to_string (int (event_count (nd_store (d_node d))))),
      (''clockEvents'', to_string (int (clock_event_count (nd_store (d_node d)))))]"

definition store_name :: "Lotid \<Rightarrow> string" where
  "store_name d = (case d_lmdb d of Some path \<Rightarrow> path | None \<Rightarrow> ''(in-memory)'')"

definition db_stat :: "LotidEnv \<Rightarrow> Lotid \<Rightarrow> Reply result" where
  "db_stat env d =
     bindE (snapshot (d_node d)) (\<lambda>blob.
       Inr (ok_reply ([(''store'', store_name d)] @ count_fields d @
         [(''chains'', to_string (int (nd_num_chains (d_node d)))),
          (''peers'', to_string (int (length (d_peers d)))),
          (''snapshotBytes'', to_string (int (length blob))),
          (''retention'', ''per-chain ring; events stay boundable at the coarsest retained chain'')] @
         (case d_lmdb d of
            None \<Rightarrow> []
          | Some path \<Rightarrow> [(''diskBytes'', to_string (case le_disk env path of Some k \<Rightarrow> int k | None \<Rightarrow> 0))]))))"

section \<open>Discovery commands\<close>

definition new_entry :: "(nat \<Rightarrow> Lotid \<Rightarrow> Lotid) \<Rightarrow> Lotid \<Rightarrow> Lotid" where
  "new_entry f d = f (d_next_addr d) (d\<lparr>d_next_addr := Suc (d_next_addr d)\<rparr>)"

text \<open>\<open>insert\<close> of a multimap makes a new tree node; so does \<open>operator[]\<close> of a map for a new key.\<close>

definition wait_for :: "Query \<Rightarrow> EventHash \<Rightarrow> int \<Rightarrow> Lotid \<Rightarrow> Lotid" where
  "wait_for q h fd = new_entry (\<lambda>a d. set_pending q (mm_emplace h (a, fd) (pending q d)) d)"

definition wait_for_order :: "EventHash \<times> EventHash \<Rightarrow> int \<Rightarrow> Lotid \<Rightarrow> Lotid" where
  "wait_for_order key fd d =
     (case om_find key (d_pending_order d) of
        Some (a, _) \<Rightarrow> d\<lparr>d_pending_order := om_put key (a, fd) (d_pending_order d)\<rparr>
      | None \<Rightarrow> new_entry (\<lambda>a d. d\<lparr>d_pending_order := om_put key (a, fd) (d_pending_order d)\<rparr>) d)"

definition wait_for_proof :: "EventHash \<Rightarrow> ProofRequest \<Rightarrow> Lotid \<Rightarrow> Lotid" where
  "wait_for_proof h rq = new_entry (\<lambda>a d. d\<lparr>d_pending_proof := mm_emplace h (a, rq) (d_pending_proof d)\<rparr>)"

definition started_reply :: "int \<Rightarrow> Reply" where
  "started_reply fd = (if fd \<ge> 0 then deferred_reply else ok_reply [(''status'', ''started'')])"

definition dispatch_query :: "LotidEnv \<Rightarrow> string \<Rightarrow> string list \<Rightarrow> int \<Rightarrow> Reply act" where
  "dispatch_query env verb args fd =
     (if verb = ''order''
      then if length args < 3 then act_return (error_reply kUsage ''usage: order <a> <b>'')
        else act_bind (act_read (resolve_event (args ! 1))) (\<lambda>a.
          act_bind (act_read (resolve_event (args ! 2))) (\<lambda>b.
            case (a, b) of
              (Some a, Some b) \<Rightarrow>
                act_bind (act_update (\<lambda>d. if fd \<ge> 0 then wait_for_order (ev_hash a, ev_hash b) fd d else d)) (\<lambda>_.
                  act_bind (node_call env (Discover_order a b (parse_range args 3) 0)) (\<lambda>_.
                    act_return (started_reply fd)))
            | _ \<Rightarrow> act_return (error_reply kNotFound ''no such event'')))
      else if length args < 2 then act_return (error_reply kUsage (''usage: '' @ verb @ '' <event>''))
      else act_bind (act_read (resolve_event (args ! 1))) (\<lambda>e.
        case e of
          None \<Rightarrow> act_return (error_reply kNotFound ''no such event'')
        | Some e \<Rightarrow>
            act_bind (if verb = ''bounds''
              then act_bind (act_update (\<lambda>d. if fd \<ge> 0 then wait_for Bounds_query (ev_hash e) fd d else d)) (\<lambda>_.
                node_call env (Discover_bounds e (parse_range args 2) 0))
              else act_bind (act_update (\<lambda>d. if fd \<ge> 0 then wait_for Chain_query (ev_hash e) fd d else d)) (\<lambda>_.
                node_call env (Discover_chain e (parse_range args 2) 0))) (\<lambda>_.
              act_return (started_reply fd))))"

definition dispatch_prove :: "LotidEnv \<Rightarrow> string list \<Rightarrow> int \<Rightarrow> Reply act" where
  "dispatch_prove env args fd =
     (if length args < 2 then act_return (error_reply kUsage ''usage: prove <bounds|order|chain> <event> [event2]'')
      else let sub = args ! 1 in
      if fd < 0 then act_return (error_reply kUsage ''prove requires the control socket'')
      else if sub = ''order''
      then if length args < 4 then act_return (error_reply kUsage ''usage: prove order <a> <b>'')
        else act_bind (act_read (resolve_event (args ! 2))) (\<lambda>a.
          act_bind (act_read (resolve_event (args ! 3))) (\<lambda>b.
            case (a, b) of
              (Some a, Some b) \<Rightarrow>
                act_bind (act_update (\<lambda>d. d\<lparr>d_order_proofs := d_order_proofs d @
                    [\<lparr>op_fd = fd, op_a = ev_hash a, op_b = ev_hash b, op_chain_a = None, op_chain_b = None\<rparr>]\<rparr>)) (\<lambda>_.
                  act_bind (node_call env (Discover_chain a (parse_range args 4) 0)) (\<lambda>_.
                    act_bind (node_call env (Discover_chain b (parse_range args 4) 0)) (\<lambda>_.
                      act_return deferred_reply)))
            | _ \<Rightarrow> act_return (error_reply kNotFound ''no such event'')))
      else if sub \<noteq> ''bounds'' \<and> sub \<noteq> ''chain''
      then act_return (error_reply kUsage ''prove kind must be bounds|order|chain'')
      else if length args < 3 then act_return (error_reply kUsage (''usage: prove '' @ sub @ '' <event>''))
      else act_bind (act_read (resolve_event (args ! 2))) (\<lambda>e.
        case e of
          None \<Rightarrow> act_return (error_reply kNotFound ''no such event'')
        | Some e \<Rightarrow>
            act_bind (act_update (wait_for_proof (ev_hash e)
                \<lparr>pr_fd = fd, pr_kind = (if sub = ''chain'' then kind_chain else kind_bounds)\<rparr>)) (\<lambda>_.
              act_bind (node_call env (Discover_chain e (parse_range args 3) 0)) (\<lambda>_.
                act_return deferred_reply))))"

section \<open>Commands\<close>

text \<open>\<open>add_peer\<close>: the neighbor and the route come first, then the address.\<close>

definition add_peer :: "LotidEnv \<Rightarrow> NodeId \<Rightarrow> string \<Rightarrow> 16 word \<Rightarrow> unit act" where
  "add_peer env i ip port =
     act_bind (node_call env (Add_neighbor i)) (\<lambda>_.
       act_bind (node_call env (Learn_route i i)) (\<lambda>_.
         act_bind (act_read (\<lambda>d. set_peer (le_pton6 env) (le_pton4 env) i ip port (d_transport d))) (\<lambda>t.
           act_update (\<lambda>d. d\<lparr>d_transport := t, d_peers := d_peers d @ [(i, ip, port)]\<rparr>))))"

definition publish_command :: "LotidEnv \<Rightarrow> string list \<Rightarrow> Reply act" where
  "publish_command env args =
     (if length args < 2 then act_return (error_reply kUsage ''usage: publish <text>'')
      else act_bind (with_node (publish_event (le_ports env) (bytes_of_string (join_words (tl args))))) (\<lambda>e.
        act_bind (act_update (\<lambda>d. d\<lparr>d_last_event := ev_hash e\<rparr>)) (\<lambda>_.
          act_return (ok_reply [(''event'', hex (ev_hash e))]))))"

definition event_fields :: "Event \<Rightarrow> ControlFields" where
  "event_fields e =
     [(''event'', hex (ev_hash e)), (''creator'', hex_id (ev_creator e)), (''content'', printable (ev_data e)),
      (''size'', to_string (int (length (ev_data e)))), (''references'', to_string (int (length (ev_refs e))))]"

definition event_command :: "string list \<Rightarrow> Reply act" where
  "event_command args =
     (if length args < 2 then act_return (error_reply kUsage ''usage: event <hash|last>'')
      else act_bind (act_read (find_event (args ! 1))) (\<lambda>e.
        case e of
          None \<Rightarrow> act_return (error_reply kNotFound ''no such event'')
        | Some e \<Rightarrow> act_return (ok_reply (event_fields e))))"

definition event_find_command :: "string list \<Rightarrow> Reply act" where
  "event_find_command args =
     (if length args < 2 then act_return (error_reply kUsage ''usage: event-find <text>'')
      else act_bind (act_read (\<lambda>d. events_from (nd_store (d_node d)) [0..<event_count (nd_store (d_node d))])) (\<lambda>es.
        let fs = concat (map (\<lambda>e. if contains (join_words (tl args)) (string_of_bytes (ev_data e))
            then [(''event'', hex (ev_hash e)), (''content'', printable (ev_data e))] else []) es)
        in act_return (if fs = [] then error_reply kNotFound ''no event matches'' else ok_reply fs)))"

definition events_command :: "Reply act" where
  "events_command =
     act_bind (act_read (\<lambda>d. events_from (nd_store (d_node d)) [0..<event_count (nd_store (d_node d))])) (\<lambda>es.
       act_return (ok_reply (map (\<lambda>e. (''event'', hex (ev_hash e))) es)))"

definition peer_add_command :: "LotidEnv \<Rightarrow> string list \<Rightarrow> Reply act" where
  "peer_add_command env args =
     (if length args < 2 then act_return (error_reply kUsage ''usage: peer-add <id:ip:port>'')
      else let f = split (args ! 1) (CHR '':'') in
        if length f \<noteq> 3 then act_return (error_reply kUsage ''want id:ip:port'')
        else act_bind (act_result (atoi (f ! 2))) (\<lambda>port.
          act_bind (add_peer env (parse_node_id (f ! 0)) (f ! 1) (of_int port)) (\<lambda>_.
            act_return (ok_reply [(''peer'', args ! 1)]))))"

definition peer_ls_command :: "Reply act" where
  "peer_ls_command d =
     (Inr (ok_reply (map (\<lambda>(i, ip, port). (''peer'', hex_id i @ '' '' @ ip @ '':'' @ to_string (uint port))) (d_peers d))), d)"

definition status_command :: "Reply act" where
  "status_command d =
     (Inr (ok_reply ([(''node'', hex_id (d_node_id d)),
        (''mode'', if d_public_key d \<noteq> None then ''signed'' else ''unsigned'')] @ count_fields d @
        [(''peers'', to_string (int (length (d_peers d))))])), d)"

definition key_command :: "Reply act" where
  "key_command d =
     (Inr (ok_reply [(''node'', hex_id (d_node_id d)),
        (''publicKey'', case d_public_key d of Some k \<Rightarrow> hex k | None \<Rightarrow> ''(unsigned)'')]), d)"

definition save_command :: "LotidEnv \<Rightarrow> Reply act" where
  "save_command env d =
     act_bind (act_result (if d_lmdb d \<noteq> None then le_sync env else Inr ())) (\<lambda>_ d.
       (Inr (ok_reply [(''store'', store_name d)]), d)) d"

definition gc_command :: "LotidEnv \<Rightarrow> Reply act" where
  "gc_command env =
     act_bind (node_call env Collect_garbage) (\<lambda>_ d.
       (Inr (ok_reply [(''gc'', ''done''), (''chains'', to_string (int (nd_num_chains (d_node d)))),
          (''clockEvents'', to_string (int (clock_event_count (nd_store (d_node d)))))]), d))"

definition backup_command :: "LotidEnv \<Rightarrow> string list \<Rightarrow> Reply act" where
  "backup_command env args =
     (if length args < 2 then act_return (error_reply kUsage ''usage: db-backup <path>'')
      else act_bind (act_read (\<lambda>d. snapshot (d_node d))) (\<lambda>blob.
        act_bind (\<lambda>d. let (r, states) = file_save (le_save env) (args ! 1) blob (d_files d) in (r, d\<lparr>d_files := hd states\<rparr>))
          (\<lambda>_ d. (Inr (ok_reply ((''backup'', args ! 1) # count_fields d)), d))))"

definition restore_command :: "LotidEnv \<Rightarrow> string list \<Rightarrow> Reply act" where
  "restore_command env args d =
     (if length args < 2 then (Inr (error_reply kUsage ''usage: db-restore <path>''), d)
      else case file_load (args ! 1) (d_files d) of
        None \<Rightarrow> (Inr (error_reply kNotFound ''cannot read snapshot''), d)
      | Some blob \<Rightarrow>
          (case with_node (\<lambda>n. bindE (restore blob n) (\<lambda>n. Inr ((), n))) d of
             (Inl e, d) \<Rightarrow>
               if catchable e then (Inr (error_reply kInvalidResult (''invalid snapshot: '' @ le_what env e)), d)
               else (Inl e, d)
           | (Inr _, d) \<Rightarrow> (Inr (ok_reply ((''restored'', args ! 1) # count_fields d)), d)))"

definition quit_command :: "Reply act" where
  "quit_command d = (Inr (ok_reply [(''status'', ''stopping'')]), d\<lparr>d_running := False\<rparr>)"

definition dispatch :: "LotidEnv \<Rightarrow> string list \<Rightarrow> int \<Rightarrow> Reply act" where
  "dispatch env args fd =
     (if args = [] then act_throw Undefined_behaviour
      else let verb = args ! 0 in
      if verb = ''publish'' then publish_command env args
      else if verb = ''event'' then event_command args
      else if verb = ''event-find'' then event_find_command args
      else if verb = ''events'' then events_command
      else if verb = ''bounds'' \<or> verb = ''chain'' \<or> verb = ''order'' then dispatch_query env verb args fd
      else if verb = ''prove'' then dispatch_prove env args fd
      else if verb = ''peer-add'' then peer_add_command env args
      else if verb = ''peer-ls'' then peer_ls_command
      else if verb = ''status'' then status_command
      else if verb = ''key'' then key_command
      else if verb = ''save'' then save_command env
      else if verb = ''db-stat'' then act_read (db_stat env)
      else if verb = ''db-gc'' then gc_command env
      else if verb = ''db-backup'' then backup_command env args
      else if verb = ''db-restore'' then restore_command env args
      else if verb = ''quit'' \<or> verb = ''exit'' then quit_command
      else act_return (error_reply kUsage (''unknown command: '' @ verb)))"

definition dispatch_guarded :: "LotidEnv \<Rightarrow> string list \<Rightarrow> int \<Rightarrow> Reply act" where
  "dispatch_guarded env args fd d =
     (case dispatch env args fd d of
        (Inl e, d) \<Rightarrow>
          if catchable e then (Inr (error_reply kUsage (''command failed: '' @ le_what env e)), d) else (Inl e, d)
      | (Inr r, d) \<Rightarrow> (Inr r, d))"

section \<open>Front ends\<close>

definition on_control_accept :: "int \<Rightarrow> Lotid \<Rightarrow> Lotid" where
  "on_control_accept fd d =
     (if fd < 0 then d else d\<lparr>d_client_buf := om_emplace fd [] (d_client_buf d)\<rparr>)"

definition on_control_readable :: "LotidEnv \<Rightarrow> int \<Rightarrow> Read \<Rightarrow> unit act" where
  "on_control_readable env fd rd d =
     (case rd of
        Data buf \<Rightarrow>
          (let acc = (case om_find fd (d_client_buf d) of Some b \<Rightarrow> b | None \<Rightarrow> []) @ buf;
               d = d\<lparr>d_client_buf := om_put fd acc (d_client_buf d)\<rparr>
           in case find_from LF acc 0 of
                None \<Rightarrow> (Inr (), d)
              | Some nl \<Rightarrow>
                  let args = tokenize (take nl acc) in
                  if args = [] then (Inr (), respond fd (error_reply kUsage ''empty request'') d)
                  else act_bind (dispatch_guarded env args fd) (\<lambda>r.
                    act_update (\<lambda>d. if rl_deferred r then d else respond fd r d)) d)
      | _ \<Rightarrow> (Inr (), close_client fd d))"

definition show_reply :: "Reply \<Rightarrow> string" where
  "show_reply r =
     (if rl_error r \<noteq> [] then ''error('' @ to_string (rl_code r) @ ''): '' @ c_str (rl_error r) @ [LF]
      else concat (map (\<lambda>(k, v). c_str k @ '': '' @ c_str v @ [LF]) (rl_fields r)))"

text \<open>The loop over the complete lines of standard input: what has been printed, and what is left in
  the buffer.\<close>

function stdin_loop :: "LotidEnv \<Rightarrow> string \<Rightarrow> unit act" where
  "stdin_loop env buf d =
     (case find_from LF buf 0 of
        None \<Rightarrow> (Inr (), d\<lparr>d_stdin_buf := buf\<rparr>)
      | Some nl \<Rightarrow>
          (let args = tokenize (take nl buf); d = d\<lparr>d_stdin_buf := drop (nl + 1) buf\<rparr> in
           if args = [] then stdin_loop env (drop (nl + 1) buf) d
           else case dispatch_guarded env args (- 1) d of
             (Inl e, d) \<Rightarrow> (Inl e, d)
           | (Inr r, d) \<Rightarrow> stdin_loop env (drop (nl + 1) buf) (d\<lparr>d_stdout := d_stdout d @ show_reply r\<rparr>)))"
  by auto
termination
  by (relation "measure (\<lambda>(env, buf, d). length buf)")
    (auto simp: find_from_def Let_def split: if_splits)

declare stdin_loop.simps [simp del]

definition on_stdin_readable :: "LotidEnv \<Rightarrow> Read \<Rightarrow> unit act" where
  "on_stdin_readable env rd d =
     (case rd of
        Data s \<Rightarrow> stdin_loop env (d_stdin_buf d @ s) d
      | _ \<Rightarrow> (Inr (), d\<lparr>d_running := False\<rparr>))"

text \<open>The reader of the UDP socket.\<close>

function lotid_drain :: "LotidEnv \<Rightarrow> Socket \<Rightarrow> Socket act" where
  "lotid_drain env q d =
     (let (datagram, q') = receive (d_transport d) q in
      if datagram = [] then (Inr q', d)
      else case node_call env (Packet datagram) d of
        (Inl e, d) \<Rightarrow> if catchable e then lotid_drain env q' d else (Inl e, d)
      | (Inr _, d) \<Rightarrow> lotid_drain env q' d)"
  by auto
termination
proof (relation "measure (\<lambda>(env, q, d). length q)")
  fix env :: LotidEnv and q x datagram q' and d d' :: Lotid
  assume *: "x = receive (d_transport d) q" "(datagram, q') = x" "datagram \<noteq> []"
  then have "receive (d_transport d) q = (datagram, q')" by simp
  moreover have "q \<noteq> []" using * by auto
  ultimately have "length q' < length q" by (rule receive_shrinks)
  then show "((env, q', d'), env, q, d) \<in> measure (\<lambda>(env, q, d). length q)"
    "((env, q', d'), env, q, d) \<in> measure (\<lambda>(env, q, d). length q)" by simp_all
qed simp

declare lotid_drain.simps [simp del]

section \<open>Start\<close>

fun chain_levels :: "nat \<Rightarrow> int \<Rightarrow> ChainConfig list result" where
  "chain_levels 0 interval = Inr []"
| "chain_levels (Suc level) interval =
     (if interval * 8 \<ge> 2 ^ 63 then Inl Undefined_behaviour
      else bindE (chain_levels level (interval * 8)) (\<lambda>cs. Inr (\<lparr>cc_interval = of_int interval, cc_keep = 4096\<rparr> # cs)))"

definition default_chain_schedule :: "Duration \<Rightarrow> ChainConfig list result" where
  "default_chain_schedule clock_ns =
     (if sint clock_ns \<le> 0 then Inr [\<lparr>cc_interval = clock_ns, cc_keep = 0\<rparr>] else chain_levels 4 (sint clock_ns))"

text \<open>The constructor: with a key file the identity is the key's, without one it is the given id; the
  store is the one recovered from a path, or an empty one in memory.\<close>

definition make_lotid :: "'k Ed25519 \<Rightarrow> KeyCalls \<Rightarrow> NodeId \<Rightarrow> string \<Rightarrow> (string \<times> InMemoryStore) option \<Rightarrow>
    Duration \<Rightarrow> Duration \<Rightarrow> Files \<Rightarrow> (Lotid \<times> 'k KeyStore option) result" where
  "make_lotid E calls i key_path lmdb clock_ns expiry_ns fs =
     bindE (if key_path = [] then Inr (None, fs)
       else bindE (make_keystore E) (\<lambda>ks.
         case load_or_generate E calls key_path fs ks of
           (Inl e, _) \<Rightarrow> Inl e
         | (Inr ks, fs) \<Rightarrow> Inr (Some ks, fs))) (\<lambda>(key, fs).
     bindE (default_chain_schedule clock_ns) (\<lambda>chains.
       let i = (case key of None \<Rightarrow> i | Some ks \<Rightarrow> keystore_node_id ks);
           s = (case lmdb of None \<Rightarrow> empty_store | Some (_, s) \<Rightarrow> s) in
       bindE (make_node i s \<lparr>cfg_chains = chains, cfg_discovery_expiry = expiry_ns, cfg_discovery_hop_limit = 0,
         cfg_discovery_routing = static_shortest_path, cfg_discovery_fanout = 0, cfg_discovery_forward_cap = 0\<rparr>) (\<lambda>n.
       Inr (\<lparr>d_node = n, d_node_id = i, d_public_key = map_option ks_public_key key, d_last_event = [],
         d_lmdb = map_option fst lmdb, d_peers = [], d_transport = UdpTransport_init, d_running = True,
         d_stdin_buf = [], d_stdout = [], d_files = fs, d_client_buf = [], d_pending_bounds = [], d_pending_chain = [],
         d_pending_order = [], d_pending_proof = [], d_order_proofs = [], d_next_addr = 0, d_sent = [], d_wire = []\<rparr>,
         key))))"

text \<open>The peers and routes of the command line; a malformed one ends the program with code 2.\<close>

fun configure_peers :: "LotidEnv \<Rightarrow> string list \<Rightarrow> int option act" where
  "configure_peers env [] d = (Inr None, d)"
| "configure_peers env (p # ps) d =
     (let f = split p (CHR '':'') in
      if length f \<noteq> 3 then (Inr (Some 2), d)
      else act_bind (act_result (atoi (f ! 2))) (\<lambda>port.
        act_bind (add_peer env (parse_node_id (f ! 0)) (f ! 1) (of_int port)) (\<lambda>_. configure_peers env ps)) d)"

fun configure_routes :: "LotidEnv \<Rightarrow> string list \<Rightarrow> int option act" where
  "configure_routes env [] d = (Inr None, d)"
| "configure_routes env (r # rs) d =
     (let f = split r (CHR '':'') in
      if length f \<noteq> 2 then (Inr (Some 2), d)
      else act_bind (node_call env (Learn_route (parse_node_id (f ! 0)) (parse_node_id (f ! 1)))) (\<lambda>_.
        configure_routes env rs) d)"

definition configure :: "LotidEnv \<Rightarrow> string list \<Rightarrow> string list \<Rightarrow> int option act" where
  "configure env peers routes =
     act_bind (configure_peers env peers) (\<lambda>stop.
       case stop of Some code \<Rightarrow> act_return (Some code) | None \<Rightarrow> configure_routes env routes)"

section \<open>A running daemon\<close>

text \<open>What the reactor of a running daemon calls. It goes on after an exception, not after an abort or
  undefined behaviour.\<close>

definition survives :: "'a result \<Rightarrow> bool" where
  "survives r \<longleftrightarrow> (case r of Inl e \<Rightarrow> catchable e | Inr _ \<Rightarrow> True)"

inductive lotid_step :: "LotidEnv \<Rightarrow> Lotid \<Rightarrow> Lotid \<Rightarrow> bool" for env where
  accept: "lotid_step env d (on_control_accept fd d)"
| control: "is_open fd d \<Longrightarrow> on_control_readable env fd rd d = (r, d') \<Longrightarrow> survives r \<Longrightarrow> lotid_step env d d'"
| stdin: "on_stdin_readable env rd d = (r, d') \<Longrightarrow> survives r \<Longrightarrow> lotid_step env d d'"
| datagrams: "lotid_drain env q d = (r, d') \<Longrightarrow> survives r \<Longrightarrow> lotid_step env d d'"
| timer: "node_call env (Fire t) d = (r, d') \<Longrightarrow> survives r \<Longrightarrow> lotid_step env d d'"

text \<open>A daemon from its constructor on, through its configuration and the start of the node.\<close>

inductive lotid_reachable :: "'k Ed25519 \<Rightarrow> LotidEnv \<Rightarrow> Lotid \<Rightarrow> bool" for E env where
  boot: "make_lotid E calls i key_path lmdb clock_ns expiry_ns fs = Inr (d, key) \<Longrightarrow>
    configure env peers routes d = (Inr None, d') \<Longrightarrow> node_call env Start d' = (Inr (), d'') \<Longrightarrow>
    lotid_reachable E env d''"
| step: "lotid_reachable E env d \<Longrightarrow> lotid_step env d d' \<Longrightarrow> lotid_reachable E env d'"

end
