(* ===== verification/Daemon_Invariant.thy ===== *)
theory Daemon_Invariant
  imports Daemon
begin

text \<open>
  Invariants of the daemon. A locale gives what an invariant must keep under the few changes the
  callbacks are made of; its lemmas carry it through every callback, and its extension through every call of the node. The
  invariant of the daemon says that whoever waits for a discovery has an open connection, that the entries of
  the tables have addresses of their own, and that all that was written to the clients are replies of
  the line protocol.
\<close>

section \<open>Actions that keep an invariant\<close>

named_theorems keeps_intros

definition keeps :: "(Lotid \<Rightarrow> bool) \<Rightarrow> 'a act \<Rightarrow> bool" where
  "keeps P m \<longleftrightarrow> (\<forall>d. P d \<longrightarrow> P (snd (m d)))"

lemma keepsI: "(\<And>d. P d \<Longrightarrow> P (snd (m d))) \<Longrightarrow> keeps P m"
  by (simp add: keeps_def)

lemma keepsD: "keeps P m \<Longrightarrow> P d \<Longrightarrow> m d = (r, d') \<Longrightarrow> P d'"
  unfolding keeps_def by (metis snd_conv)

lemma keeps_basic [keeps_intros]:
  "keeps P (act_return x)" "keeps P (act_throw e)" "keeps P (act_result r)" "keeps P (act_read f)"
  by (simp_all add: keeps_def act_return_def act_throw_def act_result_def act_read_def)

lemma keeps_bind [keeps_intros]: "keeps P m \<Longrightarrow> (\<And>x. keeps P (f x)) \<Longrightarrow> keeps P (act_bind m f)"
proof (rule keepsI)
  fix d
  assume "keeps P m" "\<And>x. keeps P (f x)" "P d"
  then show "P (snd (act_bind m f d))"
    by (cases "m d"; cases "fst (m d)") (auto simp: act_bind_def keeps_def dest!: spec [of _ d])
qed

lemma keeps_update [keeps_intros]: "(\<And>d. P d \<Longrightarrow> P (f d)) \<Longrightarrow> keeps P (act_update f)"
  by (simp add: keeps_def act_update_def)

lemma keeps_if [keeps_intros]: "keeps P m \<Longrightarrow> keeps P m' \<Longrightarrow> keeps P (if b then m else m')"
  by simp

lemma keeps_option [keeps_intros]:
  "keeps P m \<Longrightarrow> (\<And>x. keeps P (f x)) \<Longrightarrow> keeps P (case x of None \<Rightarrow> m | Some y \<Rightarrow> f y)"
  by (cases x) simp_all

lemma keeps_apply: "keeps P m \<Longrightarrow> P d \<Longrightarrow> P (snd (m d))"
  by (simp add: keeps_def)

section \<open>Safe replies\<close>

definition safe_reply :: "Reply \<Rightarrow> bool" where
  "safe_reply r \<longleftrightarrow> list_all safe_field (rl_fields r) \<and> LF \<notin> set (rl_error r) \<and> rl_code r \<in> {0..255}"

lemma hex_plain [simp]: "LF \<notin> set (hex b)"
proof
  assume "LF \<in> set (hex b)"
  then have "LF \<in> set ''0123456789abcdefABCDEF''"
    using hex_all_digits [of b, unfolded list_all_iff] by (rule bspec [rotated])
  then show False by simp
qed

lemma hex_id_plain [simp]: "LF \<notin> set (hex_id i)"
  by (simp add: show_node_id_hex)

lemma printable_plain [simp]: "LF \<notin> set (printable b)"
proof -
  have "char_of_byte c \<noteq> LF" if "0x20 \<le> c" for c
  proof
    assume "char_of_byte c = LF"
    then have "c = byte_of_char LF" using byte_char_inverse(2) [of c] by simp
    then show False using that by (simp add: byte_of_char_def)
  qed
  then show ?thesis by (auto simp: printable_def image_iff split: if_splits) metis
qed

lemmas text_plain [simp] = to_string_plain

lemma stamp_plain [simp]: "LF \<notin> set (stamp t)"
  by (simp add: stamp_def)

lemma safe_ok_reply [simp]: "safe_reply (ok_reply fs) \<longleftrightarrow> list_all safe_field fs"
  by (simp add: safe_reply_def ok_reply_def kOk_def)

lemma safe_error_reply [simp]:
  "safe_reply (error_reply code msg) \<longleftrightarrow> LF \<notin> set msg \<and> code \<in> {0..255}"
  by (simp add: safe_reply_def error_reply_def)

lemma safe_fixed_replies [simp]: "safe_reply aborted_reply" "safe_reply deferred_reply" "safe_reply (started_reply fd)"
  by (simp_all add: safe_reply_def aborted_reply_def deferred_reply_def started_reply_def ok_reply_def kOk_def
    kInvalidResult_def safe_field_def)

lemma safe_proof_reply: "proof_reply p = Inr r \<Longrightarrow> safe_reply r"
  by (auto simp: proof_reply_def Let_def safe_field_def kind_name_def chain_length_def split: if_splits)

lemma safe_chain_path [simp]: "list_all safe_field (chain_path_fields c)"
  by (auto simp: chain_path_fields_def safe_field_def clock_line_def list_all_iff)

section \<open>The contract of an invariant\<close>

lemma respond_order_proofs:
  "d_order_proofs (respond fd r d) =
     (if is_open fd d then filter (\<lambda>o'. op_fd o' \<noteq> fd) (d_order_proofs d) else d_order_proofs d)"
  by (simp add: respond_def close_client_def purge_pending_for_fd_def is_open_def Let_def)

text \<open>The vector iterator is still good after a reply only if the client was gone.\<close>

lemma erase_at_survives:
  assumes "erase_at kept o' rest (respond (op_fd o') r d) = (Inr u, d')" "d_order_proofs d = kept @ o' # rest"
  shows "\<not> is_open (op_fd o') d" "d' = d\<lparr>d_order_proofs := kept @ rest\<rparr>"
proof -
  have t: "take (Suc (length kept)) (d_order_proofs (respond (op_fd o') r d)) = kept @ [o']"
    using assms(1) by (simp add: erase_at_def split: if_splits)
  then have "o' \<in> set (d_order_proofs (respond (op_fd o') r d))"
    by (metis in_set_conv_decomp in_set_takeD)
  then show no: "\<not> is_open (op_fd o') d" by (auto simp: respond_order_proofs)
  then have "respond (op_fd o') r d = d" by (simp add: respond_def)
  then show "d' = d\<lparr>d_order_proofs := kept @ rest\<rparr>" using assms by (simp add: erase_at_def split: if_splits)
qed

lemma erase_at_fails: "erase_at kept o' rest d = (Inl e, d') \<Longrightarrow> e = Undefined_behaviour \<and> d' = d"
  by (simp add: erase_at_def split: if_splits)

lemma note_chain_fd [simp]: "op_fd (note_chain h c o') = op_fd o'"
  by (simp add: note_chain_def Let_def)

text \<open>What the callbacks of the node need.\<close>

locale lotid_callbacks =
  fixes P :: "Lotid \<Rightarrow> bool"
  assumes P_wire: "P d \<Longrightarrow> P (d\<lparr>d_wire := w\<rparr>)"
    and P_respond: "P d \<Longrightarrow> safe_reply r \<Longrightarrow> P (respond fd r d)"
    and P_pending: "P d \<Longrightarrow> P (set_pending q (erase_key h (pending q d)) d)"
    and P_proof: "P d \<Longrightarrow> P (d\<lparr>d_pending_proof := erase_key h (d_pending_proof d)\<rparr>)"
    and P_order: "P d \<Longrightarrow> P (d\<lparr>d_pending_order := om_erase k (d_pending_order d)\<rparr>)"
    and P_proofs: "P d \<Longrightarrow> op_fd ` set os \<subseteq> op_fd ` set (d_order_proofs d) \<Longrightarrow> P (d\<lparr>d_order_proofs := os\<rparr>)"
begin

lemma keeps_respond [keeps_intros]: "safe_reply r \<Longrightarrow> keeps P (\<lambda>d. (Inr (), respond fd r d))"
  by (simp add: keeps_def P_respond)

lemma keeps_range_loop [keeps_intros]:
  assumes "\<And>v. keeps P (body v)"
  shows "keeps P (range_loop container body as)"
proof (rule keepsI)
  fix d
  show "P d \<Longrightarrow> P (snd (range_loop container body as d))"
  proof (induction as arbitrary: d)
    case (Cons a as)
    then show ?case using assms [unfolded keeps_def, rule_format, of d]
      by (auto split: option.split prod.split sum.split) (metis snd_conv)+
  qed simp
qed

lemma keeps_answer [keeps_intros]: "safe_reply r \<Longrightarrow> keeps P (answer q h r)"
  by (rule keepsI, unfold answer_def, rule keeps_apply [of P]) (intro keeps_intros P_pending; assumption)+

lemma keeps_abort_pending [keeps_intros]: "keeps P (abort_pending q h)"
  by (simp add: abort_pending_def keeps_answer)

lemma keeps_single_proofs [keeps_intros]: "keeps P (finish_single_proof h c)" "keeps P (abort_single_proof h)"
proof -
  have "keeps P (\<lambda>d. case proof_reply (single_proof d (pr_kind rq) c) of
      Inl e \<Rightarrow> (Inl e, d) | Inr r \<Rightarrow> (Inr (), respond (pr_fd rq) r d))" for rq
    by (rule keepsI) (auto split: sum.split intro: P_respond safe_proof_reply)
  then show "keeps P (finish_single_proof h c)"
    by (intro keepsI, unfold finish_single_proof_def, intro keeps_apply [of P]) (intro keeps_intros P_proof; assumption)+
  show "keeps P (abort_single_proof h)"
    by (rule keepsI, unfold abort_single_proof_def, rule keeps_apply [of P])
      (intro keeps_intros P_proof safe_fixed_replies; assumption)+
qed

lemma P_erase_at:
  assumes "P d" "d_order_proofs d = kept @ o' # rest" "safe_reply r"
    and "P (d\<lparr>d_order_proofs := kept @ rest\<rparr>) \<Longrightarrow> P (snd (f (d\<lparr>d_order_proofs := kept @ rest\<rparr>)))"
  shows "P (snd (act_bind (erase_at kept o' rest) (\<lambda>_. f) (respond (op_fd o') r d)))"
proof (cases "erase_at kept o' rest (respond (op_fd o') r d)")
  case (Pair x d')
  show ?thesis
  proof (cases x)
    case (Inl e)
    then show ?thesis using Pair erase_at_fails [of kept o' rest "respond (op_fd o') r d"] P_respond [OF assms(1,3)]
      by (simp add: act_bind_def)
  next
    case (Inr u)
    then have d': "d' = d\<lparr>d_order_proofs := kept @ rest\<rparr>" using erase_at_survives(2) Pair assms(2) by blast
    moreover have "P d'" unfolding d' using P_proofs [OF assms(1), of "kept @ rest"] assms(2) by auto
    ultimately show ?thesis using Pair Inr assms(4) by (simp add: act_bind_def)
  qed
qed

lemma P_finish_order:
  "P d \<Longrightarrow> d_order_proofs d = kept @ rest \<Longrightarrow> P (snd (finish_order_loop h c kept rest d))"
proof (induction rest arbitrary: kept d)
  case (Cons o0 rest)
  define o' where "o' = note_chain h c o0"
  define d1 where "d1 = d\<lparr>d_order_proofs := kept @ o' # rest\<rparr>"
  have P1: "P d1" unfolding d1_def
    by (rule P_proofs [OF Cons.prems(1)]) (auto simp: Cons.prems(2) o'_def)
  have step: "P (snd (act_bind (erase_at kept o' rest) (\<lambda>_. finish_order_loop h c kept rest) (respond (op_fd o') r d1)))"
    if "safe_reply r" for r
    by (rule P_erase_at [OF P1 _ that]) (simp_all add: d1_def Cons.IH)
  have next_one: "P (snd (finish_order_loop h c (kept @ [o']) rest d1))"
    by (rule Cons.IH [OF P1]) (simp add: d1_def)
  show ?case
    by (auto simp: Let_def simp flip: o'_def d1_def split: option.split sum.split intro: P1 next_one step
      dest: safe_proof_reply elim!: bindE_eq_Inr [THEN iffD1, elim_format])
qed simp

lemma P_abort_order:
  "P d \<Longrightarrow> d_order_proofs d = kept @ rest \<Longrightarrow> P (snd (abort_order_loop h kept rest d))"
proof (induction rest arbitrary: kept d)
  case (Cons o' rest)
  have "P (snd (act_bind (erase_at kept o' rest) (\<lambda>_. abort_order_loop h kept rest) (respond (op_fd o') aborted_reply d)))"
    by (rule P_erase_at [OF Cons.prems]) (simp_all add: Cons.IH)
  moreover have "P (snd (abort_order_loop h (kept @ [o']) rest d))"
    by (rule Cons.IH) (simp_all add: Cons.prems)
  ultimately show ?case by simp
qed simp

lemma keeps_order_proofs [keeps_intros]: "keeps P (finish_order_proof h c)" "keeps P (abort_order_proof h)"
  by (auto intro!: keepsI P_finish_order P_abort_order simp: finish_order_proof_def abort_order_proof_def)

lemma keeps_conclude_order [keeps_intros]: "safe_reply r \<Longrightarrow> keeps P (conclude_order key r)"
  by (rule keepsI) (auto simp: conclude_order_def Let_def split: option.split intro: P_respond P_order)

lemma keeps_callbacks [keeps_intros]:
  "keeps P (lotid_chain_completed e c)" "keeps P (lotid_chain_aborted e)"
  "keeps P (lotid_bounds_completed e lo hi)" "keeps P (lotid_bounds_aborted e)"
  "keeps P (lotid_order_completed e f o')" "keeps P (lotid_order_aborted e f)"
proof -
  have "keeps P (act_bind (if b then answer q h (ok_reply (chain_path_fields c)) else act_return ())
      (\<lambda>_. act_bind (finish_single_proof h c) (\<lambda>_. finish_order_proof h c)))" for b q h
    by (intro keeps_intros) simp
  then show "keeps P (lotid_chain_completed e c)"
    by (intro keepsI, unfold lotid_chain_completed_def, rule keeps_apply [of P])
  show "keeps P (lotid_chain_aborted e)" unfolding lotid_chain_aborted_def by (intro keeps_intros)
  show "keeps P (lotid_bounds_completed e lo hi)" unfolding lotid_bounds_completed_def
    by (intro keeps_intros) (simp add: safe_field_def)
  show "keeps P (lotid_bounds_aborted e)" unfolding lotid_bounds_aborted_def by (intro keeps_intros)
  show "keeps P (lotid_order_completed e f o')" unfolding lotid_order_completed_def
    by (intro keeps_intros) (simp add: safe_field_def)
  show "keeps P (lotid_order_aborted e f)" unfolding lotid_order_aborted_def
    by (intro keeps_intros) simp
qed

lemma keeps_deliver [keeps_intros]: "keeps P (deliver out)" "keeps P (deliver_all outs)"
proof -
  show 1: "keeps P (deliver out)" for out
    by (cases out) (simp_all add: deliver_def keeps_intros P_wire)
  show "keeps P (deliver_all outs)"
  proof (induction outs)
    case (Cons out outs)
    then have "keeps P (act_bind (deliver out) (\<lambda>_. deliver_all outs))" using 1 by (intro keeps_intros)
    then show ?case by (simp add: keeps_def)
  qed (simp add: keeps_def)
qed

lemma keeps_node_change:
  assumes "\<And>d x n. P d \<Longrightarrow> f (d_node d) = Inr (x, n) \<Longrightarrow> P (d\<lparr>d_node := n\<rparr>)"
  shows "keeps P (with_node f)"
proof (rule keepsI)
  fix d
  assume "P d"
  then show "P (snd (with_node f d))"
    by (auto simp: with_node_def split: sum.split intro!: keeps_apply [of P] keeps_intros assms)
qed

end

text \<open>An invariant that no change of the node breaks.\<close>

locale lotid_invariant = lotid_callbacks +
  assumes P_node: "P d \<Longrightarrow> P (d\<lparr>d_node := n\<rparr>)"
begin

lemma keeps_with_node [keeps_intros]: "keeps P (with_node f)"
  by (rule keeps_node_change) (rule P_node)

lemma keeps_node_call [keeps_intros]: "keeps P (node_call env i)"
  by (simp add: node_call_def keeps_with_node)

end

section \<open>The invariant of the daemon\<close>

definition entries_ok :: "nat \<Rightarrow> ('k \<times> nat \<times> 'v) list \<Rightarrow> bool" where
  "entries_ok nxt m \<longleftrightarrow>
     (\<forall>x \<in> set m. \<forall>y \<in> set m. fst (snd x) = fst (snd y) \<longrightarrow> x = y) \<and> (\<forall>x \<in> set m. fst (snd x) < nxt)"

definition waiting_fds :: "Lotid \<Rightarrow> int set" where
  "waiting_fds d =
     (snd \<circ> snd) ` set (d_pending_bounds d) \<union> (snd \<circ> snd) ` set (d_pending_chain d) \<union>
     (snd \<circ> snd) ` set (d_pending_order d) \<union> (pr_fd \<circ> snd \<circ> snd) ` set (d_pending_proof d) \<union>
     op_fd ` set (d_order_proofs d)"

text \<open>The names given on the command line that replies show.\<close>

definition names_ok :: "Lotid \<Rightarrow> bool" where
  "names_ok d \<longleftrightarrow> (\<forall>path. d_lmdb d = Some path \<longrightarrow> LF \<notin> set path) \<and> (\<forall>(i, ip, port) \<in> set (d_peers d). LF \<notin> set ip)"

definition sent_ok :: "Lotid \<Rightarrow> bool" where
  "sent_ok d \<longleftrightarrow> (\<forall>(fd, s) \<in> set (d_sent d).
     \<exists>r. safe_reply r \<and> s = format_reply (rl_code r) (rl_error r) (rl_fields r))"

definition lotid_ok :: "LotidEnv \<Rightarrow> Lotid \<Rightarrow> bool" where
  "lotid_ok env d \<longleftrightarrow> (\<forall>fd \<in> waiting_fds d. is_open fd d) \<and> om_ok (d_pending_order d) \<and>
     entries_ok (d_next_addr d) (d_pending_bounds d) \<and> entries_ok (d_next_addr d) (d_pending_chain d) \<and>
     entries_ok (d_next_addr d) (d_pending_order d) \<and> entries_ok (d_next_addr d) (d_pending_proof d) \<and>
     ((\<forall>e. LF \<notin> set (le_what env e)) \<and> names_ok d \<longrightarrow> sent_ok d)"

lemma entries_ok_subset: "entries_ok nxt m \<Longrightarrow> set m' \<subseteq> set m \<Longrightarrow> entries_ok nxt m'"
  unfolding entries_ok_def by blast

lemma entries_ok_insert:
  assumes "entries_ok nxt m" "set m' \<subseteq> insert (k, nxt, v) (set m)"
  shows "entries_ok (Suc nxt) m'"
proof -
  have c: "x = (k, nxt, v) \<or> x \<in> set m \<and> fst (snd x) < nxt" if "x \<in> set m'" for x
    using assms that unfolding entries_ok_def by blast
  have "x = y" if "x \<in> set m'" "y \<in> set m'" "fst (snd x) = fst (snd y)" for x y
  proof (cases "x \<in> set m \<and> y \<in> set m")
    case True
    then show ?thesis using assms(1) that(3) unfolding entries_ok_def by blast
  next
    case False
    then show ?thesis using c [OF that(1)] c [OF that(2)] that(3) by (elim disjE) simp_all
  qed
  moreover have "fst (snd x) < Suc nxt" if "x \<in> set m'" for x using c [OF that] by (elim disjE) simp_all
  ultimately show ?thesis unfolding entries_ok_def by blast
qed

lemma entries_ok_replace:
  assumes "entries_ok nxt m" "(k, a, v) \<in> set m" "set m' \<subseteq> insert (k, a, v') {x \<in> set m. fst x \<noteq> k}"
  shows "entries_ok nxt m'"
proof -
  have u: "x = y" if "x \<in> set m" "y \<in> set m" "fst (snd x) = fst (snd y)" for x y
    using assms(1) that unfolding entries_ok_def by blast
  have c: "x = (k, a, v') \<or> x \<in> set m \<and> fst (snd x) \<noteq> a" if "x \<in> set m'" for x
  proof -
    have "x = (k, a, v') \<or> x \<in> set m \<and> fst x \<noteq> k" using assms(3) that by blast
    then show ?thesis using u [OF _ assms(2), of x] by (metis fst_conv snd_conv)
  qed
  have "x = y" if "x \<in> set m'" "y \<in> set m'" "fst (snd x) = fst (snd y)" for x y
    using c [OF that(1)] c [OF that(2)] that(3) by (elim disjE conjE) (simp_all add: u)
  moreover have "fst (snd x) < nxt" if "x \<in> set m'" for x
    using c [OF that] assms(1,2) unfolding entries_ok_def by (metis fst_conv snd_conv)
  ultimately show ?thesis unfolding entries_ok_def by blast
qed

lemma entries_ok_later: "entries_ok nxt m \<Longrightarrow> entries_ok (Suc nxt) m"
  by (auto simp: entries_ok_def)

lemma entries_ok_filter [simp]: "entries_ok nxt m \<Longrightarrow> entries_ok nxt (filter f m)"
  by (rule entries_ok_subset) auto

lemma entries_ok_erase [simp]: "entries_ok nxt m \<Longrightarrow> entries_ok nxt (om_erase k m)"
  by (simp add: om_erase_def)

lemma at_address_iff: "entries_ok nxt m \<Longrightarrow> (k, a, v) \<in> set m \<Longrightarrow> at_address a m = Some v"
proof (induction m)
  case (Cons x m)
  have "entries_ok nxt m" using Cons.prems(1) by (rule entries_ok_subset) auto
  moreover have "x = (k, a, v)" if "fst (snd x) = a"
    using Cons.prems that unfolding entries_ok_def by (metis fst_conv list.set_intros(1) snd_conv)
  ultimately show ?case using Cons by (cases x) (auto simp: at_address_def)
qed simp

lemma at_address_None: "at_address a m = None \<longleftrightarrow> (\<forall>x \<in> set m. fst (snd x) \<noteq> a)"
  by (auto simp: at_address_def map_of_eq_None_iff image_iff)

lemma waiting_fds_purge: "waiting_fds (purge_pending_for_fd fd d) = waiting_fds d - {fd}"
proof -
  have i: "f ` set (filter (\<lambda>x. f x \<noteq> fd) m) = f ` set m - {fd}" for f and m :: "'a list" by auto
  have p: "(\<lambda>(_, _, f). f \<noteq> fd) = (\<lambda>x. (snd \<circ> snd) x \<noteq> fd)"
    "(\<lambda>(_, _, p). pr_fd p \<noteq> fd) = (\<lambda>x. (pr_fd \<circ> snd \<circ> snd) x \<noteq> fd)" by (auto simp: fun_eq_iff)
  show ?thesis
    by (cases d) (simp only: waiting_fds_def purge_pending_for_fd_def Lotid.select_convs Lotid.update_convs p i Un_Diff)
qed

lemma is_open_simps [simp]:
  "is_open fd (d\<lparr>d_client_buf := om_erase fd' m\<rparr>) \<longleftrightarrow> fd \<noteq> fd' \<and> om_find fd m \<noteq> None"
  "is_open fd (d\<lparr>d_client_buf := om_put fd' b m\<rparr>) \<longleftrightarrow> fd = fd' \<or> om_find fd m \<noteq> None"
  "is_open fd (d\<lparr>d_client_buf := om_emplace fd' b m\<rparr>) \<longleftrightarrow> fd = fd' \<or> om_find fd m \<noteq> None"
  by (auto simp: is_open_def om_find_simps)

lemma lotid_ok_close: "lotid_ok env d \<Longrightarrow> lotid_ok env (close_client fd d)"
proof -
  assume ok: "lotid_ok env d"
  have w: "waiting_fds (purge_pending_for_fd fd d\<lparr>d_client_buf := m\<rparr>) = waiting_fds d - {fd}" for m
    using waiting_fds_purge [of fd d] by (simp add: waiting_fds_def)
  have "names_ok (purge_pending_for_fd fd d\<lparr>d_client_buf := m\<rparr>) = names_ok d"
    "sent_ok (purge_pending_for_fd fd d\<lparr>d_client_buf := m\<rparr>) = sent_ok d" for m
    by (simp_all add: names_ok_def sent_ok_def purge_pending_for_fd_def)
  then show ?thesis using ok
    by (simp add: close_client_def lotid_ok_def w Let_def)
      (auto simp: purge_pending_for_fd_def is_open_def om_ok_filter)
qed

lemma lotid_ok_respond:
  assumes "lotid_ok env d" "\<forall>e. LF \<notin> set (le_what env e) \<Longrightarrow> names_ok d \<Longrightarrow> safe_reply r"
  shows "lotid_ok env (respond fd r d)"
proof -
  define d1 where "d1 = d\<lparr>d_sent := d_sent d @ [(fd, format_reply (rl_code r) (rl_error r) (rl_fields r))]\<rparr>"
  have "waiting_fds d1 = waiting_fds d" "names_ok d1 = names_ok d" "\<And>f. is_open f d1 = is_open f d"
    by (simp_all add: d1_def waiting_fds_def names_ok_def is_open_def)
  moreover have "sent_ok d1" if "\<forall>e. LF \<notin> set (le_what env e)" "names_ok d"
    using assms that by (auto simp: d1_def lotid_ok_def sent_ok_def)
  ultimately have "lotid_ok env d1" using assms(1) by (simp add: lotid_ok_def) (simp add: d1_def)
  then show ?thesis using assms(1) lotid_ok_close by (simp add: respond_def flip: d1_def)
qed

lemma lotid_ok_drop:
  assumes "lotid_ok env d" "set b \<subseteq> set (d_pending_bounds d)" "set c \<subseteq> set (d_pending_chain d)"
    "set os \<subseteq> set (d_pending_order d)" "om_ok os" "set pf \<subseteq> set (d_pending_proof d)"
    "op_fd ` set ops \<subseteq> op_fd ` set (d_order_proofs d)"
  shows "lotid_ok env (d\<lparr>d_pending_bounds := b, d_pending_chain := c, d_pending_order := os, d_pending_proof := pf,
    d_order_proofs := ops\<rparr>)"
proof -
  have "waiting_fds (d\<lparr>d_pending_bounds := b, d_pending_chain := c, d_pending_order := os, d_pending_proof := pf,
    d_order_proofs := ops\<rparr>) \<subseteq> waiting_fds d"
    using assms(2-) unfolding waiting_fds_def by (simp, blast)
  then show ?thesis using assms
    by (auto simp: lotid_ok_def names_ok_def sent_ok_def is_open_def elim: entries_ok_subset)
qed

lemma lotid_ok_simps [simp]:
  "lotid_ok env (d\<lparr>d_node := n\<rparr>) = lotid_ok env d" "lotid_ok env (d\<lparr>d_wire := w\<rparr>) = lotid_ok env d"
  "lotid_ok env (d\<lparr>d_last_event := h\<rparr>) = lotid_ok env d" "lotid_ok env (d\<lparr>d_running := r\<rparr>) = lotid_ok env d"
  "lotid_ok env (d\<lparr>d_files := fs\<rparr>) = lotid_ok env d" "lotid_ok env (d\<lparr>d_stdin_buf := s\<rparr>) = lotid_ok env d"
  "lotid_ok env (d\<lparr>d_stdout := s\<rparr>) = lotid_ok env d"
  by (simp_all add: lotid_ok_def waiting_fds_def names_ok_def sent_ok_def is_open_def)

interpretation lo: lotid_invariant "lotid_ok env" for env
proof
  fix d q h
  assume "lotid_ok env d"
  then show "lotid_ok env (set_pending q (erase_key h (pending q d)) d)"
    using lotid_ok_drop [of env d "erase_key h (d_pending_bounds d)" "d_pending_chain d" "d_pending_order d"
        "d_pending_proof d" "d_order_proofs d"]
      lotid_ok_drop [of env d "d_pending_bounds d" "erase_key h (d_pending_chain d)" "d_pending_order d"
        "d_pending_proof d" "d_order_proofs d"]
    by (auto simp: set_pending_def pending_def erase_key_def lotid_ok_def split: Query.split)
next
  fix d h
  assume "lotid_ok env d"
  then show "lotid_ok env (d\<lparr>d_pending_proof := erase_key h (d_pending_proof d)\<rparr>)"
    using lotid_ok_drop [of env d "d_pending_bounds d" "d_pending_chain d" "d_pending_order d"
        "erase_key h (d_pending_proof d)" "d_order_proofs d"] by (auto simp: erase_key_def lotid_ok_def)
next
  fix d k
  assume "lotid_ok env d"
  then show "lotid_ok env (d\<lparr>d_pending_order := om_erase k (d_pending_order d)\<rparr>)"
    using lotid_ok_drop [of env d "d_pending_bounds d" "d_pending_chain d" "om_erase k (d_pending_order d)"
        "d_pending_proof d" "d_order_proofs d"] by (auto simp: om_erase_def om_ok_filter lotid_ok_def)
next
  fix d and os :: "OrderProof list"
  assume "lotid_ok env d" "op_fd ` set os \<subseteq> op_fd ` set (d_order_proofs d)"
  then show "lotid_ok env (d\<lparr>d_order_proofs := os\<rparr>)"
    using lotid_ok_drop [of env d "d_pending_bounds d" "d_pending_chain d" "d_pending_order d"
        "d_pending_proof d" os] by (auto simp: lotid_ok_def)
qed (simp_all add: lotid_ok_respond)

section \<open>Every command keeps it\<close>

lemma lotid_ok_names:
  "lotid_ok env d \<Longrightarrow> lotid_ok env (d\<lparr>d_transport := t, d_peers := d_peers d @ ps\<rparr>)"
  by (auto simp: lotid_ok_def waiting_fds_def names_ok_def sent_ok_def is_open_def)

lemma keeps_add_peer [keeps_intros]: "keeps (lotid_ok env) (add_peer env i ip port)"
  unfolding add_peer_def by (intro keeps_intros lotid_ok_names)

lemma lotid_ok_more:
  assumes "lotid_ok env d" "is_open fd d" "waiting_fds d' \<subseteq> insert fd (waiting_fds d)"
    and "d_client_buf d' = d_client_buf d" "d_lmdb d' = d_lmdb d" "d_peers d' = d_peers d" "d_sent d' = d_sent d"
    and "om_ok (d_pending_order d')" "entries_ok (d_next_addr d') (d_pending_bounds d')"
    and "entries_ok (d_next_addr d') (d_pending_chain d')" "entries_ok (d_next_addr d') (d_pending_order d')"
    and "entries_ok (d_next_addr d') (d_pending_proof d')"
  shows "lotid_ok env d'"
proof -
  have "is_open f d' = is_open f d" for f using assms(4) by (simp add: is_open_def)
  moreover have "names_ok d' = names_ok d" "sent_ok d' = sent_ok d" using assms(5-7) by (simp_all add: names_ok_def sent_ok_def)
  ultimately show ?thesis using assms by (auto simp: lotid_ok_def)
qed

lemma lotid_ok_wait:
  assumes ok: "lotid_ok env d" and fd: "is_open fd d"
  shows "lotid_ok env (wait_for q h fd d)" "lotid_ok env (wait_for_proof h \<lparr>pr_fd = fd, pr_kind = k\<rparr> d)"
    "lotid_ok env (d\<lparr>d_order_proofs := d_order_proofs d @ [\<lparr>op_fd = fd, op_a = a, op_b = b, op_chain_a = None, op_chain_b = None\<rparr>]\<rparr>)"
proof -
  have e: "entries_ok (Suc (d_next_addr d)) (d_pending_bounds d)" "entries_ok (Suc (d_next_addr d)) (d_pending_chain d)"
    "entries_ok (Suc (d_next_addr d)) (d_pending_order d)" "entries_ok (Suc (d_next_addr d)) (d_pending_proof d)"
    "om_ok (d_pending_order d)"
    using ok by (simp_all add: lotid_ok_def entries_ok_later)
  have i: "entries_ok (Suc (d_next_addr d)) (mm_emplace h (d_next_addr d, fd) (d_pending_bounds d))"
    "entries_ok (Suc (d_next_addr d)) (mm_emplace h (d_next_addr d, fd) (d_pending_chain d))"
    "entries_ok (Suc (d_next_addr d)) (mm_emplace h (d_next_addr d, \<lparr>pr_fd = fd, pr_kind = k\<rparr>) (d_pending_proof d))"
    using ok by (auto simp: lotid_ok_def intro: entries_ok_insert)
  show "lotid_ok env (wait_for q h fd d)"
    by (rule lotid_ok_more [OF ok fd]; cases q)
      (auto simp: wait_for_def new_entry_def set_pending_def pending_def waiting_fds_def e i)
  show "lotid_ok env (wait_for_proof h \<lparr>pr_fd = fd, pr_kind = k\<rparr> d)"
    by (rule lotid_ok_more [OF ok fd]) (auto simp: wait_for_proof_def new_entry_def waiting_fds_def e i)
  show "lotid_ok env (d\<lparr>d_order_proofs := d_order_proofs d @ [\<lparr>op_fd = fd, op_a = a, op_b = b, op_chain_a = None, op_chain_b = None\<rparr>]\<rparr>)"
    using ok by (intro lotid_ok_more [OF ok fd]) (auto simp: waiting_fds_def lotid_ok_def)
qed

lemma lotid_ok_wait_order:
  assumes ok: "lotid_ok env d" and fd: "is_open fd d"
  shows "lotid_ok env (wait_for_order key fd d)"
proof -
  let ?m = "d_pending_order d"
  have o: "om_ok ?m" "entries_ok (d_next_addr d) ?m" using ok by (simp_all add: lotid_ok_def)
  have w: "waiting_fds (d\<lparr>d_next_addr := n, d_pending_order := om_put key (x, fd) ?m\<rparr>) \<subseteq> insert fd (waiting_fds d)" for n x
  proof -
    have s: "(snd \<circ> snd) ` set (om_put key (x, fd) ?m) \<subseteq> insert fd ((snd \<circ> snd) ` set ?m)"
      by (rule subset_trans [OF image_mono [OF set_om_put_subset]]) simp
    show ?thesis unfolding waiting_fds_def
      by (insert s, cases d) (simp only: Lotid.select_convs Lotid.update_convs, blast)
  qed
  show ?thesis
  proof (cases "om_find key ?m")
    case None
    have "entries_ok (Suc (d_next_addr d)) (om_put key (d_next_addr d, fd) ?m)"
      by (rule entries_ok_insert [OF o(2) set_om_put_subset])
    then show ?thesis using None ok w [where n = "Suc (d_next_addr d)" and x = "d_next_addr d"]
      by (intro lotid_ok_more [OF ok fd])
        (auto simp: wait_for_order_def new_entry_def lotid_ok_def entries_ok_later)
  next
    case (Some v)
    obtain x f where v: "v = (x, f)" by (rule prod.exhaust)
    have old: "(key, x, f) \<in> set ?m" using om_find_in [OF Some] v by simp
    have "entries_ok (d_next_addr d) (om_put key (x, fd) ?m)"
      by (rule entries_ok_replace [OF o(2) old]) (auto simp: set_om_put [OF o(1)])
    then show ?thesis using Some v ok w [where n = "d_next_addr d" and x = x]
      by (intro lotid_ok_more [OF ok fd]) (auto simp: wait_for_order_def lotid_ok_def)
  qed
qed

lemma snd_act_simps [simp]:
  "snd (act_return x d) = d" "snd (act_throw e d) = d" "snd (act_bind (act_update g) f d) = snd (f () (g d))"
  by (simp_all add: act_return_def act_throw_def act_update_def act_bind_def)

lemma act_bind_assoc: "act_bind (act_bind m f) g = act_bind m (\<lambda>x. act_bind (f x) g)"
  by (auto simp: act_bind_def fun_eq_iff split: prod.split sum.split)

lemma snd_bind_read: "(\<And>x. Q (snd (f x d))) \<Longrightarrow> Q d \<Longrightarrow> Q (snd (act_bind (act_read g) f d))"
  by (cases "g d") (simp_all add: act_bind_def act_read_def)

lemma lotid_ok_query:
  assumes ok: "lotid_ok env d" and fd: "fd \<ge> 0 \<Longrightarrow> is_open fd d"
  shows "lotid_ok env (snd (dispatch_query env verb args fd d))"
proof -
  have k: "lotid_ok env (snd (act_bind (node_call env i) (\<lambda>_. act_return r) d'))" if "lotid_ok env d'" for i and r :: Reply and d'
    by (rule keeps_apply [of "lotid_ok env", OF _ that]) (intro keeps_intros)
  have w: "lotid_ok env (snd (act_bind (act_bind (act_update (\<lambda>d. if fd \<ge> 0 then wait_for q h fd d else d)) (\<lambda>_. node_call env i))
      (\<lambda>_. act_return r) d))" for q h i and r :: Reply
    using k ok fd by (simp add: act_bind_assoc lotid_ok_wait(1))
  show ?thesis unfolding dispatch_query_def
    by (auto simp: ok w fd k lotid_ok_wait_order intro!: snd_bind_read [of "lotid_ok env"] split: option.split)
qed

lemma lotid_ok_prove:
  assumes ok: "lotid_ok env d" and fd: "fd \<ge> 0 \<Longrightarrow> is_open fd d"
  shows "lotid_ok env (snd (dispatch_prove env args fd d))"
proof -
  have k: "lotid_ok env (snd (act_bind (node_call env i) (\<lambda>_. act_return r) d'))"
    "lotid_ok env (snd (act_bind (node_call env i) (\<lambda>_. act_bind (node_call env j) (\<lambda>_. act_return r)) d'))"
    if "lotid_ok env d'" for i j and r :: Reply and d'
    by (rule keeps_apply [of "lotid_ok env", OF _ that], intro keeps_intros)+
  show ?thesis
    by (cases "fd < 0")
      (auto simp: dispatch_prove_def Let_def ok lotid_ok_wait [OF ok fd] intro!: snd_bind_read [of "lotid_ok env"] k split: option.split)
qed

lemma keeps_commands [keeps_intros]:
  "keeps (lotid_ok env) (publish_command env args)" "keeps (lotid_ok env) (event_command args)"
  "keeps (lotid_ok env) (event_find_command args)" "keeps (lotid_ok env) events_command"
  "keeps (lotid_ok env) (peer_add_command env args)" "keeps (lotid_ok env) (gc_command env)"
  "keeps (lotid_ok env) (backup_command env args)" "keeps (lotid_ok env) (restore_command env args)"
proof -
  show "keeps (lotid_ok env) (publish_command env args)" "keeps (lotid_ok env) (event_command args)"
    "keeps (lotid_ok env) (event_find_command args)" "keeps (lotid_ok env) events_command"
    "keeps (lotid_ok env) (peer_add_command env args)"
    unfolding publish_command_def event_command_def event_find_command_def events_command_def peer_add_command_def Let_def
    by (intro keeps_intros; simp)+
  have ret: "keeps (lotid_ok env) (\<lambda>d. (Inr (f d), d))" for f :: "Lotid \<Rightarrow> Reply" by (simp add: keeps_def)
  show "keeps (lotid_ok env) (gc_command env)" unfolding gc_command_def by (intro keeps_intros ret)
  have "keeps (lotid_ok env) (\<lambda>d. let (r, states) = file_save c path blob (d_files d) in (r, d\<lparr>d_files := hd states\<rparr>))" for c path blob
    by (simp add: keeps_def split: prod.split)
  then show "keeps (lotid_ok env) (backup_command env args)" unfolding backup_command_def by (intro keeps_intros ret)
  show "keeps (lotid_ok env) (restore_command env args)"
  proof (rule keepsI)
    fix d
    assume ok: "lotid_ok env d"
    have "lotid_ok env d'" if "with_node f d = (r, d')" for f :: "Node \<Rightarrow> (unit \<times> Node) result" and r d'
      by (rule keepsD [of "lotid_ok env", OF lo.keeps_with_node ok that])
    then show "lotid_ok env (snd (restore_command env args d))" using ok
      by (auto simp: restore_command_def split: option.split prod.split sum.split)
  qed
qed

lemma lotid_ok_dispatch:
  assumes "lotid_ok env d" "fd \<ge> 0 \<Longrightarrow> is_open fd d"
  shows "lotid_ok env (snd (dispatch_guarded env args fd d))"
proof -
  have s: "snd (save_command env d) = d"
    by (simp add: save_command_def act_bind_def act_result_def split: sum.split)
  have "lotid_ok env (snd (dispatch env args fd d))"
    using assms keeps_commands [THEN keeps_apply [of "lotid_ok env"], OF assms(1)]
    by (simp add: dispatch_def Let_def lotid_ok_query lotid_ok_prove peer_ls_command_def status_command_def key_command_def
      s act_read_def quit_command_def)
  then show ?thesis by (auto simp: dispatch_guarded_def split: prod.split sum.split)
qed

section \<open>Every reply of a command is safe\<close>

definition answers_safely :: "Reply act \<Rightarrow> bool" where
  "answers_safely m \<longleftrightarrow> (\<forall>d r d'. m d = (Inr r, d') \<longrightarrow> names_ok d' \<longrightarrow> safe_reply r)"

named_theorems answers_intros

lemma answers_bind [answers_intros]: "(\<And>x. answers_safely (f x)) \<Longrightarrow> answers_safely (act_bind m f)"
  by (auto simp: answers_safely_def act_bind_def split: prod.splits sum.splits)

lemma answers_return [answers_intros]: "safe_reply r \<Longrightarrow> answers_safely (act_return r)"
  by (simp add: answers_safely_def act_return_def)

lemma answers_if [answers_intros]:
  "answers_safely m \<Longrightarrow> answers_safely m' \<Longrightarrow> answers_safely (if b then m else m')"
  by simp

lemma answers_option [answers_intros]:
  "answers_safely m \<Longrightarrow> (\<And>x. answers_safely (f x)) \<Longrightarrow> answers_safely (case x of None \<Rightarrow> m | Some y \<Rightarrow> f y)"
  by (cases x) simp_all

lemma answers_state: "(\<And>d. names_ok d \<Longrightarrow> safe_reply (f d)) \<Longrightarrow> answers_safely (\<lambda>d. (Inr (f d), d))"
  by (simp add: answers_safely_def)

lemmas codes [simp] = kOk_def kUsage_def kNotFound_def kInvalidResult_def

lemma safe_count_fields [simp]: "list_all safe_field (count_fields d)"
  by (simp add: count_fields_def safe_field_def)

lemma store_name_plain: "names_ok d \<Longrightarrow> LF \<notin> set (store_name d)"
  by (auto simp: names_ok_def store_name_def split: option.split)

lemma answers_discovery:
  assumes "\<forall>a \<in> set args. LF \<notin> set a" "LF \<notin> set verb"
  shows "answers_safely (dispatch_query env verb args fd)" "answers_safely (dispatch_prove env args fd)"
proof -
  show "answers_safely (dispatch_query env verb args fd)"
    using assms(2) unfolding dispatch_query_def prod.case_distrib
    by (auto intro!: answers_intros split: option.split)
  show "answers_safely (dispatch_prove env args fd)"
    using assms(1) by (cases "length args < 2") (auto simp: dispatch_prove_def Let_def intro!: answers_intros split: option.split)
qed

lemma answers_commands:
  assumes "\<forall>a \<in> set args. LF \<notin> set a" "\<And>e. LF \<notin> set (le_what env e)"
  shows "answers_safely (publish_command env args)" "answers_safely (event_command args)"
    "answers_safely (event_find_command args)" "answers_safely events_command"
    "answers_safely (peer_add_command env args)" "answers_safely peer_ls_command" "answers_safely status_command"
    "answers_safely key_command" "answers_safely (save_command env)" "answers_safely (act_read (db_stat env))"
    "answers_safely (gc_command env)" "answers_safely (backup_command env args)"
    "answers_safely (restore_command env args)" "answers_safely quit_command"
proof -
  have a: "LF \<notin> set (args ! 1)" if "\<not> length args < 2" using assms(1) that by simp
  show "answers_safely (publish_command env args)" "answers_safely (event_command args)"
    "answers_safely (event_find_command args)" "answers_safely events_command"
    unfolding publish_command_def event_command_def event_find_command_def events_command_def Let_def
    by (auto intro!: answers_intros simp: safe_field_def event_fields_def list_all_iff split: option.split)
  show "answers_safely (peer_add_command env args)"
    unfolding peer_add_command_def Let_def using a by (auto intro!: answers_intros simp: safe_field_def)
  show "answers_safely peer_ls_command" "answers_safely status_command" "answers_safely key_command" "answers_safely quit_command"
    by (auto simp: answers_safely_def peer_ls_command_def status_command_def key_command_def quit_command_def
      safe_field_def list_all_iff names_ok_def count_fields_def split: option.split)
  show "answers_safely (save_command env)"
    by (auto simp: answers_safely_def save_command_def act_bind_def act_result_def safe_field_def store_name_plain split: sum.splits)
  show "answers_safely (act_read (db_stat env))"
    by (auto simp: answers_safely_def act_read_def db_stat_def safe_field_def store_name_plain split: option.split)
  show "answers_safely (gc_command env)" unfolding gc_command_def
    by (auto intro!: answers_intros answers_state simp: safe_field_def)
  show "answers_safely (backup_command env args)" unfolding backup_command_def
    using a by (auto intro!: answers_intros answers_state simp: safe_field_def)
  show "answers_safely (restore_command env args)"
    using a assms(2) by (auto simp: answers_safely_def restore_command_def safe_field_def split: option.splits prod.splits sum.splits if_splits)
qed

lemma answers_guarded:
  assumes "\<forall>a \<in> set args. LF \<notin> set a" "\<And>e. LF \<notin> set (le_what env e)"
  shows "answers_safely (dispatch_guarded env args fd)"
proof -
  have v: "LF \<notin> set (args ! 0)" if "args \<noteq> []" using assms(1) that by simp
  have "answers_safely (dispatch env args fd)"
    unfolding dispatch_def Let_def
    using answers_commands [OF assms] answers_discovery [OF assms(1) v] v
    by (auto intro!: answers_intros simp: answers_safely_def act_throw_def act_return_def)
  then show ?thesis using assms(2)
    by (auto simp: answers_safely_def dispatch_guarded_def split: prod.splits sum.splits if_splits)
qed

end
