(* ===== verification/Daemon_Properties.thy ===== *)
theory Daemon_Properties
  imports Daemon_Invariant
begin

text \<open>
  The invariant of the daemon in every state it can reach, and what its clients can rely on: replies that
  parse, descriptors that are not mixed up, published events that can be read back, backups that
  can be restored; and what they cannot: a deferred reply and a failed \<open>peer-add\<close>.
\<close>

section \<open>Reachable daemons\<close>

lemma tokens_chars: "a \<in> set (tokens_loop cur out s) \<Longrightarrow> a \<in> set out \<or> set a \<subseteq> set cur \<union> set s"
  by (induction cur out s rule: tokens_loop.induct) (force split: if_splits)+

lemma line_tokens: "find_from LF s 0 = Some nl \<Longrightarrow> \<forall>a \<in> set (tokenize (take nl s)). LF \<notin> set a"
proof
  fix a
  assume nl: "find_from LF s 0 = Some nl" and a: "a \<in> set (tokenize (take nl s))"
  then have "set a \<subseteq> set (take nl s)" using tokens_chars [of a "[]" "[]"] by (auto simp: tokenize_def)
  moreover have "take nl s = takeWhile (\<lambda>x. x \<noteq> LF) s"
    using nl takeWhile_eq_take [of "\<lambda>x. x \<noteq> LF" s, symmetric] by (simp add: find_from_def Let_def split: if_splits)
  ultimately show "LF \<notin> set a" by (auto dest: set_takeWhileD)
qed

lemma lotid_ok_readable:
  assumes "lotid_ok env d" "is_open fd d"
  shows "lotid_ok env (snd (on_control_readable env fd rd d))"
proof (cases rd)
  case (Data buf)
  define acc where "acc = (case om_find fd (d_client_buf d) of Some b \<Rightarrow> b | None \<Rightarrow> []) @ buf"
  define d1 where "d1 = d\<lparr>d_client_buf := om_put fd acc (d_client_buf d)\<rparr>"
  have "waiting_fds d1 = waiting_fds d" "names_ok d1 = names_ok d" "sent_ok d1 = sent_ok d"
    by (simp_all add: d1_def waiting_fds_def names_ok_def sent_ok_def)
  then have ok: "lotid_ok env d1" and fd: "is_open fd d1"
    using assms by (auto simp: lotid_ok_def d1_def is_open_def om_find_simps)
  have "lotid_ok env (snd (act_bind (dispatch_guarded env args fd) (\<lambda>r. act_update (\<lambda>d. if rl_deferred r then d else respond fd r d)) d1))"
    if "\<forall>a \<in> set args. LF \<notin> set a" for args
  proof (cases "dispatch_guarded env args fd d1")
    case (Pair r d2)
    then have ok2: "lotid_ok env d2" using lotid_ok_dispatch [OF ok, of fd args] fd by simp
    moreover have "safe_reply x" if "r = Inr x" "\<forall>e. LF \<notin> set (le_what env e)" "names_ok d2" for x
      using answers_guarded [OF \<open>\<forall>a \<in> set args. LF \<notin> set a\<close>, of env fd] that Pair by (auto simp: answers_safely_def)
    ultimately show ?thesis using Pair
      by (auto simp: act_bind_def act_update_def intro: lotid_ok_respond split: sum.split)
  qed
  then show ?thesis
    using Data ok line_tokens [of acc]
    by (auto simp: on_control_readable_def Let_def lotid_ok_respond simp flip: acc_def d1_def split: option.split)
qed (use assms in \<open>simp_all add: on_control_readable_def lotid_ok_close\<close>)

lemma lotid_ok_stdin: "lotid_ok env d \<Longrightarrow> lotid_ok env (snd (stdin_loop env buf d))"
proof (induction env buf d rule: stdin_loop.induct)
  case (1 env buf d)
  show ?case
  proof (cases "find_from LF buf 0")
    case None
    then show ?thesis using 1(3) by (simp add: stdin_loop.simps)
  next
    case (Some nl)
    have k: "lotid_ok env (snd (dispatch_guarded env (tokenize (take nl buf)) (- 1) (d\<lparr>d_stdin_buf := drop (nl + 1) buf\<rparr>)))"
      by (rule lotid_ok_dispatch) (simp_all add: 1(3))
    show ?thesis
      using Some 1 k by (auto simp: stdin_loop.simps [of env buf] Let_def split: prod.split sum.split)
  qed
qed

lemma lotid_ok_drain: "lotid_ok env d \<Longrightarrow> lotid_ok env (snd (lotid_drain env q d))"
proof (induction env q d rule: lotid_drain.induct)
  case (1 env q d)
  obtain b q' where r: "receive (d_transport d) q = (b, q')" by (rule prod.exhaust)
  have "lotid_ok env (snd (node_call env (Packet b) d))"
    by (rule keeps_apply [of "lotid_ok env"]) (rule lo.keeps_node_call, rule 1(3))
  then show ?case
    using 1 r by (auto simp: lotid_drain.simps [of env q] split: prod.split sum.split)
qed

lemma keeps_configure:
  assumes "\<And>i ip port. keeps P (add_peer env i ip port)" "\<And>i j. keeps P (node_call env (Learn_route i j))"
  shows "keeps P (configure env peers routes)"
proof -
  have p: "keeps P (configure_peers env ps)" for ps
  proof (induction ps)
    case (Cons x xs)
    have "keeps P (act_bind (act_result r) (\<lambda>port. act_bind (add_peer env i ip (of_int port)) (\<lambda>_. configure_peers env xs)))" for r i ip
      using Cons assms(1) by (intro keeps_intros)
    then show ?case by (auto simp: keeps_def Let_def)
  qed (simp add: keeps_def)
  have r: "keeps P (configure_routes env rs)" for rs
  proof (induction rs)
    case (Cons x xs)
    have "keeps P (act_bind (node_call env (Learn_route i j)) (\<lambda>_. configure_routes env xs))" for i j
      using Cons assms(2) by (intro keeps_intros)
    then show ?case by (auto simp: keeps_def Let_def)
  qed (simp add: keeps_def)
  show ?thesis unfolding configure_def using p r by (intro keeps_intros)
qed

lemma make_lotid_ok: "make_lotid E calls i key_path lmdb clock_ns expiry_ns fs = Inr (d, key) \<Longrightarrow> lotid_ok env d"
  by (auto simp: make_lotid_def Let_def lotid_ok_def waiting_fds_def entries_ok_def sent_ok_def split: if_splits prod.splits sum.splits)

lemma lotid_ok_step: "lotid_step env d d' \<Longrightarrow> lotid_ok env d \<Longrightarrow> lotid_ok env d'"
proof (induction rule: lotid_step.induct)
  case (accept d fd)
  let ?d = "d\<lparr>d_client_buf := om_emplace fd [] (d_client_buf d)\<rparr>"
  have "waiting_fds ?d = waiting_fds d" "names_ok ?d = names_ok d" "sent_ok ?d = sent_ok d"
    by (simp_all add: waiting_fds_def names_ok_def sent_ok_def)
  then show ?case using accept
    by (auto simp: on_control_accept_def lotid_ok_def is_open_def om_find_simps)
next
  case (control fd d rd r d')
  then show ?case using lotid_ok_readable [of env d fd rd] by simp
next
  case (stdin rd d r d')
  have "lotid_ok env d'" if "stdin_loop env buf d = (r, d')" for buf
    using lotid_ok_stdin [OF stdin(3), of buf] that by simp
  then show ?case using stdin by (auto simp: on_stdin_readable_def split: Read.splits)
next
  case (datagrams q d r d')
  then show ?case using lotid_ok_drain [of env d q] by simp
next
  case (timer t d r d')
  show ?case by (rule keepsD [of "lotid_ok env", OF lo.keeps_node_call timer(3,1)])
qed

lemma lotid_reachable_ok: "lotid_reachable E env d \<Longrightarrow> lotid_ok env d"
proof (induction rule: lotid_reachable.induct)
  case (boot calls i key_path lmdb clock_ns expiry_ns fs d key peers routes d' d'')
  have k: "keeps (lotid_ok env) (configure env peers routes)"
    by (intro keeps_configure keeps_add_peer lo.keeps_node_call)
  have "lotid_ok env d'" by (rule keepsD [OF k make_lotid_ok [OF boot(1)] boot(2)])
  then show ?case using keepsD [of "lotid_ok env", OF lo.keeps_node_call _ boot(3)] by blast
next
  case (step d d')
  then show ?case using lotid_ok_step by blast
qed

section \<open>A daemon for the witnesses\<close>

definition sample_env :: LotidEnv where
  "sample_env = \<lparr>le_ports = sample_ports, le_pton6 = (\<lambda>_. None),
     le_pton4 = (\<lambda>s. if s = ''127.0.0.1'' then Some [127, 0, 0, 1] else None), le_what = (\<lambda>_. ''failed''),
     le_save = \<lparr>sv_open = True, sv_written = 1000000, sv_rename = True, sv_remove = True\<rparr>, le_disk = (\<lambda>_. None), le_sync = Inr ()\<rparr>"

definition idle :: "Lotid \<Rightarrow> bool" where
  "idle d \<longleftrightarrow> d_client_buf d = [] \<and> d_pending_bounds d = [] \<and> d_pending_chain d = [] \<and> d_pending_proof d = [] \<and>
     d_order_proofs d = [] \<and> d_pending_order d = [] \<and>
     d_peers d = [] \<and> d_lmdb d = None \<and> d_sent d = [] \<and> nd_store (d_node d) = empty_store \<and>
     nd_id (d_node d) = node_id_of_u64 1 \<and> nd_neighbors (d_node d) = [] \<and> nd_routes (d_node d) = [] \<and>
     nd_bounds_discoveries (d_node d) = [] \<and> nd_chain_discoveries (d_node d) = [] \<and>
     cfg_discovery_routing (nd_config (d_node d)) = static_shortest_path \<and> nd_unreferenced (d_node d) = [[]] \<and> nd_num_chains (d_node d) = 1"

lemma sample_daemon: "\<exists>d. lotid_reachable ref_ed sample_env d \<and> idle d"
proof -
  let ?config = "\<lparr>cfg_chains = [\<lparr>cc_interval = 0, cc_keep = 0\<rparr>], cfg_discovery_expiry = 0, cfg_discovery_hop_limit = 0,
      cfg_discovery_routing = static_shortest_path, cfg_discovery_fanout = 0, cfg_discovery_forward_cap = 0\<rparr>"
  obtain n where n: "make_node (node_id_of_u64 1) empty_store ?config = Inr n"
    using make_node_total [OF store_ok_empty] by blast
  then have f: "nd_store n = empty_store" "nd_id n = node_id_of_u64 1" "nd_neighbors n = []" "nd_routes n = []"
    "nd_bounds_discoveries n = []" "nd_chain_discoveries n = []" "nd_config n = ?config" "nd_out n = []" "nd_unreferenced n = [[]]"
    "nd_num_chains n = 1"
    by (auto simp: make_node_def hydrate_spec Let_def unpinned_tail_def effective_config_def) (simp_all add: empty_store_def)
  obtain d key where d: "make_lotid ref_ed all_succeed (node_id_of_u64 1) [] None 0 0 (\<lambda>_. None) = Inr (d, key)"
    "d_node d = n" "idle d"
    using n f by (simp add: make_lotid_def default_chain_schedule_def idle_def)
  have "start sample_ports n = n" using f(7)
    by (simp add: start_def schedule_clock_timer_def schedule_purge_timer_def f(10))
  then have "node_call sample_env Start d = (Inr (), d)"
    using d(2) by (simp add: node_call_def with_node_def sample_env_def act_bind_def act_return_def)
  moreover have "configure sample_env [] [] d = (Inr None, d)"
    by (simp add: configure_def act_bind_def)
  ultimately show ?thesis using lotid_reachable.boot [OF d(1)] d(3) by blast
qed

definition sample_line :: string where
  "sample_line = ''bounds 7:'' @ replicate 64 (CHR ''0'') @ [LF]"

lemma sample_waiting:
  assumes "idle d"
  shows "\<exists>d'. on_control_readable sample_env 5 (Data sample_line) (on_control_accept 5 d) = (Inr (), d') \<and>
    range_of (replicate 32 0) (d_pending_bounds d') \<noteq> []"
proof -
  have t: "tokenize (''bounds 7:'' @ replicate 64 (CHR ''0'')) = [''bounds'', ''7:'' @ replicate 64 (CHR ''0'')]"
    "find_from LF sample_line 0 = Some 73" "take 73 sample_line = ''bounds 7:'' @ replicate 64 (CHR ''0'')"
    "unhex (replicate 64 (CHR ''0'')) = Some (replicate 32 0)"
    "find_from (CHR '':'') (''7:'' @ replicate 64 (CHR ''0'')) 0 = Some 1"
    unfolding sample_line_def by code_simp+
  have "read_digits 10 ''7'' = 7" "read_sign ''7'' = (False, ''7'')" by code_simp+
  then have "parse_node_id ''7'' = node_id_of_u64 7" by (simp add: parse_node_id_def strtoull_def)
  then have e: "resolve_event (''7:'' @ replicate 64 (CHR ''0'')) d =
     Inr (Some ((ch_event empty_chain)\<lparr>ev_creator := node_id_of_u64 7, ev_hash := replicate 32 0\<rparr>))" for d
    using t(4,5) by (simp add: resolve_event_def)
  let ?e = "(ch_event empty_chain)\<lparr>ev_creator := node_id_of_u64 7, ev_hash := replicate 32 0\<rparr>"
  let ?args = "[''bounds'', ''7:'' @ replicate 64 (CHR ''0'')]"
  have ne: "node_id_of_u64 7 \<noteq> node_id_of_u64 1" by code_simp
  have "\<exists>n x y. discover_event_bounds sample_ports ?e w 0 (d_node d) = Inr n \<and>
    nd_out n = nd_out (d_node d) @ [Telemetry x, Telemetry y]" for w
    using assms ne
    by (simp add: idle_def discover_event_bounds_def insert_bounds_discovery_def discover_event_chain_def clock_now_def
      insert_chain_discovery_def emit_def flood_chain_request_def next_hops_def static_next_hops_def neighbor_by_id_def Let_def)
  then obtain n x y where n: "discover_event_bounds sample_ports ?e (parse_range ?args 2) 0 (d_node d) = Inr n"
    "nd_out n = nd_out (d_node d) @ [Telemetry x, Telemetry y]" by blast
  define d1 where "d1 = d\<lparr>d_client_buf := [(5, sample_line)]\<rparr>"
  define d2 where "d2 = wait_for Bounds_query (replicate 32 0) 5 d1"
  have d2: "d_node d2 = d_node d" "d_pending_bounds d2 = [(replicate 32 0, d_next_addr d, 5)]"
    using assms by (simp_all add: d2_def d1_def wait_for_def new_entry_def set_pending_def pending_def idle_def)
  have c: "node_call sample_env (Discover_bounds ?e (parse_range ?args 2) 0) d2 = (Inr (), d2\<lparr>d_node := n\<rparr>)"
    using n by (simp add: node_call_def with_node_def sample_env_def d2(1) deliver_def act_bind_def act_return_def)
  have "dispatch_query sample_env ''bounds'' ?args 5 d1 = (Inr deferred_reply, d2\<lparr>d_node := n\<rparr>)"
    using c e by (simp add: dispatch_query_def act_bind_def act_read_def act_update_def act_return_def started_reply_def flip: d2_def)
  then have "dispatch_guarded sample_env ?args 5 d1 = (Inr deferred_reply, d2\<lparr>d_node := n\<rparr>)"
    by (simp add: dispatch_guarded_def dispatch_def Let_def)
  moreover have "om_find 5 (d_client_buf (on_control_accept 5 d)) = Some []"
    "(on_control_accept 5 d)\<lparr>d_client_buf := om_put 5 sample_line (d_client_buf (on_control_accept 5 d))\<rparr> = d1"
    using assms by (simp_all add: on_control_accept_def idle_def om_emplace_def d1_def)
  ultimately have "on_control_readable sample_env 5 (Data sample_line) (on_control_accept 5 d) = (Inr (), d2\<lparr>d_node := n\<rparr>)"
    using t by (simp add: on_control_readable_def act_bind_def act_update_def deferred_reply_def)
  then show ?thesis using d2(2) by (simp add: range_of_def mm_range_def)
qed
lemma sample_waiting_daemon:
  "\<exists>d. lotid_reachable ref_ed sample_env d \<and> range_of (replicate 32 0) (d_pending_bounds d) \<noteq> []"
proof -
  obtain d where d: "lotid_reachable ref_ed sample_env d" "idle d" using sample_daemon by blast
  obtain d' where d': "on_control_readable sample_env 5 (Data sample_line) (on_control_accept 5 d) = (Inr (), d')"
    "range_of (replicate 32 0) (d_pending_bounds d') \<noteq> []"
    using sample_waiting [OF d(2)] by blast
  have "lotid_reachable ref_ed sample_env (on_control_accept 5 d)"
    by (rule lotid_reachable.step [OF d(1) accept])
  moreover have "is_open 5 (on_control_accept 5 d)" by (simp add: on_control_accept_def)
  ultimately have "lotid_reachable ref_ed sample_env d'"
    using lotid_step.control [OF _ d'(1)] lotid_reachable.step by (fastforce simp: survives_def)
  then show ?thesis using d'(2) by blast
qed

section \<open>Clients and their descriptors\<close>

text \<open>C31: A reused descriptor is safe: in every state the daemon can reach, whoever waits for a discovery or a
  proof has an open connection, and once a connection is closed no table mentions its descriptor
  any more, so that a later connection with the same number cannot get the reply of an earlier
  client.\<close>

theorem waiting_clients_open:
  assumes "lotid_reachable E env d"
  shows "(\<forall>fd \<in> waiting_fds d. is_open fd d) \<and>
    (\<forall>fd. \<not> is_open fd (close_client fd d) \<and> fd \<notin> waiting_fds (close_client fd d))"
proof -
  have ok: "\<forall>fd \<in> waiting_fds d. is_open fd d" using lotid_reachable_ok [OF assms] by (simp add: lotid_ok_def)
  have "\<not> is_open fd (close_client fd d) \<and> fd \<notin> waiting_fds (close_client fd d)" for fd
  proof (cases "is_open fd d")
    case True
    have "waiting_fds (purge_pending_for_fd fd d\<lparr>d_client_buf := m\<rparr>) = waiting_fds (purge_pending_for_fd fd d)" for m
      by (simp add: waiting_fds_def)
    then show ?thesis using True by (simp add: close_client_def Let_def waiting_fds_purge)
  next
    case False
    then show ?thesis using ok by (auto simp: close_client_def)
  qed
  then show ?thesis using ok by blast
qed

theorem waiting_clients_open_witness:
  "\<exists>d. lotid_reachable ref_ed sample_env d \<and> waiting_fds d \<noteq> {} \<and> (\<forall>fd \<in> waiting_fds d. is_open fd d)"
proof -
  obtain d where d: "lotid_reachable ref_ed sample_env d" "range_of (replicate 32 0) (d_pending_bounds d) \<noteq> []"
    using sample_waiting_daemon by blast
  then have "d_pending_bounds d \<noteq> []" by (auto simp: range_of_def mm_range_def)
  then have "waiting_fds d \<noteq> {}" by (simp add: waiting_fds_def)
  then show ?thesis using waiting_clients_open [OF d(1)] d(1) by blast
qed

text \<open>C32: Everything the daemon writes to a client is a reply of the line protocol, and a client that sends
  a request and reads the text, in whatever pieces it arrives, gets back exactly the code, the
  message and the fields it was made of; no event content, argument or error text breaks the framing
  (as long as the path of the store, the addresses of the peers and the messages of exceptions have no
  line break).\<close>

theorem sent_replies_parse:
  assumes "lotid_reachable E env d" "\<forall>e. LF \<notin> set (le_what env e)" "names_ok d" "(fd, s) \<in> set (d_sent d)"
    and "concat cs = s" "fst (write_all w 0 (request @ [LF]))"
  shows "\<exists>code error fs. s = format_reply code error fs \<and> 0 \<le> code \<and> code \<le> 255 \<and>
    control_request True w (map Data cs @ Closed # rs) request =
      Inr (request @ [LF], Some \<lparr>rp_ok = (error = []), rp_code = code, rp_message = error, rp_fields = fs\<rparr>)"
proof -
  have "sent_ok d" using lotid_reachable_ok [OF assms(1)] assms(2,3) by (simp add: lotid_ok_def)
  then obtain r where r: "safe_reply r" "s = format_reply (rl_code r) (rl_error r) (rl_fields r)"
    using assms(4) by (auto simp: sent_ok_def)
  then show ?thesis
    using control_round_trip [of "rl_fields r" "rl_error r" "rl_code r" cs w request rs] assms(5,6)
    by (auto simp: safe_reply_def)
qed

theorem sent_replies_parse_witness:
  "\<exists>d s code error fs. lotid_reachable ref_ed sample_env d \<and> (5, s) \<in> set (d_sent d) \<and> s = format_reply code error fs \<and>
     control_request True (\<lambda>_. 100) [Data s, Closed] ''x'' =
       Inr (''x'' @ [LF], Some \<lparr>rp_ok = (error = []), rp_code = code, rp_message = error, rp_fields = fs\<rparr>)"
proof -
  obtain d where d: "lotid_reachable ref_ed sample_env d" "idle d" using sample_daemon by blast
  define d1 where "d1 = on_control_accept 5 d"
  define d' where "d' = snd (on_control_readable sample_env 5 (Data [LF]) d1)"
  have o: "is_open 5 d1" by (simp add: d1_def on_control_accept_def)
  have e: "on_control_readable sample_env 5 (Data [LF]) d1 = (Inr (), d')" "(5, format_reply kUsage ''empty request'' []) \<in> set (d_sent d')"
    "names_ok d'"
    using d(2) by (simp_all add: d'_def d1_def on_control_readable_def on_control_accept_def idle_def om_emplace_def find_from_def
      tokenize_def respond_def close_client_def purge_pending_for_fd_def is_open_def error_reply_def Let_def names_ok_def)
  have "lotid_reachable ref_ed sample_env d1" unfolding d1_def by (rule lotid_reachable.step [OF d(1) accept])
  then have r: "lotid_reachable ref_ed sample_env d'"
    using lotid_step.control [OF o e(1)] lotid_reachable.step by (fastforce simp: survives_def)
  have "\<forall>e. LF \<notin> set (le_what sample_env e)" by (simp add: sample_env_def)
  moreover have "fst (write_all (\<lambda>_. 100) 0 (''x'' @ [LF]))" by (simp add: write_all.simps)
  ultimately obtain code error fs where "format_reply kUsage ''empty request'' [] = format_reply code error fs"
    "control_request True (\<lambda>_. 100) [Data (format_reply kUsage ''empty request'' []), Closed] ''x'' =
       Inr (''x'' @ [LF], Some \<lparr>rp_ok = (error = []), rp_code = code, rp_message = error, rp_fields = fs\<rparr>)"
    using sent_replies_parse [OF r _ e(3,2), of "[format_reply kUsage ''empty request'' []]" "\<lambda>_. 100" "''x''" "[]"] by auto
  then show ?thesis using r e(2) by blast
qed

section \<open>Deferred replies\<close>

lemma respond_purges:
  "is_open fd d \<Longrightarrow> pending q (respond fd r d) = filter (\<lambda>(_, _, f). f \<noteq> fd) (pending q d)"
  "is_open fd d \<Longrightarrow> d_pending_proof (respond fd r d) = filter (\<lambda>(_, _, p). pr_fd p \<noteq> fd) (d_pending_proof d)"
  "is_open fd d \<Longrightarrow> d_pending_order (respond fd r d) = filter (\<lambda>(_, _, f). f \<noteq> fd) (d_pending_order d)"
  by (simp_all add: respond_def close_client_def purge_pending_for_fd_def is_open_def Let_def pending_def split: Query.split)

lemma at_address_filter:
  assumes "entries_ok nxt m" "(k, a, v) \<in> set m" "\<not> f v"
  shows "at_address a (filter (\<lambda>(_, _, w). f w) m) = None"
proof -
  have "x = (k, a, v)" if "x \<in> set m" "fst (snd x) = a" for x
    using assms(1,2) that unfolding entries_ok_def by (metis fst_conv snd_conv)
  then show ?thesis using assms(3) unfolding at_address_None by fastforce
qed

lemma range_loop_dies:
  assumes "entries_ok nxt (container d)" "range_of h (container d) \<noteq> []"
    and "\<And>a v. (h, a, v) \<in> set (container d) \<Longrightarrow>
      fst (body v d) = Inl Undefined_behaviour \<or> (\<exists>d'. body v d = (Inr (), d') \<and> at_address a (container d') = None)"
  shows "fst (range_loop container body (range_of h (container d)) d) = Inl Undefined_behaviour"
proof -
  obtain a as where as: "range_of h (container d) = a # as" using assms(2) by (cases "range_of h (container d)") auto
  then have "a \<in> fst ` set (mm_range h (container d))"
    unfolding range_of_def by (metis list.set_intros(1) list.set_map)
  then obtain v where v: "(h, a, v) \<in> set (container d)" by (auto simp: set_mm_range)
  then show ?thesis
    using at_address_iff [OF assms(1) v] assms(3) [OF v] by (auto simp: as split: prod.splits sum.splits)
qed

lemma lotid_okD:
  assumes "lotid_ok env d"
  shows "entries_ok (d_next_addr d) (pending q d)" "entries_ok (d_next_addr d) (d_pending_proof d)"
    "entries_ok (d_next_addr d) (d_pending_order d)" "(h, a, fd) \<in> set (pending q d) \<Longrightarrow> is_open fd d"
    "(h, a, rq) \<in> set (d_pending_proof d) \<Longrightarrow> is_open (pr_fd rq) d"
    "(key, a, fd) \<in> set (d_pending_order d) \<Longrightarrow> is_open fd d" "o' \<in> set (d_order_proofs d) \<Longrightarrow> is_open (op_fd o') d"
proof -
  have w: "fd \<in> waiting_fds d \<Longrightarrow> is_open fd d" for fd using assms by (simp add: lotid_ok_def)
  show "entries_ok (d_next_addr d) (pending q d)" "entries_ok (d_next_addr d) (d_pending_proof d)"
    "entries_ok (d_next_addr d) (d_pending_order d)"
    using assms by (simp_all add: lotid_ok_def pending_def split: Query.split)
  show "(h, a, fd) \<in> set (pending q d) \<Longrightarrow> is_open fd d" "(key, a, fd) \<in> set (d_pending_order d) \<Longrightarrow> is_open fd d"
    by (rule w; cases q; simp add: waiting_fds_def pending_def rev_image_eqI)+
  show "(h, a, rq) \<in> set (d_pending_proof d) \<Longrightarrow> is_open (pr_fd rq) d" "o' \<in> set (d_order_proofs d) \<Longrightarrow> is_open (op_fd o') d"
    by (rule w; simp add: waiting_fds_def rev_image_eqI)+
qed

lemma range_of_empty: "range_of h m = [] \<Longrightarrow> erase_key h m = m"
  by (auto simp: range_of_def mm_range_def erase_key_def filter_empty_conv filter_id_conv)

lemma answer_outcome:
  assumes "lotid_ok env d"
  shows "range_of h (pending q d) = [] \<Longrightarrow> answer q h r d = (Inr (), d)"
    "range_of h (pending q d) \<noteq> [] \<Longrightarrow> fst (answer q h r d) = Inl Undefined_behaviour"
proof -
  show "answer q h r d = (Inr (), d)" if "range_of h (pending q d) = []"
    using range_of_empty [OF that] that
    by (simp add: answer_def act_bind_def act_update_def) (simp add: set_pending_def pending_def split: Query.split)
  have "fst (range_loop (pending q) (\<lambda>fd d. (Inr (), respond fd r d)) (range_of h (pending q d)) d) = Inl Undefined_behaviour"
    if "range_of h (pending q d) \<noteq> []"
    by (rule range_loop_dies [where container = "pending q", OF lotid_okD(1) [OF assms] that])
      (simp add: respond_purges lotid_okD(4) [OF assms] at_address_filter [OF lotid_okD(1) [OF assms]])
  then show "range_of h (pending q d) \<noteq> [] \<Longrightarrow> fst (answer q h r d) = Inl Undefined_behaviour"
    by (auto simp: answer_def act_bind_def split: prod.split sum.split)
qed

lemma proof_loop_outcome:
  assumes "lotid_ok env d" "\<And>rq. fst (body rq d) = Inl Undefined_behaviour \<or> (\<exists>r. body rq d = (Inr (), respond (pr_fd rq) r d))"
  shows "range_of h (d_pending_proof d) \<noteq> [] \<Longrightarrow>
    fst (range_loop d_pending_proof body (range_of h (d_pending_proof d)) d) = Inl Undefined_behaviour"
proof -
  assume ne: "range_of h (d_pending_proof d) \<noteq> []"
  show ?thesis
  proof (rule range_loop_dies [where container = d_pending_proof, OF lotid_okD(2) [OF assms(1)] ne])
    fix a v
    assume v: "(h, a, v) \<in> set (d_pending_proof d)"
    then show "fst (body v d) = Inl Undefined_behaviour \<or>
        (\<exists>d'. body v d = (Inr (), d') \<and> at_address a (d_pending_proof d') = None)"
      using assms(2) [of v] respond_purges(2) [OF lotid_okD(5) [OF assms(1) v]]
        at_address_filter [OF lotid_okD(2) [OF assms(1)] v] by auto
  qed
qed

lemma proof_reply_outcome: "proof_reply p = Inl e \<Longrightarrow> e = Undefined_behaviour"
  by (auto simp: proof_reply_def Let_def split: if_splits)

lemma single_proof_outcome:
  assumes "lotid_ok env d"
  shows "range_of h (d_pending_proof d) = [] \<Longrightarrow> finish_single_proof h c d = (Inr (), d) \<and> abort_single_proof h d = (Inr (), d)"
    "range_of h (d_pending_proof d) \<noteq> [] \<Longrightarrow>
      fst (finish_single_proof h c d) = Inl Undefined_behaviour \<and> fst (abort_single_proof h d) = Inl Undefined_behaviour"
proof -
  show "finish_single_proof h c d = (Inr (), d) \<and> abort_single_proof h d = (Inr (), d)" if "range_of h (d_pending_proof d) = []"
    using range_of_empty [OF that] that
    by (simp add: finish_single_proof_def abort_single_proof_def act_bind_def act_update_def)
  assume ne: "range_of h (d_pending_proof d) \<noteq> []"
  have "fst (range_loop d_pending_proof (\<lambda>rq d. case proof_reply (single_proof d (pr_kind rq) c) of
      Inl e \<Rightarrow> (Inl e, d) | Inr r \<Rightarrow> (Inr (), respond (pr_fd rq) r d)) (range_of h (d_pending_proof d)) d) = Inl Undefined_behaviour"
    by (rule proof_loop_outcome [OF assms _ ne]) (auto split: sum.split dest: proof_reply_outcome)
  moreover have "fst (range_loop d_pending_proof (\<lambda>rq d. (Inr (), respond (pr_fd rq) aborted_reply d))
      (range_of h (d_pending_proof d)) d) = Inl Undefined_behaviour"
    by (rule proof_loop_outcome [OF assms _ ne]) auto
  ultimately show "fst (finish_single_proof h c d) = Inl Undefined_behaviour \<and> fst (abort_single_proof h d) = Inl Undefined_behaviour"
    by (auto simp: finish_single_proof_def abort_single_proof_def act_bind_def split: prod.split sum.split)
qed

text \<open>An order proof whose two chains are there.\<close>

definition both_chains :: "OrderProof \<Rightarrow> bool" where
  "both_chains o' \<longleftrightarrow> op_chain_a o' \<noteq> None \<and> op_chain_b o' \<noteq> None"

lemma erase_at_dies:
  assumes "d_order_proofs d = kept @ o' # rest" "is_open (op_fd o') d"
  shows "fst (act_bind (erase_at kept o' rest) f (respond (op_fd o') r d)) = Inl Undefined_behaviour"
  using assms erase_at_survives(1) [of kept o' rest r d] erase_at_fails [of kept o' rest "respond (op_fd o') r d"]
  by (cases "erase_at kept o' rest (respond (op_fd o') r d)"; cases "fst (erase_at kept o' rest (respond (op_fd o') r d))")
    (auto simp: act_bind_def)

lemma compare_chains_outcome: "compare_chains a b = Inl e \<Longrightarrow> e = Undefined_behaviour"
  by (auto simp: compare_chains_def split: if_splits)

lemma finish_order_outcome:
  assumes "d_order_proofs d = kept @ rest" "\<forall>o' \<in> set rest. is_open (op_fd o') d"
  shows "fst (finish_order_loop h c kept rest d) =
    (if \<exists>o' \<in> set rest. both_chains (note_chain h c o') then Inl Undefined_behaviour else Inr ())"
  using assms
proof (induction rest arbitrary: kept d)
  case (Cons o0 rest)
  define o' where "o' = note_chain h c o0"
  define d1 where "d1 = d\<lparr>d_order_proofs := kept @ o' # rest\<rparr>"
  have o: "d_order_proofs d1 = kept @ o' # rest" "is_open (op_fd o') d1" "\<forall>o' \<in> set rest. is_open (op_fd o') d1"
    using Cons.prems by (auto simp: d1_def o'_def is_open_def)
  note dies = erase_at_dies [OF o(1,2)]
  have next_one: "fst (finish_order_loop h c (kept @ [o']) rest d1) =
      (if \<exists>o' \<in> set rest. both_chains (note_chain h c o') then Inl Undefined_behaviour else Inr ())"
    by (rule Cons.IH) (simp_all add: o)
  show ?case
  proof (cases "both_chains o'")
    case True
    then obtain ca cb where ab: "op_chain_a o' = Some ca" "op_chain_b o' = Some cb" by (auto simp: both_chains_def)
    have "e = Undefined_behaviour" if "bindE (compare_chains ca cb) (\<lambda>ord. proof_reply (f ord)) = Inl e" for e f
      using that by (cases "compare_chains ca cb") (auto dest: compare_chains_outcome proof_reply_outcome)
    then show ?thesis using True ab dies
      by (auto simp: Let_def simp flip: o'_def d1_def split: sum.split)
  next
    case False
    then have "finish_order_loop h c kept (o0 # rest) d = finish_order_loop h c (kept @ [o']) rest d1"
      by (auto simp: both_chains_def Let_def simp flip: o'_def d1_def split: option.split)
    then show ?thesis using False next_one by (auto simp flip: o'_def)
  qed
qed simp

lemma abort_order_outcome:
  assumes "d_order_proofs d = kept @ rest" "\<forall>o' \<in> set rest. is_open (op_fd o') d"
  shows "fst (abort_order_loop h kept rest d) =
    (if \<exists>o' \<in> set rest. op_a o' = h \<or> op_b o' = h then Inl Undefined_behaviour else Inr ())"
  using assms
proof (induction rest arbitrary: kept)
  case (Cons o' rest)
  show ?case using Cons.prems Cons.IH [of "kept @ [o']"] erase_at_dies [of d kept o' rest] by auto
qed simp

text \<open>Whether somebody waits for what the node reports.\<close>

definition awaited :: "Output \<Rightarrow> Lotid \<Rightarrow> bool" where
  "awaited out d =
     (case out of
        Chain_completed _ e c \<Rightarrow> range_of (ev_hash e) (d_pending_chain d) \<noteq> [] \<or> range_of (ev_hash e) (d_pending_proof d) \<noteq> [] \<or>
          (\<exists>o' \<in> set (d_order_proofs d). both_chains (note_chain (ev_hash e) c o'))
      | Chain_aborted _ e \<Rightarrow> range_of (ev_hash e) (d_pending_chain d) \<noteq> [] \<or> range_of (ev_hash e) (d_pending_proof d) \<noteq> [] \<or>
          (\<exists>o' \<in> set (d_order_proofs d). op_a o' = ev_hash e \<or> op_b o' = ev_hash e)
      | Bounds_completed _ e _ _ \<Rightarrow> range_of (ev_hash e) (d_pending_bounds d) \<noteq> []
      | Bounds_aborted _ e \<Rightarrow> range_of (ev_hash e) (d_pending_bounds d) \<noteq> []
      | Order_completed _ a b _ \<Rightarrow> om_find (ev_hash a, ev_hash b) (d_pending_order d) \<noteq> None
      | Order_aborted _ a b \<Rightarrow> om_find (ev_hash a, ev_hash b) (d_pending_order d) \<noteq> None
      | _ \<Rightarrow> False)"

lemma chain_report_outcome:
  assumes "lotid_ok env d"
  shows "fst (lotid_chain_completed e c d) = (if awaited (Chain_completed k e c) d then Inl Undefined_behaviour else Inr ())"
    "fst (lotid_chain_aborted e d) = (if awaited (Chain_aborted k e) d then Inl Undefined_behaviour else Inr ())"
proof -
  note a = answer_outcome [OF assms, of "ev_hash e" Chain_query, unfolded pending_def, simplified]
  note s = single_proof_outcome [OF assms, of "ev_hash e"]
  have o: "fst (finish_order_proof (ev_hash e) c d) =
      (if \<exists>o' \<in> set (d_order_proofs d). both_chains (note_chain (ev_hash e) c o') then Inl Undefined_behaviour else Inr ())"
    "fst (abort_order_proof (ev_hash e) d) =
      (if \<exists>o' \<in> set (d_order_proofs d). op_a o' = ev_hash e \<or> op_b o' = ev_hash e then Inl Undefined_behaviour else Inr ())"
    unfolding finish_order_proof_def abort_order_proof_def
    using finish_order_outcome [of d "[]" "d_order_proofs d"] abort_order_outcome [of d "[]" "d_order_proofs d"] lotid_okD(7) [OF assms]
    by auto
  have f: "fst (act_bind m f d) = Inl x" if "fst (m d) = Inl x" for m f x
    using that by (cases "m d") (simp add: act_bind_def)
  have g: "act_bind m f d = f () d" if "m d = (Inr (), d)" for m f
    using that by (simp add: act_bind_def)
  show "fst (lotid_chain_completed e c d) = (if awaited (Chain_completed k e c) d then Inl Undefined_behaviour else Inr ())"
    by (cases "range_of (ev_hash e) (d_pending_chain d) = []"; cases "range_of (ev_hash e) (d_pending_proof d) = []")
      (simp_all add: lotid_chain_completed_def awaited_def f g a s o act_return_def)
  show "fst (lotid_chain_aborted e d) = (if awaited (Chain_aborted k e) d then Inl Undefined_behaviour else Inr ())"
    by (cases "range_of (ev_hash e) (d_pending_chain d) = []"; cases "range_of (ev_hash e) (d_pending_proof d) = []")
      (simp_all add: lotid_chain_aborted_def abort_pending_def awaited_def f g a s o)
qed

lemma order_report_outcome:
  assumes "lotid_ok env d"
  shows "fst (conclude_order key r d) = (if om_find key (d_pending_order d) \<noteq> None then Inl Undefined_behaviour else Inr ())"
proof (cases "om_find key (d_pending_order d)")
  case (Some v)
  obtain a fd where v: "v = (a, fd)" by (rule prod.exhaust)
  have m: "(key, a, fd) \<in> set (d_pending_order d)" using om_find_in [OF Some] v by simp
  then have "at_address a (d_pending_order (respond fd r d)) = None"
    using respond_purges(3) [OF lotid_okD(6) [OF assms m]] at_address_filter [OF lotid_okD(3) [OF assms] m] by simp
  then show ?thesis using Some v by (simp add: conclude_order_def Let_def)
qed (simp add: conclude_order_def)

text \<open>C33: No deferred reply is ever served in a defined way: in every state the daemon can reach, a
  report of the node ends in undefined behaviour if, and only if, a client waits for it (or a reported
  interval does not fit 64 bits). Answering a client closes its connection and erases its entry,
  which the iterator of the answering loop still points to.\<close>

theorem awaited_report_undefined:
  assumes "lotid_reachable E env d"
  shows "fst (deliver out d) =
    (if awaited out d \<or>
       (\<exists>k e lo hi. out = Bounds_completed k e lo hi \<and> \<not> (- (2 ^ 63) \<le> sint hi - sint lo \<and> sint hi - sint lo < 2 ^ 63))
     then Inl Undefined_behaviour else Inr ())"
proof -
  have ok: "lotid_ok env d" by (rule lotid_reachable_ok [OF assms])
  note b = answer_outcome [OF ok, of _ Bounds_query, unfolded pending_def, simplified]
  show ?thesis
  proof (cases out)
    case (Bounds_completed k e lo hi)
    then show ?thesis
      by (cases "range_of (ev_hash e) (d_pending_bounds d) = []")
        (simp_all add: deliver_def awaited_def lotid_bounds_completed_def act_throw_def b)
  next
    case (Bounds_aborted k e)
    then show ?thesis
      by (cases "range_of (ev_hash e) (d_pending_bounds d) = []")
        (simp_all add: deliver_def awaited_def lotid_bounds_aborted_def abort_pending_def b)
  qed (simp_all add: deliver_def chain_report_outcome [OF ok] order_report_outcome [OF ok] lotid_order_completed_def
    lotid_order_aborted_def act_update_def act_return_def, simp_all add: awaited_def)
qed

theorem awaited_report_undefined_witness:
  "\<exists>d. lotid_reachable ref_ed sample_env d \<and>
     fst (deliver (Bounds_aborted 0 ((ch_event empty_chain)\<lparr>ev_hash := replicate 32 0\<rparr>)) d) = Inl Undefined_behaviour"
proof -
  obtain d where d: "lotid_reachable ref_ed sample_env d" "range_of (replicate 32 0) (d_pending_bounds d) \<noteq> []"
    using sample_waiting_daemon by blast
  then show ?thesis
    using awaited_report_undefined [OF d(1), of "Bounds_aborted 0 ((ch_event empty_chain)\<lparr>ev_hash := replicate 32 0\<rparr>)"]
    by (auto simp: awaited_def)
qed

section \<open>Commands\<close>

text \<open>What is published can be read back: after a \<open>publish\<close> that succeeded, \<open>event last\<close> and \<open>event\<close> with
  the hash of the reply show the same event, made by this node from exactly the words given, with
  the hash that commits to it (unless the store already held an event with that hash).\<close>

lemma published_event_shown:
  assumes "dispatch env (''publish'' # words) fd d = (Inr r, d')" "words \<noteq> []"
    and "event_by_hash (d_last_event d') (nd_store (d_node d)) = Inr None"
  shows "\<exists>e. r = ok_reply [(''event'', hex (ev_hash e))] \<and> ev_data e = bytes_of_string (join_words words) \<and>
    ev_creator e = nd_id (d_node d) \<and> ev_hash e = calculate_event_hash e \<and>
    dispatch env [''event'', ''last''] fd d' = (Inr (ok_reply (event_fields e)), d') \<and>
    dispatch env [''event'', hex (ev_hash e)] fd d' = (Inr (ok_reply (event_fields e)), d')"
proof -
  have "publish_command env (''publish'' # words) d = (Inr r, d')"
    using assms(1) by (simp add: dispatch_def)
  then obtain e n where e: "publish_event (le_ports env) (bytes_of_string (join_words words)) (d_node d) = Inr (e, n)"
    "r = ok_reply [(''event'', hex (ev_hash e))]" "d' = d\<lparr>d_node := n, d_last_event := ev_hash e\<rparr>"
    using assms(2)
    by (auto simp: publish_command_def act_bind_def act_update_def act_return_def with_node_def publish_event_def insert_event_def
      next_salt_def emit_def Let_def deliver_def split: prod.splits sum.splits)
  have f: "nd_store n = snd (append_event e (nd_store (d_node d)))" "ev_data e = bytes_of_string (join_words words)"
    "ev_creator e = nd_id (d_node d)" "ev_hash e = calculate_event_hash e"
    using e(1) by (auto simp: publish_event_def insert_event_def next_salt_def emit_def Let_def calculate_event_hash_def event_preimage_def)
  have l: "length (ev_hash e) = 32" unfolding f(4) by (simp add: calculate_event_hash_def)
  have "om_find (ev_hash e) (st_event_seq (nd_store (d_node d))) = None"
    using assms(3) e(3) by (simp add: event_by_hash_def split: option.splits if_splits)
  then have "event_by_hash (ev_hash e) (nd_store n) = Inr (Some e)"
    by (simp add: f(1) event_by_hash_def append_event_def Let_def om_find_emplace)
  moreover have "unhex (hex (ev_hash e)) = Some (ev_hash e)" "length (hex (ev_hash e)) = 64" "ev_hash e \<noteq> []"
    using l by (auto intro: unhex_hex)
  ultimately have "find_by_hash_prefix (hex (ev_hash e)) d' = Inr (Some e)" by (simp add: find_by_hash_prefix_def e(3))
  moreover have "hex (ev_hash e) \<noteq> ''last''"
  proof
    assume "hex (ev_hash e) = ''last''"
    then have "length (hex (ev_hash e)) = length ''last''" by (rule arg_cong)
    then show False using l by simp
  qed
  ultimately have "find_event ''last'' d' = Inr (Some e)" "find_event (hex (ev_hash e)) d' = Inr (Some e)"
    using \<open>ev_hash e \<noteq> []\<close> by (simp_all add: find_event_def e(3))
  then have "dispatch env [''event'', ''last''] fd d' = (Inr (ok_reply (event_fields e)), d')"
    "dispatch env [''event'', hex (ev_hash e)] fd d' = (Inr (ok_reply (event_fields e)), d')"
    by (simp_all add: dispatch_def event_command_def act_bind_def act_read_def act_return_def)
  then show ?thesis using e(2) f by blast
qed

text \<open>C39: A backup can be restored: if \<open>db-backup\<close> answers with success and the file is not touched, \<open>db-restore\<close>
  of it succeeds in any later state of the daemon, whatever has happened to the node in between,
  and brings back the events, the clock events, the neighbors and the routes of the moment of the
  backup, over a consistent store, with the events each chain leaves unreferenced; the time-dependent
  routes are lost.\<close>

theorem backup_then_restore:
  assumes "dispatch env [''db-backup'', path] fd d = (Inr r, d1)" "d_files d2 path = d_files d1 path"
    and "nd_unreferenced (d_node d) \<noteq> []" "wf_snapshot (snapshot_of (d_node d))" "keyed (nd_neighbors (d_node d))"
    and "om_ok (nd_neighbors (d_node d))" "om_ok (nd_routes (d_node d))"
  shows "\<exists>d3. dispatch env [''db-restore'', path] fd2 d2 = (Inr (ok_reply ((''restored'', path) # count_fields d3)), d3) \<and>
    store_ok (nd_store (d_node d3)) \<and> st_events (nd_store (d_node d3)) = st_events (nd_store (d_node d)) \<and>
    load_clock_events (nd_store (d_node d3)) = load_clock_events (nd_store (d_node d)) \<and>
    nd_neighbors (d_node d3) = nd_neighbors (d_node d) \<and> nd_routes (d_node d3) = nd_routes (d_node d) \<and>
    nd_timed_routes (d_node d3) = [] \<and> nd_unreferenced (d_node d3) =
      map (\<lambda>l. unpinned_tail (of_nat l) (nd_store (d_node d))) [0..<nd_num_chains (d_node d2)]"
proof -
  obtain b m where b: "snapshot (d_node d) = Inr b" "b \<noteq> []" "restore b (d_node d2) = Inr m" "store_ok (nd_store m)"
    "st_events (nd_store m) = st_events (nd_store (d_node d))"
    "load_clock_events (nd_store m) = load_clock_events (nd_store (d_node d))"
    "nd_neighbors m = nd_neighbors (d_node d)" "nd_routes m = nd_routes (d_node d)" "nd_out m = nd_out (d_node d2)"
    "nd_timed_routes m = []"
    "nd_unreferenced m = map (\<lambda>l. unpinned_tail (of_nat l) (nd_store (d_node d))) [0..<nd_num_chains (d_node d2)]"
    using restore_snapshot [OF assms(3-7), of "d_node d2"] by blast
  have "d_files d1 path = Some b"
    using assms(1) b(1)
    by (auto simp: dispatch_def backup_command_def act_bind_def act_read_def file_save_def Let_def split: if_splits)
  then have "file_load path (d_files d2) = Some b" using assms(2) b(2) by (simp add: file_load_def)
  then have "dispatch env [''db-restore'', path] fd2 d2 =
      (Inr (ok_reply ((''restored'', path) # count_fields (d2\<lparr>d_node := m\<rparr>))), d2\<lparr>d_node := m\<rparr>)"
    using b(3,9) by (simp add: dispatch_def restore_command_def with_node_def act_bind_def act_return_def)
  then show ?thesis using b by (intro exI [of _ "d2\<lparr>d_node := m\<rparr>"]) simp
qed

theorem backup_then_restore_witness:
  "\<exists>d d1 d3 r. dispatch sample_env [''db-backup'', ''b''] 5 d = (Inr r, d1) \<and>
     dispatch sample_env [''db-restore'', ''b''] 6 d1 = (Inr (ok_reply ((''restored'', ''b'') # count_fields d3)), d3) \<and>
     store_ok (nd_store (d_node d3))"
proof -
  obtain d where d: "idle d" using sample_daemon by blast
  have w: "wf_snapshot (snapshot_of (d_node d))"
    using d by (simp add: idle_def wf_snapshot_def snapshot_of_def) (simp add: empty_store_def load_clock_events_def)
  have "\<exists>b. snapshot (d_node d) = Inr b \<and> length b = 48"
    using d by (simp add: idle_def snapshot_def event_count_def w_many_def w_u64_def) (simp add: empty_store_def load_clock_events_def)
  then obtain b where b: "snapshot (d_node d) = Inr b" "length b = 48" by blast
  then have "\<exists>r d1. dispatch sample_env [''db-backup'', ''b''] 5 d = (Inr r, d1)"
    by (simp add: dispatch_def backup_command_def act_bind_def act_read_def file_save_def Let_def sample_env_def)
  then obtain r d1 where r: "dispatch sample_env [''db-backup'', ''b''] 5 d = (Inr r, d1)" by blast
  have "nd_unreferenced (d_node d) \<noteq> []" "keyed (nd_neighbors (d_node d))" "om_ok (nd_neighbors (d_node d))" "om_ok (nd_routes (d_node d))"
    using d by (simp_all add: idle_def keyed_def)
  then show ?thesis using backup_then_restore [OF r refl _ w, of 6] r by blast
qed

text \<open>A \<open>peer-add\<close> with an address that does not parse fails, yet leaves half of the peer behind: the
  reply is an error and the list of peers is unchanged, but the node has the neighbor and a
  direct route to it, for which the transport has no address: nothing can be sent to it, and its
  datagrams are accepted from any source.\<close>

lemma failed_peer_add_stays:
  assumes "split arg (CHR '':'') = [i, ip, port]" "atoi port = Inr k" "le_pton6 env ip = None" "le_pton4 env ip = None"
    and "om_find (parse_node_id i) (ut_peers (d_transport d)) = None"
  shows "\<exists>d'. dispatch_guarded env [''peer-add'', arg] fd d =
      (Inr (error_reply kUsage (''command failed: '' @ le_what env Bad_peer_address)), d') \<and>
    d_peers d' = d_peers d \<and> neighbor_by_id (parse_node_id i) (d_node d') \<noteq> None \<and>
    om_find (parse_node_id i) (nd_routes (d_node d')) = Some (parse_node_id i) \<and>
    udp_send (d_transport d') (parse_node_id i) b = None \<and>
    (sender_of b = Some (parse_node_id i) \<longrightarrow> b \<noteq> [] \<longrightarrow> length b \<le> kMaxDatagram \<longrightarrow> receive (d_transport d') ((src, b) # q) = (b, q))"
proof -
  let ?n = "learn_route (parse_node_id i) (parse_node_id i) (add_neighbor (parse_node_id i) (d_node d))"
  have o: "nd_out (add_neighbor x n) = nd_out n" "nd_out (learn_route x y n) = nd_out n" for x y n
    by (simp_all add: add_neighbor_def learn_route_def Let_def split: option.split)
  have "dispatch env [''peer-add'', arg] fd d = (Inl Bad_peer_address, d\<lparr>d_node := ?n\<rparr>)"
    using assms(1-4)
    by (simp add: dispatch_def peer_add_command_def add_peer_def act_bind_def act_result_def act_read_def node_call_def
      with_node_def set_peer_def o act_return_def)
  then have "dispatch_guarded env [''peer-add'', arg] fd d =
      (Inr (error_reply kUsage (''command failed: '' @ le_what env Bad_peer_address)), d\<lparr>d_node := ?n\<rparr>)"
    by (simp add: dispatch_guarded_def catchable_def)
  moreover have "neighbor_by_id (parse_node_id i) ?n \<noteq> None" "om_find (parse_node_id i) (nd_routes ?n) = Some (parse_node_id i)"
    by (auto simp: neighbor_by_id_def learn_route_def add_neighbor_def Let_def om_find_simps split: option.split)
  ultimately show ?thesis using assms(5)
    by (intro exI [of _ "d\<lparr>d_node := ?n\<rparr>"]) (simp add: udp_send_def)
qed

end
