(* ===== verification/Client_Properties.thy ===== *)
theory Client_Properties
  imports Client Daemon_Properties
begin

text \<open>
  What the client makes of the daemon's replies: strings survive the JSON writer, every line of a chain
  reply is read back field by field, and a proof that the daemon assembles, the client writes to a file
  and the offline verification reads is accepted.
\<close>

section \<open>JSON\<close>

text \<open>A reader of the strings the writer emits.\<close>

fun json_unescape :: "string \<Rightarrow> string" where
  "json_unescape (c # d # cs) =
     (if c = CHR 0x5C
      then (if d = CHR ''n'' then LF else if d = CHR ''t'' then TAB else d) # json_unescape cs
      else c # json_unescape (d # cs))"
| "json_unescape cs = cs"

lemma json_unescape_plain: "c \<noteq> CHR 0x5C \<Longrightarrow> json_unescape (c # cs) = c # json_unescape cs"
  by (cases cs) simp_all

text \<open>Nothing is lost by escaping, and an escaped string has no bare quote, line break or tab; other
  control characters pass unescaped, which JSON does not allow.\<close>

lemma json_unescape_escape: "json_unescape (json_escape s) = s"
  by (induction s) (simp_all add: json_unescape_plain)

lemma json_escape_plain: "LF \<notin> set (json_escape s)" "TAB \<notin> set (json_escape s)"
  by (induction s) simp_all

section \<open>Fields\<close>

lemma last_field_single: "fs = (k, v) # gs \<Longrightarrow> k \<notin> fst ` set gs \<Longrightarrow> last_field k fs = v"
proof -
  assume "fs = (k, v) # gs" "k \<notin> fst ` set gs"
  moreover from this have "filter (\<lambda>(a, _). a = k) gs = []" by (force simp: filter_empty_conv)
  ultimately show ?thesis by (simp add: last_field_def)
qed

lemma proof_field:
  assumes "proof_reply p = Inr r"
  shows "last_field ''proof'' (rl_fields r) = hex (serialize p)" "rl_error r = []" "safe_reply r"
  using assms safe_proof_reply [OF assms]
  by (auto simp: proof_reply_def Let_def ok_reply_def split: if_splits intro!: last_field_single)

section \<open>The lines of a chain\<close>

lemma hex_no_space: "CHR '' '' \<notin> set (hex b)"
proof
  assume "CHR '' '' \<in> set (hex b)"
  then have "CHR '' '' \<in> set ''0123456789abcdefABCDEF''"
    using hex_all_digits [of b, unfolded list_all_iff] by (rule bspec [rotated])
  then show False by simp
qed

lemma clock_fields_word:
  assumes "CHR '' '' \<notin> set v" "CHR ''='' \<notin> set k" "CHR '' '' \<notin> set k" "k = ''creator'' \<or> k = ''hash'' \<or> k = ''ts''"
  shows "clock_fields ((k @ ''='' @ v) @ CHR '' '' # rest) (c, h, t) =
      clock_fields rest (if k = ''creator'' then v else c, if k = ''hash'' then v else h, if k = ''ts'' then v else t)"
    "clock_fields (k @ ''='' @ v) (c, h, t) =
      (if k = ''creator'' then v else c, if k = ''hash'' then v else h, if k = ''ts'' then v else t)"
proof -
  let ?w = "k @ ''='' @ v"
  have w: "takeWhile (\<lambda>c. c \<noteq> CHR '' '') (?w @ CHR '' '' # rest) = ?w" "dropWhile (\<lambda>c. c \<noteq> CHR '' '') (?w @ CHR '' '' # rest) = CHR '' '' # rest"
    "takeWhile (\<lambda>c. c \<noteq> CHR '' '') ?w = ?w" "dropWhile (\<lambda>c. c \<noteq> CHR '' '') ?w = []" for rest
    using assms(1,3) by (auto simp: takeWhile_append dropWhile_append takeWhile_eq_all_conv dropWhile_eq_Nil_conv split: if_splits)
  have e: "find_from (CHR ''='') ?w 0 = Some (length k)" using find_from_split(1) [of "CHR ''=''" k 0 "[]" v] assms(2) by simp
  show "clock_fields (?w @ CHR '' '' # rest) (c, h, t) =
      clock_fields rest (if k = ''creator'' then v else c, if k = ''hash'' then v else h, if k = ''ts'' then v else t)"
    by (subst clock_fields.simps, unfold w Let_def e) (use assms(4) in auto)
  show "clock_fields ?w (c, h, t) =
      (if k = ''creator'' then v else c, if k = ''hash'' then v else h, if k = ''ts'' then v else t)"
    by (subst clock_fields.simps, unfold w Let_def e) (use assms(4) in auto)
qed

text \<open>Each clock event of a chain reply is shown with the creator, hash and timestamp it has.\<close>

lemma clock_line_read:
  "json_clock_from_line (clock_line ce) = json_clock ce"
proof -
  have "clock_line ce = (''creator'' @ ''='' @ hex_id (ce_creator ce)) @ CHR '' '' #
      ((''hash'' @ ''='' @ hex (ce_hash ce)) @ CHR '' '' # (''ts'' @ ''='' @ stamp (ce_timestamp ce)))"
    by (simp add: clock_line_def)
  moreover have "CHR '' '' \<notin> set (hex_id (ce_creator ce))" "CHR '' '' \<notin> set (stamp (ce_timestamp ce))"
    by (simp_all add: show_node_id_hex hex_no_space stamp_def to_string_plain)
  ultimately show ?thesis
    by (simp add: json_clock_from_line_def json_clock_def clock_fields_word hex_no_space del: append.simps append_assoc)
qed

section \<open>From a discovery to an accepted file\<close>

lemma single_proof_valid:
  assumes "chain_sound c (d_node_id d) verify" "kind = kind_bounds \<or> kind = kind_chain"
    and "\<forall>k. d_public_key d = Some k \<longrightarrow> fingerprint k = d_node_id d"
  shows "vr_valid (verify_proof (single_proof d kind c) verify)"
    "vr_lower (verify_proof (single_proof d kind c) verify) = ce_timestamp (hd (ch_lower c))"
    "vr_upper (verify_proof (single_proof d kind c) verify) = ce_timestamp (last (ch_upper c))"
  using assms verify_chain_cases [of c "d_node_id d" verify]
  by (auto simp: single_proof_def my_reference_def verify_proof_def Let_def VerifyResult_init_def kind_bounds_def
    kind_order_def kind_chain_def verify_chain_ok split: option.splits)

text \<open>The exit code of \<open>loti verify\<close> is 0 exactly for a file that holds a valid proof.\<close>

lemma verify_exit_code:
  assumes "do_verify E env [verb, path] trust json fs = Inr y"
  shows "x_code y = 0 \<longleftrightarrow> (\<exists>b p. fs path = Some b \<and> deserialize b = Inr p \<and> vr_valid (verify_proof p (keystore_verify E)))"
proof (cases "fs path")
  case None
  then show ?thesis using assms by (simp add: do_verify_def load_proof_def read_file_def complain_def) auto
next
  case (Some b)
  note f = do_verify_def load_proof_def read_file_def complain_def Let_def
  show ?thesis
  proof (cases "deserialize b")
    case (Inl e)
    then show ?thesis using assms Some by (cases "catchable e") (auto simp: f)
  next
    case (Inr p)
    then show ?thesis using assms Some by (cases "make_keystore E") (auto simp: f split: if_splits)
  qed
qed

lemma prove_writes:
  assumes "cl_ask env (join_words args @ range') = Inr (Some \<lparr>rp_ok = True, rp_code = code, rp_message = [], rp_fields = rl_fields r\<rparr>)"
    and "proof_reply p = Inr r" "out \<noteq> []" "cl_fopen env" "length (serialize p) \<le> cl_written env"
  shows "\<exists>x. do_prove env args control out silent range' fs = (Inr x, fs(out \<mapsto> serialize p)) \<and> x_code x = 0"
proof -
  have "serialize p \<noteq> []" by (simp add: serialize_def w_u64_def)
  then show ?thesis
    using assms proof_field(1) [OF assms(2)] by (simp add: do_prove_def write_file_def unhex_hex)
qed

text \<open>C40: A proof is portable: when the daemon has found a chain that its node accepts and assembles a
  bounds or chain proof from it, \<open>loti prove\<close> receives it whatever way the reply is cut into pieces and
  writes it to the file, and \<open>loti verify\<close> on that file exits with 0 and prints the interval of the
  chain, with nothing but the file and OpenSSL. The exit code is 0 for no file that does not hold a valid
  proof.\<close>

theorem proof_artifact_verifies:
  assumes "cr_ok (verify_chain c (d_node_id d) (keystore_verify E))" "kind = kind_bounds \<or> kind = kind_chain"
    and "\<forall>k. d_public_key d = Some k \<longrightarrow> keystore_fingerprint k = d_node_id d" "wf_proof (single_proof d kind c)"
    and "proof_reply (single_proof d kind c) = Inr r"
    and "concat cs = format_reply (rl_code r) (rl_error r) (rl_fields r)"
    and "\<forall>request. cl_ask env request =
      bindE (control_request True w (map Data cs @ Closed # rs) request) (\<lambda>(_, reply). Inr reply)"
    and "fst (write_all w 0 ((join_words args @ range') @ [LF]))"
    and "out \<noteq> []" "cl_fopen env" "length (serialize (single_proof d kind c)) \<le> cl_written env" "make_keystore E = Inr ks"
  shows "(\<exists>x fs' y. do_prove env args control out silent range' fs = (Inr x, fs') \<and> x_code x = 0 \<and>
      do_verify E env [''verify'', out] trust False fs' = Inr y \<and> x_code y = 0 \<and>
      (\<exists>pre post. x_out y = pre @ ''lower: '' @ format_ts (ce_timestamp (hd (ch_lower c))) @ [LF] @
        ''upper: '' @ format_ts (ce_timestamp (last (ch_upper c))) @ [LF] @ post)) \<and>
    (\<forall>path json fs2 y. do_verify E env [''verify'', path] trust json fs2 = Inr y \<longrightarrow> x_code y = 0 \<longrightarrow>
      (\<exists>b p. fs2 path = Some b \<and> deserialize b = Inr p \<and> vr_valid (verify_proof p (keystore_verify E))))"
proof -
  let ?p = "single_proof d kind c" and ?req = "join_words args @ range'"
  have sound: "chain_sound c (d_node_id d) (keystore_verify E)" using assms(1) by (simp add: verify_chain_ok)
  have fp: "\<forall>k. d_public_key d = Some k \<longrightarrow> fingerprint k = d_node_id d" using assms(3) by (simp add: fingerprints_agree)
  note valid = single_proof_valid [OF sound assms(2) fp]
  note f = proof_field [OF assms(5)]
  have "control_request True w (map Data cs @ Closed # rs) ?req =
      Inr (?req @ [LF], Some \<lparr>rp_ok = True, rp_code = rl_code r, rp_message = [], rp_fields = rl_fields r\<rparr>)"
    using control_round_trip [of "rl_fields r" "rl_error r" "rl_code r" cs w ?req rs] assms(6,8) f(2,3)
    by (simp add: safe_reply_def)
  then have "cl_ask env ?req = Inr (Some \<lparr>rp_ok = True, rp_code = rl_code r, rp_message = [], rp_fields = rl_fields r\<rparr>)"
    using assms(7) by simp
  from prove_writes [OF this assms(5,9-11)] obtain x where
    x: "do_prove env args control out silent range' fs = (Inr x, fs(out \<mapsto> serialize ?p))" "x_code x = 0" by blast
  have ld: "load_proof env out (fs(out \<mapsto> serialize ?p)) = Inr (Inr ?p)"
    using proof_round_trip [OF assms(4), of "[]"] by (simp add: load_proof_def read_file_def)
  have k: "pf_kind ?p \<noteq> kind_order" "pf_kind ?p = kind"
    using assms(2) by (auto simp: single_proof_def kind_bounds_def kind_order_def kind_chain_def)
  obtain y where y: "do_verify E env [''verify'', out] trust False (fs(out \<mapsto> serialize ?p)) = Inr y" "x_code y = 0"
    "x_out y = (''valid: '' @ kind_name kind @ '' proof'' @ [LF] @ ''reference: '' @ hex_id (rf_node (pf_reference ?p)) @ [LF] @ pubkey_line ?p) @
      ''lower: '' @ format_ts (ce_timestamp (hd (ch_lower c))) @ [LF] @ ''upper: '' @ format_ts (ce_timestamp (last (ch_upper c))) @ [LF] @
      ''(bounds are in the reference node'' @ [CHR 0x27] @ ''s clock)'' @ [LF]"
    using ld valid k assms(12) by (simp add: do_verify_def Let_def)
  show ?thesis using x y verify_exit_code [of E env "''verify''"] by blast
qed

theorem proof_artifact_verifies_witness:
  "\<exists>env x fs' y. do_prove env [''prove'', ''bounds'', ''last''] [] ''f'' False [] (\<lambda>_. None) = (Inr x, fs') \<and>
     x_code x = 0 \<and> do_verify ref_ed env [''verify'', ''f''] [] False fs' = Inr y \<and> x_code y = 0"
proof -
  obtain d where "idle d" using sample_daemon by blast
  let ?d = "d\<lparr>d_node_id := keystore_node_id (ref_keystore 1), d_public_key := Some (replicate 32 1)\<rparr>"
  let ?p = "single_proof ?d kind_bounds signed_chain"
  obtain r where r: "proof_reply ?p = Inr r"
    by (auto simp: proof_reply_def single_proof_def Let_def signed_chain_def kind_bounds_def kind_order_def)
  let ?w = "\<lambda>_. 100 :: int" and ?cs = "[format_reply (rl_code r) (rl_error r) (rl_fields r)]"
  let ?env = "\<lparr>cl_what = \<lambda>_. [], cl_mkdir = Made, cl_fopen = True, cl_written = length (serialize ?p), cl_keycalls = all_succeed,
    cl_ask = \<lambda>request. bindE (control_request True ?w (map Data ?cs @ Closed # []) request) (\<lambda>(_, reply). Inr reply)\<rparr>"
  have "cr_ok (verify_chain signed_chain (d_node_id ?d) (keystore_verify ref_ed))"
    using signed_chain_sound by (simp add: verify_chain_ok)
  moreover have "wf_proof ?p"
    by (simp add: wf_proof_def single_proof_def my_reference_def kind_bounds_def kind_order_def wf_chain_def signed_chain_def Let_def
      wf_event_def wf_clock_event_def wf_ref_def keystore_node_id_def fingerprints_agree fingerprint_conv ref_of_event_def ref_of_clock_def)
      (simp add: signed_event_def signed_tick_def Let_def ref_signature_def calculate_event_hash_def calculate_clock_event_hash_def wf_node_id_def)
  moreover have "fst (write_all ?w 0 ((join_words [''prove'', ''bounds'', ''last''] @ []) @ [LF]))" by (simp add: write_all.simps)
  moreover have "make_keystore ref_ed = Inr (ref_keystore 7)"
    by (simp add: make_keystore_def ref_ed_def adopt_generated_def kEd25519Raw_def ref_keystore_def)
  moreover have "\<forall>k. d_public_key ?d = Some k \<longrightarrow> keystore_fingerprint k = d_node_id ?d"
    by (simp add: keystore_node_id_def ref_keystore_def)
  ultimately have "\<exists>x fs' y. do_prove ?env [''prove'', ''bounds'', ''last''] [] ''f'' False [] (\<lambda>_. None) = (Inr x, fs') \<and>
      x_code x = 0 \<and> do_verify ref_ed ?env [''verify'', ''f''] [] False fs' = Inr y \<and> x_code y = 0"
    using proof_artifact_verifies [of signed_chain ?d ref_ed kind_bounds r ?cs ?env ?w "[]" "[''prove'', ''bounds'', ''last'']" "[]" "''f''"
      "ref_keystore 7" "[]" False "\<lambda>_. None" "[]"] r by auto
  then show ?thesis by blast
qed

end
