(* ===== verification/Adapters.thy ===== *)
theory Adapters
  imports Text Discovery Keystore
begin

text \<open>
  The small adapters of the ports: the wall clock, the system's random numbers and the log lines of the
  production daemon (\<open>src/adapters/os/\<close>), and the random numbers, the transport and the statistics of the simulation
  (\<open>src/adapters/sim/\<close>). What the operating system and the simulation kernel return are arguments.
\<close>

section \<open>Production\<close>

text \<open>\<open>WallClock::now\<close>, from the two members of the \<open>timespec\<close>.\<close>

definition wall_clock_now :: "int \<Rightarrow> int \<Rightarrow> Timestamp result" where
  "wall_clock_now sec nsec =
     (let t = sec * 1000000000; r = t + nsec
      in if - (2 ^ 63) \<le> t \<and> t < 2 ^ 63 \<and> - (2 ^ 63) \<le> r \<and> r < 2 ^ 63 then Inr (of_int r) else Inl Undefined_behaviour)"

text \<open>The outcome of one \<open>getrandom\<close>: the bytes it wrote, which are at most those asked for, or an error.\<close>

datatype Getrandom = Random_bytes bytes | Random_interrupted | Random_error

text \<open>\<open>SecureRng::next_salt\<close> as the bytes of the salt in memory. There is no result as long as the calls have
  not filled them.\<close>

fun secure_salt :: "bytes \<Rightarrow> Getrandom list \<Rightarrow> bytes result option" where
  "secure_salt got calls =
     (if 8 \<le> length got then Some (Inr got)
      else case calls of
        [] \<Rightarrow> None
      | Random_bytes b # calls \<Rightarrow> secure_salt (got @ take (8 - length got) b) calls
      | Random_interrupted # calls \<Rightarrow> secure_salt got calls
      | Random_error # calls \<Rightarrow> Some (Inl Random_failure))"

declare secure_salt.simps [simp del]

text \<open>\<open>LogTelemetry\<close>: the line without the time in front of it.\<close>

definition short_hex :: "bytes \<Rightarrow> string" where
  "short_hex h = concat (map hex_byte (take 4 h))"

fun log_telemetry :: "bool \<Rightarrow> Telemetry \<Rightarrow> string option" where
  "log_telemetry verbose (Event_created e) = Some (''event created         '' @ short_hex (ev_hash e) @ '' ('' @
     to_string (int (length (ev_data e))) @ '' bytes content)'')"
| "log_telemetry verbose (Clock_event_created c) =
     (if verbose then Some (''clock event created   '' @ short_hex (ce_hash c)) else None)"
| "log_telemetry verbose (Chain_discovery_started d) = Some (''chain  discovery START '' @ short_hex (ev_hash (cd_event d)))"
| "log_telemetry verbose (Chain_discovery_completed d) = Some (''chain  discovery DONE  '' @ short_hex (ev_hash (cd_event d)) @
     '' ('' @ to_string (int (length (ch_lower (cd_chain d)) + length (ch_upper (cd_chain d)))) @ '' clock events)'')"
| "log_telemetry verbose (Chain_discovery_aborted d) = Some (''chain  discovery ABORT '' @ short_hex (ev_hash (cd_event d)))"
| "log_telemetry verbose (Bounds_discovery_started d) = Some (''bounds discovery START '' @ short_hex (ev_hash (bd_event d)))"
| "log_telemetry verbose (Bounds_discovery_completed d) = Some (''bounds discovery DONE  '' @ short_hex (ev_hash (bd_event d)) @
     ''  ['' @ to_string (sint (bd_lower d)) @ '', '' @ to_string (sint (bd_upper d)) @ ''] ns'')"
| "log_telemetry verbose (Bounds_discovery_aborted d) = Some (''bounds discovery ABORT '' @ short_hex (ev_hash (bd_event d)))"
| "log_telemetry verbose (Order_discovery_started d) = Some (''order  discovery START '' @ short_hex (ev_hash (od_event1 d)) @
     '' / '' @ short_hex (ev_hash (od_event2 d)))"
| "log_telemetry verbose (Order_discovery_completed d) = Some (''order  discovery DONE  '' @ short_hex (ev_hash (od_event1 d)) @
     '' / '' @ short_hex (ev_hash (od_event2 d)) @ ''  order='' @ to_string (od_order d))"
| "log_telemetry verbose (Order_discovery_aborted d) = Some (''order  discovery ABORT '' @ short_hex (ev_hash (od_event1 d)) @
     '' / '' @ short_hex (ev_hash (od_event2 d)))"

section \<open>Simulation\<close>

text \<open>\<open>SimRng::next_salt\<close> from its two draws.\<close>

definition sim_next_salt :: "u64 \<Rightarrow> u64 \<Rightarrow> Salt" where
  "sim_next_salt high low = or (push_bit 32 high) low"

text \<open>The ports of a simulated node: the clock is the simulation time of each reading, the salts come from the
  module's stream of random numbers, the signer is the null signer and the handles are those of the
  scheduler, which counts them.\<close>

definition sim_ports :: "(nat \<Rightarrow> Timestamp) \<Rightarrow> (nat \<Rightarrow> u64) \<Rightarrow> NodePorts" where
  "sim_ports now draw = \<lparr>p_now = now, p_salt = (\<lambda>k. sim_next_salt (draw (2 * k)) (draw (2 * k + 1))),
     p_sign = null_sign, p_verify = null_verify, p_timer = (\<lambda>k. of_nat (Suc k))\<rparr>"

text \<open>\<open>SimTransport\<close>. An address is whatever the network layer uses.\<close>

record 'a SimTransport =
  tp_port :: int
  tp_addresses :: "(NodeId, 'a) omap"

definition set_address :: "NodeId \<Rightarrow> 'a \<Rightarrow> 'a SimTransport \<Rightarrow> 'a SimTransport" where
  "set_address i a t = t\<lparr>tp_addresses := om_put i a (tp_addresses t)\<rparr>"

definition sim_send :: "'a SimTransport \<Rightarrow> NodeId \<Rightarrow> bytes \<Rightarrow> ('a \<times> int \<times> bytes) option" where
  "sim_send t to datagram =
     (case om_find to (tp_addresses t) of None \<Rightarrow> None | Some a \<Rightarrow> Some (a, tp_port t, datagram))"

text \<open>The signals of \<open>SimTelemetry\<close> and the one of the module itself.\<close>

datatype Signal =
    clockEventCreated | eventCreated
  | eventChainDiscoveryStarted | eventChainDiscoveryAborted | eventChainDiscoveryCompleted
  | eventChainDiscoveryTime | eventChainDiscoveryLength | eventChainDiscoveryInterval
  | eventBoundsDiscoveryStarted | eventBoundsDiscoveryAborted | eventBoundsDiscoveryCompleted
  | eventBoundsDiscoveryTime | eventBoundsDiscoveryInterval
  | eventOrderDiscoveryStarted | eventOrderDiscoveryAborted | eventOrderDiscoveryCompleted
  | eventOrderDiscoveryTime | eventOrderDiscoveryOrder
  | clockEventsRetained

datatype SignalValue = Count int | Ticks Duration

fun sim_telemetry :: "Telemetry \<Rightarrow> (Signal \<times> SignalValue) list result" where
  "sim_telemetry (Clock_event_created c) = Inr [(clockEventCreated, Count (int (clock_event_size_bytes c)))]"
| "sim_telemetry (Event_created e) = Inr [(eventCreated, Count (int (event_size_bytes e)))]"
| "sim_telemetry (Chain_discovery_started d) = Inr [(eventChainDiscoveryStarted, Count 1)]"
| "sim_telemetry (Chain_discovery_aborted d) = Inr [(eventChainDiscoveryAborted, Count 1)]"
| "sim_telemetry (Chain_discovery_completed d) =
     bindE (time_minus (cd_end_time d) (cd_start_time d)) (\<lambda>time.
     bindE (if ch_lower (cd_chain d) \<noteq> [] \<and> ch_upper (cd_chain d) \<noteq> []
       then bindE (time_minus (ce_timestamp (last (ch_upper (cd_chain d)))) (ce_timestamp (hd (ch_lower (cd_chain d)))))
         (\<lambda>interval. Inr [(eventChainDiscoveryInterval, Ticks interval)])
       else Inr []) (\<lambda>rest.
       Inr ([(eventChainDiscoveryCompleted, Count 1), (eventChainDiscoveryTime, Ticks time),
         (eventChainDiscoveryLength, Count (int (length (ch_lower (cd_chain d)) + length (ch_upper (cd_chain d)) + 1)))] @ rest)))"
| "sim_telemetry (Bounds_discovery_started d) = Inr [(eventBoundsDiscoveryStarted, Count 1)]"
| "sim_telemetry (Bounds_discovery_aborted d) = Inr [(eventBoundsDiscoveryAborted, Count 1)]"
| "sim_telemetry (Bounds_discovery_completed d) =
     bindE (time_minus (bd_end_time d) (bd_start_time d)) (\<lambda>time.
     bindE (time_minus (bd_upper d) (bd_lower d)) (\<lambda>interval.
       Inr [(eventBoundsDiscoveryCompleted, Count 1), (eventBoundsDiscoveryTime, Ticks time),
         (eventBoundsDiscoveryInterval, Ticks interval)]))"
| "sim_telemetry (Order_discovery_started d) = Inr [(eventOrderDiscoveryStarted, Count 1)]"
| "sim_telemetry (Order_discovery_aborted d) = Inr [(eventOrderDiscoveryAborted, Count 1)]"
| "sim_telemetry (Order_discovery_completed d) =
     bindE (time_minus (od_end_time d) (od_start_time d)) (\<lambda>time.
       Inr [(eventOrderDiscoveryCompleted, Count 1), (eventOrderDiscoveryTime, Ticks time),
         (eventOrderDiscoveryOrder, Count (od_order d))])"

section \<open>What they give\<close>

text \<open>The salt has all its bytes, in the order they arrived, however the calls were cut and interrupted.\<close>

lemma secure_salt_bytes:
  "length got \<le> 8 \<Longrightarrow> secure_salt got calls = Some (Inr s) \<Longrightarrow> length s = 8 \<and>
     s = take 8 (got @ concat (map (\<lambda>c. case c of Random_bytes b \<Rightarrow> b | _ \<Rightarrow> []) calls))"
proof (induction got calls rule: secure_salt.induct)
  case (1 got calls)
  show ?case
  proof (cases "8 \<le> length got")
    case True
    then show ?thesis using 1(3,4) by (simp add: secure_salt.simps [of got calls])
  next
    case False
    then obtain c cs where c: "calls = c # cs"
      using 1(4) by (cases calls) (auto simp: secure_salt.simps [of got "[]"])
    show ?thesis
    proof (cases c)
      case (Random_bytes b)
      have "secure_salt (got @ take (8 - length got) b) cs = Some (Inr s)"
        using 1(4) False c Random_bytes by (simp add: secure_salt.simps [of got "_ # _"])
      moreover have "length (got @ take (8 - length got) b) \<le> 8" using False by simp
      moreover have "take 8 (got @ take (8 - length got) b @ r) = take 8 (got @ b @ r)" for r
        using False by (cases "length b \<le> 8 - length got") simp_all
      ultimately show ?thesis using 1(1) [OF False c Random_bytes] unfolding c Random_bytes by (auto simp del: take_append length_take)
    next
      case Random_interrupted
      then show ?thesis using 1(2) [OF False c Random_interrupted] 1(3,4) False c
        by (auto simp: secure_salt.simps [of got "_ # _"] simp del: take_append length_take)
    qed (use 1(4) False c in \<open>simp add: secure_salt.simps [of got "_ # _"]\<close>)
  qed
qed

text \<open>Different draws give different salts: none of the 62 random bits is lost.\<close>

lemma sim_salt_injective:
  assumes "unat a \<le> 0x7FFFFFFF" "unat b \<le> 0x7FFFFFFF" "unat c \<le> 0x7FFFFFFF" "unat d \<le> 0x7FFFFFFF"
  shows "sim_next_salt a b = sim_next_salt c d \<longleftrightarrow> a = c \<and> b = d"
proof -
  have t: "take_bit 31 x = x" if "unat x \<le> 0x7FFFFFFF" for x :: u64
    using that by (simp add: word_eq_iff_unsigned [where 'a = nat] unsigned_take_bit_eq take_bit_nat_eq_self)
  have b: "bit x n \<Longrightarrow> n < 31" if "unat x \<le> 0x7FFFFFFF" for x :: u64 and n
    using arg_cong [OF t [OF that], of "\<lambda>w. bit w n"] by (auto simp: bit_simps)
  have hi: "drop_bit 32 (sim_next_salt x y) = x" and lo: "take_bit 32 (sim_next_salt x y) = y"
    if "unat x \<le> 0x7FFFFFFF" "unat y \<le> 0x7FFFFFFF" for x y
  proof -
    show "drop_bit 32 (sim_next_salt x y) = x"
      by (rule bit_word_eqI) (auto simp: sim_next_salt_def bit_simps dest: b [OF that(1)] b [OF that(2)])
    show "take_bit 32 (sim_next_salt x y) = y"
      by (rule bit_word_eqI) (auto simp: sim_next_salt_def bit_simps simp del: take_bit_or dest: b [OF that(2)])
  qed
  show ?thesis using hi lo assms by metis
qed

end
