(* ===== verification/Timers.thy ===== *)
theory Timers
  imports Node_State
begin

text \<open>
  The Scheduler port and its two adapters: the timer queue and event loop of the epoll reactor
  (\<open>src/adapters/os/reactor.hpp\<close>) and the self-messages of the simulation
  (\<open>src/adapters/sim/scheduler.hpp\<close>). The contract that the core relies on is the locale
  \<open>scheduler\<close>; both adapters are interpretations of it. A callback is a value \<open>'cb\<close> that an
  argument \<open>exec\<close> runs on the reactor and the rest of the daemon. The readings of the monotonic clock and
  the outcomes of \<open>epoll_wait\<close> are arguments.
\<close>

section \<open>The contract of the port\<close>

datatype ('x, 'y, 'cb) SchedulerOp = Arm 'x 'cb | Disarm TimerId | Take 'y

text \<open>A history of a scheduler, with the timers that fired in it.\<close>

fun run_ops :: "('x \<Rightarrow> 'cb \<Rightarrow> 's \<Rightarrow> TimerId \<times> 's) \<Rightarrow> (TimerId \<Rightarrow> 's \<Rightarrow> 's) \<Rightarrow> ('y \<Rightarrow> 's \<Rightarrow> (TimerId \<times> 'cb \<times> 's) option) \<Rightarrow>
    ('x, 'y, 'cb) SchedulerOp list \<Rightarrow> 's \<Rightarrow> (TimerId \<times> 'cb) list \<times> 's" where
  "run_ops arm disarm pop [] s = ([], s)"
| "run_ops arm disarm pop (Arm x cb # ops) s = run_ops arm disarm pop ops (snd (arm x cb s))"
| "run_ops arm disarm pop (Disarm i # ops) s = run_ops arm disarm pop ops (disarm i s)"
| "run_ops arm disarm pop (Take y # ops) s =
     (case pop y s of
        None \<Rightarrow> run_ops arm disarm pop ops s
      | Some (i, cb, s) \<Rightarrow> (let (l, s) = run_ops arm disarm pop ops s in ((i, cb) # l, s)))"

fun arms :: "('x, 'y, 'cb) SchedulerOp list \<Rightarrow> 'cb list" where
  "arms [] = []"
| "arms (Arm x cb # ops) = cb # arms ops"
| "arms (Disarm i # ops) = arms ops"
| "arms (Take y # ops) = arms ops"

locale scheduler =
  fixes inv :: "'s \<Rightarrow> bool"
    and armed :: "'s \<Rightarrow> TimerId \<Rightarrow> 'cb option"
    and issued :: "'s \<Rightarrow> nat"
    and arm :: "'x \<Rightarrow> 'cb \<Rightarrow> 's \<Rightarrow> TimerId \<times> 's"
    and fresh :: "'x \<Rightarrow> 's \<Rightarrow> bool"
    and disarm :: "TimerId \<Rightarrow> 's \<Rightarrow> 's"
    and pop :: "'y \<Rightarrow> 's \<Rightarrow> (TimerId \<times> 'cb \<times> 's) option"
  assumes armed_issued: "inv s \<Longrightarrow> armed s i = Some cb \<Longrightarrow> 0 < unat i \<and> unat i \<le> issued s"
    and arm_law: "inv s \<Longrightarrow> fresh x s \<Longrightarrow> Suc (issued s) < 2 ^ 64 \<Longrightarrow> arm x cb s = (i, s') \<Longrightarrow>
      inv s' \<and> unat i = Suc (issued s) \<and> issued s' = unat i \<and> armed s' = (armed s)(i \<mapsto> cb)"
    and disarm_law: "inv s \<Longrightarrow>
      inv (disarm i s) \<and> issued (disarm i s) = issued s \<and> armed (disarm i s) = (armed s)(i := None)"
    and pop_law: "inv s \<Longrightarrow> pop y s = Some (i, cb, s') \<Longrightarrow>
      inv s' \<and> issued s' = issued s \<and> armed s i = Some cb \<and> armed s' = (armed s)(i := None)"
begin

text \<open>Every handle that a history arms with can be told apart from the ones in use.\<close>

fun feasible :: "('x, 'y, 'cb) SchedulerOp list \<Rightarrow> 's \<Rightarrow> bool" where
  "feasible [] s \<longleftrightarrow> True"
| "feasible (Arm x cb # ops) s \<longleftrightarrow> fresh x s \<and> Suc (issued s) < 2 ^ 64 \<and> feasible ops (snd (arm x cb s))"
| "feasible (Disarm i # ops) s \<longleftrightarrow> feasible ops (disarm i s)"
| "feasible (Take y # ops) s \<longleftrightarrow> feasible ops (case pop y s of None \<Rightarrow> s | Some (_, _, s) \<Rightarrow> s)"

lemma fresh_handle:
  assumes "inv s" "fresh x s" "Suc (issued s) < 2 ^ 64" "arm x cb s = (i, s')"
  shows "armed s i = None" "i \<noteq> 0"
proof -
  have i: "unat i = Suc (issued s)" using arm_law [OF assms] by simp
  show "i \<noteq> 0" using i by auto
  show "armed s i = None"
  proof (cases "armed s i")
    case (Some c)
    then show ?thesis using armed_issued [OF assms(1), of i c] i by simp
  qed simp
qed

lemma disarm_unarmed: "inv s \<Longrightarrow> armed s i = None \<Longrightarrow> armed (disarm i s) = armed s"
  using disarm_law [of s i] by auto

text \<open>A timer that is not armed and whose handle has been issued never fires again.\<close>

lemma never_fires:
  assumes "inv s" "feasible ops s" "unat i \<le> issued s" "armed s i = None"
  shows "i \<notin> fst ` set (fst (run_ops arm disarm pop ops s))"
  using assms
proof (induction ops arbitrary: s)
  case (Cons op ops)
  show ?case
  proof (cases op)
    case (Arm x cb)
    obtain j s' where a: "arm x cb s = (j, s')" by fastforce
    have law: "inv s'" "unat j = Suc (issued s)" "issued s' = unat j" "armed s' = (armed s)(j \<mapsto> cb)"
      using arm_law [OF Cons.prems(1) _ _ a] Cons.prems(2) Arm by auto
    have "i \<noteq> j" using law(2) Cons.prems(3) by auto
    then show ?thesis using Cons.IH [OF law(1)] Cons.prems law Arm a by simp
  next
    case (Disarm j)
    then show ?thesis using Cons disarm_law [of s j] by simp
  next
    case (Take y)
    show ?thesis
    proof (cases "pop y s")
      case (Some z)
      obtain j cb s' where z: "pop y s = Some (j, cb, s')" using Some by (cases z) simp
      have law: "inv s'" "issued s' = issued s" "armed s j = Some cb" "armed s' = (armed s)(j := None)"
        using pop_law [OF Cons.prems(1) z] by auto
      have "i \<notin> fst ` set (fst (run_ops arm disarm pop ops s'))"
        using Cons.IH [OF law(1)] Cons.prems law Take z by simp
      moreover have "i \<noteq> j" using law(3) Cons.prems(4) by auto
      ultimately show ?thesis using Take z by (simp add: case_prod_beta)
    qed (use Cons Take in simp)
  qed
qed simp

text \<open>What fires was armed, at most once.\<close>

lemma fires_once:
  assumes "inv s" "feasible ops s"
  shows "distinct (map fst (fst (run_ops arm disarm pop ops s)))"
  using assms
proof (induction ops arbitrary: s)
  case (Cons op ops)
  show ?case
  proof (cases op)
    case (Arm x cb)
    obtain j s' where a: "arm x cb s = (j, s')" by fastforce
    show ?thesis using Cons arm_law [OF Cons.prems(1) _ _ a] Arm a by simp
  next
    case (Disarm j)
    then show ?thesis using Cons disarm_law [of s j] by simp
  next
    case (Take y)
    show ?thesis
    proof (cases "pop y s")
      case (Some z)
      obtain i cb s' where z: "pop y s = Some (i, cb, s')" using Some by (cases z) simp
      have law: "inv s'" "issued s' = issued s" "armed s i = Some cb" "armed s' = (armed s)(i := None)"
        using pop_law [OF Cons.prems(1) z] by auto
      have "unat i \<le> issued s'" using armed_issued [OF Cons.prems(1) law(3)] law(2) by simp
      moreover have "feasible ops s'" using Cons.prems(2) Take z by simp
      ultimately show ?thesis using never_fires [OF law(1), of ops i] Cons.IH [OF law(1)] law(4) Take z
        by (simp add: case_prod_beta)
    qed (use Cons Take in simp)
  qed
qed simp

text \<open>The k-th timer armed gets the k-th handle, and fires with its own callback.\<close>

lemma run_ops_outcome:
  assumes "inv s" "feasible ops s"
  shows "inv (snd (run_ops arm disarm pop ops s)) \<and>
    issued (snd (run_ops arm disarm pop ops s)) = issued s + length (arms ops) \<and>
    (\<forall>(i, cb) \<in> set (fst (run_ops arm disarm pop ops s)). armed s i = Some cb \<or>
      (\<exists>k < length (arms ops). unat i = Suc (issued s + k) \<and> cb = arms ops ! k))"
  using assms
proof (induction ops arbitrary: s)
  case (Cons op ops)
  show ?case
  proof (cases op)
    case (Arm x cb)
    obtain j s' where a: "arm x cb s = (j, s')" by fastforce
    have law: "inv s'" "unat j = Suc (issued s)" "issued s' = unat j" "armed s' = (armed s)(j \<mapsto> cb)"
      using arm_law [OF Cons.prems(1) _ _ a] Cons.prems(2) Arm by auto
    have IH: "inv (snd (run_ops arm disarm pop ops s'))"
      "issued (snd (run_ops arm disarm pop ops s')) = issued s' + length (arms ops)"
      "(i, c) \<in> set (fst (run_ops arm disarm pop ops s')) \<Longrightarrow> armed s' i = Some c \<or>
        (\<exists>k < length (arms ops). unat i = Suc (issued s' + k) \<and> c = arms ops ! k)" for i c
      using Cons.IH [OF law(1)] Cons.prems(2) Arm a by auto
    have "armed s i = Some c \<or> (\<exists>k < Suc (length (arms ops)). unat i = Suc (issued s + k) \<and> c = (cb # arms ops) ! k)"
      if "(i, c) \<in> set (fst (run_ops arm disarm pop ops s'))" for i c
      using IH(3) [OF that] law(2-4) by (fastforce split: if_splits)
    then show ?thesis using IH(1,2) law Arm a by auto
  next
    case (Disarm j)
    then show ?thesis using Cons.IH [of "disarm j s"] Cons.prems disarm_law [of s j]
      by (fastforce split: if_splits)
  next
    case (Take y)
    show ?thesis
    proof (cases "pop y s")
      case (Some z)
      obtain j cb s' where z: "pop y s = Some (j, cb, s')" using Some by (cases z) simp
      have law: "inv s'" "issued s' = issued s" "armed s j = Some cb" "armed s' = (armed s)(j := None)"
        using pop_law [OF Cons.prems(1) z] by auto
      show ?thesis using Cons.IH [OF law(1)] Cons.prems(2) law Take z
        by (fastforce simp: case_prod_beta split: if_splits)
    qed (use Cons Take in auto)
  qed
qed simp

lemma run_ops_append:
  "run_ops arm disarm pop (as @ bs) s =
     (fst (run_ops arm disarm pop as s) @ fst (run_ops arm disarm pop bs (snd (run_ops arm disarm pop as s))),
      snd (run_ops arm disarm pop bs (snd (run_ops arm disarm pop as s))))"
proof (induction as arbitrary: s)
  case (Cons op as)
  then show ?case by (cases op) (auto simp: case_prod_beta split: option.splits)
qed simp

end

section \<open>The timer queue of the reactor\<close>

text \<open>A \<open>Timestamp\<close> of the reactor is compared as a signed number and is kept as one.\<close>

record 'cb Reactor =
  rx_running :: bool
  rx_next_timer_id :: TimerId
  rx_timers :: "(int, TimerId \<times> 'cb) mmap"
  rx_timer_due :: "(TimerId, int) omap"
  rx_readers :: "(int, 'cb) omap"
  rx_reads :: nat

definition Reactor_init :: "'cb Reactor" where
  "Reactor_init = \<lparr>rx_running = False, rx_next_timer_id = 0, rx_timers = [], rx_timer_due = [],
     rx_readers = [], rx_reads = 0\<rparr>"

definition add_timer :: "int \<Rightarrow> 'cb \<Rightarrow> 'cb Reactor \<Rightarrow> TimerId \<times> 'cb Reactor" where
  "add_timer due cb r =
     (let i = rx_next_timer_id r + 1
      in (i, r\<lparr>rx_next_timer_id := i, rx_timers := mm_emplace due (i, cb) (rx_timers r),
           rx_timer_due := om_put i due (rx_timer_due r)\<rparr>))"

text \<open>Erasing the first entry that the loop over the range of equal keys meets.\<close>

fun erase_first :: "('a \<Rightarrow> bool) \<Rightarrow> 'a list \<Rightarrow> 'a list" where
  "erase_first P [] = []"
| "erase_first P (x # xs) = (if P x then xs else x # erase_first P xs)"

definition cancel_timer :: "TimerId \<Rightarrow> 'cb Reactor \<Rightarrow> 'cb Reactor" where
  "cancel_timer i r =
     (case om_find i (rx_timer_due r) of
        None \<Rightarrow> r
      | Some due \<Rightarrow> r\<lparr>rx_timers := erase_first (\<lambda>(d, j, _). d = due \<and> j = i) (rx_timers r),
          rx_timer_due := om_erase i (rx_timer_due r)\<rparr>)"

text \<open>One round of \<open>fire_due_timers\<close> up to the call: the front of the queue, if it is due.\<close>

definition pop_due :: "int \<Rightarrow> 'cb Reactor \<Rightarrow> (TimerId \<times> 'cb \<times> 'cb Reactor) option" where
  "pop_due now r =
     (case rx_timers r of
        [] \<Rightarrow> None
      | (due, i, cb) # ts \<Rightarrow>
          if due > now then None
          else Some (i, cb, r\<lparr>rx_timers := ts, rx_timer_due := om_erase i (rx_timer_due r)\<rparr>))"

definition in_int64 :: "int \<Rightarrow> bool" where
  "in_int64 x \<longleftrightarrow> - (2 ^ 63) \<le> x \<and> x < 2 ^ 63"

text \<open>\<open>ReactorScheduler::after\<close>: the sum of two \<open>int64_t\<close>.\<close>

definition reactor_after :: "(nat \<Rightarrow> int) \<Rightarrow> Duration \<Rightarrow> 'cb \<Rightarrow> 'cb Reactor \<Rightarrow> (TimerId \<times> 'cb Reactor) result" where
  "reactor_after clk delay cb r =
     (let now = clk (rx_reads r); r = r\<lparr>rx_reads := Suc (rx_reads r)\<rparr>
      in if in_int64 (now + sint delay) then Inr (add_timer (now + sint delay) cb r)
         else Inl Undefined_behaviour)"

definition INT_MAX :: int where "INT_MAX = 2147483647"

definition next_timeout_ms :: "(nat \<Rightarrow> int) \<Rightarrow> 'cb Reactor \<Rightarrow> (int \<times> 'cb Reactor) result" where
  "next_timeout_ms clk r =
     (case rx_timers r of
        [] \<Rightarrow> Inr (-1, r)
      | (due, _) # _ \<Rightarrow>
          let diff = due - clk (rx_reads r); r = r\<lparr>rx_reads := Suc (rx_reads r)\<rparr> in
          if \<not> in_int64 diff then Inl Undefined_behaviour
          else if diff \<le> 0 then Inr (0, r)
          else if \<not> in_int64 (diff + 999999) then Inl Undefined_behaviour
          else let ms = (diff + 999999) div 1000000
            in Inr (if ms > INT_MAX then INT_MAX else ms, r))"

section \<open>The event loop\<close>

type_synonym ('cb, 'w) exec = "'cb \<Rightarrow> 'cb Reactor \<times> 'w \<Rightarrow> unit result \<times> 'cb Reactor \<times> 'w"

text \<open>An exception of a callback is dropped; what is not an exception is not.\<close>

definition safe_call :: "('cb, 'w) exec \<Rightarrow> ('cb, 'w) exec" where
  "safe_call exec cb s =
     (case exec cb s of
        (Inl e, s) \<Rightarrow> if catchable e then (Inr (), s) else (Inl e, s)
      | (Inr _, s) \<Rightarrow> (Inr (), s))"

partial_function (option) fire_due_timers ::
    "('cb, 'w) exec \<Rightarrow> (nat \<Rightarrow> int) \<Rightarrow> 'cb Reactor \<times> 'w \<Rightarrow> (unit result \<times> 'cb Reactor \<times> 'w) option" where
  "fire_due_timers exec clk s =
     (if rx_timers (fst s) = [] then Some (Inr (), s)
      else case pop_due (clk (rx_reads (fst s))) ((fst s)\<lparr>rx_reads := Suc (rx_reads (fst s))\<rparr>) of
        None \<Rightarrow> Some (Inr (), (fst s)\<lparr>rx_reads := Suc (rx_reads (fst s))\<rparr>, snd s)
      | Some (i, cb, r) \<Rightarrow>
          (case safe_call exec cb (r, snd s) of
             (Inl e, s) \<Rightarrow> Some (Inl e, s)
           | (Inr _, s) \<Rightarrow>
               if rx_running (fst s) then fire_due_timers exec clk s else Some (Inr (), s)))"

definition add_reader :: "int \<Rightarrow> 'cb \<Rightarrow> 'cb Reactor \<Rightarrow> 'cb Reactor" where
  "add_reader fd cb r = r\<lparr>rx_readers := om_put fd cb (rx_readers r)\<rparr>"

definition remove_reader :: "int \<Rightarrow> 'cb Reactor \<Rightarrow> 'cb Reactor" where
  "remove_reader fd r = r\<lparr>rx_readers := om_erase fd (rx_readers r)\<rparr>"

definition stop :: "'cb Reactor \<Rightarrow> 'cb Reactor" where
  "stop r = r\<lparr>rx_running := False\<rparr>"

text \<open>The outcome of \<open>epoll_wait\<close>: the readable descriptors, EINTR, or another error.\<close>

datatype Wait = Ready "int list" | Interrupted | Wait_failed

fun dispatch_readers :: "('cb, 'w) exec \<Rightarrow> int list \<Rightarrow> 'cb Reactor \<times> 'w \<Rightarrow> unit result \<times> 'cb Reactor \<times> 'w" where
  "dispatch_readers exec [] s = (Inr (), s)"
| "dispatch_readers exec (fd # fds) s =
     (case om_find fd (rx_readers (fst s)) of
        None \<Rightarrow> dispatch_readers exec fds s
      | Some cb \<Rightarrow>
          (case safe_call exec cb s of
             (Inl e, s) \<Rightarrow> (Inl e, s)
           | (Inr _, s) \<Rightarrow> dispatch_readers exec fds s))"

text \<open>The loop of \<open>run\<close> over the given outcomes of \<open>epoll_wait\<close>; when they are used up it is
  still waiting.\<close>

fun event_loop :: "('cb, 'w) exec \<Rightarrow> (nat \<Rightarrow> int) \<Rightarrow> Wait list \<Rightarrow> 'cb Reactor \<times> 'w \<Rightarrow>
    (unit result \<times> 'cb Reactor \<times> 'w) option" where
  "event_loop exec clk [] s = Some (Inr (), s)"
| "event_loop exec clk (w # ws) s =
     (if \<not> rx_running (fst s) then Some (Inr (), s)
      else case fire_due_timers exec clk s of
        None \<Rightarrow> None
      | Some (Inl e, s) \<Rightarrow> Some (Inl e, s)
      | Some (Inr _, s) \<Rightarrow>
          if \<not> rx_running (fst s) then Some (Inr (), s)
          else (case next_timeout_ms clk (fst s) of
            Inl e \<Rightarrow> Some (Inl e, s)
          | Inr (_, r) \<Rightarrow>
              (case w of
                 Wait_failed \<Rightarrow> Some (Inr (), r, snd s)
               | Interrupted \<Rightarrow> event_loop exec clk ws (r, snd s)
               | Ready fds \<Rightarrow>
                   (case dispatch_readers exec fds (r, snd s) of
                      (Inl e, s) \<Rightarrow> Some (Inl e, s)
                    | (Inr _, s) \<Rightarrow> event_loop exec clk ws s))))"

definition run_reactor :: "('cb, 'w) exec \<Rightarrow> (nat \<Rightarrow> int) \<Rightarrow> Wait list \<Rightarrow> 'cb Reactor \<times> 'w \<Rightarrow>
    (unit result \<times> 'cb Reactor \<times> 'w) option" where
  "run_reactor exec clk ws s = event_loop exec clk ws ((fst s)\<lparr>rx_running := True\<rparr>, snd s)"

section \<open>The messages of the simulation\<close>

record 'cb SimTimer =
  tm_msg :: nat
  tm_cb :: 'cb

text \<open>What the scheduler asks of the simulation kernel.\<close>

datatype KernelCall = Schedule_msg nat int | Cancel_msg nat | Delete_msg nat

record 'cb SimScheduler =
  ss_timers :: "(TimerId, 'cb SimTimer) omap"
  ss_by_msg :: "(nat, TimerId) omap"
  ss_last_id :: TimerId
  ss_kernel :: "KernelCall list"

definition SimScheduler_init :: "'cb SimScheduler" where
  "SimScheduler_init = \<lparr>ss_timers = [], ss_by_msg = [], ss_last_id = 0, ss_kernel = []\<rparr>"

text \<open>\<open>msg\<close> is the address that \<open>new cMessage\<close> returns, \<open>due\<close> the simulation time plus the delay.\<close>

definition sim_after :: "nat \<times> int \<Rightarrow> 'cb \<Rightarrow> 'cb SimScheduler \<Rightarrow> TimerId \<times> 'cb SimScheduler" where
  "sim_after x cb s =
     (let (msg, due) = x; i = ss_last_id s + 1
      in (i, s\<lparr>ss_last_id := i, ss_by_msg := om_put msg i (ss_by_msg s),
           ss_timers := om_put i \<lparr>tm_msg = msg, tm_cb = cb\<rparr> (ss_timers s),
           ss_kernel := ss_kernel s @ [Schedule_msg msg due]\<rparr>))"

definition sim_cancel :: "TimerId \<Rightarrow> 'cb SimScheduler \<Rightarrow> 'cb SimScheduler" where
  "sim_cancel i s =
     (case om_find i (ss_timers s) of
        None \<Rightarrow> s
      | Some t \<Rightarrow> s\<lparr>ss_by_msg := om_erase (tm_msg t) (ss_by_msg s), ss_timers := om_erase i (ss_timers s),
          ss_kernel := ss_kernel s @ [Cancel_msg (tm_msg t), Delete_msg (tm_msg t)]\<rparr>)"

definition sim_owns :: "nat \<Rightarrow> 'cb SimScheduler \<Rightarrow> bool" where
  "sim_owns msg s \<longleftrightarrow> om_find msg (ss_by_msg s) \<noteq> None"

text \<open>\<open>fire\<close> up to the call. \<open>timers_[id]\<close> of a handle that is not there is an empty function.\<close>

definition sim_fire :: "nat \<Rightarrow> 'cb SimScheduler \<Rightarrow> (TimerId \<times> 'cb option \<times> 'cb SimScheduler) option" where
  "sim_fire msg s =
     (case om_find msg (ss_by_msg s) of
        None \<Rightarrow> None
      | Some i \<Rightarrow> Some (i, map_option tm_cb (om_find i (ss_timers s)),
          s\<lparr>ss_by_msg := om_erase msg (ss_by_msg s), ss_timers := om_erase i (ss_timers s),
            ss_kernel := ss_kernel s @ [Delete_msg msg]\<rparr>))"

definition sim_destroy :: "'cb SimScheduler \<Rightarrow> KernelCall list" where
  "sim_destroy s = ss_kernel s @
     concat (map (\<lambda>(i, t). [Cancel_msg (tm_msg t), Delete_msg (tm_msg t)]) (ss_timers s))"

section \<open>Both adapters meet the contract\<close>

text \<open>The queue and the index of due times hold the same timers, each once; the queue is in the
  order of the due times.\<close>

definition reactor_ok :: "'cb Reactor \<Rightarrow> bool" where
  "reactor_ok r \<longleftrightarrow> sorted (map fst (rx_timers r)) \<and> distinct (map (fst \<circ> snd) (rx_timers r)) \<and>
     om_ok (rx_timer_due r) \<and>
     (\<forall>i due. om_find i (rx_timer_due r) = Some due \<longleftrightarrow> (\<exists>cb. (due, i, cb) \<in> set (rx_timers r))) \<and>
     (\<forall>(due, i, cb) \<in> set (rx_timers r). 0 < unat i \<and> unat i \<le> unat (rx_next_timer_id r))"

definition reactor_armed :: "'cb Reactor \<Rightarrow> TimerId \<Rightarrow> 'cb option" where
  "reactor_armed r = map_of (map snd (rx_timers r))"

lemma sorted_mm_emplace: "sorted (map fst m) \<Longrightarrow> sorted (map fst (mm_emplace k v m))"
  by (induction k v m rule: mm_emplace.induct) (auto simp: not_less)

lemma distinct_mm_emplace:
  "distinct (map (fst \<circ> snd) (mm_emplace k (i, v) m)) \<longleftrightarrow>
     i \<notin> (fst \<circ> snd) ` set m \<and> distinct (map (fst \<circ> snd) m)"
  by (induction k "(i, v)" m rule: mm_emplace.induct) auto

lemma reactor_armed_iff:
  "reactor_ok r \<Longrightarrow> reactor_armed r i = Some cb \<longleftrightarrow> (\<exists>due. (due, i, cb) \<in> set (rx_timers r))"
proof -
  assume "reactor_ok r"
  then have "distinct (map fst (map snd (rx_timers r)))" by (simp add: reactor_ok_def)
  then show ?thesis unfolding reactor_armed_def by (subst map_of_eq_Some_iff) force+
qed

lemma reactor_okD:
  assumes "reactor_ok r"
  shows "sorted (map fst (rx_timers r))" "distinct (map (fst \<circ> snd) (rx_timers r))" "om_ok (rx_timer_due r)"
    "om_find i (rx_timer_due r) = Some due \<longleftrightarrow> (\<exists>cb. (due, i, cb) \<in> set (rx_timers r))"
    "(due, i, cb) \<in> set (rx_timers r) \<Longrightarrow> 0 < unat i \<and> unat i \<le> unat (rx_next_timer_id r)"
  using assms by (auto simp: reactor_ok_def)

lemma reactor_armed_None:
  "reactor_ok r \<Longrightarrow> reactor_armed r i = None \<longleftrightarrow> om_find i (rx_timer_due r) = None"
  using reactor_armed_iff [of r i] reactor_okD(4) [of r i] by (metis not_None_eq)

lemma same_handle:
  assumes "distinct (map (fst \<circ> snd) ts)" "(d, i, c) \<in> set ts" "(d', i, c') \<in> set ts"
  shows "d' = d \<and> c' = c"
  using assms inj_onD [of "fst \<circ> snd" "set ts" "(d', i, c')" "(d, i, c)"] by (simp add: distinct_map)

lemma erase_first_handle:
  assumes "distinct (map (fst \<circ> snd) ts)" "(due, i, cb) \<in> set ts"
  shows "erase_first (\<lambda>(d, j, _). d = due \<and> j = i) ts = filter (\<lambda>(d, j, _). j \<noteq> i) ts"
  using assms
proof (induction ts)
  case (Cons t ts)
  obtain d j c where t: "t = (d, j, c)" by (cases t)
  show ?case
  proof (cases "j = i")
    case True
    have "filter (\<lambda>(d, j, _). j \<noteq> i) ts = ts"
      using Cons.prems(1) t True by (intro filter_True) (auto simp: image_iff)
    moreover have "d = due" using same_handle [OF Cons.prems(1) Cons.prems(2), of d c] t True by simp
    ultimately show ?thesis using t True by simp
  next
    case False
    then show ?thesis using Cons t by auto
  qed
qed simp

lemma map_of_filter_handle:
  "map_of (map snd (filter (\<lambda>(d, j, _). j \<noteq> i) ts)) = (map_of (map snd ts))(i := None)"
  by (induction ts) auto

lemma cancel_timer_filter:
  assumes "reactor_ok r"
  shows "rx_timers (cancel_timer i r) = filter (\<lambda>(d, j, _). j \<noteq> i) (rx_timers r)"
    "rx_timer_due (cancel_timer i r) = om_erase i (rx_timer_due r)"
proof -
  note ok = reactor_okD [OF assms]
  have "filter (\<lambda>(d, j, _). j \<noteq> i) (rx_timers r) = rx_timers r \<and> om_erase i (rx_timer_due r) = rx_timer_due r"
    if "om_find i (rx_timer_due r) = None"
  proof
    show "filter (\<lambda>(d, j, _). j \<noteq> i) (rx_timers r) = rx_timers r"
      using ok(4) [of i] that by (intro filter_True) auto
    show "om_erase i (rx_timer_due r) = rx_timer_due r"
      using that unfolding om_erase_def by (intro filter_True) (auto simp: om_find_None image_iff)
  qed
  moreover have "erase_first (\<lambda>(d, j, _). d = due \<and> j = i) (rx_timers r) = filter (\<lambda>(d, j, _). j \<noteq> i) (rx_timers r)"
    if "om_find i (rx_timer_due r) = Some due" for due
    using that ok(2) ok(4) [of i due] erase_first_handle by metis
  ultimately show "rx_timers (cancel_timer i r) = filter (\<lambda>(d, j, _). j \<noteq> i) (rx_timers r)"
    "rx_timer_due (cancel_timer i r) = om_erase i (rx_timer_due r)"
    by (auto simp: cancel_timer_def split: option.split)
qed

lemma reactor_ok_filter:
  assumes "reactor_ok r" "rx_timers r' = filter (\<lambda>(d, j, _). j \<noteq> i) (rx_timers r)"
    "rx_timer_due r' = om_erase i (rx_timer_due r)" "rx_next_timer_id r' = rx_next_timer_id r"
  shows "reactor_ok r'" "reactor_armed r' = (reactor_armed r)(i := None)"
proof -
  note ok = reactor_okD [OF assms(1)]
  have "sorted (map fst (rx_timers r'))" unfolding assms(2) using ok(1) by (rule sorted_filter)
  moreover have "om_find j (rx_timer_due r') = Some d \<longleftrightarrow> (\<exists>c. (d, j, c) \<in> set (rx_timers r'))" for j d
    using ok(4) [of j d] by (auto simp: assms(2,3) om_find_erase)
  moreover have "\<forall>(d, j, c) \<in> set (rx_timers r'). 0 < unat j \<and> unat j \<le> unat (rx_next_timer_id r')"
    using ok(5) by (auto simp: assms(2,4))
  moreover have "distinct (map (fst \<circ> snd) (rx_timers r'))"
    unfolding assms(2) using ok(2) by (rule distinct_map_filter)
  ultimately show "reactor_ok r'" unfolding reactor_ok_def using ok(3) by (simp add: assms(3))
  show "reactor_armed r' = (reactor_armed r)(i := None)"
    by (simp add: reactor_armed_def assms(2) map_of_filter_handle)
qed

lemma add_timer_law:
  assumes "reactor_ok r" "Suc (unat (rx_next_timer_id r)) < 2 ^ 64" "add_timer due cb r = (i, r')"
  shows "reactor_ok r'" "unat i = Suc (unat (rx_next_timer_id r))" "unat (rx_next_timer_id r') = unat i"
    "reactor_armed r' = (reactor_armed r)(i \<mapsto> cb)"
proof -
  note ok = reactor_okD [OF assms(1)]
  show i: "unat i = Suc (unat (rx_next_timer_id r))"
    using assms(2,3) by (auto simp: add_timer_def Let_def unat_word_ariths)
  have r': "rx_timers r' = mm_emplace due (i, cb) (rx_timers r)" "rx_timer_due r' = om_put i due (rx_timer_due r)"
    "rx_next_timer_id r' = i"
    using assms(3) by (auto simp: add_timer_def Let_def)
  show "unat (rx_next_timer_id r') = unat i" by (simp add: r')
  have new: "i \<notin> (fst \<circ> snd) ` set (rx_timers r)" using ok(5) i by fastforce
  have "om_find j (om_put i due (rx_timer_due r)) = Some d \<longleftrightarrow>
      (\<exists>c. (d, j, c) \<in> insert (due, i, cb) (set (rx_timers r)))" for j d
    using ok(4) [of j d] new by (auto simp: om_find_put image_iff)
  moreover have "\<forall>(d, j, c) \<in> insert (due, i, cb) (set (rx_timers r)). 0 < unat j \<and> unat j \<le> unat i"
    using ok(5) i by fastforce
  ultimately show ok': "reactor_ok r'"
    unfolding reactor_ok_def using ok(1,2,3) new
    by (simp add: r' sorted_mm_emplace distinct_mm_emplace om_ok_put)
  show "reactor_armed r' = (reactor_armed r)(i \<mapsto> cb)"
  proof
    fix j
    have "reactor_armed r' j = Some c \<longleftrightarrow> ((reactor_armed r)(i \<mapsto> cb)) j = Some c" for c
      using reactor_armed_iff [OF ok', of j c] reactor_armed_iff [OF assms(1), of j c] new
      by (auto simp: r' image_iff)
    then show "reactor_armed r' j = ((reactor_armed r)(i \<mapsto> cb)) j" by (metis not_None_eq)
  qed
qed

lemma pop_due_law:
  assumes "reactor_ok r" "pop_due now r = Some (i, cb, r')"
  shows "reactor_ok r'" "rx_next_timer_id r' = rx_next_timer_id r" "reactor_armed r i = Some cb"
    "reactor_armed r' = (reactor_armed r)(i := None)"
proof -
  note ok = reactor_okD [OF assms(1)]
  obtain due ts where r: "rx_timers r = (due, i, cb) # ts" "due \<le> now"
      "r' = r\<lparr>rx_timers := ts, rx_timer_due := om_erase i (rx_timer_due r)\<rparr>"
    using assms(2) by (auto simp: pop_due_def split: list.splits if_splits)
  have "filter (\<lambda>(d, j, _). j \<noteq> i) ts = ts"
    using ok(2) r by (intro filter_True) (auto simp: image_iff)
  then have f: "rx_timers r' = filter (\<lambda>(d, j, _). j \<noteq> i) (rx_timers r)" using r by simp
  show "rx_next_timer_id r' = rx_next_timer_id r" using r by simp
  then show "reactor_ok r'" "reactor_armed r' = (reactor_armed r)(i := None)"
    using reactor_ok_filter [OF assms(1) f] r by simp_all
  show "reactor_armed r i = Some cb" by (simp add: reactor_armed_def r)
qed

interpretation rx: scheduler reactor_ok reactor_armed "\<lambda>r. unat (rx_next_timer_id r)" add_timer
  "\<lambda>_ _. True" cancel_timer pop_due
proof (unfold_locales, goal_cases)
  case (1 s i cb)
  then show ?case using reactor_armed_iff [of s i cb] reactor_okD(5) [of s _ i cb] by blast
next
  case (2 s x cb i s')
  then show ?case using add_timer_law [of s x cb i s'] by simp
next
  case (3 s i)
  have "rx_next_timer_id (cancel_timer i s) = rx_next_timer_id s"
    by (simp add: cancel_timer_def split: option.split)
  then show ?case using 3 reactor_ok_filter [OF 3, of "cancel_timer i s" i] cancel_timer_filter [OF 3, of i] by simp
next
  case (4 s y i cb s')
  then show ?case using pop_due_law [of s y i cb s'] by simp
qed

text \<open>The table of messages and the table of timers of the simulation are inverse to each other, and
  hold the messages that the kernel still has.\<close>

fun kernel_live :: "KernelCall list \<Rightarrow> nat set \<Rightarrow> nat set" where
  "kernel_live [] ms = ms"
| "kernel_live (Schedule_msg m _ # cs) ms = kernel_live cs (insert m ms)"
| "kernel_live (Cancel_msg m # cs) ms = kernel_live cs ms"
| "kernel_live (Delete_msg m # cs) ms = kernel_live cs (ms - {m})"

lemma kernel_live_append: "kernel_live (as @ bs) ms = kernel_live bs (kernel_live as ms)"
  by (induction as ms rule: kernel_live.induct) simp_all

definition sim_ok :: "'cb SimScheduler \<Rightarrow> bool" where
  "sim_ok s \<longleftrightarrow> om_ok (ss_timers s) \<and> om_ok (ss_by_msg s) \<and>
     (\<forall>m i. om_find m (ss_by_msg s) = Some i \<longleftrightarrow> (\<exists>t. om_find i (ss_timers s) = Some t \<and> tm_msg t = m)) \<and>
     (\<forall>i t. om_find i (ss_timers s) = Some t \<longrightarrow> 0 < unat i \<and> unat i \<le> unat (ss_last_id s)) \<and>
     kernel_live (ss_kernel s) {} = {m. sim_owns m s}"

definition sim_armed :: "'cb SimScheduler \<Rightarrow> TimerId \<Rightarrow> 'cb option" where
  "sim_armed s i = map_option tm_cb (om_find i (ss_timers s))"

text \<open>The timer a delivered message belongs to; the scheduler has a callback for each of its messages.\<close>

definition sim_pop :: "nat \<Rightarrow> 'cb SimScheduler \<Rightarrow> (TimerId \<times> 'cb \<times> 'cb SimScheduler) option" where
  "sim_pop msg s =
     (case sim_fire msg s of Some (i, Some cb, s) \<Rightarrow> Some (i, cb, s) | _ \<Rightarrow> None)"

lemma sim_okD:
  assumes "sim_ok s"
  shows "om_ok (ss_timers s)" "om_ok (ss_by_msg s)"
    "om_find m (ss_by_msg s) = Some i \<longleftrightarrow> (\<exists>t. om_find i (ss_timers s) = Some t \<and> tm_msg t = m)"
    "om_find i (ss_timers s) = Some t \<Longrightarrow> 0 < unat i \<and> unat i \<le> unat (ss_last_id s)"
    "kernel_live (ss_kernel s) {} = {m. sim_owns m s}"
  using assms by (auto simp: sim_ok_def)

text \<open>Retiring the timer of a message, whether it is cancelled or delivered.\<close>

lemma sim_retire:
  assumes "sim_ok s" "om_find i (ss_timers s) = Some t"
    "\<And>ms. kernel_live calls ms = ms - {tm_msg t}"
  defines "s' \<equiv> s\<lparr>ss_by_msg := om_erase (tm_msg t) (ss_by_msg s), ss_timers := om_erase i (ss_timers s),
    ss_kernel := ss_kernel s @ calls\<rparr>"
  shows "sim_ok s'" "sim_armed s' = (sim_armed s)(i := None)"
proof -
  note ok = sim_okD [OF assms(1)]
  have t: "om_find (tm_msg t) (ss_by_msg s) = Some i" using ok(3) assms(2) by blast
  have "om_find m (om_erase (tm_msg t) (ss_by_msg s)) = Some j \<longleftrightarrow>
      (\<exists>u. om_find j (om_erase i (ss_timers s)) = Some u \<and> tm_msg u = m)" for m j
  proof (cases "m = tm_msg t")
    case True
    then show ?thesis using ok(3) [of m j] t by (auto simp: om_find_erase)
  next
    case False
    then show ?thesis using ok(3) [of m j] assms(2) by (simp add: om_find_erase)
  qed
  moreover have "om_find j (om_erase i (ss_timers s)) = Some u \<Longrightarrow> 0 < unat j \<and> unat j \<le> unat (ss_last_id s)" for j u
    using ok(4) [of j u] by (simp add: om_find_erase split: if_splits)
  moreover have "kernel_live (ss_kernel s @ calls) {} = {m. sim_owns m s'}"
    by (auto simp: kernel_live_append assms(3) ok(5) s'_def sim_owns_def om_find_erase)
  ultimately show "sim_ok s'" unfolding sim_ok_def s'_def using ok(1,2) by (simp add: om_ok_erase)
  show "sim_armed s' = (sim_armed s)(i := None)"
    by (auto simp: sim_armed_def s'_def om_find_erase)
qed

lemma sim_after_law:
  assumes "sim_ok s" "\<not> sim_owns msg s" "Suc (unat (ss_last_id s)) < 2 ^ 64" "sim_after (msg, due) cb s = (i, s')"
  shows "sim_ok s'" "unat i = Suc (unat (ss_last_id s))" "unat (ss_last_id s') = unat i"
    "sim_armed s' = (sim_armed s)(i \<mapsto> cb)"
proof -
  note ok = sim_okD [OF assms(1)]
  show i: "unat i = Suc (unat (ss_last_id s))"
    using assms(3,4) by (auto simp: sim_after_def Let_def unat_word_ariths)
  have s': "ss_by_msg s' = om_put msg i (ss_by_msg s)" "ss_last_id s' = i"
    "ss_timers s' = om_put i \<lparr>tm_msg = msg, tm_cb = cb\<rparr> (ss_timers s)"
    "ss_kernel s' = ss_kernel s @ [Schedule_msg msg due]"
    using assms(4) by (auto simp: sim_after_def Let_def)
  show "unat (ss_last_id s') = unat i" by (simp add: s')
  have new: "om_find i (ss_timers s) = None" using ok(4) [of i] i by (cases "om_find i (ss_timers s)") auto
  have msg: "om_find msg (ss_by_msg s) = None" using assms(2) by (simp add: sim_owns_def)
  have unused: "tm_msg t \<noteq> msg" if "om_find j (ss_timers s) = Some t" for j t using ok(3) [of msg j] msg that by auto
  have "om_find m (ss_by_msg s') = Some j \<longleftrightarrow> (\<exists>t. om_find j (ss_timers s') = Some t \<and> tm_msg t = m)" for m j
    using ok(3) [of m j] new unused [of j] by (auto simp: s' om_find_put)
  moreover have "0 < unat j \<and> unat j \<le> unat i" if "om_find j (ss_timers s') = Some t" for j t
    using that ok(4) [of j t] i by (auto simp: s' om_find_put split: if_splits)
  moreover have "kernel_live (ss_kernel s') {} = {m. sim_owns m s'}"
    by (auto simp: s' kernel_live_append ok(5) sim_owns_def om_find_put)
  ultimately show "sim_ok s'" unfolding sim_ok_def using ok(1,2) by (simp add: s' om_ok_put)
  show "sim_armed s' = (sim_armed s)(i \<mapsto> cb)" by (auto simp: sim_armed_def s' om_find_put)
qed

interpretation ss: scheduler sim_ok sim_armed "\<lambda>s. unat (ss_last_id s)" sim_after
  "\<lambda>x s. \<not> sim_owns (fst x) s" sim_cancel sim_pop
proof (unfold_locales, goal_cases)
  case (1 s i cb)
  then show ?case using sim_okD(4) [of s i] by (auto simp: sim_armed_def)
next
  case (2 s x cb i s')
  then show ?case using sim_after_law [of s "fst x" "snd x" cb i s'] by simp
next
  case (3 s i)
  show ?case
  proof (cases "om_find i (ss_timers s)")
    case (Some t)
    show ?thesis
      using sim_retire [OF 3 Some, of "[Cancel_msg (tm_msg t), Delete_msg (tm_msg t)]"]
      by (simp add: sim_cancel_def Some)
  qed (use 3 in \<open>auto simp: sim_cancel_def sim_armed_def\<close>)
next
  case (4 s msg i cb s')
  then obtain t where t: "om_find msg (ss_by_msg s) = Some i" "om_find i (ss_timers s) = Some t" "tm_cb t = cb"
      "s' = s\<lparr>ss_by_msg := om_erase msg (ss_by_msg s), ss_timers := om_erase i (ss_timers s),
        ss_kernel := ss_kernel s @ [Delete_msg msg]\<rparr>"
    by (auto simp: sim_pop_def sim_fire_def split: option.splits)
  have "tm_msg t = msg" using sim_okD(3) [OF 4(1), of msg i] t by simp
  then show ?case using sim_retire [OF 4(1) t(2), of "[Delete_msg msg]"] t by (simp add: sim_armed_def)
qed

text \<open>The adapter of the simulation never calls an empty function, and leaves no message behind.\<close>

lemma sim_fire_callback:
  assumes "sim_ok s" "sim_fire msg s = Some (i, cb, s')"
  shows "cb = sim_armed s i" "cb \<noteq> None"
  using assms(2) sim_okD(3) [OF assms(1), of msg i]
  by (auto simp: sim_fire_def sim_armed_def split: option.splits)

lemma sim_destroy_leaves_nothing:
  assumes "sim_ok s"
  shows "kernel_live (sim_destroy s) {} = {}"
proof -
  have "kernel_live (concat (map (\<lambda>(i, t). [Cancel_msg (tm_msg t), Delete_msg (tm_msg t)]) ts)) ms =
      ms - set (map (\<lambda>(i, t). tm_msg t) ts)" for ts :: "(TimerId \<times> 'a SimTimer) list" and ms
    by (induction ts arbitrary: ms) auto
  moreover have "m \<in> set (map (\<lambda>(i, t). tm_msg t) (ss_timers s))" if "sim_owns m s" for m
    using that sim_okD(3) [OF assms, of m] om_find_in by (fastforce simp: sim_owns_def)
  ultimately show ?thesis
    by (auto simp: sim_destroy_def kernel_live_append sim_okD(5) [OF assms])
qed

section \<open>The event loop fires what is due\<close>

text \<open>The timers due by a horizon. A callback arms beyond it when it does not add to them.\<close>

definition due_by :: "int \<Rightarrow> 'cb Reactor \<Rightarrow> (int \<times> TimerId \<times> 'cb) list" where
  "due_by h r = filter (\<lambda>t. fst t \<le> h) (rx_timers r)"

definition arms_beyond :: "int \<Rightarrow> ('cb, 'w) exec \<Rightarrow> bool" where
  "arms_beyond h exec \<longleftrightarrow>
     (\<forall>cb s. length (due_by h (fst (snd (exec cb s)))) \<le> length (due_by h (fst s)))"

text \<open>What the loop leaves behind: nothing that was due at its last look at the clock.\<close>

definition drained :: "(nat \<Rightarrow> int) \<Rightarrow> 'cb Reactor \<Rightarrow> bool" where
  "drained clk r \<longleftrightarrow> (case rx_timers r of [] \<Rightarrow> True | (due, _) # _ \<Rightarrow> 0 < rx_reads r \<and> clk (rx_reads r - 1) < due)"

lemma safe_call_state: "snd (safe_call exec cb s) = snd (exec cb s)"
  by (auto simp: safe_call_def split: prod.split sum.split)

lemma fire_due_timers_ends:
  assumes "arms_beyond h exec" "\<And>k. clk k \<le> h"
  shows "\<exists>out r w. fire_due_timers exec clk s = Some (out, r, w) \<and> (out = Inr () \<longrightarrow> \<not> rx_running r \<or> drained clk r)"
proof (induction "length (due_by h (fst s))" arbitrary: s rule: less_induct)
  case less
  let ?r = "(fst s)\<lparr>rx_reads := Suc (rx_reads (fst s))\<rparr>"
  show ?case
  proof (cases "rx_timers (fst s)")
    case Nil
    then show ?thesis by (cases s) (auto simp: fire_due_timers.simps drained_def)
  next
    case (Cons t ts)
    obtain due i cb where t: "t = (due, i, cb)" by (cases t)
    show ?thesis
    proof (cases "pop_due (clk (rx_reads (fst s))) ?r")
      case None
      have "fire_due_timers exec clk s = Some (Inr (), ?r, snd s)"
        by (subst fire_due_timers.simps) (simp add: Cons None)
      moreover have "drained clk ?r" using None Cons t by (auto simp: drained_def pop_due_def split: if_splits)
      ultimately show ?thesis by blast
    next
      case (Some z)
      obtain j c r where z: "z = (j, c, r)" by (cases z)
      have r: "due \<le> clk (rx_reads (fst s))" "j = i" "c = cb" "rx_timers r = ts"
        using Some Cons t z by (auto simp: pop_due_def split: if_splits)
      obtain out s' where c: "safe_call exec cb (r, snd s) = (out, s')" by (rule prod.exhaust)
      have "length (due_by h (fst s')) \<le> length (due_by h r)"
        using assms(1) safe_call_state [of exec cb "(r, snd s)"] c by (auto simp: arms_beyond_def)
      moreover have "length (due_by h r) < length (due_by h (fst s))"
        using Cons t r assms(2) [of "rx_reads (fst s)"] by (simp add: due_by_def)
      ultimately have "length (due_by h (fst s')) < length (due_by h (fst s))" by simp
      note IH = less [OF this]
      have "fire_due_timers exec clk s = (case out of Inl e \<Rightarrow> Some (Inl e, s')
          | Inr _ \<Rightarrow> if rx_running (fst s') then fire_due_timers exec clk s' else Some (Inr (), s'))"
        by (subst fire_due_timers.simps) (simp add: Some z r c Cons)
      then show ?thesis using IH by (cases out; cases s') auto
    qed
  qed
qed

lemma next_timeout_covers:
  assumes "rx_timers r = (due, t) # ts" "next_timeout_ms clk r = Inr (ms, r')"
  shows "0 \<le> ms" "ms \<le> INT_MAX" "due - clk (rx_reads r) \<le> ms * 1000000 \<or> ms = INT_MAX"
    "ms = 0 \<or> (ms - 1) * 1000000 < due - clk (rx_reads r)"
  using assms by (auto simp: next_timeout_ms_def Let_def INT_MAX_def split: if_splits)

section \<open>The properties\<close>

lemma arms_fit:
  assumes "unat (rx_next_timer_id r) + length ops < 2 ^ 64"
  shows "rx.feasible ops r"
  using assms
proof (induction ops arbitrary: r)
  case (Cons op ops)
  have "unat (rx_next_timer_id (snd (add_timer x cb r))) + length ops < 2 ^ 64" for x cb
    using Cons.prems by (simp add: add_timer_def Let_def unat_word_ariths)
  moreover have "rx_next_timer_id (cancel_timer i r) = rx_next_timer_id r" for i
    by (simp add: cancel_timer_def split: option.split)
  moreover have "rx_next_timer_id (case pop_due y r of None \<Rightarrow> r | Some (_, _, s) \<Rightarrow> s) = rx_next_timer_id r" for y
    by (auto simp: pop_due_def split: option.split list.splits if_splits)
  ultimately show ?case using Cons.IH Cons.prems
    by (cases op) auto
qed simp

lemma feasible_append [simp]: 
  "rx.feasible (as @ bs) r \<longleftrightarrow>
     rx.feasible as r \<and> rx.feasible bs (snd (run_ops add_timer cancel_timer pop_due as r))"
proof (induction as arbitrary: r)
  case (Cons op as)
  then show ?case by (cases op) (auto simp: case_prod_beta split: option.split)
qed simp

lemma Reactor_init_ok [simp]: "reactor_ok Reactor_init" "rx_next_timer_id Reactor_init = 0" "reactor_armed Reactor_init i = None"
  by (simp_all add: reactor_ok_def Reactor_init_def reactor_armed_def)

text \<open>C24: The reactor keeps the promise of the Scheduler port through any history of arming,
  cancelling and firing in fewer than 2^64 steps: whatever fires is the k-th timer armed, under its
  handle and with its callback, no timer fires twice, and a timer that has been cancelled does not
  fire afterwards.\<close>

theorem reactor_fires_once:
  assumes "length (as @ Disarm i # bs) < 2 ^ 64" "unat i \<le> length (arms as)"
    and "run_ops add_timer cancel_timer pop_due as Reactor_init = (early, r)"
    and "run_ops add_timer cancel_timer pop_due (Disarm i # bs) r = (late, r')"
  shows "i \<notin> fst ` set late \<and> distinct (map fst (early @ late)) \<and>
    (\<forall>(j, cb) \<in> set (early @ late). \<exists>k < length (arms (as @ bs)). unat j = Suc k \<and> cb = arms (as @ bs) ! k)"
proof -
  have all: "run_ops add_timer cancel_timer pop_due (as @ Disarm i # bs) Reactor_init = (early @ late, r')"
    using rx.run_ops_append [of as "Disarm i # bs"] assms(3,4) by simp
  have "arms (as @ Disarm i # bs) = arms (as @ bs)" by (induction as rule: arms.induct) simp_all
  moreover have f: "rx.feasible (as @ Disarm i # bs) Reactor_init" using assms(1) by (intro arms_fit) simp
  ultimately have "\<forall>(j, cb) \<in> set (early @ late). \<exists>k < length (arms (as @ bs)). unat j = Suc k \<and> cb = arms (as @ bs) ! k"
    using rx.run_ops_outcome [OF _ f] all by auto
  moreover have "distinct (map fst (early @ late))" using rx.fires_once [OF _ f] all by simp
  moreover have "i \<notin> fst ` set late"
  proof -
    have r: "reactor_ok r" "unat (rx_next_timer_id r) = length (arms as)"
      using rx.run_ops_outcome [of Reactor_init as] f assms(3) by auto
    moreover have "rx.feasible bs (cancel_timer i r)" using f assms(3) by simp
    ultimately show ?thesis
      using rx.never_fires [of "cancel_timer i r" bs i] rx.disarm_law [OF r(1), of i] assms(2,4) by simp
  qed
  ultimately show ?thesis by blast
qed

theorem reactor_fires_once_witness:
  "2 \<notin> fst ` set (fst (run_ops add_timer cancel_timer pop_due [Disarm 2, Take 9, Arm 9 True, Take 9, Take 9]
     (snd (run_ops add_timer cancel_timer pop_due [Arm 5 False, Arm 7 True, Arm 7 False] Reactor_init))))"
proof -
  obtain early r where e: "run_ops add_timer cancel_timer pop_due [Arm 5 False, Arm 7 True, Arm 7 False] Reactor_init = (early, r)"
    by (rule prod.exhaust)
  obtain late r' where l: "run_ops add_timer cancel_timer pop_due [Disarm 2, Take 9, Arm 9 True, Take 9, Take 9] r = (late, r')"
    by (rule prod.exhaust)
  have "2 \<notin> fst ` set late" using reactor_fires_once [OF _ _ e l] by simp
  then show ?thesis by (simp only: e l fst_conv snd_conv not_False_eq_True)
qed

text \<open>C25: The loop over the due timers returns when every callback arms its timers beyond a
  horizon that the clock does not reach meanwhile, and returning normally it leaves nothing that was
  due at its last reading of the clock; it then sleeps no longer than until the next timer is due,
  rounded up to a millisecond, and never less than that up to the largest timeout of the system.\<close>

theorem due_timers_fire:
  assumes "arms_beyond h exec" "\<forall>k. clk k \<le> h"
  shows "\<exists>out r w. fire_due_timers exec clk s = Some (out, r, w) \<and>
    (out = Inr () \<longrightarrow> rx_running r \<longrightarrow> drained clk r \<and>
      (\<forall>ms r' due t ts. next_timeout_ms clk r = Inr (ms, r') \<longrightarrow> rx_timers r = (due, t) # ts \<longrightarrow>
        (ms = 0 \<or> (ms - 1) * 1000000 < due - clk (rx_reads r)) \<and>
        (ms = INT_MAX \<or> due - clk (rx_reads r) \<le> ms * 1000000) \<and> 0 \<le> ms \<and> ms \<le> INT_MAX))"
proof -
  obtain out r w where "fire_due_timers exec clk s = Some (out, r, w)"
    "out = Inr () \<longrightarrow> \<not> rx_running r \<or> drained clk r"
    using fire_due_timers_ends [OF assms(1)] assms(2) by blast
  moreover have "(ms = 0 \<or> (ms - 1) * 1000000 < due - clk (rx_reads r)) \<and>
      (ms = INT_MAX \<or> due - clk (rx_reads r) \<le> ms * 1000000) \<and> 0 \<le> ms \<and> ms \<le> INT_MAX"
    if "next_timeout_ms clk r = Inr (ms, r')" "rx_timers r = (due, t) # ts" for ms r' due t ts
    using next_timeout_covers [OF that(2,1)] by auto
  ultimately show ?thesis by blast
qed

lemma filter_mm_emplace: "\<not> P (k, v) \<Longrightarrow> filter P (mm_emplace k v m) = filter P m"
  by (induction k v m rule: mm_emplace.induct) auto

definition logging :: "('cb, 'cb list) exec" where
  "logging cb s = (Inr (), snd (add_timer 100 cb (fst s)), snd s @ [cb])"

theorem due_timers_fire_witness:
  "\<exists>out r w. fire_due_timers logging (\<lambda>_. 50) (snd (add_timer 10 True Reactor_init), []) = Some (out, r, w)"
proof -
  have "arms_beyond 50 (logging :: (bool, bool list) exec)"
    by (simp add: arms_beyond_def logging_def due_by_def add_timer_def Let_def filter_mm_emplace)
  then show ?thesis using due_timers_fire [of 50 "logging :: (bool, bool list) exec" "\<lambda>_. 50"] by blast
qed

end
