(* ===== verification/Simulation.thy ===== *)
theory Simulation
  imports Adapters Timers
begin

text \<open>
  The simulation of a network of nodes (\<open>src/app/sim/\<close>): the module that hosts a node, the modules that publish events
  and run discoveries at random, and the configurator that computes the overlay. The simulation kernel
  OMNeT++ and the network INET are not modelled: the messages they deliver, the parameters they read, the
  draws of the random numbers and the shortest paths are arguments, and what the modules ask of them is recorded.
  An exception ends the simulation.
\<close>

section \<open>The daemon module\<close>

definition kPort :: int where "kPort = 666"

text \<open>The parameters; the expiry is given as the raw value of the simulation time.\<close>

record SimPars =
  par_clockChainCount :: int
  par_clockChainFactor :: int
  par_clockChainKeep :: int
  par_discoveryExpiryTime :: Duration
  par_discoveryHopLimit :: int
  par_discoveryFanout :: int
  par_discoveryForwardCap :: int
  par_discoveryRouting :: string

text \<open>What a browser logs when it is called back.\<close>

datatype BrowserLog =
    Log_chain_completed NodeId
  | Log_chain_aborted NodeId
  | Log_bounds_completed NodeId Duration
  | Log_bounds_aborted NodeId
  | Log_order_completed NodeId NodeId Order
  | Log_order_aborted NodeId NodeId

text \<open>\<open>sd_clock_timer\<close> are the times for which \<open>createClockEventTimer_\<close> was scheduled, \<open>sd_packets\<close> what was handed to
  the socket, and \<open>sd_next_msg\<close> the number of messages that were allocated: a message is known by its number.\<close>

record 'a SimDaemon =
  sd_node_id :: NodeId
  sd_node :: Node
  sd_transport :: "'a SimTransport"
  sd_scheduler :: "Timer SimScheduler"
  sd_num_chains :: int
  sd_chain_factor :: int
  sd_clock_tick_count :: int
  sd_next_msg :: nat
  sd_clock_timer :: "int list"
  sd_signals :: "(Signal \<times> SignalValue) list"
  sd_packets :: "('a \<times> int \<times> bytes) list"
  sd_log :: "(nat \<times> BrowserLog) list"

text \<open>\<open>Browser::on_*\<close>: the callbacks only log. The interval is the difference of two \<open>int64_t\<close>.\<close>

fun browser_callback :: "Output \<Rightarrow> (nat \<times> BrowserLog) list result" where
  "browser_callback (Chain_completed k e c) = Inr [(k, Log_chain_completed (ev_creator e))]"
| "browser_callback (Chain_aborted k e) = Inr [(k, Log_chain_aborted (ev_creator e))]"
| "browser_callback (Bounds_completed k e lo hi) =
     bindE (time_minus hi lo) (\<lambda>interval. Inr [(k, Log_bounds_completed (ev_creator e) interval)])"
| "browser_callback (Bounds_aborted k e) = Inr [(k, Log_bounds_aborted (ev_creator e))]"
| "browser_callback (Order_completed k a b ord) = Inr [(k, Log_order_completed (ev_creator a) (ev_creator b) ord)]"
| "browser_callback (Order_aborted k a b) = Inr [(k, Log_order_aborted (ev_creator a) (ev_creator b))]"
| "browser_callback _ = Inr []"

text \<open>What the ports and the callbacks do with an output of the node.\<close>

definition sim_deliver :: "int \<Rightarrow> Output \<Rightarrow> 'a SimDaemon \<Rightarrow> 'a SimDaemon result" where
  "sim_deliver now out d =
     (case out of
        Send to datagram \<Rightarrow> Inr (d\<lparr>sd_packets := sd_packets d @
          (case sim_send (sd_transport d) to datagram of None \<Rightarrow> [] | Some x \<Rightarrow> [x])\<rparr>)
      | Schedule i delay t \<Rightarrow> Inr (d\<lparr>sd_next_msg := Suc (sd_next_msg d),
          sd_scheduler := snd (sim_after (sd_next_msg d, now + sint delay) t (sd_scheduler d))\<rparr>)
      | Cancel i \<Rightarrow> Inr (d\<lparr>sd_scheduler := sim_cancel i (sd_scheduler d)\<rparr>)
      | Telemetry t \<Rightarrow> bindE (sim_telemetry t) (\<lambda>ss. Inr (d\<lparr>sd_signals := sd_signals d @ ss\<rparr>))
      | _ \<Rightarrow> bindE (browser_callback out) (\<lambda>ls. Inr (d\<lparr>sd_log := sd_log d @ ls\<rparr>)))"

text \<open>A call of the node; its outputs are delivered in their order.\<close>

definition sim_call :: "int \<Rightarrow> (Node \<Rightarrow> Node result) \<Rightarrow> 'a SimDaemon \<Rightarrow> 'a SimDaemon result" where
  "sim_call now f d =
     bindE (f (sd_node d)) (\<lambda>n.
       foldE (sim_deliver now) (drop (length (nd_out (sd_node d))) (nd_out n)) (d\<lparr>sd_node := n\<rparr>))"

definition scheduleCreateClockEventTimer :: "int \<Rightarrow> int \<Rightarrow> 'a SimDaemon \<Rightarrow> 'a SimDaemon" where
  "scheduleCreateClockEventTimer now interval d = d\<lparr>sd_clock_timer := sd_clock_timer d @ [now + interval]\<rparr>"

text \<open>The conversions of the parameters: to \<open>int\<close>, \<open>std::size_t\<close> and \<open>std::uint32_t\<close>.\<close>

definition to_int :: "int \<Rightarrow> int" where
  "to_int x = sint (of_int x :: 32 word)"

definition to_size :: "int \<Rightarrow> nat" where
  "to_size x = unat (of_int x :: u64)"

definition sim_config :: "SimPars \<Rightarrow> NodeConfig" where
  "sim_config pars =
     \<lparr>cfg_chains = replicate (nat (to_int (par_clockChainCount pars)))
        \<lparr>cc_interval = 0, cc_keep = to_size (par_clockChainKeep pars)\<rparr>,
      cfg_discovery_expiry = par_discoveryExpiryTime pars,
      cfg_discovery_hop_limit = of_int (par_discoveryHopLimit pars),
      cfg_discovery_routing = (if par_discoveryRouting pars = ''flood'' then flood else static_shortest_path),
      cfg_discovery_fanout = to_size (par_discoveryFanout pars),
      cfg_discovery_forward_cap = of_int (par_discoveryForwardCap pars)\<rparr>"

text \<open>\<open>Daemon::initialize\<close>, with the stage that binds the socket left to the kernel.\<close>

definition daemon_initialize :: "NodePorts \<Rightarrow> int \<Rightarrow> int \<Rightarrow> SimPars \<Rightarrow> int \<Rightarrow> 'a SimDaemon result" where
  "daemon_initialize p now interval pars module_id =
     (let i = node_id_of_u64 (of_int module_id) in
      bindE (make_node i empty_store (sim_config pars)) (\<lambda>n.
        sim_call now (\<lambda>n. Inr (start p n)) (scheduleCreateClockEventTimer now interval
          \<lparr>sd_node_id = i, sd_node = n, sd_transport = \<lparr>tp_port = kPort, tp_addresses = []\<rparr>,
           sd_scheduler = SimScheduler_init, sd_num_chains = to_int (par_clockChainCount pars),
           sd_chain_factor = to_int (par_clockChainFactor pars), sd_clock_tick_count = 0, sd_next_msg = 0,
           sd_clock_timer = [], sd_signals = [], sd_packets = [], sd_log = []\<rparr>)))"

text \<open>The loop over the coarser chains; the modulus is a \<open>long\<close>.\<close>

fun tick_coarser :: "NodePorts \<Rightarrow> int \<Rightarrow> nat list \<Rightarrow> int \<Rightarrow> 'a SimDaemon \<Rightarrow> 'a SimDaemon result" where
  "tick_coarser p now [] modulus d = Inr d"
| "tick_coarser p now (ch # chs) modulus d =
     (let modulus = modulus * sd_chain_factor d in
      if \<not> (- (2 ^ 63) \<le> modulus \<and> modulus < 2 ^ 63) \<or> modulus = 0 then Inl Undefined_behaviour
      else bindE (if sd_clock_tick_count d mod modulus = 0
          then sim_call now (create_clock_event p (of_nat ch)) d else Inr d)
        (tick_coarser p now chs modulus))"

datatype SimMessage =
    Create_clock_event_timer
  | Self_message nat
  | Socket_data bytes
  | Socket_error
  | Other_message

definition daemon_handle_message :: "NodePorts \<Rightarrow> int \<Rightarrow> int \<Rightarrow> SimMessage \<Rightarrow> 'a SimDaemon \<Rightarrow> 'a SimDaemon result" where
  "daemon_handle_message p now interval msg d =
     (case msg of
        Create_clock_event_timer \<Rightarrow>
          bindE (sim_call now (create_clock_event p 0) d) (\<lambda>d.
            if sd_clock_tick_count d + 1 \<ge> 2 ^ 63 then Inl Undefined_behaviour
            else bindE (tick_coarser p now [1..<nat (sd_num_chains d)] 1
                (d\<lparr>sd_clock_tick_count := sd_clock_tick_count d + 1\<rparr>)) (\<lambda>d.
              Inr (scheduleCreateClockEventTimer now interval (d\<lparr>sd_signals := sd_signals d @
                [(clockEventsRetained, Count (int (clock_event_count (nd_store (sd_node d)))))]\<rparr>))))
      | Self_message m \<Rightarrow>
          (case sim_fire m (sd_scheduler d) of
             None \<Rightarrow> Inl Simulation_error
           | Some (_, None, s) \<Rightarrow> Inl Bad_function_call
           | Some (_, Some t, s) \<Rightarrow> sim_call now (on_timer p t) (d\<lparr>sd_scheduler := s\<rparr>))
      | Socket_data datagram \<Rightarrow> sim_call now (on_packet_received p datagram) d
      | Socket_error \<Rightarrow> Inr d
      | Other_message \<Rightarrow> Inl Simulation_error)"

definition daemon_publish :: "NodePorts \<Rightarrow> int \<Rightarrow> bytes \<Rightarrow> 'a SimDaemon \<Rightarrow> 'a SimDaemon result" where
  "daemon_publish p now data = sim_call now (\<lambda>n. bindE (publish_event p data n) (\<lambda>(_, n). Inr n))"

definition daemon_learn_route :: "int \<Rightarrow> NodeId \<Rightarrow> NodeId \<Rightarrow> 'a SimDaemon \<Rightarrow> 'a SimDaemon result" where
  "daemon_learn_route now destination next_hop = sim_call now (\<lambda>n. Inr (learn_route destination next_hop n))"

definition daemon_add_neighbor :: "int \<Rightarrow> NodeId \<Rightarrow> 'a \<Rightarrow> 'a SimDaemon \<Rightarrow> 'a SimDaemon result" where
  "daemon_add_neighbor now i address d =
     bindE (sim_call now (\<lambda>n. Inr (add_neighbor i n)) d) (\<lambda>d.
       Inr (d\<lparr>sd_transport := set_address i address (sd_transport d)\<rparr>))"

section \<open>The network\<close>

text \<open>The daemons by the network node they run on, the nodes the configurator has found, and the calls of
  \<open>scheduleAt\<close> of the other modules.\<close>

datatype ModuleTimer = CreateEventTimer | DiscoverEventChainTimer | DiscoverEventBoundsTimer | DiscoverEventOrderTimer

record 'a World =
  w_daemons :: "'a SimDaemon list"
  w_network_nodes :: "nat list"
  w_timers :: "(nat \<times> ModuleTimer \<times> int) list"

definition find_daemon :: "nat \<Rightarrow> 'a World \<Rightarrow> 'a SimDaemon result" where
  "find_daemon i w = (if i < length (w_daemons w) then Inr (w_daemons w ! i) else Inl Simulation_error)"

definition on_daemon :: "nat \<Rightarrow> ('a SimDaemon \<Rightarrow> 'a SimDaemon result) \<Rightarrow> 'a World \<Rightarrow> 'a World result" where
  "on_daemon i f w =
     bindE (find_daemon i w) (\<lambda>d. bindE (f d) (\<lambda>d. Inr (w\<lparr>w_daemons := (w_daemons w)[i := d]\<rparr>)))"

section \<open>The configurator\<close>

text \<open>\<open>path dest src\<close> is the first link of a shortest path: the node it leads to and the address of the
  interface there; there is none if the destination cannot be reached.\<close>

definition install_route :: "(nat \<Rightarrow> nat \<Rightarrow> (nat \<times> 'a) option) \<Rightarrow> int \<Rightarrow> nat \<Rightarrow> nat \<Rightarrow> 'a World \<Rightarrow> 'a World result" where
  "install_route path now dest src w =
     (if src = dest then Inr w
      else case path dest src of
        None \<Rightarrow> Inr w
      | Some (hop, address) \<Rightarrow>
          bindE (find_daemon dest w) (\<lambda>destination.
          bindE (find_daemon hop w) (\<lambda>next_hop.
          bindE (on_daemon src (daemon_learn_route now (sd_node_id destination) (sd_node_id next_hop)) w)
            (on_daemon src (daemon_add_neighbor now (sd_node_id next_hop) address)))))"

definition configurator_initialize :: "(nat \<Rightarrow> nat \<Rightarrow> (nat \<times> 'a) option) \<Rightarrow> int \<Rightarrow> nat \<Rightarrow> 'a World \<Rightarrow> 'a World result" where
  "configurator_initialize path now num_nodes w =
     foldE (\<lambda>dest w. bindE (find_daemon dest w) (\<lambda>_.
       foldE (install_route path now dest) [0..<num_nodes] (w\<lparr>w_network_nodes := w_network_nodes w @ [dest]\<rparr>)))
       [0..<num_nodes] w"

section \<open>The publisher\<close>

definition schedule_timer :: "nat \<Rightarrow> ModuleTimer \<Rightarrow> int \<Rightarrow> 'a World \<Rightarrow> 'a World" where
  "schedule_timer i t at w = w\<lparr>w_timers := w_timers w @ [(i, t, at)]\<rparr>"

text \<open>\<open>createEvent\<close>: \<open>draw k\<close> is the k-th random byte. The timer is armed again after the event.\<close>

definition publisher_create_event :: "NodePorts \<Rightarrow> int \<Rightarrow> int \<Rightarrow> (nat \<Rightarrow> nat) \<Rightarrow> nat \<Rightarrow> 'a World \<Rightarrow> 'a World result" where
  "publisher_create_event p now content_length draw i =
     on_daemon i (daemon_publish p now (map (\<lambda>k. of_nat (draw k)) [0..<nat content_length]))"

definition publisher_handle_message ::
    "NodePorts \<Rightarrow> int \<Rightarrow> int \<Rightarrow> int \<Rightarrow> (nat \<Rightarrow> nat) \<Rightarrow> nat \<Rightarrow> bool \<Rightarrow> 'a World \<Rightarrow> 'a World result" where
  "publisher_handle_message p now interval content_length draw i own_timer w =
     (if \<not> own_timer then Inl Simulation_error
      else bindE (publisher_create_event p now content_length draw i w) (\<lambda>w.
        Inr (schedule_timer i CreateEventTimer (now + interval) w)))"

section \<open>The browser\<close>

text \<open>The vectors are indexed by the two draws \<open>r = (node, event)\<close>.\<close>

definition find_random_event :: "nat \<times> nat \<Rightarrow> 'a World \<Rightarrow> Event option result" where
  "find_random_event r w =
     (if w_network_nodes w = [] then Inr None
      else if fst r \<ge> length (w_network_nodes w) then Inl Undefined_behaviour
      else bindE (find_daemon (w_network_nodes w ! fst r) w) (\<lambda>peer.
        if event_count (nd_store (sd_node peer)) = 0 then Inr None
        else bindE (event_by_seq (snd r) (nd_store (sd_node peer))) (\<lambda>e. Inr (Some e))))"

definition process_chain_timer :: "NodePorts \<Rightarrow> int \<Rightarrow> nat \<times> nat \<Rightarrow> nat \<Rightarrow> 'a World \<Rightarrow> 'a World result" where
  "process_chain_timer p now r i w =
     bindE (find_random_event r w) (\<lambda>e. case e of
         None \<Rightarrow> Inr w
       | Some e \<Rightarrow> on_daemon i (sim_call now (discover_event_chain p e TimeRange_all (Client i))) w)"

definition process_bounds_timer :: "NodePorts \<Rightarrow> int \<Rightarrow> nat \<times> nat \<Rightarrow> nat \<Rightarrow> 'a World \<Rightarrow> 'a World result" where
  "process_bounds_timer p now r i w =
     bindE (find_random_event r w) (\<lambda>e. case e of
         None \<Rightarrow> Inr w
       | Some e \<Rightarrow> on_daemon i (sim_call now (discover_event_bounds p e TimeRange_all i)) w)"

definition process_order_timer :: "NodePorts \<Rightarrow> int \<Rightarrow> nat \<times> nat \<Rightarrow> nat \<times> nat \<Rightarrow> nat \<Rightarrow> 'a World \<Rightarrow> 'a World result" where
  "process_order_timer p now r1 r2 i w =
     bindE (find_random_event r1 w) (\<lambda>e1. bindE (find_random_event r2 w) (\<lambda>e2. case (e1, e2) of
         (Some e1, Some e2) \<Rightarrow> on_daemon i (sim_call now (discover_event_order p e1 e2 TimeRange_all i)) w
       | _ \<Rightarrow> Inr w))"

definition schedule_unless_zero :: "nat \<Rightarrow> ModuleTimer \<Rightarrow> int \<Rightarrow> int \<Rightarrow> 'a World \<Rightarrow> 'a World" where
  "schedule_unless_zero i t now interval w = (if interval \<noteq> 0 then schedule_timer i t (now + interval) w else w)"

definition browser_handle_message :: "NodePorts \<Rightarrow> int \<Rightarrow> int \<Rightarrow> nat \<times> nat \<Rightarrow> nat \<times> nat \<Rightarrow> nat \<Rightarrow> ModuleTimer \<Rightarrow>
    'a World \<Rightarrow> 'a World result" where
  "browser_handle_message p now interval r1 r2 i t w =
     (case t of
        DiscoverEventChainTimer \<Rightarrow> bindE (process_chain_timer p now r1 i w) (\<lambda>w. Inr (schedule_unless_zero i t now interval w))
      | DiscoverEventBoundsTimer \<Rightarrow> bindE (process_bounds_timer p now r1 i w) (\<lambda>w. Inr (schedule_unless_zero i t now interval w))
      | DiscoverEventOrderTimer \<Rightarrow> bindE (process_order_timer p now r1 r2 i w) (\<lambda>w. Inr (schedule_unless_zero i t now interval w))
      | CreateEventTimer \<Rightarrow> Inl Simulation_error)"

text \<open>\<open>Browser::initialize\<close> and \<open>Publisher::initialize\<close>.\<close>

definition browser_initialize :: "int \<Rightarrow> int \<Rightarrow> int \<Rightarrow> int \<Rightarrow> nat \<Rightarrow> 'a World \<Rightarrow> 'a World" where
  "browser_initialize now chain_interval bounds_interval order_interval i w =
     schedule_unless_zero i DiscoverEventOrderTimer now order_interval
       (schedule_unless_zero i DiscoverEventBoundsTimer now bounds_interval
         (schedule_unless_zero i DiscoverEventChainTimer now chain_interval w))"

definition publisher_initialize :: "int \<Rightarrow> int \<Rightarrow> nat \<Rightarrow> 'a World \<Rightarrow> 'a World" where
  "publisher_initialize now interval i = schedule_timer i CreateEventTimer (now + interval)"

section \<open>The run of a simulation\<close>

text \<open>The daemons with the given module numbers; \<open>ps\<close> are their ports.\<close>

fun initialize_daemons :: "(nat \<Rightarrow> NodePorts) \<Rightarrow> int \<Rightarrow> (nat \<Rightarrow> int) \<Rightarrow> SimPars \<Rightarrow> nat \<Rightarrow> int list \<Rightarrow> 'a SimDaemon list result" where
  "initialize_daemons ps now interval pars k [] = Inr []"
| "initialize_daemons ps now interval pars k (i # is) =
     bindE (daemon_initialize (ps k) now (interval k) pars i) (\<lambda>d.
     bindE (initialize_daemons ps now interval pars (Suc k) is) (\<lambda>ds. Inr (d # ds)))"

text \<open>Any module may get any message at any time, and a daemon any datagram.\<close>

inductive world_step :: "(nat \<Rightarrow> NodePorts) \<Rightarrow> 'a World \<Rightarrow> 'a World \<Rightarrow> bool" for ps where
  daemon: "on_daemon i (daemon_handle_message (ps i) now interval msg) w = Inr w' \<Longrightarrow> world_step ps w w'"
| publisher: "publisher_handle_message (ps i) now interval content_length draw i True w = Inr w' \<Longrightarrow> world_step ps w w'"
| browser: "browser_handle_message (ps i) now interval r1 r2 i t w = Inr w' \<Longrightarrow> world_step ps w w'"
| initialize: "w' = browser_initialize now c b o' i w \<or> w' = publisher_initialize now interval i w \<Longrightarrow> world_step ps w w'"

inductive world_reachable :: "(nat \<Rightarrow> NodePorts) \<Rightarrow> SimPars \<Rightarrow> 'a World \<Rightarrow> bool" for ps pars where
  boot: "initialize_daemons ps now intervals pars 0 ids = Inr ds \<Longrightarrow>
    configurator_initialize path now (length ids) \<lparr>w_daemons = ds, w_network_nodes = [], w_timers = []\<rparr> = Inr w \<Longrightarrow>
    world_reachable ps pars w"
| step: "world_reachable ps pars w \<Longrightarrow> world_step ps w w' \<Longrightarrow> world_reachable ps pars w'"

end
