(* ===== verification/Output_Frame.thy ===== *)
theory Output_Frame
  imports Node_Protocol
begin

text \<open>
  Which handlers arm timers and make clock events. The output of a node only grows; the datagrams, the calls of the
  application and the changes of the overlay add neither a timer nor a clock event to it, so that both come only
  from ticks, timers and the start.
\<close>

section \<open>Calm steps\<close>

text \<open>The outputs that matter to the scheduler and to the clock chains.\<close>

fun loud :: "Output \<Rightarrow> bool" where
  "loud (Schedule i delay t) \<longleftrightarrow> True"
| "loud (Cancel i) \<longleftrightarrow> True"
| "loud (Telemetry (Clock_event_created c)) \<longleftrightarrow> True"
| "loud _ \<longleftrightarrow> False"

text \<open>The routes stay, and no neighbor is forgotten.\<close>

definition overlay_kept :: "Node \<Rightarrow> Node \<Rightarrow> bool" where
  "overlay_kept a n \<longleftrightarrow> nd_config n = nd_config a \<and> nd_routes n = nd_routes a \<and>
     (\<forall>i. om_find i (nd_neighbors a) \<noteq> None \<longrightarrow> om_find i (nd_neighbors n) \<noteq> None)"

definition calm :: "Node \<Rightarrow> Node \<Rightarrow> bool" where
  "calm a n \<longleftrightarrow> nd_armed n = nd_armed a \<and> overlay_kept a n \<and> nd_num_chains n = nd_num_chains a \<and>
     nd_purge_timer n = nd_purge_timer a \<and> (\<exists>os. nd_out n = nd_out a @ os \<and> filter loud os = [])"

named_theorems calm_intros \<open>operations that arm no timer and make no clock event\<close>

lemma overlay_kept_refl [simp]: "overlay_kept n n"
  by (simp add: overlay_kept_def)

lemma overlay_kept_trans: "overlay_kept a b \<Longrightarrow> overlay_kept b c \<Longrightarrow> overlay_kept a c"
  by (simp add: overlay_kept_def)

lemma overlay_kept_update [simp]:
  "overlay_kept a (n\<lparr>nd_out := os\<rparr>) = overlay_kept a n" "overlay_kept a (n\<lparr>nd_armed := k\<rparr>) = overlay_kept a n"
  "overlay_kept a (n\<lparr>nd_purge_timer := t\<rparr>) = overlay_kept a n" "overlay_kept a (n\<lparr>nd_clock_timers := ts\<rparr>) = overlay_kept a n"
  "overlay_kept (a\<lparr>nd_out := os\<rparr>) n = overlay_kept a n"
  by (simp_all add: overlay_kept_def)

lemma calm_refl [simp]: "calm n n"
  by (simp add: calm_def)

lemma calm_trans: "calm a b \<Longrightarrow> calm b c \<Longrightarrow> calm a c"
  by (auto simp: calm_def intro: overlay_kept_trans)

lemma calm_emit [calm_intros]: "calm a n \<Longrightarrow> filter loud os = [] \<Longrightarrow> calm a (emit os n)"
  by (auto simp: calm_def emit_def)

lemma calm_neighbor: "calm a n \<Longrightarrow> calm a (n\<lparr>nd_neighbors := om_put i nb (nd_neighbors n)\<rparr>)"
  by (auto simp: calm_def overlay_kept_def om_find_put)

lemma calm_update [simp]:
  "calm a (n\<lparr>nd_store := s\<rparr>) = calm a n" "calm a (n\<lparr>nd_unreferenced := u\<rparr>) = calm a n"
  "calm a (n\<lparr>nd_timed_routes := tr\<rparr>) = calm a n" "calm a (n\<lparr>nd_flood_seen := f\<rparr>) = calm a n"
  "calm a (n\<lparr>nd_clock_timers := ts\<rparr>) = calm a n"
  "calm a (n\<lparr>nd_reads := k\<rparr>) = calm a n" "calm a (n\<lparr>nd_draws := k\<rparr>) = calm a n"
  "calm a (n\<lparr>nd_chain_discoveries := c\<rparr>) = calm a n" "calm a (n\<lparr>nd_bounds_discoveries := b\<rparr>) = calm a n"
  "calm a (n\<lparr>nd_order_discoveries := d\<rparr>) = calm a n"
  by (simp_all add: calm_def overlay_kept_def)

lemma calm_foldl: "calm a n \<Longrightarrow> (\<And>m x. calm a m \<Longrightarrow> calm a (f m x)) \<Longrightarrow> calm a (foldl f n xs)"
  by (induction xs arbitrary: n) simp_all

section \<open>Discoveries\<close>

lemma calm_bookkeeping [calm_intros]:
  assumes "calm a n"
  shows "post (calm a) (abort_bounds_discovery p h n)" "post (calm a) (complete_bounds_discovery p h n)"
    "post (calm a) (abort_order_discovery p h1 h2 n)" "post (calm a) (complete_order_discovery p h1 h2 n)"
  using assms
  by (auto simp: abort_bounds_discovery_def complete_bounds_discovery_def abort_order_discovery_def
      complete_order_discovery_def clock_now_def Let_def filter_empty_conv split: option.split intro!: calm_emit)

lemma calm_set [simp]: "calm a (set_order key ord n) = calm a n" "calm a (set_chain_discovery h d n) = calm a n"
  by (auto simp: set_order_def set_chain_discovery_def split: option.split)

lemma calm_finish [calm_intros]:
  assumes "calm a n"
  shows "post (calm a) (finish_bounds p ch n)" "post (calm a) (finish_order p ch key n)" "post (calm a) (abandon_order p h key n)"
  using assms
  by (auto simp: finish_bounds_def finish_order_def abandon_order_def Let_def split: option.split
      intro!: post_bind_any calm_intros)

lemma calm_on_chain [calm_intros]:
  assumes "calm a n"
  shows "post (calm a) (on_chain_completed p ch n)" "post (calm a) (on_chain_aborted p e n)"
  unfolding on_chain_completed_def on_chain_aborted_def using assms
  by (auto intro!: post_bind [of "calm a"] post_foldE calm_intros)

lemma calm_call [calm_intros]:
  assumes "calm a n"
  shows "post (calm a) (call_completed p e ch cb n)" "post (calm a) (call_aborted p e cb n)"
  using assms by (auto simp: call_completed_def call_aborted_def split: ChainCallback.split intro!: calm_intros)

lemma calm_abort_chain [calm_intros]: "calm a n \<Longrightarrow> post (calm a) (abort_chain_discovery p h n)"
  by (auto simp: abort_chain_discovery_def clock_now_def Let_def split: option.split
      intro!: post_bind [of "calm a"] post_foldE calm_intros)

lemma calm_complete_chain [calm_intros]: "calm a n \<Longrightarrow> post (calm a) (complete_chain_discovery p h n)"
  by (auto simp: complete_chain_discovery_def clock_now_def Let_def split: option.split
      intro!: post_bind [of "calm a"] post_foldE calm_intros)

lemma calm_conclude [calm_intros]: "calm a n \<Longrightarrow> post (calm a) (conclude_chain_discovery p h d n)"
  by (auto simp: conclude_chain_discovery_def Let_def intro!: post_bind_any calm_intros)

lemma calm_purge [calm_intros]: "calm a n \<Longrightarrow> post (calm a) (purge_discoveries p n)"
proof -
  assume n: "calm a n"
  have s: "post (calm a) (purge_chain p limit h m)" "post (calm a) (purge_bounds p limit h m)"
    "post (calm a) (purge_order p limit key m)" if "calm a m" for limit h key m
    using that by (auto simp: purge_chain_def purge_bounds_def purge_order_def Let_def split: option.split
        intro!: post_bind [of "calm a"] calm_intros)
  show ?thesis
    unfolding purge_discoveries_def clock_now_def Let_def prod.case
    by (rule post_bind_any) (use n in \<open>auto intro!: post_bind [of "calm a"] post_foldE s\<close>)
qed

section \<open>Datagrams and calls\<close>

lemma calm_send [calm_intros]:
  assumes "calm a n"
  shows "calm a (send_chain_request nb m n)" "calm a (send_chain_response nb r n)"
    "calm a (send_clock_event_notification nb c n)" "calm a (send_chain_response_retrace j ch path n)"
  using assms by (auto simp: send_chain_request_def send_chain_response_def send_clock_event_notification_def
      send_chain_response_retrace_def Let_def split: option.split intro!: calm_emit)

lemma calm_next_hops: "calm a n \<Longrightarrow> next_hops p d ctx n = (hops, m) \<Longrightarrow> calm a m"
  by (auto simp: next_hops_def Let_def split: DiscoveryRouting.splits prod.splits)

lemma calm_flood [calm_intros]: "calm a n \<Longrightarrow> calm a (flood_chain_request p d ctx m n)"
  by (cases "next_hops p d ctx n")
    (auto simp: flood_chain_request_def Let_def split: option.split intro!: calm_foldl calm_send dest: calm_next_hops)

lemma calm_forward_cap: "calm a n \<Longrightarrow> pass_forward_cap p m n = (b, n') \<Longrightarrow> calm a n'"
  by (auto simp: pass_forward_cap_def clock_now_def Let_def split: if_splits option.splits)

lemma calm_packet [calm_intros]: "calm a n \<Longrightarrow> post (calm a) (on_packet_received p b n)"
proof -
  assume n: "calm a n"
  have "post (calm a) (process_clock_event_notification key nb chain h h' n)" for key nb chain h h'
    using n by (auto simp: process_clock_event_notification_def Let_def split: option.split intro!: post_bind_any calm_neighbor)
  moreover have "post (calm a) (process_chain_request p nb m n)" for nb m
    using n by (cases "pass_forward_cap p m n")
      (auto simp: process_chain_request_def Let_def split: option.split intro!: post_bind_any calm_intros dest: calm_forward_cap)
  moreover have "post (calm a) (process_chain_response p nb m n)" for nb m
    using n by (auto simp: process_chain_response_def Let_def split: option.split intro!: post_bind_any calm_intros)
  ultimately show ?thesis
    using n by (auto simp: on_packet_received_def split: sum.split option.split Payload.split)
qed

lemma calm_discover_chain [calm_intros]: "calm a n \<Longrightarrow> post (calm a) (discover_event_chain p e w cb n)"
  by (auto simp: discover_event_chain_def insert_chain_discovery_def clock_now_def Let_def
      split: option.split DiscoveryState.split intro!: calm_intros)

lemma calm_discover [calm_intros]:
  assumes "calm a n"
  shows "post (calm a) (discover_event_bounds p e w k n)" "post (calm a) (discover_event_order p e f w k n)"
  using assms
  by (auto simp: discover_event_bounds_def discover_event_order_def insert_bounds_discovery_def insert_order_discovery_def
      clock_now_def Let_def split: option.split DiscoveryState.split intro!: post_bind [of "calm a"] calm_intros)

lemma calm_publish [calm_intros]: "calm a n \<Longrightarrow> publish_event p data n = Inr (e, m) \<Longrightarrow> calm a m"
  by (auto simp: publish_event_def insert_event_def next_salt_def Let_def intro!: calm_emit)

section \<open>Ticks and timers\<close>

text \<open>A tick reports one clock event of its chain, a purge arms its timer once.\<close>

lemma tick_reports:
  assumes "create_clock_event p ch n = Inr m"
  shows "\<exists>c. ce_chain c = ch \<and> calm (emit [Telemetry (Clock_event_created c)] n) m"
proof -
  obtain c n1 where i: "insert_clock_event p ch n = Inr (c, n1)" using assms by (auto simp: create_clock_event_def)
  let ?n = "emit [Telemetry (Clock_event_created c)] (n1\<lparr>nd_unreferenced := (nd_unreferenced n1)[unat ch := []]\<rparr>)"
  have c: "ce_chain c = ch" "calm (emit [Telemetry (Clock_event_created c)] n) ?n"
    using i by (auto simp: insert_clock_event_def next_salt_def clock_now_def Let_def emit_def calm_def overlay_kept_def split: if_splits)
  have "calm (emit [Telemetry (Clock_event_created c)] n)
      (foldl (\<lambda>n (i, nb). send_clock_event_notification nb c n) ?n (nd_neighbors ?n))"
    by (rule calm_foldl [OF c(2)]) (auto intro: calm_send split: prod.splits)
  then show ?thesis
    using assms c(1) by (auto simp: create_clock_event_def i Let_def split: if_splits)
qed

lemma purge_rearms:
  assumes "on_timer p Purge_timer n = Inr m"
  shows "\<exists>n1 delay. calm n n1 \<and> m = (emit [Schedule (p_timer p (nd_armed n)) delay Purge_timer]
    (n1\<lparr>nd_armed := Suc (nd_armed n)\<rparr>))\<lparr>nd_purge_timer := p_timer p (nd_armed n)\<rparr>"
proof -
  obtain n1 where n1: "purge_discoveries p n = Inr n1" "m = schedule_purge_timer p n1" using assms by (auto simp: on_timer_def)
  have "calm n n1" using postD [OF calm_purge [OF calm_refl] n1(1)] .
  then show ?thesis using n1(2) by (auto simp: schedule_purge_timer_def schedule_after_def Let_def calm_def)
qed

lemma on_timer_frame: "on_timer p t n = Inr m \<Longrightarrow> nd_armed n \<le> nd_armed m \<and> overlay_kept n m"
proof (cases t)
  case (Clock_timer ch)
  moreover assume "on_timer p t n = Inr m"
  ultimately obtain n1 where n1: "create_clock_event p ch n = Inr n1" "m = schedule_clock_timer p ch n1"
    by (auto simp: on_timer_def)
  then show ?thesis
    using tick_reports [OF n1(1)] by (auto simp: schedule_clock_timer_def schedule_after_def Let_def calm_def emit_def)
next
  case Purge_timer
  moreover assume "on_timer p t n = Inr m"
  ultimately show ?thesis using purge_rearms [of p n m] by (auto simp: emit_def calm_def)
qed

end
