(* ===== verification/Simulation_Properties.thy ===== *)
theory Simulation_Properties
  imports Simulation Output_Frame
begin

text \<open>
  The simulated network: the clockwork of a daemon (the purge timer is armed in every state, the chains tick in
  their ratio) and the overlay that the configurator installs.
\<close>

section \<open>Delivering outputs\<close>

text \<open>What only timers, ticks and the configurator change.\<close>

definition rest_of :: "'a SimDaemon \<Rightarrow> NodeId \<times> 'a SimTransport \<times> int \<times> int \<times> int \<times> int list" where
  "rest_of d = (sd_node_id d, sd_transport d, sd_num_chains d, sd_chain_factor d, sd_clock_tick_count d, sd_clock_timer d)"

lemma deliver_rest: "sim_deliver now out d = Inr d' \<Longrightarrow> sd_node d' = sd_node d \<and> rest_of d' = rest_of d"
  by (auto simp: sim_deliver_def rest_of_def split: Output.splits)

lemma deliver_all_rest: "foldE (sim_deliver now) os d = Inr d' \<Longrightarrow> sd_node d' = sd_node d \<and> rest_of d' = rest_of d"
  by (induction os arbitrary: d) (auto dest: deliver_rest)

lemma deliver_quiet:
  "sim_deliver now out d = Inr d' \<Longrightarrow> \<not> loud out \<or> (\<exists>c. out = Telemetry (Clock_event_created c)) \<Longrightarrow>
   sd_scheduler d' = sd_scheduler d \<and> sd_next_msg d' = sd_next_msg d"
  by (auto simp: sim_deliver_def split: Output.splits)

lemma deliver_all_quiet:
  "foldE (sim_deliver now) os d = Inr d' \<Longrightarrow>
   (\<And>out. out \<in> set os \<Longrightarrow> \<not> loud out \<or> (\<exists>c. out = Telemetry (Clock_event_created c))) \<Longrightarrow>
   sd_scheduler d' = sd_scheduler d \<and> sd_next_msg d' = sd_next_msg d"
proof (induction os arbitrary: d)
  case (Cons out os)
  then obtain e where e: "sim_deliver now out d = Inr e" "foldE (sim_deliver now) os e = Inr d'" by auto
  then show ?case using deliver_quiet [OF e(1)] Cons.IH [OF e(2)] Cons.prems(2) by simp
qed simp

section \<open>The clockwork\<close>

fun tick_chain :: "Output \<Rightarrow> u32 list" where
  "tick_chain (Telemetry (Clock_event_created c)) = [ce_chain c]"
| "tick_chain _ = []"

text \<open>The chains of the clock events that a node has made, in their order.\<close>

definition ticked :: "Node \<Rightarrow> u32 list" where
  "ticked n = concat (map tick_chain (nd_out n))"

lemma calm_output: "\<not> loud out \<Longrightarrow> tick_chain out = []"
  by (cases out rule: loud.cases) auto

lemma calm_ticked: "calm a n \<Longrightarrow> ticked n = ticked a"
  by (auto simp: calm_def ticked_def filter_empty_conv calm_output)

lemma ticked_emit [simp]: "ticked (emit os n) = ticked n @ concat (map tick_chain os)"
  by (simp add: ticked_def emit_def)

definition purge_map :: "Node \<Rightarrow> TimerId \<Rightarrow> Timer option" where
  "purge_map n = (if 0 < sint (cfg_discovery_expiry (nd_config n)) then [nd_purge_timer n \<mapsto> Purge_timer] else Map.empty)"

text \<open>As long as the handles do not wrap, the scheduler holds the purge timer of the node and nothing else, and chain \<open>L\<close> has
  ticked once for every \<open>factor ^ L\<close> ticks of the fastest one.\<close>

definition clockwork :: "'a SimDaemon \<Rightarrow> bool" where
  "clockwork d \<longleftrightarrow> sim_ok (sd_scheduler d) \<and> unat (ss_last_id (sd_scheduler d)) = nd_armed (sd_node d) \<and>
     sim_armed (sd_scheduler d) = purge_map (sd_node d) \<and> (\<forall>m. sim_owns m (sd_scheduler d) \<longrightarrow> m < sd_next_msg d)"

definition in_ratio :: "'a SimDaemon \<Rightarrow> bool" where
  "in_ratio d \<longleftrightarrow> 0 \<le> sd_clock_tick_count d \<and> sd_num_chains d < 2 ^ 31 \<and>
     int (length (sd_clock_timer d)) = sd_clock_tick_count d + 1 \<and> (0 < sd_chain_factor d \<longrightarrow>
     (\<forall>L < nat (max 1 (sd_num_chains d)). count_list (ticked (sd_node d)) (of_nat L) =
       nat (sd_clock_tick_count d) div nat (sd_chain_factor d) ^ L))"

definition timers_small :: "'a SimDaemon \<Rightarrow> bool" where
  "timers_small d \<longleftrightarrow> Suc (nd_armed (sd_node d)) < 2 ^ 64"

definition daemon_ok :: "'a SimDaemon \<Rightarrow> bool" where
  "daemon_ok d \<longleftrightarrow> (timers_small d \<longrightarrow> clockwork d \<and> in_ratio d)"

text \<open>A call that is calm.\<close>

lemma sim_call_node: "sim_call now f d = Inr d' \<Longrightarrow> f (sd_node d) = Inr (sd_node d') \<and> rest_of d' = rest_of d"
  by (auto simp: sim_call_def rest_of_def dest!: deliver_all_rest)

lemma sim_call_calm:
  assumes "sim_call now f d = Inr d'" "post (calm (sd_node d)) (f (sd_node d))"
  shows "calm (sd_node d) (sd_node d') \<and> rest_of d' = rest_of d \<and> sd_scheduler d' = sd_scheduler d \<and> sd_next_msg d' = sd_next_msg d"
proof -
  note n = sim_call_node [OF assms(1)]
  then have c: "calm (sd_node d) (sd_node d')" using postD [OF assms(2)] by simp
  then obtain os where os: "nd_out (sd_node d') = nd_out (sd_node d) @ os" "filter loud os = []" by (auto simp: calm_def)
  have "foldE (sim_deliver now) os (d\<lparr>sd_node := sd_node d'\<rparr>) = Inr d'"
    using assms(1) n os(1) by (auto simp: sim_call_def)
  then show ?thesis using deliver_all_quiet [of now os _ d'] os(2) c n by (auto simp: filter_empty_conv)
qed

lemma calm_purge_map: "calm a n \<Longrightarrow> purge_map n = purge_map a"
  by (simp add: calm_def overlay_kept_def purge_map_def)

lemma daemon_ok_calm:
  assumes "daemon_ok d" "calm (sd_node d) (sd_node d')" "rest_of d' = rest_of d" "sd_scheduler d' = sd_scheduler d"
    "sd_next_msg d' = sd_next_msg d"
  shows "daemon_ok d'"
proof -
  have "timers_small d' = timers_small d" "clockwork d' = clockwork d" "in_ratio d' = in_ratio d"
    using assms(2-) calm_ticked [OF assms(2)] calm_purge_map [OF assms(2)]
    by (auto simp: timers_small_def clockwork_def in_ratio_def rest_of_def calm_def)
  then show ?thesis using assms(1) by (simp add: daemon_ok_def)
qed

lemma sim_call_ok:
  assumes "daemon_ok d" "sim_call now f d = Inr d'" "post (calm (sd_node d)) (f (sd_node d))"
  shows "daemon_ok d'"
  using daemon_ok_calm [OF assms(1)] sim_call_calm [OF assms(2,3)] by blast

section \<open>Ticks\<close>

text \<open>A tick leaves the scheduler alone and adds its chain.\<close>

lemma sim_call_tick:
  assumes "sim_call now (create_clock_event p ch) d = Inr d'"
  shows "ticked (sd_node d') = ticked (sd_node d) @ [ch]" "nd_armed (sd_node d') = nd_armed (sd_node d)"
    "purge_map (sd_node d') = purge_map (sd_node d)" "rest_of d' = rest_of d" "sd_scheduler d' = sd_scheduler d"
    "sd_next_msg d' = sd_next_msg d" "overlay_kept (sd_node d) (sd_node d')"
proof -
  note n = sim_call_node [OF assms]
  obtain c where c: "ce_chain c = ch" "calm (emit [Telemetry (Clock_event_created c)] (sd_node d)) (sd_node d')"
    using tick_reports n by blast
  then obtain os where os: "nd_out (sd_node d') = nd_out (sd_node d) @ Telemetry (Clock_event_created c) # os" "filter loud os = []"
    by (auto simp: calm_def emit_def)
  have "foldE (sim_deliver now) (Telemetry (Clock_event_created c) # os) (d\<lparr>sd_node := sd_node d'\<rparr>) = Inr d'"
    using assms n os(1) by (auto simp: sim_call_def)
  then show "sd_scheduler d' = sd_scheduler d" "sd_next_msg d' = sd_next_msg d"
    using deliver_all_quiet [of now "Telemetry (Clock_event_created c) # os" "d\<lparr>sd_node := sd_node d'\<rparr>" d'] os(2)
    by (auto simp: filter_empty_conv simp del: foldE.simps)
  show "ticked (sd_node d') = ticked (sd_node d) @ [ch]" using calm_ticked [OF c(2)] c(1) by simp
  show "nd_armed (sd_node d') = nd_armed (sd_node d)" "purge_map (sd_node d') = purge_map (sd_node d)"
    "overlay_kept (sd_node d) (sd_node d')"
    using c(2) by (simp_all add: calm_def emit_def purge_map_def overlay_kept_def)
qed (use sim_call_node [OF assms] in simp)

lemma tick_coarser_ticks:
  assumes "tick_coarser p now [L..<N] (sd_chain_factor d ^ (L - 1)) d = Inr d'" "0 < L"
  shows "ticked (sd_node d') = ticked (sd_node d) @
      map of_nat (filter (\<lambda>l. sd_chain_factor d ^ l dvd sd_clock_tick_count d) [L..<N]) \<and>
    nd_armed (sd_node d') = nd_armed (sd_node d) \<and> purge_map (sd_node d') = purge_map (sd_node d) \<and> rest_of d' = rest_of d \<and>
    sd_scheduler d' = sd_scheduler d \<and> sd_next_msg d' = sd_next_msg d"
  using assms
proof (induction "N - L" arbitrary: L d)
  case (Suc k)
  then have l: "[L..<N] = L # [Suc L..<N]" by (simp add: upt_conv_Cons)
  have m: "sd_chain_factor d ^ (L - 1) * sd_chain_factor d = sd_chain_factor d ^ L"
    using Suc.prems(2) by (cases L) simp_all
  let ?f = "sd_chain_factor d" and ?t = "sd_clock_tick_count d"
  obtain e where e: "(if ?t mod ?f ^ L = 0 then sim_call now (create_clock_event p (of_nat L)) d else Inr d) = Inr e"
    "tick_coarser p now [Suc L..<N] (?f ^ L) e = Inr d'"
    using Suc.prems(1) unfolding l tick_coarser.simps m by (auto simp: Let_def split: if_splits)
  have r: "ticked (sd_node e) = ticked (sd_node d) @ (if ?f ^ L dvd ?t then [of_nat L] else [])"
      "nd_armed (sd_node e) = nd_armed (sd_node d)" "purge_map (sd_node e) = purge_map (sd_node d)" "rest_of e = rest_of d"
      "sd_scheduler e = sd_scheduler d" "sd_next_msg e = sd_next_msg d"
    using e(1) by (auto simp: mod_eq_0_iff_dvd dest: sim_call_tick split: if_splits)
  have "k = N - Suc L" using Suc(2) by simp
  moreover have "sd_chain_factor e = ?f" "sd_clock_tick_count e = ?t" using r(4) by (simp_all add: rest_of_def)
  ultimately show ?case using Suc.hyps(1) [of "Suc L" e] e(2) r l by simp
qed simp

lemma count_list_distinct: "distinct xs \<Longrightarrow> count_list xs x = (if x \<in> set xs then 1 else 0)"
  by (induction xs) auto

lemma count_list_selected:
  assumes "L < N" "N \<le> 2 ^ 31"
  shows "count_list (map of_nat (filter P [1..<N]) :: u32 list) (of_nat L) = (if 1 \<le> L \<and> P L then 1 else 0)"
proof -
  have inj: "(of_nat a :: u32) = of_nat b \<longleftrightarrow> a = b" if "a < N" "b < N" for a b
    using that assms(2) by (auto simp: word_unat_eq_iff unat_of_nat)
  have "count_list (map of_nat xs :: u32 list) (of_nat L) = count_list xs L" if "set xs \<subseteq> {..<N}" for xs
    using that inj assms(1) by (induction xs) auto
  then have "count_list (map of_nat (filter P [1..<N]) :: u32 list) (of_nat L) = count_list (filter P [1..<N]) L"
    by (simp add: subset_iff)
  also have "\<dots> = (if 1 \<le> L \<and> P L then 1 else 0)"
    using assms(1) by (auto simp: count_list_distinct)
  finally show ?thesis .
qed

text \<open>The timer of the module: one tick of the fastest chain and those of the coarser ones that are due.\<close>

lemma in_ratio_tick:
  assumes "in_ratio d" "rest_of d' = (i, t, sd_num_chains d, sd_chain_factor d, sd_clock_tick_count d + 1, sd_clock_timer d @ [at])"
    and "ticked (sd_node d') = ticked (sd_node d) @ 0 #
      map of_nat (filter (\<lambda>l. sd_chain_factor d ^ l dvd sd_clock_tick_count d + 1) [1..<nat (sd_num_chains d)])"
  shows "in_ratio d'"
  unfolding in_ratio_def
proof (intro conjI impI allI)
  have r: "sd_num_chains d' = sd_num_chains d" "sd_chain_factor d' = sd_chain_factor d" "sd_clock_tick_count d' = sd_clock_tick_count d + 1"
    "sd_clock_timer d' = sd_clock_timer d @ [at]"
    using assms(2) by (simp_all add: rest_of_def)
  have ok: "0 \<le> sd_clock_tick_count d" "sd_num_chains d < 2 ^ 31" "int (length (sd_clock_timer d)) = sd_clock_tick_count d + 1"
    using assms(1) by (simp_all add: in_ratio_def)
  show "0 \<le> sd_clock_tick_count d'" "sd_num_chains d' < 2 ^ 31" "int (length (sd_clock_timer d')) = sd_clock_tick_count d' + 1"
    using ok r by simp_all
  fix L
  assume f: "0 < sd_chain_factor d'" and L: "L < nat (max 1 (sd_num_chains d'))"
  let ?f = "nat (sd_chain_factor d)" and ?c = "nat (sd_clock_tick_count d)"
  have "sd_chain_factor d ^ l dvd sd_clock_tick_count d + 1 \<longleftrightarrow> ?f ^ l dvd Suc ?c" for l
    using f r ok(1) by (simp add: int_dvd_int_iff [symmetric] del: int_dvd_int_iff) (simp add: add.commute)
  then have t: "ticked (sd_node d') = ticked (sd_node d) @ 0 # map of_nat (filter (\<lambda>l. ?f ^ l dvd Suc ?c) [1..<nat (sd_num_chains d)])"
    using assms(3) by simp
  have "count_list (ticked (sd_node d)) (of_nat L) = ?c div ?f ^ L" using assms(1) f L r by (simp add: in_ratio_def)
  moreover have "count_list ((0 :: u32) # map of_nat (filter (\<lambda>l. ?f ^ l dvd Suc ?c) [1..<nat (sd_num_chains d)])) (of_nat L) =
      (if ?f ^ L dvd Suc ?c then 1 else 0)"
  proof (cases "L = 0")
    case True
    have "(0 :: u32) \<notin> of_nat ` {1..<nat (sd_num_chains d)}" using ok(2) by (auto simp: word_unat_eq_iff unat_of_nat dest!: dvd_imp_le)
    then have "count_list (map of_nat (filter P [1..<nat (sd_num_chains d)])) (0 :: u32) = 0" for P
      by (auto simp: count_list_0_iff)
    then show ?thesis using True by simp
  next
    case False
    then have "L < nat (sd_num_chains d)" using L r by (auto simp: max_def split: if_splits)
    moreover from this have "(of_nat L :: u32) \<noteq> 0" using False ok(2) by (auto simp: word_unat_eq_iff unat_of_nat dest!: dvd_imp_le)
    ultimately show ?thesis using count_list_selected [of L "nat (sd_num_chains d)" "\<lambda>l. ?f ^ l dvd Suc ?c"] False ok(2) by simp
  qed
  moreover have "nat (sd_clock_tick_count d') = Suc ?c" using r ok(1) by simp
  moreover have "Suc ?c div ?f ^ L = ?c div ?f ^ L + (if ?f ^ L dvd Suc ?c then 1 else 0)"
    by (simp add: div_Suc mod_greater_zero_iff_not_dvd)
  ultimately show "count_list (ticked (sd_node d')) (of_nat L) = nat (sd_clock_tick_count d') div nat (sd_chain_factor d') ^ L"
    unfolding t count_list_append r(2) by presburger
qed

lemma clock_timer_ok:
  assumes "daemon_ok d" "daemon_handle_message p now interval Create_clock_event_timer d = Inr d'"
  shows "daemon_ok d'"
proof -
  obtain e g where e: "sim_call now (create_clock_event p 0) d = Inr e"
    and g: "tick_coarser p now [1..<nat (sd_num_chains e)] 1 (e\<lparr>sd_clock_tick_count := sd_clock_tick_count e + 1\<rparr>) = Inr g"
    and d': "d' = scheduleCreateClockEventTimer now interval (g\<lparr>sd_signals := sd_signals g @
      [(clockEventsRetained, Count (int (clock_event_count (nd_store (sd_node g)))))]\<rparr>)"
    using assms(2) by (auto simp: daemon_handle_message_def split: if_splits)
  note t = sim_call_tick [OF e]
  let ?e = "e\<lparr>sd_clock_tick_count := sd_clock_tick_count e + 1\<rparr>"
  have u: "ticked (sd_node g) = ticked (sd_node e) @
      map of_nat (filter (\<lambda>l. sd_chain_factor e ^ l dvd sd_clock_tick_count e + 1) [1..<nat (sd_num_chains e)])"
    "nd_armed (sd_node g) = nd_armed (sd_node e)" "purge_map (sd_node g) = purge_map (sd_node e)" "rest_of g = rest_of ?e"
    "sd_scheduler g = sd_scheduler e" "sd_next_msg g = sd_next_msg e"
    using tick_coarser_ticks [of p now 1 "nat (sd_num_chains e)" ?e g] g by simp_all
  have d: "sd_node d' = sd_node g" "rest_of (d'\<lparr>sd_clock_timer := sd_clock_timer g\<rparr>) = rest_of g" "sd_clock_timer d' = sd_clock_timer g @ [now + interval]" "sd_scheduler d' = sd_scheduler g" "sd_next_msg d' = sd_next_msg g"
    by (simp_all add: d' scheduleCreateClockEventTimer_def rest_of_def)
  have "timers_small d' = timers_small d" "clockwork d' = clockwork d"
    using t u d by (simp_all add: timers_small_def clockwork_def)
  moreover have "in_ratio d \<Longrightarrow> in_ratio d'"
    by (rule in_ratio_tick) (use t u d in \<open>simp_all add: rest_of_def\<close>)
  ultimately show ?thesis using assms(1) by (auto simp: daemon_ok_def)
qed

section \<open>Timers\<close>

text \<open>The purge timer fires, is forgotten by the scheduler and armed again under the handle the node expects.\<close>

lemma sim_fire_law:
  assumes "sim_ok s" "sim_fire m s = Some (i, Some t, s')"
  shows "sim_armed s i = Some t" "sim_ok s'" "sim_armed s' = (sim_armed s)(i := None)" "ss_last_id s' = ss_last_id s"
    "sim_owns x s' \<Longrightarrow> sim_owns x s"
proof -
  show "sim_armed s i = Some t" using sim_fire_callback [OF assms] by simp
  show "sim_ok s'" "sim_armed s' = (sim_armed s)(i := None)"
    using ss.pop_law [OF assms(1), of m i t s'] assms(2) by (simp_all add: sim_pop_def)
  show "ss_last_id s' = ss_last_id s" "sim_owns x s' \<Longrightarrow> sim_owns x s"
    using assms(2) by (auto simp: sim_fire_def sim_owns_def om_find_erase split: option.splits if_splits)
qed

text \<open>Arming a timer for the node.\<close>

lemma deliver_schedule:
  assumes "sim_ok (sd_scheduler d)" "\<forall>m. sim_owns m (sd_scheduler d) \<longrightarrow> m < sd_next_msg d"
    and "Suc (unat (ss_last_id (sd_scheduler d))) < 2 ^ 64" "sim_deliver now (Schedule h delay t) d = Inr d'"
  shows "sim_ok (sd_scheduler d')" "unat (ss_last_id (sd_scheduler d')) = Suc (unat (ss_last_id (sd_scheduler d)))"
    "sim_armed (sd_scheduler d') = (sim_armed (sd_scheduler d))(of_nat (Suc (unat (ss_last_id (sd_scheduler d)))) \<mapsto> t)"
    "\<forall>m. sim_owns m (sd_scheduler d') \<longrightarrow> m < sd_next_msg d'"
proof -
  obtain i s where a: "sim_after (sd_next_msg d, now + sint delay) t (sd_scheduler d) = (i, s)" by fastforce
  have d': "sd_scheduler d' = s" "sd_next_msg d' = Suc (sd_next_msg d)" using assms(4) a by (auto simp: sim_deliver_def)
  have "\<not> sim_owns (sd_next_msg d) (sd_scheduler d)" using assms(2) by blast
  note l = sim_after_law [OF assms(1) this assms(3) a]
  have "i = of_nat (Suc (unat (ss_last_id (sd_scheduler d))))" 
    using l(2) assms(3) by (simp add: word_unat_eq_iff unat_of_nat del: of_nat_Suc)
  then show "sim_ok (sd_scheduler d')" "unat (ss_last_id (sd_scheduler d')) = Suc (unat (ss_last_id (sd_scheduler d)))"
    "sim_armed (sd_scheduler d') = (sim_armed (sd_scheduler d))(of_nat (Suc (unat (ss_last_id (sd_scheduler d)))) \<mapsto> t)"
    using l d' by simp_all
  have "sim_owns m s \<Longrightarrow> m = sd_next_msg d \<or> sim_owns m (sd_scheduler d)" for m
    using a by (auto simp: sim_after_def sim_owns_def Let_def om_find_put split: if_splits)
  then show "\<forall>m. sim_owns m (sd_scheduler d') \<longrightarrow> m < sd_next_msg d'" using d' assms(2) less_Suc_eq by auto
qed

lemma purge_call:
  assumes "sim_call now (on_timer p Purge_timer) d = Inr d'"
  shows "\<exists>n1 e h delay. calm (sd_node d) n1 \<and> h = p_timer p (nd_armed (sd_node d)) \<and>
    sd_node d' = (emit [Schedule h delay Purge_timer] (n1\<lparr>nd_armed := Suc (nd_armed (sd_node d))\<rparr>))\<lparr>nd_purge_timer := h\<rparr> \<and>
    sim_deliver now (Schedule h delay Purge_timer) e = Inr d' \<and> rest_of d' = rest_of d \<and>
    sd_scheduler e = sd_scheduler d \<and> sd_next_msg e = sd_next_msg d"
proof -
  note n = sim_call_node [OF assms]
  let ?h = "p_timer p (nd_armed (sd_node d))"
  obtain n1 delay where n1: "calm (sd_node d) n1"
    "sd_node d' = (emit [Schedule ?h delay Purge_timer] (n1\<lparr>nd_armed := Suc (nd_armed (sd_node d))\<rparr>))\<lparr>nd_purge_timer := ?h\<rparr>"
    using purge_rearms n by blast
  then obtain os where os: "nd_out n1 = nd_out (sd_node d) @ os" "filter loud os = []" by (auto simp: calm_def)
  have "foldE (sim_deliver now) (os @ [Schedule ?h delay Purge_timer]) (d\<lparr>sd_node := sd_node d'\<rparr>) = Inr d'"
    using assms n n1(2) os(1) by (auto simp: sim_call_def emit_def)
  then obtain e where e: "foldE (sim_deliver now) os (d\<lparr>sd_node := sd_node d'\<rparr>) = Inr e"
    "sim_deliver now (Schedule ?h delay Purge_timer) e = Inr d'" by (auto simp: foldE_append)
  then show ?thesis
    using n1 n deliver_all_quiet [OF e(1)] os(2) by (force simp: filter_empty_conv)
qed

lemma timer_ok:
  assumes "daemon_ok d" "daemon_handle_message (sim_ports nows draw) now interval (Self_message m) d = Inr d'"
  shows "daemon_ok d'"
  unfolding daemon_ok_def
proof (rule impI)
  let ?p = "sim_ports nows draw"
  assume small: "timers_small d'"
  obtain i t s where s: "sim_fire m (sd_scheduler d) = Some (i, Some t, s)"
    and c: "sim_call now (on_timer ?p t) (d\<lparr>sd_scheduler := s\<rparr>) = Inr d'"
    using assms(2) by (auto simp: daemon_handle_message_def split: option.splits)
  have "nd_armed (sd_node d) \<le> nd_armed (sd_node d')"
    using sim_call_node [OF c] on_timer_frame [of ?p t "sd_node d"] by simp
  then have w: "clockwork d" "in_ratio d" "timers_small d"
    using assms(1) small by (simp_all add: daemon_ok_def timers_small_def)
  note f = sim_fire_law [OF _ s]
  have ok: "sim_ok (sd_scheduler d)" using w(1) by (simp add: clockwork_def)
  have "purge_map (sd_node d) i = Some t" using f(1) [OF ok] w(1) by (simp add: clockwork_def)
  then have i: "i = nd_purge_timer (sd_node d)" "t = Purge_timer" "0 < sint (cfg_discovery_expiry (nd_config (sd_node d)))"
    by (auto simp: purge_map_def split: if_splits)
  have empty: "sim_armed s = Map.empty" using f(3) [OF ok] w(1) i by (auto simp: clockwork_def purge_map_def)
  obtain n1 e h delay where n: "calm (sd_node d) n1" "h = p_timer ?p (nd_armed (sd_node d))"
    "sd_node d' = (emit [Schedule h delay Purge_timer] (n1\<lparr>nd_armed := Suc (nd_armed (sd_node d))\<rparr>))\<lparr>nd_purge_timer := h\<rparr>"
    "sim_deliver now (Schedule h delay Purge_timer) e = Inr d'" "rest_of d' = rest_of d" "sd_scheduler e = s" "sd_next_msg e = sd_next_msg d"
    using purge_call [OF c [unfolded i(2)]] by (auto simp: rest_of_def)
  have last: "unat (ss_last_id s) = nd_armed (sd_node d)" using w(1) f(4) [OF ok] by (simp add: clockwork_def)
  have e: "sim_ok (sd_scheduler e)" "\<forall>m. sim_owns m (sd_scheduler e) \<longrightarrow> m < sd_next_msg e"
    "Suc (unat (ss_last_id (sd_scheduler e))) < 2 ^ 64"
    using n(6,7) f(2,5) [OF ok] w(1,3) last by (auto simp: clockwork_def timers_small_def)
  note l = deliver_schedule [OF e n(4)]
  have "h = of_nat (Suc (nd_armed (sd_node d)))" by (simp add: n(2) sim_ports_def)
  then have "purge_map (sd_node d') = [of_nat (Suc (nd_armed (sd_node d))) \<mapsto> Purge_timer]"
    using i(3) n(1,3) by (simp add: purge_map_def calm_def overlay_kept_def emit_def)
  then have "clockwork d'"
    using l n(3,6) last empty by (simp add: clockwork_def emit_def)
  moreover have "ticked (sd_node d') = ticked (sd_node d)"
    using calm_ticked [OF n(1)] by (simp add: n(3) ticked_def emit_def)
  then have "in_ratio d'" using w(2) n(5) by (simp add: in_ratio_def rest_of_def)
  ultimately show "clockwork d' \<and> in_ratio d'" by blast
qed

section \<open>Every daemon of a simulation\<close>

lemma handle_message_ok:
  assumes "daemon_ok d" "daemon_handle_message (sim_ports nows draw) now interval msg d = Inr d'"
  shows "daemon_ok d'"
proof (cases msg)
  case Create_clock_event_timer
  then show ?thesis using clock_timer_ok assms by blast
next
  case (Self_message m)
  then show ?thesis using timer_ok assms by blast
next
  case (Socket_data b)
  then have "sim_call now (on_packet_received (sim_ports nows draw) b) d = Inr d'"
    using assms(2) by (simp add: daemon_handle_message_def)
  then show ?thesis using sim_call_ok [OF assms(1)] calm_packet by force
qed (use assms in \<open>simp_all add: daemon_handle_message_def\<close>)

lemma on_daemon_ok:
  assumes "list_all daemon_ok (w_daemons w)" "on_daemon i f w = Inr w'" "\<And>d d'. daemon_ok d \<Longrightarrow> f d = Inr d' \<Longrightarrow> daemon_ok d'"
  shows "list_all daemon_ok (w_daemons w')"
  using assms(1,2) assms(3) [of "w_daemons w ! i"]
  by (auto simp: on_daemon_def find_daemon_def list_all_length nth_list_update split: if_splits)

lemma overlay_calls [simp]:
  "daemon_learn_route now a b d = Inr (d\<lparr>sd_node := learn_route a b (sd_node d)\<rparr>)"
  "daemon_add_neighbor now a ad d = Inr (d\<lparr>sd_node := add_neighbor a (sd_node d), sd_transport := set_address a ad (sd_transport d)\<rparr>)"
  by (simp_all add: daemon_learn_route_def daemon_add_neighbor_def sim_call_def learn_route_def add_neighbor_def Let_def
      split: option.split)

lemma install_route_ok:
  fixes w w' :: "'a World"
  assumes "list_all daemon_ok (w_daemons w)" "install_route path now dest src w = Inr w'"
  shows "list_all daemon_ok (w_daemons w')"
proof -
  have o: "daemon_ok (d\<lparr>sd_node := learn_route a b (sd_node d)\<rparr>)"
    "daemon_ok (d\<lparr>sd_node := add_neighbor a (sd_node d), sd_transport := t\<rparr>)"
    if "daemon_ok d" for a b t and d :: "'a SimDaemon"
    using that by (simp_all add: daemon_ok_def timers_small_def clockwork_def in_ratio_def ticked_def purge_map_def
        learn_route_def add_neighbor_def Let_def split: option.split)
  have l: "list_all daemon_ok (w_daemons v')" if "list_all daemon_ok (w_daemons v)"
    "on_daemon i (daemon_learn_route now a b) v = Inr v'" for a b i and v v' :: "'a World"
    by (rule on_daemon_ok [OF that]) (auto intro: o)
  have n: "list_all daemon_ok (w_daemons v')" if "list_all daemon_ok (w_daemons v)"
    "on_daemon i (daemon_add_neighbor now a b) v = Inr v'" for a b i and v v' :: "'a World"
    by (rule on_daemon_ok [OF that]) (auto intro: o)
  show ?thesis
    using assms by (auto simp: install_route_def split: if_splits option.splits simp del: overlay_calls dest: n [OF l [OF assms(1)]])
qed

lemma configurator_ok:
  fixes w w' :: "'a World"
  assumes "configurator_initialize path now k w = Inr w'" "list_all daemon_ok (w_daemons w)"
  shows "list_all daemon_ok (w_daemons w')"
  using assms(1) unfolding configurator_initialize_def
proof (rule foldE_invariant [where P = "\<lambda>w. list_all daemon_ok (w_daemons w)"])
  fix dest and v v' :: "'a World"
  assume "list_all daemon_ok (w_daemons v)" "bindE (find_daemon dest v) (\<lambda>_. foldE (install_route path now dest) [0..<k]
    (v\<lparr>w_network_nodes := w_network_nodes v @ [dest]\<rparr>)) = Inr v'"
  then show "list_all daemon_ok (w_daemons v')"
    by (auto elim!: foldE_invariant [where P = "\<lambda>w. list_all daemon_ok (w_daemons w)"] intro: install_route_ok)
qed (rule assms(2))

lemma start_purge:
  assumes "\<forall>c \<in> set (cfg_chains (nd_config n)). cc_interval c = 0"
  shows "start p n = (if 0 < sint (cfg_discovery_expiry (nd_config n)) then schedule_purge_timer p n else n)"
proof -
  have "foldl (\<lambda>n chain. if 0 < sint (cc_interval (cfg_chains (nd_config n) ! chain)) then schedule_clock_timer p (of_nat chain) n else n)
      n xs = n" if "set xs \<subseteq> {..<length (cfg_chains (nd_config n))}" for xs
    using that assms by (induction xs) auto
  then show ?thesis by (simp add: start_def Let_def subset_iff)
qed

lemma initialize_ok:
  assumes "daemon_initialize (sim_ports nows draw) now interval pars i = Inr d"
  shows "daemon_ok d"
proof -
  let ?p = "sim_ports nows draw"
  obtain n where n: "make_node (node_id_of_u64 (of_int i)) empty_store (sim_config pars) = Inr n"
    using assms by (auto simp: daemon_initialize_def Let_def)
  have c: "nd_config n = effective_config (sim_config pars)" "nd_out n = []" "nd_armed n = 0"
    using n by (auto simp: make_node_def hydrate_working_state_def Let_def)
  have st: "start ?p n = (if 0 < sint (cfg_discovery_expiry (nd_config n)) then schedule_purge_timer ?p n else n)"
    by (rule start_purge) (auto simp: c effective_config_def sim_config_def)
  have k: "to_int (par_clockChainCount pars) < 2 ^ 31" using sint_less [of "of_int (par_clockChainCount pars) :: 32 word"] by (simp add: to_int_def)
  have init: "sim_ok (SimScheduler_init :: Timer SimScheduler)" "sim_armed (SimScheduler_init :: Timer SimScheduler) = Map.empty"
    "ss_last_id (SimScheduler_init :: Timer SimScheduler) = 0" "\<And>m. \<not> sim_owns m (SimScheduler_init :: Timer SimScheduler)"
    by (auto simp: sim_ok_def SimScheduler_init_def sim_armed_def sim_owns_def)
  let ?d = "scheduleCreateClockEventTimer now interval
    \<lparr>sd_node_id = node_id_of_u64 (of_int i), sd_node = n, sd_transport = \<lparr>tp_port = kPort, tp_addresses = []\<rparr>,
     sd_scheduler = SimScheduler_init, sd_num_chains = to_int (par_clockChainCount pars),
     sd_chain_factor = to_int (par_clockChainFactor pars), sd_clock_tick_count = 0, sd_next_msg = 0,
     sd_clock_timer = [], sd_signals = [], sd_packets = [], sd_log = []\<rparr>"
  have d: "sim_call now (\<lambda>n. Inr (start ?p n)) ?d = Inr d" using assms n by (simp add: daemon_initialize_def Let_def)
  have r: "rest_of d = rest_of ?d" and nd: "sd_node d = start ?p n"
    using sim_call_node [OF d] by (simp_all add: scheduleCreateClockEventTimer_def)
  show ?thesis
  proof (cases "0 < sint (cfg_discovery_expiry (nd_config n))")
    case False
    then have "d = ?d" using d c st by (simp add: sim_call_def scheduleCreateClockEventTimer_def)
    then show ?thesis using False c k init
      by (simp add: daemon_ok_def clockwork_def in_ratio_def purge_map_def ticked_def scheduleCreateClockEventTimer_def)
  next
    case True
    let ?delay = "of_int (sint (cfg_discovery_expiry (nd_config n)) div 100)" and ?n = "schedule_purge_timer ?p n"
    have o: "nd_out ?n = [Schedule 1 ?delay Purge_timer]" "nd_armed ?n = 1" "nd_purge_timer ?n = 1" "nd_config ?n = nd_config n"
      using c by (simp_all add: schedule_purge_timer_def schedule_after_def emit_def sim_ports_def Let_def)
    have "sim_deliver now (Schedule 1 ?delay Purge_timer) (?d\<lparr>sd_node := ?n\<rparr>) = Inr d"
      using d True c(2) o(1) st by (simp add: sim_call_def scheduleCreateClockEventTimer_def)
    note l = deliver_schedule [OF _ _ _ this]
    have "clockwork d"
      using l True o nd st init by (simp add: clockwork_def purge_map_def scheduleCreateClockEventTimer_def)
    moreover have "in_ratio d"
      using r nd st True k o by (simp add: in_ratio_def rest_of_def ticked_def scheduleCreateClockEventTimer_def)
    ultimately show ?thesis by (simp add: daemon_ok_def)
  qed
qed

lemma initialize_all_ok:
  "initialize_daemons (\<lambda>i. sim_ports (nows i) (draws i)) now intervals pars k ids = Inr ds \<Longrightarrow> list_all daemon_ok ds"
  by (induction ids arbitrary: k ds) (auto dest: initialize_ok)

lemma world_step_ok:
  assumes "world_step (\<lambda>i. sim_ports (nows i) (draws i)) w w'" "list_all daemon_ok (w_daemons w)"
  shows "list_all daemon_ok (w_daemons w')"
  using assms(1)
proof cases
  case (daemon i now interval msg)
  then show ?thesis using on_daemon_ok [OF assms(2)] handle_message_ok by blast
next
  case (publisher i now interval len draw)
  let ?p = "sim_ports (nows i) (draws i)"
  have "daemon_ok d'" if "daemon_ok d" "daemon_publish ?p now data d = Inr d'" for data and d d' :: "'a SimDaemon"
    using that by (auto simp: daemon_publish_def intro!: sim_call_ok [OF that(1)] post_bind_any split: prod.split dest: calm_publish [OF calm_refl])
  then show ?thesis
    using publisher on_daemon_ok [OF assms(2)]
    by (auto simp: publisher_handle_message_def publisher_create_event_def schedule_timer_def)
next
  case (browser i now interval r1 r2 t)
  let ?p = "sim_ports (nows i) (draws i)"
  have c: "list_all daemon_ok (w_daemons v)" if "on_daemon i (sim_call now f) w = Inr v"
    "\<And>n. post (calm n) (f n)" for f and v :: "'a World"
    by (rule on_daemon_ok [OF assms(2) that(1)]) (auto intro: sim_call_ok that(2))
  note calls = c [OF _ calm_discover_chain [OF calm_refl]] c [OF _ calm_discover(1) [OF calm_refl]] c [OF _ calm_discover(2) [OF calm_refl]]
  have "list_all daemon_ok (w_daemons v)" if "process_chain_timer ?p now r1 i w = Inr v" for v
    using that assms(2) by (auto simp: process_chain_timer_def split: option.splits dest: calls)
  moreover have "list_all daemon_ok (w_daemons v)" if "process_bounds_timer ?p now r1 i w = Inr v" for v
    using that assms(2) by (auto simp: process_bounds_timer_def split: option.splits dest: calls)
  moreover have "list_all daemon_ok (w_daemons v)" if v: "process_order_timer ?p now r1 r2 i w = Inr v" for v
  proof -
    obtain e1 e2 where "find_random_event r1 w = Inr e1" "find_random_event r2 w = Inr e2"
      using v by (auto simp: process_order_timer_def)
    then show ?thesis using v assms(2) by (cases e1; cases e2) (auto simp: process_order_timer_def dest: calls)
  qed
  ultimately show ?thesis
    using browser by (auto simp: browser_handle_message_def schedule_unless_zero_def schedule_timer_def split: ModuleTimer.splits if_splits)
next
  case (initialize now c b ord i interval)
  then show ?thesis using assms(2)
    by (auto simp: browser_initialize_def publisher_initialize_def schedule_unless_zero_def schedule_timer_def)
qed

lemma world_ok:
  assumes "world_reachable (\<lambda>i. sim_ports (nows i) (draws i)) pars w"
  shows "list_all daemon_ok (w_daemons w)"
  using assms
proof (induction rule: world_reachable.induct)
  case (boot now intervals ids ds path w)
  then show ?case using configurator_ok initialize_all_ok by fastforce
next
  case (step w w')
  then show ?case using world_step_ok by blast
qed

section \<open>A sample network\<close>

text \<open>One daemon with two chains whose clock timer has fired once.\<close>

definition sample_pars :: SimPars where
  "sample_pars = \<lparr>par_clockChainCount = 2, par_clockChainFactor = 2, par_clockChainKeep = 0, par_discoveryExpiryTime = 100,
     par_discoveryHopLimit = 0, par_discoveryFanout = 0, par_discoveryForwardCap = 0, par_discoveryRouting = ''static''\<rparr>"

abbreviation sample_sim :: "nat \<Rightarrow> NodePorts" where
  "sample_sim \<equiv> (\<lambda>i. sim_ports ((\<lambda>_. of_nat) i) ((\<lambda>_. of_nat) i))"

lemma sample_pars_config: "effective_config (sim_config sample_pars) = sim_config sample_pars"
  "length (cfg_chains (sim_config sample_pars)) = 2" "cfg_discovery_expiry (sim_config sample_pars) = 100"
  "cfg_discovery_routing (sim_config sample_pars) = static_shortest_path"
  "\<forall>c \<in> set (cfg_chains (sim_config sample_pars)). c = \<lparr>cc_interval = 0, cc_keep = 0\<rparr>"
  by (simp_all add: sample_pars_def sim_config_def effective_config_def to_int_def to_size_def)

text \<open>A daemon is initialized whatever its number and its parameters.\<close>

lemma initialize_total:
  "\<exists>n d. make_node (node_id_of_u64 (of_int i)) empty_store (sim_config pars) = Inr n \<and>
     daemon_initialize (sim_ports nows draw) now interval pars i = Inr d \<and>
     sd_node d = start (sim_ports nows draw) n \<and> sd_node_id d = node_id_of_u64 (of_int i) \<and>
     sd_num_chains d = to_int (par_clockChainCount pars) \<and> sd_chain_factor d = to_int (par_clockChainFactor pars) \<and>
     sd_clock_tick_count d = 0 \<and> sd_transport d = \<lparr>tp_port = kPort, tp_addresses = []\<rparr>"
proof -
  let ?p = "sim_ports nows draw"
  obtain n where n: "make_node (node_id_of_u64 (of_int i)) empty_store (sim_config pars) = Inr n"
    using make_node_total [OF store_ok_empty] by blast
  have c: "nd_config n = effective_config (sim_config pars)" "nd_out n = []"
    using n by (auto simp: make_node_def hydrate_working_state_def Let_def)
  have "start ?p n = (if 0 < sint (cfg_discovery_expiry (nd_config n)) then schedule_purge_timer ?p n else n)"
    by (rule start_purge) (auto simp: c effective_config_def sim_config_def)
  then show ?thesis
    using n c(2) by (auto simp: daemon_initialize_def Let_def sim_call_def schedule_purge_timer_def schedule_after_def emit_def
        scheduleCreateClockEventTimer_def sim_deliver_def)
qed

lemma sample_tick:
  assumes "make_node i empty_store (sim_config sample_pars) = Inr n" "sd_node d = start p n" "sd_clock_tick_count d = 0"
    "sd_num_chains d = 2" "sd_chain_factor d = 2"
  shows "\<exists>d'. daemon_handle_message p now interval Create_clock_event_timer d = Inr d' \<and> sd_clock_tick_count d' = 1 \<and>
    sd_num_chains d' = 2 \<and> sd_chain_factor d' = 2 \<and> nd_armed (sd_node d') = nd_armed (sd_node d) \<and>
    nd_config (sd_node d') = nd_config (sd_node d)"
proof -
  note ok = make_node_ok [of _ p, OF log_ok_empty assms(1)]
  let ?n = "start p n"
  have w: "working ?n = working n" by simp
  have n: "node_ok p ?n" "nd_num_chains ?n = 2" "nd_config ?n = sim_config sample_pars"
    using node_ok_working [OF w] ok sample_pars_config w node_okD(6) [OF ok(1)] by (simp_all add: working_def)
  have "nd_neighbors n = []" using assms(1) by (auto simp: make_node_def hydrate_spec Let_def) (simp add: empty_store_def)
  then have nb: "nd_neighbors ?n = []" using w by (simp add: working_def)
  obtain c n1 where c: "insert_clock_event p 0 ?n = Inr (c, n1)" using insert_clock_total [OF n(1), of 0] n(2) by auto
  have n1: "nd_neighbors n1 = []" "nd_out n1 = nd_out ?n" "nd_armed n1 = nd_armed ?n" "nd_config n1 = nd_config ?n"
    using c nb by (auto simp: insert_clock_event_def next_salt_def clock_now_def Let_def split: if_splits)
  obtain m where m: "create_clock_event p 0 ?n = Inr m" "nd_out m = nd_out ?n @ [Telemetry (Clock_event_created c)]"
    "nd_armed m = nd_armed ?n" "nd_config m = nd_config ?n"
    using c n1 by (auto simp: create_clock_event_def Let_def emit_def)
  moreover have "[1..<2] = [1 :: nat]" by (simp add: upt_rec)
  ultimately show ?thesis
    using assms(2-) by (simp add: daemon_handle_message_def sim_call_def sim_deliver_def scheduleCreateClockEventTimer_def)
qed

lemma sample_network:
  "\<exists>w d. world_reachable sample_sim sample_pars w \<and> (d :: unit SimDaemon) \<in> set (w_daemons w) \<and>
     sd_clock_tick_count d = 1 \<and> sd_num_chains d = 2 \<and> sd_chain_factor d = 2 \<and> nd_armed (sd_node d) = 1 \<and>
     cfg_discovery_expiry (nd_config (sd_node d)) = 100"
proof -
  let ?p = "sim_ports of_nat of_nat"
  obtain n and d :: "unit SimDaemon" where d: "make_node (node_id_of_u64 (of_int 2)) empty_store (sim_config sample_pars) = Inr n"
    "daemon_initialize ?p 0 10 sample_pars 2 = Inr d" "sd_node d = start ?p n"
    "sd_num_chains d = to_int (par_clockChainCount sample_pars)" "sd_chain_factor d = to_int (par_clockChainFactor sample_pars)"
    "sd_clock_tick_count d = 0"
    using initialize_total [where ?'a = unit] by metis
  have k: "sd_num_chains d = 2" "sd_chain_factor d = 2" using d(4,5) by (simp_all add: sample_pars_def to_int_def)
  let ?w = "\<lparr>w_daemons = [d], w_network_nodes = [0], w_timers = []\<rparr>"
  have "configurator_initialize (\<lambda>_ _. None) 0 (length [2 :: int]) \<lparr>w_daemons = [d], w_network_nodes = [], w_timers = []\<rparr> = Inr ?w"
    by (simp add: configurator_initialize_def find_daemon_def install_route_def)
  then have b: "world_reachable sample_sim sample_pars ?w"
    by (intro world_reachable.boot [where ids = "[2]" and now = 0 and intervals = "\<lambda>_. 10" and path = "\<lambda>_ _. None" and ds = "[d]"])
      (simp_all add: d(2))
  obtain d' where d': "daemon_handle_message ?p 10 10 Create_clock_event_timer d = Inr d'" "sd_clock_tick_count d' = 1"
    "sd_num_chains d' = 2" "sd_chain_factor d' = 2" "nd_armed (sd_node d') = nd_armed (sd_node d)"
    "nd_config (sd_node d') = nd_config (sd_node d)"
    using sample_tick [OF d(1,3,6) k] by blast
  have c: "nd_config n = sim_config sample_pars" "nd_armed n = 0"
    using d(1) sample_pars_config(1) by (auto simp: make_node_def hydrate_spec Let_def)
  have "start ?p n = schedule_purge_timer ?p n"
    using sample_pars_config by (subst start_purge) (auto simp: c)
  then have "nd_armed (sd_node d) = 1" "cfg_discovery_expiry (nd_config (sd_node d)) = 100"
    using c sample_pars_config by (simp_all add: d(3) schedule_purge_timer_def schedule_after_def emit_def Let_def)
  moreover have "world_reachable sample_sim sample_pars (?w\<lparr>w_daemons := [d']\<rparr>)"
    by (rule world_reachable.step [OF b], rule world_step.daemon [where i = 0 and msg = Create_clock_event_timer and now = 10 and interval = 10])
      (simp add: on_daemon_def find_daemon_def d'(1))
  ultimately show ?thesis using d'(2-) by force
qed

section \<open>Properties of the daemons\<close>

text \<open>C36: Discoveries always expire: in every state of a simulated network, whatever its modules do, the simulation kernel
  holds exactly one message of the scheduler of each daemon whose expiry is positive, and the delivery of this message
  runs the purge under the handle that the node remembers; a daemon without an expiry has none. No timer is lost and none
  piles up, as long as the 64-bit handles have not been used up.\<close>

theorem purge_timer_armed:
  assumes "world_reachable (\<lambda>i. sim_ports (nows i) (draws i)) pars w" "d \<in> set (w_daemons w)"
    "Suc (nd_armed (sd_node d)) < 2 ^ 64"
  shows "if 0 < sint (cfg_discovery_expiry (nd_config (sd_node d)))
    then \<exists>m s. kernel_live (ss_kernel (sd_scheduler d)) {} = {m} \<and>
      sim_fire m (sd_scheduler d) = Some (nd_purge_timer (sd_node d), Some Purge_timer, s)
    else kernel_live (ss_kernel (sd_scheduler d)) {} = {}"
proof -
  let ?s = "sd_scheduler d" and ?i = "nd_purge_timer (sd_node d)"
  have "daemon_ok d" using world_ok [OF assms(1)] assms(2) by (simp add: list_all_iff)
  then have ok: "sim_ok ?s" and a: "sim_armed ?s = purge_map (sd_node d)"
    using assms(3) by (simp_all add: daemon_ok_def timers_small_def clockwork_def)
  note o = sim_okD [OF ok]
  have l: "kernel_live (ss_kernel ?s) {} = {m. \<exists>i t. om_find i (ss_timers ?s) = Some t \<and> tm_msg t = m}"
    using o(3) by (auto simp: o(5) sim_owns_def)
  show ?thesis
  proof (cases "0 < sint (cfg_discovery_expiry (nd_config (sd_node d)))")
    case True
    then have e: "map_option tm_cb (om_find i (ss_timers ?s)) = (if i = ?i then Some Purge_timer else None)" for i
      using fun_cong [OF a, of i] by (simp add: sim_armed_def purge_map_def)
    obtain t where t: "om_find ?i (ss_timers ?s) = Some t" "tm_cb t = Purge_timer" using e [of ?i] by auto
    have "kernel_live (ss_kernel ?s) {} = {tm_msg t}"
      unfolding l
    proof safe
      fix i t'
      assume "om_find i (ss_timers ?s) = Some t'"
      then show "tm_msg t' = tm_msg t" using e [of i] t(1) by (auto split: if_splits)
    qed (use t(1) in blast)
    moreover have "om_find (tm_msg t) (ss_by_msg ?s) = Some ?i" using o(3) t(1) by blast
    ultimately show ?thesis using True t by (auto simp: sim_fire_def)
  next
    case False
    then have "om_find i (ss_timers ?s) = None" for i
      using fun_cong [OF a, of i] by (simp add: sim_armed_def purge_map_def)
    then show ?thesis using False l by simp
  qed
qed

theorem purge_timer_armed_witness:
  "\<exists>w d m s. world_reachable sample_sim sample_pars w \<and> (d :: unit SimDaemon) \<in> set (w_daemons w) \<and>
     kernel_live (ss_kernel (sd_scheduler d)) {} = {m} \<and>
     sim_fire m (sd_scheduler d) = Some (nd_purge_timer (sd_node d), Some Purge_timer, s)"
proof -
  obtain w and d :: "unit SimDaemon" where w: "world_reachable sample_sim sample_pars w" "d \<in> set (w_daemons w)"
    "nd_armed (sd_node d) = 1" "cfg_discovery_expiry (nd_config (sd_node d)) = 100"
    using sample_network by blast
  then show ?thesis using purge_timer_armed [OF w(1,2)] by auto
qed

text \<open>C35: The clock chains of a simulated node tick in their ratio, whatever datagrams, discoveries and timers
  come in between: when the timer of the module has fired \<open>k\<close> times, chain \<open>L\<close> has got \<open>k div factor ^ L\<close> clock events, for
  each of the configured chains, and the timer is scheduled once more.\<close>

theorem chains_tick_in_ratio:
  assumes "world_reachable (\<lambda>i. sim_ports (nows i) (draws i)) pars w" "d \<in> set (w_daemons w)"
    "Suc (nd_armed (sd_node d)) < 2 ^ 64" "0 < sd_chain_factor d" "int L < max 1 (sd_num_chains d)"
  shows "count_list (ticked (sd_node d)) (of_nat L) = nat (sd_clock_tick_count d) div nat (sd_chain_factor d) ^ L \<and>
    int (length (sd_clock_timer d)) = sd_clock_tick_count d + 1"
proof -
  have "daemon_ok d" using world_ok [OF assms(1)] assms(2) by (simp add: list_all_iff)
  then have "in_ratio d" using assms(3) by (simp add: daemon_ok_def timers_small_def)
  then show ?thesis using assms(4,5) by (simp add: in_ratio_def)
qed

theorem chains_tick_in_ratio_witness:
  "\<exists>w d. world_reachable sample_sim sample_pars w \<and> (d :: unit SimDaemon) \<in> set (w_daemons w) \<and>
     count_list (ticked (sd_node d)) 0 = 1 \<and> count_list (ticked (sd_node d)) 1 = 0"
proof -
  obtain w and d :: "unit SimDaemon" where w: "world_reachable sample_sim sample_pars w" "d \<in> set (w_daemons w)"
    "nd_armed (sd_node d) = 1" "sd_clock_tick_count d = 1" "sd_num_chains d = 2" "sd_chain_factor d = 2"
    using sample_network by blast
  then show ?thesis using chains_tick_in_ratio [OF w(1,2), of 0] chains_tick_in_ratio [OF w(1,2), of 1] by auto
qed

end
