(* ===== verification/Overlay.thy ===== *)
theory Overlay
  imports Simulation_Properties
begin

text \<open>
  The overlay of a simulated network: what the configurator installs leads from every node to every destination
  that the topology connects it to, in as many hops as the shortest path has, and stays so while the network runs.
\<close>

section \<open>What is installed for one source and one destination\<close>

definition daemon_of :: "'a World \<Rightarrow> nat \<Rightarrow> 'a SimDaemon" where
  "daemon_of w i = w_daemons w ! i"

text \<open>The address is the one of some link from this node to the next hop: a later route over the same hop replaces it.\<close>

definition installed :: "(nat \<Rightarrow> nat \<Rightarrow> (nat \<times> 'a) option) \<Rightarrow> nat \<times> nat \<Rightarrow> 'a World \<Rightarrow> bool" where
  "installed path k w \<longleftrightarrow> (let (dest, src) = k; d = daemon_of w src in
     \<forall>hop a. src \<noteq> dest \<and> path dest src = Some (hop, a) \<longrightarrow>
       om_find (sd_node_id (daemon_of w dest)) (nd_routes (sd_node d)) = Some (sd_node_id (daemon_of w hop)) \<and>
       om_find (sd_node_id (daemon_of w hop)) (nd_neighbors (sd_node d)) \<noteq> None \<and>
       (\<exists>dest' a'. path dest' src = Some (hop, a') \<and>
          om_find (sd_node_id (daemon_of w hop)) (tp_addresses (sd_transport d)) = Some a'))"

definition shape :: "'a World \<Rightarrow> (NodeId \<times> NodeConfig \<times> int) list" where
  "shape w = map (\<lambda>d. (sd_node_id d, nd_config (sd_node d), tp_port (sd_transport d))) (w_daemons w)"

lemma shape_daemon:
  assumes "shape w' = shape w" "i < length (w_daemons w)"
  shows "sd_node_id (daemon_of w' i) = sd_node_id (daemon_of w i)"
    "nd_config (sd_node (daemon_of w' i)) = nd_config (sd_node (daemon_of w i))"
    "tp_port (sd_transport (daemon_of w' i)) = tp_port (sd_transport (daemon_of w i))"
  using arg_cong [OF assms(1), of "\<lambda>xs. xs ! i"] arg_cong [OF assms(1), of length] assms(2)
  by (simp_all add: shape_def daemon_of_def)

lemma shape_length: "shape w' = shape w \<Longrightarrow> length (w_daemons w') = length (w_daemons w)"
  by (metis shape_def length_map)

text \<open>Installing a route: the daemon of the source is the only one that changes.\<close>

lemma install_route_effect:
  assumes "src < length (w_daemons w)" "dest < length (w_daemons w)" "hop < length (w_daemons w)" "src \<noteq> dest"
    "path dest src = Some (hop, a)"
  shows "install_route path now dest src w = Inr (w\<lparr>w_daemons := (w_daemons w)[src := (daemon_of w src)
    \<lparr>sd_node := add_neighbor (sd_node_id (daemon_of w hop))
       (learn_route (sd_node_id (daemon_of w dest)) (sd_node_id (daemon_of w hop)) (sd_node (daemon_of w src))),
     sd_transport := set_address (sd_node_id (daemon_of w hop)) a (sd_transport (daemon_of w src))\<rparr>]\<rparr>)"
  using assms by (simp add: install_route_def find_daemon_def on_daemon_def daemon_of_def)

lemma add_neighbor_fields [simp]:
  "nd_routes (add_neighbor i n) = nd_routes n" "nd_config (add_neighbor i n) = nd_config n"
  "(\<exists>nb. om_find j (nd_neighbors (add_neighbor i n)) = Some nb) \<longleftrightarrow> j = i \<or> (\<exists>nb. om_find j (nd_neighbors n) = Some nb)"
  by (auto simp: add_neighbor_def Let_def om_find_put split: option.splits)

lemma learn_route_fields [simp]:
  "nd_routes (learn_route d h n) = om_put d h (nd_routes n)" "nd_config (learn_route d h n) = nd_config n"
  "nd_neighbors (learn_route d h n) = nd_neighbors n"
  by (simp_all add: learn_route_def)

lemma install_route_law:
  assumes src: "src < length (w_daemons w)" and dest: "dest < length (w_daemons w)"
    and hops: "\<And>d s h a. path d s = Some (h, a) \<Longrightarrow> h < length (w_daemons w)"
    and ids: "distinct (map sd_node_id (w_daemons w))"
  shows "\<exists>w'. install_route path now dest src w = Inr w' \<and> shape w' = shape w \<and> installed path (dest, src) w' \<and>
    (\<forall>d < length (w_daemons w). \<forall>s. installed path (d, s) w \<longrightarrow> installed path (d, s) w')"
proof (cases "src = dest \<or> path dest src = None")
  case True
  then have "install_route path now dest src w = Inr w" "installed path (dest, src) w"
    by (auto simp: install_route_def installed_def)
  then show ?thesis by blast
next
  case False
  then obtain hop a where p: "path dest src = Some (hop, a)" "src \<noteq> dest" by auto
  note h = hops [OF p(1)]
  let ?id = "\<lambda>i. sd_node_id (daemon_of w i)"
  define s' where "s' = (daemon_of w src)\<lparr>sd_node := add_neighbor (?id hop) (learn_route (?id dest) (?id hop) (sd_node (daemon_of w src))),
     sd_transport := set_address (?id hop) a (sd_transport (daemon_of w src))\<rparr>"
  define w' where "w' = w\<lparr>w_daemons := (w_daemons w)[src := s']\<rparr>"
  have i: "install_route path now dest src w = Inr w'"
    using install_route_effect [of src w dest hop path a now] src dest h p by (simp add: w'_def s'_def)
  have dw: "daemon_of w' i = (if i = src then s' else daemon_of w i)" for i
    using src by (simp add: w'_def daemon_of_def nth_list_update)
  have id: "sd_node_id (daemon_of w' i) = ?id i" for i by (simp add: dw s'_def)
  have inj: "?id x = ?id y \<longleftrightarrow> x = y" if "x < length (w_daemons w)" "y < length (w_daemons w)" for x y
    using nth_eq_iff_index_eq [OF ids, of x y] that by (simp add: daemon_of_def)
  have f: "nd_routes (sd_node s') = om_put (?id dest) (?id hop) (nd_routes (sd_node (daemon_of w src)))"
    "(\<exists>nb. om_find j (nd_neighbors (sd_node s')) = Some nb) \<longleftrightarrow>
      j = ?id hop \<or> (\<exists>nb. om_find j (nd_neighbors (sd_node (daemon_of w src))) = Some nb)"
    "tp_addresses (sd_transport s') = om_put (?id hop) a (tp_addresses (sd_transport (daemon_of w src)))"
    "sd_node_id s' = ?id src" for j
    by (simp_all add: s'_def set_address_def)
  have sh: "shape w' = shape w"
    using src by (auto simp: shape_def w'_def s'_def set_address_def daemon_of_def list_eq_iff_nth_eq nth_list_update)
  have new: "installed path (dest, src) w'"
    using p by (auto simp: installed_def Let_def dw id f om_find_put)
  moreover have "installed path (d, s) w'" if d: "d < length (w_daemons w)" and old: "installed path (d, s) w" for d s
  proof (cases "s = src \<and> d \<noteq> dest")
    case True
    have rt: "om_find (?id d) (nd_routes (sd_node s')) = om_find (?id d) (nd_routes (sd_node (daemon_of w src)))"
      using True inj [OF d dest] by (simp add: f om_find_put)
    show ?thesis
      unfolding installed_def Let_def prod.case
    proof (intro allI impI)
      fix g b
      assume g: "s \<noteq> d \<and> path d s = Some (g, b)"
      then have o: "om_find (?id d) (nd_routes (sd_node (daemon_of w src))) = Some (?id g)"
          "\<exists>nb. om_find (?id g) (nd_neighbors (sd_node (daemon_of w src))) = Some nb"
          "\<exists>dest' a'. path dest' src = Some (g, a') \<and> om_find (?id g) (tp_addresses (sd_transport (daemon_of w src))) = Some a'"
        using old True by (simp_all add: installed_def Let_def)
      have "\<exists>dest' a'. path dest' src = Some (g, a') \<and> om_find (?id g) (tp_addresses (sd_transport s')) = Some a'"
        using o(3) p(1) inj [of g hop] g hops h by (cases "g = hop") (auto simp: f om_find_put)
      moreover have "daemon_of w' s = s'" using True dw by simp
      ultimately show "om_find (sd_node_id (daemon_of w' d)) (nd_routes (sd_node (daemon_of w' s))) = Some (sd_node_id (daemon_of w' g)) \<and>
          om_find (sd_node_id (daemon_of w' g)) (nd_neighbors (sd_node (daemon_of w' s))) \<noteq> None \<and>
          (\<exists>dest' a'. path dest' s = Some (g, a') \<and>
            om_find (sd_node_id (daemon_of w' g)) (tp_addresses (sd_transport (daemon_of w' s))) = Some a')"
        using True rt o(1,2) unfolding id by (simp add: f(2))
    qed
  next
    case False
    show ?thesis
    proof (cases "s = src")
      case True
      then show ?thesis using False new by simp
    next
      case False
      then have "daemon_of w' s = daemon_of w s" by (simp add: dw)
      then show ?thesis using old unfolding installed_def Let_def prod.case id by simp
    qed
  qed
  ultimately show ?thesis using i sh by blast
qed

section \<open>The loops of the configurator\<close>

lemma foldE_establishes:
  assumes "I s" and "\<And>x s. x \<in> set xs \<Longrightarrow> I s \<Longrightarrow>
    \<exists>t. f x s = Inr t \<and> I t \<and> (\<forall>k \<in> K x. Q k t) \<and> (\<forall>k \<in> A. Q k s \<longrightarrow> Q k t)" and "\<And>x. x \<in> set xs \<Longrightarrow> K x \<subseteq> A"
  shows "\<exists>t. foldE f xs s = Inr t \<and> I t \<and> (\<forall>x \<in> set xs. \<forall>k \<in> K x. Q k t) \<and> (\<forall>k \<in> A. Q k s \<longrightarrow> Q k t)"
  using assms
proof (induction xs arbitrary: s)
  case (Cons x xs)
  obtain u where u: "f x s = Inr u" "I u" "\<forall>k \<in> K x. Q k u" "\<forall>k \<in> A. Q k s \<longrightarrow> Q k u"
    using Cons.prems(1) Cons.prems(2) [of x s] by auto
  obtain t where t: "foldE f xs u = Inr t" "I t" "\<forall>y \<in> set xs. \<forall>k \<in> K y. Q k t" "\<forall>k \<in> A. Q k u \<longrightarrow> Q k t"
    using Cons.IH [OF u(2) Cons.prems(2) [OF list.set_intros(2)] Cons.prems(3) [OF list.set_intros(2)]] by blast
  have "K x \<subseteq> A" using Cons.prems(3) by simp
  then have "\<forall>k \<in> K x. Q k t" using u(3) t(4) by blast
  moreover have "\<forall>k \<in> A. Q k s \<longrightarrow> Q k t" using u(4) t(4) by blast
  ultimately show ?case using u(1) t(1-3) by simp
qed simp

lemma configurator_installs:
  fixes w :: "'a World"
  assumes hops: "\<And>d s h a. path d s = Some (h, a) \<Longrightarrow> h < length (w_daemons w)"
    and ids: "distinct (map sd_node_id (w_daemons w))"
  defines "n \<equiv> length (w_daemons w)"
  shows "\<exists>w'. configurator_initialize path now n w = Inr w' \<and> shape w' = shape w \<and>
    (\<forall>dest < n. \<forall>src < n. installed path (dest, src) w')"
proof -
  let ?A = "{..<n} \<times> {..<n}"
  have d: "distinct (map sd_node_id (w_daemons v))" "length (w_daemons v) = n" if "shape v = shape w" for v :: "'a World"
  proof -
    have "map sd_node_id (w_daemons v) = map sd_node_id (w_daemons w)"
      using arg_cong [OF that, of "map fst"] by (simp add: shape_def comp_def)
    then show "distinct (map sd_node_id (w_daemons v))" "length (w_daemons v) = n"
      using ids that shape_length by (auto simp: n_def)
  qed
  have one: "\<exists>t. install_route path now dest src v = Inr t \<and> shape t = shape w \<and> (\<forall>k \<in> {(dest, src)}. installed path k t) \<and>
      (\<forall>k \<in> ?A. installed path k v \<longrightarrow> installed path k t)" if "dest < n" "src < n" "shape v = shape w" for dest src and v :: "'a World"
    using install_route_law [of src v dest path now] d [OF that(3)] that hops by (auto simp: n_def)
  have row: "\<exists>t. foldE (install_route path now dest) [0..<n] v = Inr t \<and> shape t = shape w \<and>
      (\<forall>x \<in> set [0..<n]. \<forall>k \<in> {(dest, x)}. installed path k t) \<and> (\<forall>k \<in> ?A. installed path k v \<longrightarrow> installed path k t)"
    if "dest < n" "shape v = shape w" for dest and v :: "'a World"
    by (rule foldE_establishes) (use one that in auto)
  let ?f = "\<lambda>dest w. bindE (find_daemon dest w) (\<lambda>_.
    foldE (install_route path now dest) [0..<n] (w\<lparr>w_network_nodes := w_network_nodes w @ [dest]\<rparr>))"
  have "\<exists>t. foldE ?f [0..<n] w = Inr t \<and> shape t = shape w \<and>
      (\<forall>x \<in> set [0..<n]. \<forall>k \<in> {x} \<times> {..<n}. installed path k t) \<and> (\<forall>k \<in> ?A. installed path k w \<longrightarrow> installed path k t)"
  proof (rule foldE_establishes)
    fix dest and v :: "'a World"
    assume "dest \<in> set [0..<n]" "shape v = shape w"
    then show "\<exists>t. ?f dest v = Inr t \<and> shape t = shape w \<and> (\<forall>k \<in> {dest} \<times> {..<n}. installed path k t) \<and>
        (\<forall>k \<in> ?A. installed path k v \<longrightarrow> installed path k t)"
      using row [of dest "v\<lparr>w_network_nodes := w_network_nodes v @ [dest]\<rparr>"] d(2) [of v]
      by (auto simp: find_daemon_def shape_def installed_def Let_def daemon_of_def)
  qed auto
  then show ?thesis by (auto simp: configurator_initialize_def)
qed

section \<open>While the network runs\<close>

definition daemon_kept :: "'a SimDaemon \<Rightarrow> 'a SimDaemon \<Rightarrow> bool" where
  "daemon_kept d d' \<longleftrightarrow> sd_node_id d' = sd_node_id d \<and> sd_transport d' = sd_transport d \<and> overlay_kept (sd_node d) (sd_node d')"

lemma daemon_kept_refl [simp]: "daemon_kept d d"
  by (simp add: daemon_kept_def)

lemma daemon_kept_trans: "daemon_kept a b \<Longrightarrow> daemon_kept b c \<Longrightarrow> daemon_kept a c"
  using overlay_kept_trans by (auto simp: daemon_kept_def)

lemma daemon_kept_update [simp]:
  "daemon_kept (d\<lparr>sd_scheduler := s\<rparr>) d' = daemon_kept d d'" "daemon_kept (d\<lparr>sd_clock_tick_count := c\<rparr>) d' = daemon_kept d d'"
  "daemon_kept d (d'\<lparr>sd_clock_timer := t\<rparr>) = daemon_kept d d'" "daemon_kept d (d'\<lparr>sd_signals := g\<rparr>) = daemon_kept d d'"
  by (simp_all add: daemon_kept_def)

lemma sim_call_kept:
  assumes "sim_call now f d = Inr d'" "\<And>m. f (sd_node d) = Inr m \<Longrightarrow> overlay_kept (sd_node d) m"
  shows "daemon_kept d d'"
  using sim_call_node [OF assms(1)] assms(2) by (simp add: daemon_kept_def rest_of_def)

lemma calm_kept: "post (calm n) r \<Longrightarrow> r = Inr m \<Longrightarrow> overlay_kept n m"
  by (simp add: calm_def)

lemma tick_kept: "sim_call now (create_clock_event p ch) d = Inr d' \<Longrightarrow> daemon_kept d d'"
  using sim_call_tick [of now p ch d d'] by (simp add: daemon_kept_def rest_of_def)

lemma tick_coarser_kept: "tick_coarser p now chs m d = Inr d' \<Longrightarrow> daemon_kept d d'"
proof (induction chs arbitrary: m d)
  case (Cons ch chs)
  then obtain e where e: "e = d \<or> sim_call now (create_clock_event p (of_nat ch)) d = Inr e"
    "tick_coarser p now chs (m * sd_chain_factor d) e = Inr d'"
    by (auto simp: Let_def split: if_splits)
  then show ?case using Cons.IH [OF e(2)] tick_kept daemon_kept_trans by blast
qed simp

lemma handle_message_kept:
  assumes "daemon_handle_message p now interval msg d = Inr d'"
  shows "daemon_kept d d'"
proof (cases msg)
  case Create_clock_event_timer
  then obtain e g where e: "sim_call now (create_clock_event p 0) d = Inr e"
    "tick_coarser p now [1..<nat (sd_num_chains e)] 1 (e\<lparr>sd_clock_tick_count := sd_clock_tick_count e + 1\<rparr>) = Inr g"
    "daemon_kept g d'"
    using assms by (auto simp: daemon_handle_message_def scheduleCreateClockEventTimer_def split: if_splits)
  have "daemon_kept e g" using tick_coarser_kept [OF e(2)] by simp
  then show ?thesis using tick_kept [OF e(1)] e(3) daemon_kept_trans by blast
next
  case (Self_message m)
  then obtain t s where "sim_call now (on_timer p t) (d\<lparr>sd_scheduler := s\<rparr>) = Inr d'"
    using assms by (auto simp: daemon_handle_message_def split: option.splits)
  from sim_call_kept [OF this] show ?thesis using on_timer_frame [of p t "sd_node d"] by simp
next
  case (Socket_data b)
  then show ?thesis
    using assms by (auto simp: daemon_handle_message_def elim!: sim_call_kept intro: calm_kept [OF calm_packet [OF calm_refl]])
qed (use assms in \<open>simp_all add: daemon_handle_message_def\<close>)

abbreviation world_kept :: "'a World \<Rightarrow> 'a World \<Rightarrow> bool" where
  "world_kept w w' \<equiv> list_all2 daemon_kept (w_daemons w) (w_daemons w')"

lemma on_daemon_kept:
  assumes "on_daemon i f w = Inr w'" "\<And>d d'. f d = Inr d' \<Longrightarrow> daemon_kept d d'"
  shows "world_kept w w'"
  using assms by (auto simp: on_daemon_def find_daemon_def list_all2_conv_all_nth nth_list_update split: if_splits)

lemma world_step_kept: "world_step ps w w' \<Longrightarrow> world_kept w w'"
proof (induction rule: world_step.induct)
  case (daemon i now interval msg w w')
  then show ?case using on_daemon_kept handle_message_kept by blast
next
  case (publisher i now interval len draw w w')
  have "daemon_kept d d'" if "daemon_publish (ps i) now data d = Inr d'" for data and d d' :: "'a SimDaemon"
    using that unfolding daemon_publish_def
    by (rule sim_call_kept) (auto dest: calm_publish [OF calm_refl] simp: calm_def)
  moreover obtain v where "on_daemon i (daemon_publish (ps i) now (map (\<lambda>k. of_nat (draw k)) [0..<nat len])) w = Inr v"
    "w_daemons w' = w_daemons v"
    using publisher by (auto simp: publisher_handle_message_def publisher_create_event_def schedule_timer_def)
  ultimately show ?case using on_daemon_kept by metis
next
  case (browser i now interval r1 r2 t w w')
  have r: "world_kept w w" by (simp add: list_all2_refl)
  have c: "world_kept w v" if "on_daemon i (sim_call now f) w = Inr v" "\<And>n. post (calm n) (f n)" for f and v :: "'a World"
    by (rule on_daemon_kept [OF that(1)]) (auto elim!: sim_call_kept intro: calm_kept that(2))
  note calls = c [OF _ calm_discover_chain [OF calm_refl]] c [OF _ calm_discover(1) [OF calm_refl]] c [OF _ calm_discover(2) [OF calm_refl]]
  have "world_kept w v" if "process_chain_timer (ps i) now r1 i w = Inr v" for v
    using that r by (auto simp: process_chain_timer_def split: option.splits dest: calls)
  moreover have "world_kept w v" if "process_bounds_timer (ps i) now r1 i w = Inr v" for v
    using that r by (auto simp: process_bounds_timer_def split: option.splits dest: calls)
  moreover have "world_kept w v" if v: "process_order_timer (ps i) now r1 r2 i w = Inr v" for v
  proof -
    obtain e1 e2 where "find_random_event r1 w = Inr e1" "find_random_event r2 w = Inr e2"
      using v by (auto simp: process_order_timer_def)
    then show ?thesis using v r by (cases e1; cases e2) (auto simp: process_order_timer_def dest: calls)
  qed
  ultimately show ?case
    using browser by (auto simp: browser_handle_message_def schedule_unless_zero_def schedule_timer_def split: ModuleTimer.splits if_splits)
next
  case (initialize w' now c b ord i w interval)
  then show ?case
    by (auto simp: browser_initialize_def publisher_initialize_def schedule_unless_zero_def schedule_timer_def list_all2_refl)
qed

lemma world_run_kept: "(world_step ps)\<^sup>*\<^sup>* w w' \<Longrightarrow> world_kept w w'"
proof (induction rule: rtranclp_induct)
  case (step v w')
  show ?case by (rule list_all2_trans [OF daemon_kept_trans step.IH world_step_kept [OF step.hyps(2)]])
qed (simp add: list_all2_refl)

section \<open>Following the routes\<close>

text \<open>Two nodes with a link between them.\<close>

definition sample_path :: "nat \<Rightarrow> nat \<Rightarrow> (nat \<times> unit) option" where
  "sample_path dest src = (if src \<noteq> dest \<and> dest < 2 then Some (dest, ()) else None)"

text \<open>One hop of a request towards \<open>dest\<close>: the node \<open>a\<close> chooses exactly the node \<open>b\<close>, and what it sends to it leaves for the
  address of a link to \<open>b\<close>.\<close>

definition overlay_hop :: "(nat \<Rightarrow> nat \<Rightarrow> (nat \<times> 'a) option) \<Rightarrow> NodePorts \<Rightarrow> RouteContext \<Rightarrow> 'a World \<Rightarrow> nat \<Rightarrow> nat \<Rightarrow> nat \<Rightarrow> bool" where
  "overlay_hop path p ctx w dest a b \<longleftrightarrow>
     fst (next_hops p (sd_node_id (daemon_of w dest)) ctx (sd_node (daemon_of w a))) = [sd_node_id (daemon_of w b)] \<and>
     (\<exists>dest' address. path dest' a = Some (b, address) \<and>
       (\<forall>datagram. sim_send (sd_transport (daemon_of w a)) (sd_node_id (daemon_of w b)) datagram = Some (address, kPort, datagram)))"

lemma installed_kept:
  assumes "installed path (dest, src) w" "world_kept w w'" "dest < length (w_daemons w)" "src < length (w_daemons w)"
    and "\<And>hop a. path dest src = Some (hop, a) \<Longrightarrow> hop < length (w_daemons w)"
  shows "installed path (dest, src) w'"
proof -
  have k: "daemon_kept (daemon_of w i) (daemon_of w' i)" if "i < length (w_daemons w)" for i
    using assms(2) that by (simp add: list_all2_conv_all_nth daemon_of_def)
  have "sd_node_id (daemon_of w' i) = sd_node_id (daemon_of w i)" if "i < length (w_daemons w)" for i
    using k [OF that] by (simp add: daemon_kept_def)
  moreover have "sd_transport (daemon_of w' src) = sd_transport (daemon_of w src)"
    "nd_routes (sd_node (daemon_of w' src)) = nd_routes (sd_node (daemon_of w src))"
    "\<And>i. om_find i (nd_neighbors (sd_node (daemon_of w src))) \<noteq> None \<Longrightarrow> om_find i (nd_neighbors (sd_node (daemon_of w' src))) \<noteq> None"
    using k [OF assms(4)] by (auto simp: daemon_kept_def overlay_kept_def)
  ultimately show ?thesis using assms(1,3,5) unfolding installed_def Let_def prod.case by metis
qed

lemma installed_hop:
  assumes "installed path (dest, src) w" "src \<noteq> dest" "path dest src = Some (hop, a)"
    and "cfg_discovery_routing (nd_config (sd_node (daemon_of w src))) = static_shortest_path"
    and "tp_port (sd_transport (daemon_of w src)) = kPort"
  shows "overlay_hop path p ctx w dest src hop"
proof -
  obtain nb dest' a' where "om_find (sd_node_id (daemon_of w dest)) (nd_routes (sd_node (daemon_of w src))) = Some (sd_node_id (daemon_of w hop))"
    "om_find (sd_node_id (daemon_of w hop)) (nd_neighbors (sd_node (daemon_of w src))) = Some nb"
    "path dest' src = Some (hop, a')"
    "om_find (sd_node_id (daemon_of w hop)) (tp_addresses (sd_transport (daemon_of w src))) = Some a'"
    using assms(1-3) unfolding installed_def Let_def prod.case by (metis option.exhaust)
  then show ?thesis using assms(4,5) by (auto simp: overlay_hop_def next_hops_def static_next_hops_def sim_send_def)
qed

text \<open>What \<open>calculateUnweightedSingleShortestPathsTo\<close> promises: the first link of a shortest path leads to a node of the
  network that is one hop nearer to the destination and is it or has a path itself.\<close>

definition shortest_paths :: "nat \<Rightarrow> (nat \<Rightarrow> nat \<Rightarrow> (nat \<times> 'a) option) \<Rightarrow> (nat \<Rightarrow> nat \<Rightarrow> nat) \<Rightarrow> bool" where
  "shortest_paths n path dist \<longleftrightarrow> (\<forall>dest. dist dest dest = 0) \<and>
     (\<forall>dest src hop a. path dest src = Some (hop, a) \<longrightarrow> hop < n \<and> dist dest src = Suc (dist dest hop) \<and>
        (hop = dest \<or> path dest hop \<noteq> None))"

lemma follow_routes:
  assumes "shortest_paths n path dist" "dest < n" "src < n" "src \<noteq> dest" "path dest src \<noteq> None"
    and "\<And>src hop a. src < n \<Longrightarrow> src \<noteq> dest \<Longrightarrow> path dest src = Some (hop, a) \<Longrightarrow> R src hop"
  shows "(R ^^ dist dest src) src dest"
  using assms(3-5)
proof (induction "dist dest src" arbitrary: src)
  case 0
  then obtain hop a where "path dest src = Some (hop, a)" by auto
  then show ?case using 0(1) assms(1) unfolding shortest_paths_def by (metis nat.distinct(1))
next
  case (Suc k)
  then obtain hop a where p: "path dest src = Some (hop, a)" by auto
  have h: "hop < n" "dist dest src = Suc (dist dest hop)" "hop = dest \<or> path dest hop \<noteq> None"
    using assms(1) p unfolding shortest_paths_def by blast+
  have "(R ^^ dist dest hop) hop dest"
  proof (cases "hop = dest")
    case True
    then show ?thesis using assms(1) by (simp add: shortest_paths_def)
  next
    case False
    then show ?thesis using Suc.hyps h by simp
  qed
  moreover have "R src hop" by (rule assms(6) [OF Suc.prems(1,2) p])
  ultimately show ?case unfolding h(2) by (rule relpowp_Suc_I2 [rotated])
qed

lemma initialize_fields:
  fixes d :: "'a SimDaemon"
  assumes "daemon_initialize (sim_ports nows draw) now interval pars i = Inr d"
  shows "sd_node_id d = node_id_of_u64 (of_int i) \<and> nd_config (sd_node d) = effective_config (sim_config pars) \<and>
    tp_port (sd_transport d) = kPort"
proof -
  obtain n where n: "make_node (node_id_of_u64 (of_int i)) empty_store (sim_config pars) = Inr n"
    "sd_node d = start (sim_ports nows draw) n" "sd_node_id d = node_id_of_u64 (of_int i)" "sd_transport d = \<lparr>tp_port = kPort, tp_addresses = []\<rparr>"
    using initialize_total [of i pars nows draw now interval, where ?'a = 'a] assms by auto
  have "nd_config (sd_node d) = nd_config n"
    using working_start [of "sim_ports nows draw" n] by (simp add: n(2) working_def)
  moreover have "nd_config n = effective_config (sim_config pars)"
    using n(1) by (auto simp: make_node_def hydrate_working_state_def Let_def)
  ultimately show ?thesis using n by simp
qed

lemma initialize_all_fields:
  "initialize_daemons (\<lambda>i. sim_ports (nows i) (draws i)) now intervals pars k ids = Inr ds \<Longrightarrow>
   map sd_node_id ds = map (\<lambda>i. node_id_of_u64 (of_int i)) ids \<and>
   (\<forall>d \<in> set ds. nd_config (sd_node d) = effective_config (sim_config pars) \<and> tp_port (sd_transport d) = kPort)"
  by (induction ids arbitrary: k ds) (auto dest: initialize_fields)

text \<open>C34: In a simulated network with the static policy, whatever the modules have done since, requests find their way: from
  every node a request for a destination that the topology connects it to is forwarded to exactly one neighbor,
  by a datagram that leaves for the address of a link to this neighbor, and after as many such hops as the shortest
  path has it is at the destination. The modules have different numbers, as OMNeT++ gives them.\<close>

theorem overlay_leads:
  assumes "initialize_daemons (\<lambda>i. sim_ports (nows i) (draws i)) now intervals pars 0 ids = Inr ds"
    and "distinct ids" "\<forall>i \<in> set ids. 0 \<le> i \<and> i < 2 ^ 31" "par_discoveryRouting pars \<noteq> ''flood''"
    and "shortest_paths (length ids) path dist"
  shows "\<exists>w. configurator_initialize path now (length ids) \<lparr>w_daemons = ds, w_network_nodes = [], w_timers = []\<rparr> = Inr w \<and>
    (\<forall>w' dest src. (world_step ps)\<^sup>*\<^sup>* w w' \<and> dest < length ids \<and> src < length ids \<and> src \<noteq> dest \<and> path dest src \<noteq> None \<longrightarrow>
      (overlay_hop path p ctx w' dest ^^ dist dest src) src dest)"
proof -
  let ?w0 = "\<lparr>w_daemons = ds, w_network_nodes = [], w_timers = []\<rparr>" and ?n = "length ids"
  note f = initialize_all_fields [OF assms(1)]
  have n: "length ds = ?n" using f by (metis length_map)
  have h: "hop < length (w_daemons ?w0)" if "path d s = Some (hop, a)" for d s hop a
    using assms(5) that n unfolding shortest_paths_def by (metis World.select_convs(1))
  have "inj_on (\<lambda>i. node_id_of_u64 (of_int i)) (set ids)"
  proof (rule inj_onI)
    fix i j
    assume "i \<in> set ids" "j \<in> set ids" "node_id_of_u64 (of_int i) = node_id_of_u64 (of_int j)"
    moreover from this have "take_bit 64 i = i" "take_bit 64 j = j" using assms(3) by (auto intro!: take_bit_int_eq_self)
    ultimately show "i = j" by (simp add: word_of_int_eq_iff)
  qed
  then have d: "distinct (map sd_node_id (w_daemons ?w0))" using f assms(2) by (simp add: distinct_map)
  have "\<exists>w. configurator_initialize path now (length (w_daemons ?w0)) ?w0 = Inr w \<and> shape w = shape ?w0 \<and>
      (\<forall>dest < length (w_daemons ?w0). \<forall>src < length (w_daemons ?w0). installed path (dest, src) w)"
    by (rule configurator_installs [OF _ d], erule h)
  then obtain w where w: "configurator_initialize path now ?n ?w0 = Inr w" "shape w = shape ?w0"
    "\<forall>dest < ?n. \<forall>src < ?n. installed path (dest, src) w" using n by auto
  have l: "length (w_daemons w) = ?n" using shape_length [OF w(2)] n by simp
  have "(overlay_hop path p ctx w' dest ^^ dist dest src) src dest"
    if r: "(world_step ps)\<^sup>*\<^sup>* w w'" and k: "dest < ?n" "src < ?n" "src \<noteq> dest" "path dest src \<noteq> None" for w' dest src
  proof (rule follow_routes [OF assms(5) k])
    fix s hop a
    assume s: "s < ?n" "s \<noteq> dest" "path dest s = Some (hop, a)"
    note kept = world_run_kept [OF r]
    have "installed path (dest, s) w'"
      by (rule installed_kept [OF _ kept]) (use w(3) k s l h n in auto)
    moreover have "daemon_kept (daemon_of w s) (daemon_of w' s)"
      using kept s(1) l by (simp add: list_all2_conv_all_nth daemon_of_def)
    moreover have "nd_config (sd_node (daemon_of w s)) = effective_config (sim_config pars)" "tp_port (sd_transport (daemon_of w s)) = kPort"
      using shape_daemon(2,3) [OF w(2), of s] f s(1) n by (auto simp: daemon_of_def)
    ultimately show "overlay_hop path p ctx w' dest s hop"
      using installed_hop [of path dest s w' hop a p ctx] s(2,3) assms(4) by (simp add: daemon_kept_def overlay_kept_def effective_config_def sim_config_def)
  qed
  then show ?thesis using w(1) by blast
qed

theorem overlay_leads_witness:
  "\<exists>ds w. initialize_daemons sample_sim 0 (\<lambda>_. 10) sample_pars 0 [2, 3] = Inr ds \<and>
     configurator_initialize sample_path 0 2 \<lparr>w_daemons = ds, w_network_nodes = [], w_timers = []\<rparr> = Inr w \<and>
     overlay_hop sample_path (sim_ports of_nat of_nat) \<lparr>rc_range = TimeRange_all\<rparr> w 1 0 1"
proof -
  let ?p = "sim_ports of_nat of_nat" and ?dist = "\<lambda>dest src. if src = dest then 0 else 1 :: nat"
  obtain d e :: "unit SimDaemon" where "daemon_initialize ?p 0 10 sample_pars 2 = Inr d" "daemon_initialize ?p 0 10 sample_pars 3 = Inr e"
    using initialize_total [where ?'a = unit] by metis
  then have i: "initialize_daemons sample_sim 0 (\<lambda>_. 10) sample_pars 0 [2, 3] = Inr [d, e]" by simp
  let ?conf = "\<lambda>w. configurator_initialize sample_path 0 (length [2, 3 :: int]) \<lparr>w_daemons = [d, e], w_network_nodes = [], w_timers = []\<rparr> = Inr w"
  let ?leads = "\<lambda>w w' dest src. (world_step (\<lambda>_. ?p))\<^sup>*\<^sup>* w w' \<and> dest < length [2, 3 :: int] \<and> src < length [2, 3 :: int] \<and>
    src \<noteq> dest \<and> sample_path dest src \<noteq> None \<longrightarrow>
    (overlay_hop sample_path ?p \<lparr>rc_range = TimeRange_all\<rparr> w' dest ^^ ?dist dest src) src dest"
  have s: "shortest_paths (length [2, 3 :: int]) sample_path ?dist"
    by (auto simp: shortest_paths_def sample_path_def split: if_splits)
  have "par_discoveryRouting sample_pars \<noteq> ''flood''" by (simp add: sample_pars_def)
  then have "\<exists>w. ?conf w \<and> (\<forall>w' dest src. ?leads w w' dest src)" by (intro overlay_leads [OF i _ _ _ s]) simp_all
  then obtain w where w: "?conf w \<and> (\<forall>w' dest src. ?leads w w' dest src)" by (rule exE)
  then have "?leads w w 1 0" by (elim conjE allE)
  then have "overlay_hop sample_path ?p \<lparr>rc_range = TimeRange_all\<rparr> w 1 0 1"
    by (simp add: sample_path_def relcompp_apply)
  moreover have "length [2, 3 :: int] = 2" by simp
  ultimately show ?thesis using i w by metis
qed

end
