(* ===== verification/Sha256_Stream.thy ===== *)
theory Sha256_Stream
  imports Sha256 Text
begin

text \<open>
  The rest of \<open>src/core/hash/picosha2.hpp\<close>: hashing the bytes of an input iterator chunk by chunk, hashing into a
  container, and the hexadecimal output. However a message is cut into chunks, the digest is the one of the whole.
\<close>

section \<open>Input iterators and containers\<close>

definition PICOSHA2_BUFFER_SIZE_FOR_INPUT_ITERATOR :: nat where
  "PICOSHA2_BUFFER_SIZE_FOR_INPUT_ITERATOR = 1048576"

text \<open>The loop of \<open>hash256_impl\<close> for input iterators, which does not end if the buffer is empty. A buffer size is
  not negative.\<close>

partial_function (option) input_loop :: "nat \<Rightarrow> bytes \<Rightarrow> hash256_one_by_one \<Rightarrow> hash256_one_by_one option" where
  "input_loop buffer_size data s =
     (if data = [] then Some s
      else input_loop buffer_size (drop buffer_size data) (hs_process (take buffer_size data) s))"

definition hash256_input :: "nat \<Rightarrow> bytes \<Rightarrow> bytes option" where
  "hash256_input buffer_size data =
     (case input_loop buffer_size data hs_init of None \<Rightarrow> None | Some s \<Rightarrow> Some (get_hash_bytes (hs_finish s)))"

text \<open>\<open>hash256\<close> into a container, which may be shorter or longer than the digest.\<close>

definition hash256_into :: "bytes \<Rightarrow> bytes \<Rightarrow> bytes" where
  "hash256_into dst src = take (length dst) (sha256 src) @ drop 32 dst"

section \<open>Hexadecimal output\<close>

fun hexadecimal :: "nat \<Rightarrow> string" where
  "hexadecimal n = (if n < 16 then [hex_digits ! n] else hexadecimal (n div 16) @ [hex_digits ! (n mod 16)])"

declare hexadecimal.simps [simp del]

text \<open>A stream that writes in hexadecimal, padded to width 2 with zeros.\<close>

definition output_hex :: "bytes \<Rightarrow> string" where
  "output_hex bs =
     concat (map (\<lambda>b. let s = hexadecimal (unat b) in replicate (2 - length s) (CHR ''0'') @ s) bs)"

definition bytes_to_hex_string :: "bytes \<Rightarrow> string" where
  "bytes_to_hex_string bs = output_hex bs"

definition get_hash_hex_string :: "hash256_one_by_one \<Rightarrow> string" where
  "get_hash_hex_string hasher = bytes_to_hex_string (take 32 (get_hash_bytes hasher))"

definition hash256_hex_string :: "bytes \<Rightarrow> string" where
  "hash256_hex_string src = output_hex (hash256_into (replicate 32 0) src)"

section \<open>The length as digits\<close>

definition digits_small :: "word_t list \<Rightarrow> bool" where
  "digits_small ds \<longleftrightarrow> (\<forall>d \<in> set ds. unat d < 65536)"

fun digits_val :: "word_t list \<Rightarrow> nat" where
  "digits_val [] = 0"
| "digits_val (d # ds) = unat d + 65536 * digits_val ds"

lemma digits_small_simps [simp]: "digits_small []" "digits_small (d # ds) \<longleftrightarrow> unat d < 65536 \<and> digits_small ds"
  by (auto simp: digits_small_def)

lemma digits_val_bound: "digits_small ds \<Longrightarrow> digits_val ds < 65536 ^ length ds"
proof (induction ds)
  case (Cons d ds)
  then have "unat d < 65536" "Suc (digits_val ds) \<le> 65536 ^ length ds" by simp_all
  then have "unat d + 65536 * digits_val ds < 65536 * Suc (digits_val ds)" by simp
  also have "\<dots> \<le> 65536 * 65536 ^ length ds" using \<open>Suc _ \<le> _\<close> by (rule mult_le_mono2)
  finally show ?case by simp
qed simp

lemma digits_unique:
  "digits_small ds \<Longrightarrow> digits_small es \<Longrightarrow> length ds = length es \<Longrightarrow> digits_val ds = digits_val es \<Longrightarrow> ds = es"
proof (induction ds es rule: list_induct2')
  case (4 d ds e es)
  then have v: "unat d + 65536 * digits_val ds = unat e + 65536 * digits_val es" by simp
  have "unat d = unat e" using arg_cong [OF v, of "\<lambda>x. x mod 65536"] 4 by simp
  moreover have "digits_val ds = digits_val es" using v calculation by simp
  ultimately show ?case using 4 by (simp add: word_eq_iff_unsigned [where 'a = nat, of d e])
qed simp_all

text \<open>The carry loop along a list.\<close>

fun carry_up :: "word_t \<Rightarrow> word_t list \<Rightarrow> word_t list" where
  "carry_up c [] = []"
| "carry_up c (d # ds) =
     (let v = d + c in if v \<ge> 65536 then (v AND 65535) # carry_up (drop_bit 16 v) ds else v # ds)"

lemma add_to_data_length_carry: "length ds = 4 \<Longrightarrow> add_to_data_length n ds = carry_up n ds"
proof -
  assume "length ds = 4"
  then obtain a b c d where ds: "ds = [a, b, c, d]" by (auto simp: numeral_eq_Suc length_Suc_conv)
  have l: "[0..<4] = [0, 1, 2, 3]" by (simp add: upt_rec numeral_eq_Suc)
  show ?thesis unfolding add_to_data_length_def l ds by (simp add: Let_def)
qed

lemma carry_up_digits:
  "digits_small ds \<Longrightarrow> unat c + 65536 \<le> 2 ^ 64 \<Longrightarrow>
   digits_small (carry_up c ds) \<and> length (carry_up c ds) = length ds \<and>
   digits_val (carry_up c ds) = (digits_val ds + unat c) mod 65536 ^ length ds"
proof (induction ds arbitrary: c)
  case (Cons d ds)
  define v where "v = d + c"
  have v: "unat v = unat d + unat c" unfolding v_def using Cons.prems by (intro unat_add_lem [THEN iffD1]) simp
  have lo: "unat (v AND 65535) = unat v mod 65536"
    by (simp add: and_0xFFFF unsigned_take_bit_eq) (simp add: take_bit_eq_mod)
  have hi: "unat (drop_bit 16 v) = unat v div 65536"
    by (simp only: unat_drop_bit_eq) (simp add: drop_bit_eq_div)
  show ?case
  proof (cases "65536 \<le> v")
    case True
    have "unat (drop_bit 16 v) + 65536 \<le> 2 ^ 64"
      using unsigned_less [of v, where 'a = nat] unfolding hi by (simp add: less_mult_imp_div_less [THEN less_imp_le])
    then have IH: "digits_small (carry_up (drop_bit 16 v) ds)" "length (carry_up (drop_bit 16 v) ds) = length ds"
      "digits_val (carry_up (drop_bit 16 v) ds) = (digits_val ds + unat v div 65536) mod 65536 ^ length ds"
      using Cons.IH [of "drop_bit 16 v"] Cons.prems by (simp_all add: hi)
    have "(digits_val (d # ds) + unat c) mod 65536 ^ length (d # ds) =
        (unat v mod 65536 + 65536 * (digits_val ds + unat v div 65536)) mod (65536 * 65536 ^ length ds)"
      by (simp add: v algebra_simps)
    also have "\<dots> = unat v mod 65536 + 65536 * ((digits_val ds + unat v div 65536) mod 65536 ^ length ds)"
      by (simp add: mod_mult2_eq)
    finally show ?thesis using True IH by (simp add: lo flip: v_def)
  next
    case False
    then have "unat v < 65536" by (simp add: word_le_nat_alt not_le)
    moreover from this have "digits_val (v # ds) < 65536 ^ length (v # ds)"
      using Cons.prems by (intro digits_val_bound) simp
    ultimately show ?thesis using False Cons.prems v by (simp flip: v_def)
  qed
qed simp

section \<open>Chunks\<close>

lemma process_blocks_append:
  "process_blocks h (a @ b) = process_blocks (fst (process_blocks h a)) (snd (process_blocks h a) @ b)"
proof (induction h a rule: process_blocks.induct)
  case (1 h a)
  show ?case
  proof (cases "64 \<le> length a")
    case True
    then show ?thesis using 1 by (simp add: process_blocks.simps [of h a] process_blocks.simps [of h "a @ b"])
  next
    case False
    then show ?thesis by (simp add: process_blocks.simps [of h a])
  qed
qed

text \<open>The state of a hasher that has seen the bytes \<open>m\<close>.\<close>

definition has_seen :: "bytes \<Rightarrow> hash256_one_by_one \<Rightarrow> bool" where
  "has_seen m s \<longleftrightarrow> (hs_h s, hs_buffer s) = process_blocks initial_message_digest m \<and> length (hs_digits s) = 4 \<and>
     digits_small (hs_digits s) \<and> digits_val (hs_digits s) = length m mod 2 ^ 64"

lemma has_seen_init: "has_seen [] hs_init"
proof -
  have "replicate 4 (0 :: word_t) = [0, 0, 0, 0]" by (simp add: numeral_eq_Suc)
  then show ?thesis by (simp add: has_seen_def hs_init_def process_blocks.simps [of _ "[]"])
qed

lemma has_seen_process:
  assumes "has_seen m s" "length c < 2 ^ 63"
  shows "has_seen (m @ c) (hs_process c s)"
proof -
  have u: "unat (of_nat (length c) :: word_t) = length c" using assms(2) by (simp add: unat_of_nat)
  have d: "digits_small (carry_up (of_nat (length c)) (hs_digits s))"
    "length (carry_up (of_nat (length c)) (hs_digits s)) = 4"
    "digits_val (carry_up (of_nat (length c)) (hs_digits s)) = (length m + length c) mod 2 ^ 64"
    using carry_up_digits [of "hs_digits s" "of_nat (length c)"] assms
    by (simp_all add: has_seen_def u mod_simps)
  moreover have "process_blocks (hs_h s) (hs_buffer s @ c) = process_blocks initial_message_digest (m @ c)"
    using assms(1) unfolding has_seen_def process_blocks_append [of _ m c] by (elim conjE) (drule sym, simp)
  ultimately show ?thesis using assms(1)
    by (auto simp: has_seen_def hs_process_def add_to_data_length_carry split: prod.split)
qed

lemma has_seen_unique: "has_seen m s \<Longrightarrow> has_seen m t \<Longrightarrow> s = t"
proof -
  assume *: "has_seen m s" "has_seen m t"
  have "hs_digits s = hs_digits t" using * by (intro digits_unique) (simp_all add: has_seen_def)
  moreover have "(hs_h s, hs_buffer s) = (hs_h t, hs_buffer t)"
    using * unfolding has_seen_def by (elim conjE) (rule trans, assumption, erule sym)
  ultimately show "s = t" by simp
qed

text \<open>Hashing at once, for a message of any length.\<close>

lemma has_seen_whole: "has_seen m (hs_process m hs_init)"
proof -
  define n :: word_t where "n = of_nat (length m)"
  have bits: "unat (take_bit 16 x) = unat x mod 65536" "unat (drop_bit k x) = unat x div 2 ^ k" for x :: word_t and k
    by (simp only: unsigned_take_bit_eq, simp add: take_bit_eq_mod) (simp only: unat_drop_bit_eq, simp only: drop_bit_eq_div)
  have lt: "unat n div 2 ^ 48 < 65536" using unsigned_less [of n, where 'a = nat] by (intro less_mult_imp_div_less) simp
  have "unat n = unat n mod 65536 + 65536 * (unat n div 65536 mod 65536 + 65536 *
      (unat n div 65536 div 65536 mod 65536 + 65536 * (unat n div 65536 div 65536 div 65536)))"
    by (simp only: mod_mult_div_eq)
  moreover have "unat n div 2 ^ 16 = unat n div 65536" "unat n div 2 ^ 32 = unat n div 65536 div 65536"
    "unat n div 2 ^ 48 = unat n div 65536 div 65536 div 65536" by (simp_all flip: div_mult2_eq)
  moreover have "unat n = length m mod 2 ^ 64" by (simp add: n_def unat_of_nat)
  ultimately show ?thesis using lt
    by (simp add: has_seen_def hs_process_def hs_init_def data_length_digits bits flip: n_def split: prod.split)
qed

lemma input_loop_ends:
  assumes "0 < buffer_size" "buffer_size < 2 ^ 63" "has_seen m s"
  shows "\<exists>t. input_loop buffer_size data s = Some t \<and> has_seen (m @ data) t"
  using assms(3)
proof (induction data arbitrary: m s rule: length_induct)
  case (1 data)
  show ?case
  proof (cases "data = []")
    case False
    have "has_seen (m @ take buffer_size data) (hs_process (take buffer_size data) s)"
      using 1(2) assms(2) by (intro has_seen_process) simp_all
    moreover have "length (drop buffer_size data) < length data" using False assms(1) by simp
    ultimately show ?thesis using 1(1) False by (subst input_loop.simps) fastforce
  qed (use 1 in \<open>simp add: input_loop.simps\<close>)
qed

text \<open>An empty buffer makes no progress.\<close>

lemma input_loop_stuck: "data \<noteq> [] \<Longrightarrow> input_loop 0 data s = None"
proof (rule ccontr)
  assume "data \<noteq> []" "input_loop 0 data s \<noteq> None"
  moreover have "n = 0 \<longrightarrow> d = []" if "input_loop n d t = Some u" for n d t u
    by (rule input_loop.raw_induct [OF _ that, of "\<lambda>n d t u. n = 0 \<longrightarrow> d = []"])
      (fastforce split: if_splits)
  ultimately show False by blast
qed

lemma hash256_input_eq:
  assumes "0 < buffer_size" "buffer_size < 2 ^ 63"
  shows "hash256_input buffer_size data = Some (sha256 data)"
  using input_loop_ends [OF assms has_seen_init, of data] has_seen_unique [OF has_seen_whole, of data]
  by (auto simp: hash256_input_def sha256_def)

lemma output_hex_eq: "output_hex bs = hex bs"
proof -
  have "(let s = hexadecimal (unat b) in replicate (2 - length s) (CHR ''0'') @ s) = hex_byte b" for b :: byte
  proof -
    have hi: "unat (drop_bit 4 b) = unat b div 16" by (simp only: unat_drop_bit_eq) (simp add: drop_bit_eq_div)
    have "b AND 0x0F = take_bit 4 b" by (simp add: take_bit_eq_mask mask_eq_exp_minus_1)
    then have lo: "unat (b AND 0x0F) = unat b mod 16" by (simp add: unsigned_take_bit_eq) (simp add: take_bit_eq_mod)
    have "unat b div 16 < 16" using unsigned_less [of b, where 'a = nat] by (intro less_mult_imp_div_less) simp
    then show ?thesis unfolding hex_byte_def hi lo
      by (simp add: hexadecimal.simps [of "unat b"] hexadecimal.simps [of "unat b div 16"] hex_digits_def)
  qed
  then show ?thesis by (simp add: output_hex_def hex_def)
qed

text \<open>C11: All ways of hashing agree with the standard: the digest computed in masked 64-bit arithmetic with
  digit-wise length bookkeeping is the SHA-256 digest of the message, of 32 bytes; the loop over an input iterator
  ends with the same digest for every buffer size, wherever it cuts the message; and the hexadecimal
  digest reads back as these bytes.\<close>

theorem hash256_meets_fips:
  assumes "0 < buffer_size" "buffer_size < 2 ^ 31"
  shows "sha256 m = fips_sha256 m \<and> length (sha256 m) = 32 \<and> hash256_input buffer_size m = Some (fips_sha256 m) \<and>
    unhex (hash256_hex_string m) = Some (fips_sha256 m)"
proof -
  have "take 32 (sha256 m) = sha256 m" by simp
  moreover have "sha256 m \<noteq> []" by (metis length_sha256 list.size(3) zero_neq_numeral)
  ultimately have "unhex (hash256_hex_string m) = Some (sha256 m)"
    by (simp add: hash256_hex_string_def hash256_into_def output_hex_eq unhex_hex)
  then show ?thesis using hash256_input_eq [of buffer_size m] assms by (simp add: sha256_eq_fips flip: sha256_eq_fips)
qed

theorem hash256_meets_fips_witness:
  "hash256_input 2 [97, 98, 99] = Some (fips_sha256 [97, 98, 99]) \<and> unhex (hash256_hex_string [97, 98, 99]) = Some (fips_sha256 [97, 98, 99])"
  using hash256_meets_fips [of 2 "[97, 98, 99]"] by simp

end
