(* ===== verification/Daemon_Run.thy ===== *)
theory Daemon_Run
  imports Daemon_Properties Timers Output_Frame "HOL-Library.Multiset"
begin

text \<open>
  The running daemon: the object of \<open>src/app/lotid/lotid.cpp\<close> together with the reactor that holds its timers
  (\<open>Lotid::run\<close>, \<open>schedule_store_sync\<close>). What the node asks of the scheduler goes into the queue of the reactor, and the
  reactor calls back what is due. It is shown which timers are armed at any time.
\<close>

section \<open>Timers of the daemon\<close>

datatype LotidTimer = Node_timer Timer | Store_sync_timer

text \<open>What the \<open>ReactorScheduler\<close> does with an output of the node.\<close>

definition arm_output :: "(nat \<Rightarrow> int) \<Rightarrow> Output \<Rightarrow> LotidTimer Reactor \<Rightarrow> LotidTimer Reactor result" where
  "arm_output clk out r =
     (case out of
        Schedule i delay t \<Rightarrow> bindE (reactor_after clk delay (Node_timer t) r) (\<lambda>(_, r). Inr r)
      | Cancel i \<Rightarrow> Inr (cancel_timer i r)
      | _ \<Rightarrow> Inr r)"

definition new_outputs :: "Lotid \<Rightarrow> Lotid \<Rightarrow> Output list" where
  "new_outputs d d' = drop (length (nd_out (d_node d))) (nd_out (d_node d'))"

definition schedule_store_sync :: "(nat \<Rightarrow> int) \<Rightarrow> Duration \<Rightarrow> Lotid \<Rightarrow> LotidTimer Reactor \<Rightarrow> LotidTimer Reactor result" where
  "schedule_store_sync clk interval d r =
     (if interval = 0 \<or> d_lmdb d = None then Inr r
      else bindE (reactor_after clk interval Store_sync_timer r) (\<lambda>(_, r). Inr r))"

text \<open>The callbacks of the timers. A callback that throws is recorded in the third component. The daemon is modelled on
  the in-memory store; \<open>fault\<close> is the exception with which a production store refuses the clock event of a tick,
  if it does, and \<open>sync\<close> how its flush ends.\<close>

fun appends :: "Timer \<Rightarrow> bool" where
  "appends (Clock_timer chain) \<longleftrightarrow> True"
| "appends Purge_timer \<longleftrightarrow> False"

definition lotid_exec :: "LotidEnv \<Rightarrow> exn option \<Rightarrow> unit result \<Rightarrow> (nat \<Rightarrow> int) \<Rightarrow> Duration \<Rightarrow>
    (LotidTimer, Lotid \<times> LotidTimer list) exec" where
  "lotid_exec env fault sync clk interval cb s =
     (let (r, d, failed) = s in
      case cb of
        Node_timer t \<Rightarrow>
          (case if d_lmdb d \<noteq> None \<and> appends t then fault else None of
             Some e \<Rightarrow> (Inl e, r, d, cb # failed)
           | None \<Rightarrow>
               (case node_call env (Fire t) d of
                  (Inl e, d') \<Rightarrow> (Inl e, r, d', cb # failed)
                | (Inr _, d') \<Rightarrow>
                    (case foldE (arm_output clk) (new_outputs d d') r of
                       Inl e \<Rightarrow> (Inl e, r, d', failed)
                     | Inr r \<Rightarrow> (Inr (), r, d', failed))))
      | Store_sync_timer \<Rightarrow>
          (case if d_lmdb d \<noteq> None then sync else Inr () of
             Inl e \<Rightarrow> (Inl e, r, d, cb # failed)
           | Inr _ \<Rightarrow>
               (case schedule_store_sync clk interval d r of
                  Inl e \<Rightarrow> (Inl e, r, d, failed)
                | Inr r \<Rightarrow> (Inr (), r, d, failed))))"

section \<open>The run\<close>

text \<open>The start of \<open>run\<close>, up to the event loop.\<close>

definition run_start :: "LotidEnv \<Rightarrow> (nat \<Rightarrow> int) \<Rightarrow> Duration \<Rightarrow> Lotid \<Rightarrow>
    (LotidTimer Reactor \<times> Lotid \<times> LotidTimer list) result" where
  "run_start env clk interval d =
     (case node_call env Start d of
        (Inl e, _) \<Rightarrow> Inl e
      | (Inr _, d') \<Rightarrow>
          bindE (foldE (arm_output clk) (new_outputs d d') Reactor_init) (\<lambda>r.
          bindE (schedule_store_sync clk interval d' r) (\<lambda>r. Inr (r, d', []))))"

text \<open>The callbacks of the readers.\<close>

inductive reader_step :: "LotidEnv \<Rightarrow> Lotid \<Rightarrow> Lotid \<Rightarrow> bool" for env where
  accept: "reader_step env d (on_control_accept fd d)"
| control: "is_open fd d \<Longrightarrow> on_control_readable env fd rd d = (r, d') \<Longrightarrow> survives r \<Longrightarrow> reader_step env d d'"
| stdin: "on_stdin_readable env rd d = (r, d') \<Longrightarrow> survives r \<Longrightarrow> reader_step env d d'"
| datagrams: "lotid_drain env q d = (r, d') \<Longrightarrow> survives r \<Longrightarrow> reader_step env d d'"

text \<open>A round of the event loop is a sequence of these: a timer that is due is taken from the queue and called, or a
  reader is called. Between the rounds the clock, the network and the clients do what they want.\<close>

inductive run_step :: "LotidEnv \<Rightarrow> (nat \<Rightarrow> int) \<Rightarrow> Duration \<Rightarrow> LotidTimer Reactor \<times> Lotid \<times> LotidTimer list \<Rightarrow>
    LotidTimer Reactor \<times> Lotid \<times> LotidTimer list \<Rightarrow> bool" for env clk interval where
  timer: "pop_due now r = Some (i, cb, r1) \<Longrightarrow> safe_call (lotid_exec env fault sync clk interval) cb (r1, w) = (Inr (), s) \<Longrightarrow>
    run_step env clk interval (r, w) s"
| reader: "reader_step env d d' \<Longrightarrow> foldE (arm_output clk) (new_outputs d d') r = Inr r' \<Longrightarrow>
    run_step env clk interval (r, d, failed) (r', d', failed)"

inductive daemon_runs :: "'k Ed25519 \<Rightarrow> LotidEnv \<Rightarrow> (nat \<Rightarrow> int) \<Rightarrow> Duration \<Rightarrow>
    LotidTimer Reactor \<times> Lotid \<times> LotidTimer list \<Rightarrow> bool" for E env clk interval where
  boot: "make_lotid E calls i key_path lmdb clock_ns expiry_ns fs = Inr (d, key) \<Longrightarrow>
    configure env peers routes d = (Inr None, d') \<Longrightarrow> run_start env clk interval d' = Inr s \<Longrightarrow>
    daemon_runs E env clk interval s"
| step: "daemon_runs E env clk interval s \<Longrightarrow> run_step env clk interval s s' \<Longrightarrow> daemon_runs E env clk interval s'"

text \<open>What is shown of the daemon holds of its object at every moment of a run.\<close>

lemma reader_step_lotid: "reader_step env d d' \<Longrightarrow> lotid_step env d d'"
  by (induction rule: reader_step.induct) (auto intro: lotid_step.intros)

lemma lotid_exec_object:
  assumes "safe_call (lotid_exec env fault sync clk interval) cb (r, d, failed) = (Inr (), r', d', failed')"
  shows "d' = d \<or> lotid_step env d d'"
proof (cases cb)
  case (Node_timer t)
  obtain x d1 where n: "node_call env (Fire t) d = (x, d1)" by (rule prod.exhaust)
  then show ?thesis using assms Node_timer lotid_step.timer [OF n]
    by (auto simp: safe_call_def lotid_exec_def survives_def split: option.splits sum.splits if_splits)
next
  case Store_sync_timer
  then show ?thesis using assms by (auto simp: safe_call_def lotid_exec_def split: sum.splits if_splits)
qed

lemma daemon_runs_object: "daemon_runs E env clk interval s \<Longrightarrow> lotid_reachable E env (fst (snd s))"
proof (induction rule: daemon_runs.induct)
  case (boot calls i key_path lmdb clock_ns expiry_ns fs d key peers routes d' s)
  then show ?case using lotid_reachable.boot [OF boot(1,2)]
    by (auto simp: run_start_def split: prod.splits sum.splits)
next
  case (step s s')
  from step(2) show ?case
  proof cases
    case (timer now r i cb r1 fault sync w)
    then show ?thesis using step(3) lotid_exec_object [of env fault sync clk interval cb r1 "fst w" "snd w" "fst s'" "fst (snd s')" "snd (snd s')"]
      by (auto intro: lotid_reachable.step)
  next
    case (reader d d' r r' failed)
    then show ?thesis using step(3) by (auto intro: lotid_reachable.step reader_step_lotid)
  qed
qed

section \<open>Only timers arm timers\<close>

fun arming :: "Output \<Rightarrow> bool" where
  "arming (Schedule i delay t) \<longleftrightarrow> True"
| "arming (Cancel i) \<longleftrightarrow> True"
| "arming _ \<longleftrightarrow> False"

definition silent :: "Node \<Rightarrow> Node \<Rightarrow> bool" where
  "silent n m \<longleftrightarrow> nd_config m = nd_config n \<and> (\<exists>os. nd_out m = nd_out n @ os \<and> filter arming os = [])"

lemma silent_refl [simp]: "silent n n"
  by (simp add: silent_def)

lemma silent_trans: "silent a b \<Longrightarrow> silent b c \<Longrightarrow> silent a c"
  by (auto simp: silent_def)

lemma arming_loud: "arming out \<Longrightarrow> loud out"
  by (cases out) simp_all

lemma filter_arming: "filter loud os = [] \<Longrightarrow> filter arming os = []"
  by (induction os) (auto split: if_splits dest: arming_loud)

lemma calm_silent: "calm a n \<Longrightarrow> silent a n"
  by (auto simp: calm_def silent_def overlay_kept_def intro: filter_arming)

lemma load_silent: "restore blob n = Inr m \<Longrightarrow> silent n m"
  by (auto simp: restore_def load_node_def hydrate_working_state_def silent_def)

lemma gc_silent: "silent n (gc n)"
proof -
  have "silent n (foldl (\<lambda>n chain. if P n chain then n\<lparr>nd_store := f n chain\<rparr> else n) m xs)" if "silent n m" for P f m xs
    using that by (induction xs arbitrary: m) (simp_all add: silent_def)
  from this [OF silent_refl] show ?thesis unfolding gc_def .
qed

lemma handle_silent:
  assumes "handle p i n = Inr m" "i \<noteq> Start" "\<And>t. i \<noteq> Fire t" "\<And>ch. i \<noteq> Tick ch"
  shows "silent n m"
proof (cases i)
  case (Learn_route d h)
  then show ?thesis using assms by (auto simp: learn_route_def silent_def Let_def)
next
  case (Learn_route_at d h w)
  then show ?thesis using assms by (auto simp: learn_route_at_def silent_def Let_def)
next
  case (Add_neighbor j)
  then show ?thesis using assms by (auto simp: add_neighbor_def silent_def Let_def split: option.split)
next
  case Collect_garbage
  then show ?thesis using assms gc_silent [of n] by auto
next
  case (Publish data)
  then show ?thesis using assms by (auto intro: calm_silent calm_publish [OF calm_refl])
qed (use assms in \<open>auto intro!: calm_silent dest: calm_packet [OF calm_refl, THEN postD] calm_discover_chain [OF calm_refl, THEN postD]
    calm_discover [OF calm_refl, THEN postD]\<close>)

section \<open>What the readers leave alone\<close>

definition still :: "Lotid \<Rightarrow> Lotid \<Rightarrow> bool" where
  "still a d \<longleftrightarrow> silent (d_node a) (d_node d) \<and> d_lmdb d = d_lmdb a"

lemma still_refl [simp]: "still d d"
  by (simp add: still_def)

lemma still_update [simp]:
  "still a (d\<lparr>d_wire := w\<rparr>) = still a d" "still a (d\<lparr>d_last_event := h\<rparr>) = still a d"
  "still a (d\<lparr>d_running := b\<rparr>) = still a d" "still a (d\<lparr>d_files := fs\<rparr>) = still a d"
  "still a (d\<lparr>d_stdin_buf := s\<rparr>) = still a d" "still a (d\<lparr>d_stdout := s\<rparr>) = still a d"
  "still a (d\<lparr>d_client_buf := cb\<rparr>) = still a d" "still a (d\<lparr>d_transport := t, d_peers := ps\<rparr>) = still a d"
  "still a (d\<lparr>d_order_proofs := os\<rparr>) = still a d" "still a (d\<lparr>d_pending_order := po\<rparr>) = still a d"
  "still a (d\<lparr>d_pending_proof := pp\<rparr>) = still a d" "still a (set_pending q m d) = still a d"
  "still a (d\<lparr>d_next_addr := k\<rparr>) = still a d"
  by (simp_all add: still_def set_pending_def split: Query.split)

lemma still_respond [simp]: "still a (close_client fd d) = still a d" "still a (respond fd r d) = still a d"
  by (simp_all add: still_def respond_def close_client_def purge_pending_for_fd_def Let_def)

lemma still_wait [simp]:
  "still a (wait_for q h fd d) = still a d" "still a (wait_for_proof h rq d) = still a d"
  "still a (wait_for_order key fd d) = still a d"
  by (simp_all add: wait_for_def wait_for_proof_def wait_for_order_def new_entry_def split: option.split prod.split)

interpretation st: lotid_callbacks "still a" for a
  by unfold_locales simp_all

lemma keeps_silent_call: "(\<And>n x m. f n = Inr (x, m) \<Longrightarrow> silent n m) \<Longrightarrow> keeps (still a) (with_node f)"
  by (rule st.keeps_node_change) (auto simp: still_def intro: silent_trans)

lemma keeps_still_call [keeps_intros]:
  "i \<noteq> Start \<Longrightarrow> (\<And>t. i \<noteq> Fire t) \<Longrightarrow> (\<And>ch. i \<noteq> Tick ch) \<Longrightarrow> keeps (still a) (node_call env i)"
  unfolding node_call_def by (rule keeps_silent_call) (auto intro: handle_silent)

lemma keeps_still_add_peer [keeps_intros]: "keeps (still a) (add_peer env i ip port)"
  unfolding add_peer_def by (intro keeps_intros; simp)

lemma keeps_still_publish [keeps_intros]: "keeps (still a) (with_node (publish_event p data))"
  by (rule keeps_silent_call) (auto intro: calm_silent calm_publish [OF calm_refl])

lemma keeps_still_query: "keeps (still a) (dispatch_query env verb args fd)" "keeps (still a) (dispatch_prove env args fd)"
  unfolding dispatch_query_def dispatch_prove_def Let_def
  by (auto split: option.split intro!: keeps_intros)

lemma keeps_still_reply: "keeps (still a) (\<lambda>d. (Inr (f d), d))"
  by (simp add: keeps_def)

lemma keeps_still_commands:
  "keeps (still a) (publish_command env args)" "keeps (still a) (event_command args)"
  "keeps (still a) (event_find_command args)" "keeps (still a) events_command"
  "keeps (still a) (peer_add_command env args)" "keeps (still a) (gc_command env)"
  "keeps (still a) (backup_command env args)" "keeps (still a) (restore_command env args)"
proof -
  show "keeps (still a) (publish_command env args)" "keeps (still a) (event_command args)"
    "keeps (still a) (event_find_command args)" "keeps (still a) events_command"
    "keeps (still a) (peer_add_command env args)" "keeps (still a) (gc_command env)"
    unfolding publish_command_def event_command_def event_find_command_def events_command_def peer_add_command_def gc_command_def Let_def
    by (intro keeps_intros keeps_still_reply; simp)+
  have "keeps (still a) (\<lambda>d. let (r, states) = file_save c path blob (d_files d) in (r, d\<lparr>d_files := hd states\<rparr>))" for c path blob
    by (simp add: keeps_def split: prod.split)
  then show "keeps (still a) (backup_command env args)" unfolding backup_command_def by (intro keeps_intros keeps_still_reply)
  show "keeps (still a) (restore_command env args)"
  proof (rule keepsI)
    fix d
    assume d: "still a d"
    have k: "keeps (still a) (with_node (\<lambda>n. bindE (restore blob n) (\<lambda>n. Inr ((), n))))" for blob
      by (rule keeps_silent_call) (auto intro: load_silent)
    show "still a (snd (restore_command env args d))" using d
      by (auto simp: restore_command_def split: option.split prod.split sum.split intro: keepsD [OF k])
  qed
qed

lemma still_dispatch: "still a d \<Longrightarrow> still a (snd (dispatch_guarded env args fd d))"
proof -
  assume d: "still a d"
  have s: "snd (save_command env d) = d"
    by (simp add: save_command_def act_bind_def act_result_def split: sum.split)
  have "still a (snd (dispatch env args fd d))"
    using d keeps_still_commands [THEN keeps_apply, OF d] keeps_still_query [THEN keeps_apply, OF d]
    by (simp add: dispatch_def Let_def peer_ls_command_def status_command_def key_command_def s act_read_def quit_command_def)
  then show ?thesis by (auto simp: dispatch_guarded_def split: prod.split sum.split)
qed

lemma still_stdin: "still a d \<Longrightarrow> still a (snd (stdin_loop env buf d))"
proof (induction env buf d rule: stdin_loop.induct)
  case (1 env buf d)
  show ?case
  proof (cases "find_from LF buf 0")
    case None
    then show ?thesis using 1(3) by (simp add: stdin_loop.simps [of env buf])
  next
    case (Some nl)
    have k: "still a (snd (dispatch_guarded env (tokenize (take nl buf)) (- 1) (d\<lparr>d_stdin_buf := drop (nl + 1) buf\<rparr>)))"
      by (rule still_dispatch) (simp add: 1(3))
    show ?thesis
      using Some 1 k by (auto simp: stdin_loop.simps [of env buf] Let_def split: prod.split sum.split)
  qed
qed

lemma still_drain: "still a d \<Longrightarrow> still a (snd (lotid_drain env q d))"
proof (induction env q d rule: lotid_drain.induct)
  case (1 env q d)
  obtain b q' where r: "receive (d_transport d) q = (b, q')" by (rule prod.exhaust)
  have "still a (snd (node_call env (Packet b) d))"
    by (rule keeps_apply [of "still a"]) (rule keeps_still_call, simp_all add: 1(3))
  then show ?case
    using 1 r by (auto simp: lotid_drain.simps [of env q] split: prod.split sum.split)
qed

lemma reader_still: "reader_step env d d' \<Longrightarrow> still d d'"
proof (induction rule: reader_step.induct)
  case (accept d fd)
  show ?case by (simp add: on_control_accept_def)
next
  case (control fd d rd r d')
  let ?d = "\<lambda>b. d\<lparr>d_client_buf := b\<rparr>"
  have "still d (snd (dispatch_guarded env args fd (?d b)))" for args b
    by (rule still_dispatch) simp
  then have "still d (snd (act_bind (dispatch_guarded env args fd) (\<lambda>r. act_update (\<lambda>d. if rl_deferred r then d else respond fd r d)) (?d b)))" for args b
    by (cases "dispatch_guarded env args fd (?d b)"; cases "fst (dispatch_guarded env args fd (?d b))")
      (simp_all add: act_bind_def act_update_def, metis snd_conv, metis snd_conv)
  then have "still d (snd (on_control_readable env fd rd d))"
    by (auto simp: on_control_readable_def Let_def split: Read.split option.split)
  then show ?case using control(2) by simp
next
  case (stdin rd d r d')
  have "still d d'" if "stdin_loop env buf d = (r, d')" for buf
    using still_stdin [of d d env buf] that by simp
  then show ?case using stdin(1) by (auto simp: on_stdin_readable_def split: Read.splits)
next
  case (datagrams q d r d')
  then show ?case using still_drain [of d d env q] by simp
qed

section \<open>The census of the timers\<close>

definition armed_timers :: "LotidTimer Reactor \<Rightarrow> LotidTimer multiset" where
  "armed_timers r = mset (map (snd \<circ> snd) (rx_timers r))"

fun scheduled :: "Output list \<Rightarrow> LotidTimer list" where
  "scheduled [] = []"
| "scheduled (Schedule i delay t # os) = Node_timer t # scheduled os"
| "scheduled (_ # os) = scheduled os"

definition node_timers :: "NodeConfig \<Rightarrow> Timer list" where
  "node_timers c =
     map (\<lambda>l. Clock_timer (of_nat l)) (filter (\<lambda>l. sint (cc_interval (cfg_chains c ! l)) > 0) [0..<length (cfg_chains c)]) @
     (if sint (cfg_discovery_expiry c) > 0 then [Purge_timer] else [])"

text \<open>The timers of a daemon: the ticks of the chains that have an interval, the purge, and the flush of a store that is
  written lazily.\<close>

definition timers_of :: "Duration \<Rightarrow> Lotid \<Rightarrow> LotidTimer list" where
  "timers_of interval d = map Node_timer (node_timers (nd_config (d_node d))) @
     (if interval \<noteq> 0 \<and> d_lmdb d \<noteq> None then [Store_sync_timer] else [])"

definition arms_exactly :: "Timer list \<Rightarrow> Node \<Rightarrow> Node \<Rightarrow> bool" where
  "arms_exactly ts n m \<longleftrightarrow> nd_config m = nd_config n \<and>
     (\<exists>os. nd_out m = nd_out n @ os \<and> scheduled os = map Node_timer ts \<and> (\<forall>i. Cancel i \<notin> set os))"

lemma scheduled_append [simp]: "scheduled (as @ bs) = scheduled as @ scheduled bs"
  by (induction as rule: scheduled.induct) simp_all

lemma scheduled_silent: "filter arming os = [] \<Longrightarrow> scheduled os = [] \<and> (\<forall>i. Cancel i \<notin> set os)"
  by (induction os rule: scheduled.induct) auto

lemma arms_silent: "silent n m \<Longrightarrow> arms_exactly [] n m"
  unfolding silent_def arms_exactly_def using scheduled_silent by fastforce

lemma arms_trans: "arms_exactly ts a b \<Longrightarrow> arms_exactly us b c \<Longrightarrow> arms_exactly (ts @ us) a c"
  by (auto simp: arms_exactly_def)

lemma arms_schedule:
  "arms_exactly [Clock_timer ch] n (schedule_clock_timer p ch n)" "arms_exactly [Purge_timer] n (schedule_purge_timer p n)"
  by (simp_all add: schedule_clock_timer_def schedule_purge_timer_def schedule_after_def arms_exactly_def emit_def Let_def)

lemma on_timer_arms:
  assumes "on_timer p t n = Inr m"
  shows "arms_exactly [t] n m"
proof (cases t)
  case (Clock_timer ch)
  then obtain n1 where n1: "create_clock_event p ch n = Inr n1" "m = schedule_clock_timer p ch n1"
    using assms by (auto simp: on_timer_def)
  have "silent n n1"
    using tick_reports [OF n1(1)] calm_silent by (fastforce simp: silent_def emit_def)
  then show ?thesis using arms_trans [OF arms_silent arms_schedule(1), of n n1 ch p] n1(2) Clock_timer by simp
next
  case Purge_timer
  then obtain n1 where n1: "purge_discoveries p n = Inr n1" "m = schedule_purge_timer p n1"
    using assms by (auto simp: on_timer_def)
  have "silent n n1" using calm_purge [OF calm_refl, of n p] n1(1) by (auto intro: calm_silent dest: postD)
  then show ?thesis using arms_trans [OF arms_silent arms_schedule(2), of n n1 p] n1(2) Purge_timer by simp
qed

lemma start_arms: "arms_exactly (node_timers (nd_config n)) n (start p n)"
proof -
  let ?on = "\<lambda>l. sint (cc_interval (cfg_chains (nd_config n) ! l)) > 0"
  have c: "arms_exactly (map (\<lambda>l. Clock_timer (of_nat l)) (filter ?on ls)) n
      (foldl (\<lambda>n chain. if sint (cc_interval (cfg_chains (nd_config n) ! chain)) > 0
         then schedule_clock_timer p (of_nat chain) n else n) n ls)" for ls
  proof (induction ls rule: rev_induct)
    case (snoc l ls)
    then show ?case using arms_trans [OF snoc arms_schedule(1), of "of_nat l" p] by (auto simp: arms_exactly_def)
  qed (simp add: arms_silent)
  show ?thesis
    using c [of "[0..<length (cfg_chains (nd_config n))]"] arms_trans [OF c arms_schedule(2)]
    by (auto simp: start_def node_timers_def Let_def arms_exactly_def)
qed

text \<open>A call of the node arms the timers of the call; the callbacks arm none.\<close>

lemma with_node_cases:
  assumes "with_node f d = (x, d')"
  shows "(\<exists>e. x = Inl e \<and> d' = d) \<or> (\<exists>y n. f (d_node d) = Inr (y, n) \<and> silent n (d_node d') \<and> d_lmdb d' = d_lmdb d)"
proof (cases "f (d_node d)")
  case (Inr z)
  obtain y n where z: "z = (y, n)" by (rule prod.exhaust)
  have "keeps (still (d\<lparr>d_node := n\<rparr>)) (act_bind (deliver_all os) (\<lambda>_. act_return y))" for os
    by (intro keeps_intros)
  from keepsD [OF this still_refl] have "still (d\<lparr>d_node := n\<rparr>) d'" using assms Inr z by (simp add: with_node_def)
  then show ?thesis using Inr z by (simp add: still_def)
qed (use assms in \<open>auto simp: with_node_def\<close>)

lemma node_call_arms:
  assumes "node_call env i d = (x, d')" "\<And>m. handle (le_ports env) i (d_node d) = Inr m \<Longrightarrow> arms_exactly ts (d_node d) m"
  shows "d_lmdb d' = d_lmdb d \<and> nd_config (d_node d') = nd_config (d_node d) \<and>
    (x = Inr () \<longrightarrow> arms_exactly ts (d_node d) (d_node d'))"
proof (rule disjE [OF with_node_cases [OF assms(1) [unfolded node_call_def]]])
  assume "\<exists>y n. bindE (handle (le_ports env) i (d_node d)) (\<lambda>n. Inr ((), n)) = Inr (y, n) \<and> silent n (d_node d') \<and> d_lmdb d' = d_lmdb d"
  then obtain n where n: "handle (le_ports env) i (d_node d) = Inr n" "silent n (d_node d')" "d_lmdb d' = d_lmdb d" by auto
  then show ?thesis using arms_trans [OF assms(2) arms_silent, OF n(1,2)] by (simp add: arms_exactly_def)
qed auto

lemma mset_emplace: "mset (mm_emplace k v m) = add_mset (k, v) (mset m)"
  by (induction k v m rule: mm_emplace.induct) auto

lemma reactor_after_armed:
  "reactor_after clk delay cb r = Inr (i, r') \<Longrightarrow> armed_timers r' = add_mset cb (armed_timers r)"
  by (auto simp: reactor_after_def add_timer_def armed_timers_def Let_def mset_emplace split: if_splits)

lemma pop_due_armed: "pop_due now r = Some (i, cb, r1) \<Longrightarrow> armed_timers r = add_mset cb (armed_timers r1)"
  by (auto simp: pop_due_def armed_timers_def split: list.splits if_splits)

lemma arm_all:
  "foldE (arm_output clk) outs r = Inr r' \<Longrightarrow> \<forall>i. Cancel i \<notin> set outs \<Longrightarrow>
   armed_timers r' = armed_timers r + mset (scheduled outs)"
proof (induction outs arbitrary: r)
  case (Cons out outs)
  then obtain r1 where r1: "arm_output clk out r = Inr r1" "foldE (arm_output clk) outs r1 = Inr r'" by auto
  have "armed_timers r' = armed_timers r1 + mset (scheduled outs)" using Cons.IH [OF r1(2)] Cons.prems(2) by auto
  moreover have "armed_timers r1 + mset (scheduled outs) = armed_timers r + mset (scheduled (out # outs))"
    using r1(1) Cons.prems(2) by (cases out) (auto simp: arm_output_def dest: reactor_after_armed)
  ultimately show ?case by simp
qed simp

lemma arm_fails:
  "foldE (arm_output clk) outs r = Inl e \<Longrightarrow> \<not> catchable e" "schedule_store_sync clk interval d r = Inl e \<Longrightarrow> \<not> catchable e"
proof -
  have a: "\<not> catchable e" if "reactor_after clk delay cb r = Inl e" for delay cb r
    using that by (auto simp: reactor_after_def catchable_def Let_def split: if_splits)
  have o: "\<not> catchable e" if "arm_output clk out r = Inl e" for out r
    using that a by (cases out) (auto simp: arm_output_def bindE_eq_Inl)
  show "foldE (arm_output clk) outs r = Inl e \<Longrightarrow> \<not> catchable e"
  proof (induction outs arbitrary: r)
    case (Cons out outs)
    then show ?case using o by (cases "arm_output clk out r") auto
  qed simp
  show "schedule_store_sync clk interval d r = Inl e \<Longrightarrow> \<not> catchable e"
    using a by (auto simp: schedule_store_sync_def bindE_eq_Inl split: if_splits)
qed

lemma arm_new:
  assumes "arms_exactly ts (d_node d) (d_node d')" "foldE (arm_output clk) (new_outputs d d') r = Inr r'"
  shows "armed_timers r' = armed_timers r + mset (map Node_timer ts)"
  using assms arm_all [OF assms(2)] by (auto simp: arms_exactly_def new_outputs_def)

definition census :: "Duration \<Rightarrow> LotidTimer Reactor \<times> Lotid \<times> LotidTimer list \<Rightarrow> bool" where
  "census interval s \<longleftrightarrow> (case s of (r, d, failed) \<Rightarrow>
     armed_timers r + mset failed = mset (timers_of interval d) \<and> length (cfg_chains (nd_config (d_node d))) \<le> 4)"

lemma timers_of_cong: "d_lmdb d' = d_lmdb d \<Longrightarrow> nd_config (d_node d') = nd_config (d_node d) \<Longrightarrow> timers_of interval d' = timers_of interval d"
  by (simp add: timers_of_def)

lemma still_timers: "still d d' \<Longrightarrow> timers_of interval d' = timers_of interval d"
  by (rule timers_of_cong) (simp_all add: still_def silent_def)

lemma census_timer:
  assumes "census interval (r, w)" "pop_due now r = Some (i, cb, r1)"
    "safe_call (lotid_exec env fault sync clk interval) cb (r1, w) = (Inr (), s)"
  shows "census interval s"
proof -
  obtain d failed where w: "w = (d, failed)" by (rule prod.exhaust)
  have c: "add_mset cb (armed_timers r1) + mset failed = mset (timers_of interval d)"
    "length (cfg_chains (nd_config (d_node d))) \<le> 4"
    using assms(1) pop_due_armed [OF assms(2)] by (simp_all add: census_def w)
  show ?thesis
  proof (cases cb)
    case (Node_timer t)
    obtain x d1 where n: "node_call env (Fire t) d = (x, d1)" by (rule prod.exhaust)
    have a: "d_lmdb d1 = d_lmdb d" "nd_config (d_node d1) = nd_config (d_node d)"
      "x = Inr () \<Longrightarrow> arms_exactly [t] (d_node d) (d_node d1)"
      using node_call_arms [OF n, of "[t]"] on_timer_arms by auto
    have k: "timers_of interval d1 = timers_of interval d" using a by (intro timers_of_cong)
    have "armed_timers r2 = add_mset cb (armed_timers r1)"
      if "x = Inr ()" "foldE (arm_output clk) (new_outputs d d1) r1 = Inr r2" for r2
      using arm_new [OF a(3) that(2)] that(1) Node_timer by simp
    then show ?thesis using assms(3) c a(2) k n Node_timer
      by (auto simp: safe_call_def lotid_exec_def census_def w dest: arm_fails split: option.splits sum.splits if_splits)
  next
    case Store_sync_timer
    have "Store_sync_timer \<in># add_mset cb (armed_timers r1) + mset failed" using Store_sync_timer by simp
    then have "Store_sync_timer \<in># mset (timers_of interval d)" unfolding c(1) .
    then have on: "interval \<noteq> 0" "d_lmdb d \<noteq> None" by (auto simp: timers_of_def split: if_splits)
    have "armed_timers r2 = add_mset cb (armed_timers r1)" if "schedule_store_sync clk interval d r1 = Inr r2" for r2
      using that on Store_sync_timer by (auto simp: schedule_store_sync_def dest: reactor_after_armed)
    then show ?thesis using assms(3) c Store_sync_timer
      by (auto simp: safe_call_def lotid_exec_def census_def w dest: arm_fails split: option.splits sum.splits if_splits)
  qed
qed

lemma census_step: "run_step env clk interval s s' \<Longrightarrow> census interval s \<Longrightarrow> census interval s'"
proof (induction rule: run_step.induct)
  case (timer now r i cb r1 fault sync w s)
  then show ?case using census_timer by blast
next
  case (reader d d' r r' failed)
  have s: "still d d'" by (rule reader_still) (rule reader)
  then have "arms_exactly [] (d_node d) (d_node d')" by (auto simp: still_def intro: arms_silent)
  then have "armed_timers r' = armed_timers r" using arm_new [OF _ reader(2)] by simp
  moreover have "nd_config (d_node d') = nd_config (d_node d)" using s by (simp add: still_def silent_def)
  ultimately show ?case using reader(3) still_timers [OF s, of interval] by (simp add: census_def)
qed

lemma failed_grows: "run_step env clk interval s s' \<Longrightarrow> set (snd (snd s)) \<subseteq> set (snd (snd s'))"
proof (induction rule: run_step.induct)
  case (timer now r i cb r1 fault sync w s)
  obtain d failed where w: "w = (d, failed)" by (rule prod.exhaust)
  show ?case using timer(2)
    by (cases cb) (auto simp: safe_call_def lotid_exec_def w split: option.splits sum.splits if_splits prod.splits)
qed simp

section \<open>The census at the start\<close>

lemma keeps_still_configure: "keeps (still a) (configure env peers routes)"
  by (intro keeps_configure keeps_intros) simp_all

lemma default_chains_length: "default_chain_schedule ns = Inr cs \<Longrightarrow> length cs \<in> {1, 4}"
proof -
  have "chain_levels k i = Inr cs \<Longrightarrow> length cs = k" for k i cs
    by (induction k arbitrary: i cs) (auto split: if_splits)
  then show "default_chain_schedule ns = Inr cs \<Longrightarrow> length cs \<in> {1, 4}"
    by (auto simp: default_chain_schedule_def split: if_splits)
qed

lemma make_node_config: "make_node i s config = Inr n \<Longrightarrow> nd_config n = effective_config config"
  by (auto simp: make_node_def hydrate_working_state_def Let_def)

lemma make_lotid_chains:
  assumes "make_lotid E calls i key_path lmdb clock_ns expiry_ns fs = Inr (d, key)"
  shows "length (cfg_chains (nd_config (d_node d))) \<le> 4"
proof -
  obtain cs s j where c: "default_chain_schedule clock_ns = Inr cs" "make_node j s
      \<lparr>cfg_chains = cs, cfg_discovery_expiry = expiry_ns, cfg_discovery_hop_limit = 0,
       cfg_discovery_routing = static_shortest_path, cfg_discovery_fanout = 0, cfg_discovery_forward_cap = 0\<rparr> = Inr (d_node d)"
    using assms by (auto simp: make_lotid_def Let_def split: prod.splits)
  have "length cs \<in> {1, 4}" by (rule default_chains_length [OF c(1)])
  then show ?thesis using make_node_config [OF c(2)] by (auto simp: effective_config_def)
qed

lemma census_boot:
  assumes "make_lotid E calls i key_path lmdb clock_ns expiry_ns fs = Inr (d, key)"
    "configure env peers routes d = (Inr None, d1)" "run_start env clk interval d1 = Inr s"
  shows "census interval s"
proof -
  obtain d2 r r' where s: "node_call env Start d1 = (Inr (), d2)" "foldE (arm_output clk) (new_outputs d1 d2) Reactor_init = Inr r"
    "schedule_store_sync clk interval d2 r = Inr r'" "s = (r', d2, [])"
    using assms(3) by (auto simp: run_start_def split: prod.splits sum.splits)
  have "still d d1" by (rule keepsD [OF keeps_still_configure still_refl assms(2)])
  then have c: "nd_config (d_node d1) = nd_config (d_node d)" by (simp add: still_def silent_def)
  have a: "nd_config (d_node d2) = nd_config (d_node d1)"
    "arms_exactly (node_timers (nd_config (d_node d1))) (d_node d1) (d_node d2)"
    using node_call_arms [OF s(1), of "node_timers (nd_config (d_node d1))"] start_arms by auto
  have "armed_timers r = mset (map Node_timer (node_timers (nd_config (d_node d1))))"
    using arm_new [OF a(2) s(2)] by (simp add: armed_timers_def Reactor_init_def)
  moreover have "armed_timers r' = armed_timers r + mset (if interval \<noteq> 0 \<and> d_lmdb d2 \<noteq> None then [Store_sync_timer] else [])"
    using s(3) by (auto simp: schedule_store_sync_def dest: reactor_after_armed split: if_splits)
  ultimately show ?thesis using make_lotid_chains [OF assms(1)] a(1) c by (simp add: census_def s(4) timers_of_def)
qed

lemma daemon_census: "daemon_runs E env clk interval s \<Longrightarrow> census interval s"
  by (induction rule: daemon_runs.induct) (auto intro: census_boot census_step)

lemma timers_of_distinct:
  assumes "length (cfg_chains (nd_config (d_node d))) \<le> 4"
  shows "distinct (timers_of interval d)"
proof -
  have "inj_on (\<lambda>l. of_nat l :: u32) {0..<4}"
    by (rule inj_onI) (auto simp: word_of_nat_eq_iff take_bit_nat_eq_self)
  then have "inj_on (\<lambda>l. of_nat l :: u32) (set [0..<length (cfg_chains (nd_config (d_node d)))])"
    by (rule inj_on_subset) (use assms in auto)
  then have "distinct (node_timers (nd_config (d_node d)))"
    unfolding node_timers_def by (auto simp: distinct_map inj_on_def)
  then show ?thesis by (auto simp: timers_of_def distinct_map inj_on_def)
qed

text \<open>C37: A running daemon loses no timer and doubles none, except by failure. At any time of a run each of its
  timers, which are the ticks of the chains that have an interval, the purge, and the flush of a store that is written lazily,
  is armed exactly once if none of its callbacks has thrown. Once a callback has thrown, because the store refused
  the clock event of a tick or the flush failed, the reactor goes on, but this timer is never armed again: the chain makes no
  further clock event, the store is not flushed any more.\<close>

theorem timers_armed_unless_failed:
  assumes "daemon_runs E env clk interval (r, d, failed)" "(run_step env clk interval)\<^sup>*\<^sup>* (r, d, failed) (r', d', failed')"
  shows "count (armed_timers r') t = (if t \<in> set (timers_of interval d') - set failed' then 1 else 0) \<and> set failed \<subseteq> set failed'"
proof -
  have "daemon_runs E env clk interval (r', d', failed') \<and> set failed \<subseteq> set (snd (snd (r', d', failed')))"
    using assms(2)
  proof (induction rule: rtranclp_induct)
    case (step s s')
    then show ?case using failed_grows by (blast intro: daemon_runs.step)
  qed (simp add: assms(1))
  then have c: "armed_timers r' + mset failed' = mset (timers_of interval d')" "distinct (timers_of interval d')" "set failed \<subseteq> set failed'"
    using daemon_census [of E env clk interval "(r', d', failed')"] timers_of_distinct by (auto simp: census_def)
  have "count (armed_timers r') t + count (mset failed') t = (if t \<in> set (timers_of interval d') then 1 else 0)"
    using arg_cong [OF c(1), of "\<lambda>m. count m t"] distinct_count_atmost_1 [THEN iffD1, OF c(2)] by (auto simp: count_mset_0_iff)
  moreover obtain k where "count (mset failed') t = k" "k = 0 \<longleftrightarrow> t \<notin> set failed'" by simp
  ultimately show ?thesis using c(3) by (cases "t \<in> set failed'"; cases "t \<in> set (timers_of interval d')") simp_all
qed

lemma arm_at_zero: "\<exists>r'. foldE (arm_output (\<lambda>_. 0)) outs r = Inr r'"
proof (induction outs arbitrary: r)
  case (Cons out outs)
  have "in_int64 (sint (delay :: Duration))" for delay
    using sint_ge [of delay] sint_lt [of delay] by (simp add: in_int64_def)
  then have "\<exists>r'. arm_output (\<lambda>_. 0) out r = Inr r'"
    by (cases out) (auto simp: arm_output_def reactor_after_def Let_def split: prod.split)
  then show ?case using Cons by fastforce
qed simp

lemma start_schedules: "\<exists>os. nd_out (start p n) = nd_out n @ os \<and> list_all (\<lambda>out. \<exists>i delay t. out = Schedule i delay t) os"
proof -
  let ?P = "\<lambda>m. \<exists>os. nd_out m = nd_out n @ os \<and> list_all (\<lambda>out. \<exists>i delay t. out = Schedule i delay t) os"
  have s: "?P (schedule_clock_timer p ch m)" "?P (schedule_purge_timer p m)" if "?P m" for ch m
    using that by (auto simp: schedule_clock_timer_def schedule_purge_timer_def schedule_after_def emit_def Let_def)
  have "?P (foldl (\<lambda>n chain. if sint (cc_interval (cfg_chains (nd_config n) ! chain)) > 0
      then schedule_clock_timer p (of_nat chain) n else n) m ls)" if "?P m" for m ls
    using that by (induction ls arbitrary: m) (simp_all add: s)
  from this [of n] s(2) show ?thesis by (simp add: start_def Let_def)
qed

lemma deliver_schedules: "list_all (\<lambda>out. \<exists>i delay t. out = Schedule i delay t) os \<Longrightarrow> deliver_all os d = (Inr (), d)"
  by (induction os) (auto simp: deliver_def act_bind_def act_return_def)

lemma run_start_at_zero:
  "\<exists>r. run_start env (\<lambda>_. 0) interval d = Inr (r, d\<lparr>d_node := start (le_ports env) (d_node d)\<rparr>, [])"
proof -
  let ?d = "d\<lparr>d_node := start (le_ports env) (d_node d)\<rparr>"
  obtain os where os: "nd_out (start (le_ports env) (d_node d)) = nd_out (d_node d) @ os"
    "list_all (\<lambda>out. \<exists>i delay t. out = Schedule i delay t) os" using start_schedules by blast
  have call: "node_call env Start d = (Inr (), ?d)"
    using os deliver_schedules [OF os(2)] by (simp add: node_call_def with_node_def act_bind_def act_return_def)
  obtain r where r: "foldE (arm_output (\<lambda>_. 0)) (new_outputs d ?d) Reactor_init = Inr r" using arm_at_zero by blast
  have "in_int64 (sint interval)" using sint_ge [of interval] sint_lt [of interval] by (simp add: in_int64_def)
  then have "\<exists>r'. schedule_store_sync (\<lambda>_. 0) interval ?d r = Inr r'"
    by (simp add: schedule_store_sync_def reactor_after_def Let_def case_prod_beta)
  then show ?thesis using call r by (auto simp: run_start_def)
qed

lemma sample_run:
  "\<exists>r d. daemon_runs ref_ed sample_env (\<lambda>_. 0) 0 (r, d, []) \<and> d_lmdb d \<noteq> None \<and>
     timers_of 0 d = map (\<lambda>l. Node_timer (Clock_timer l)) [0, 1, 2, 3]"
proof -
  let ?chain = "\<lambda>i. \<lparr>cc_interval = i, cc_keep = 4096\<rparr>"
  let ?cs = "[?chain 1000000000, ?chain 8000000000, ?chain 64000000000, ?chain 512000000000]"
  let ?config = "\<lparr>cfg_chains = ?cs, cfg_discovery_expiry = 0, cfg_discovery_hop_limit = 0,
      cfg_discovery_routing = static_shortest_path, cfg_discovery_fanout = 0, cfg_discovery_forward_cap = 0\<rparr>"
  have four: "4 = Suc (Suc (Suc (Suc 0)))" by simp
  have cs: "default_chain_schedule 1000000000 = Inr ?cs"
    unfolding default_chain_schedule_def four by simp
  obtain n where n: "make_node (node_id_of_u64 1) empty_store ?config = Inr n"
    using make_node_total [OF store_ok_empty] by blast
  have c: "nd_config n = ?config" using make_node_config [OF n] by (simp add: effective_config_def)
  obtain d key where d: "make_lotid ref_ed all_succeed (node_id_of_u64 1) [] (Some (''loti.lmdb'', empty_store)) 1000000000 0 (\<lambda>_. None) =
      Inr (d, key)" "d_node d = n" "d_lmdb d = Some ''loti.lmdb''"
    using n by (simp add: make_lotid_def cs)
  define d2 where "d2 = d\<lparr>d_node := start sample_ports n\<rparr>"
  obtain r where "run_start sample_env (\<lambda>_. 0) 0 d = Inr (r, d2, [])"
    using run_start_at_zero [of sample_env 0 d] by (auto simp: d2_def d(2) sample_env_def)
  moreover have "configure sample_env [] [] d = (Inr None, d)" by (simp add: configure_def act_bind_def)
  ultimately have "daemon_runs ref_ed sample_env (\<lambda>_. 0) 0 (r, d2, [])" using daemon_runs.boot [OF d(1)] by blast
  moreover have "nd_config (start sample_ports n) = ?config" using start_arms [of n sample_ports] c by (simp add: arms_exactly_def)
  then have "timers_of 0 d2 = map (\<lambda>l. Node_timer (Clock_timer l)) [0, 1, 2, 3]"
    by (simp add: timers_of_def node_timers_def d2_def upt_rec)
  moreover have "d_lmdb d2 \<noteq> None" using d(3) by (simp add: d2_def)
  ultimately show ?thesis by blast
qed

theorem timers_armed_unless_failed_witness:
  "\<exists>r d t failed. daemon_runs ref_ed sample_env (\<lambda>_. 0) 0 (r, d, failed) \<and> t \<in> set (timers_of 0 d) \<and> count (armed_timers r) t = 0"
proof -
  obtain r d where d: "daemon_runs ref_ed sample_env (\<lambda>_. 0) 0 (r, d, [])" "d_lmdb d \<noteq> None"
    "timers_of 0 d = map (\<lambda>l. Node_timer (Clock_timer l)) [0, 1, 2, 3]" using sample_run by blast
  let ?c = "\<lambda>l. Node_timer (Clock_timer l)"
  have a: "armed_timers r = mset (timers_of 0 d)" using daemon_census [OF d(1)] by (simp add: census_def)
  then obtain due i cb ts where q: "rx_timers r = (due, i, cb) # ts"
    using d(3) by (cases "rx_timers r") (auto simp: armed_timers_def)
  then have cb: "cb \<in> set (timers_of 0 d)" using a by (metis (no_types) armed_timers_def comp_apply list.set_intros(1) list.simps(9) set_mset_mset snd_conv)
  then obtain l where l: "cb = ?c l" using d(3) by auto
  obtain r1 where p: "pop_due due r = Some (i, cb, r1)" using q by (simp add: pop_due_def)
  have "safe_call (lotid_exec sample_env (Some Lmdb_failure) (Inr ()) (\<lambda>_. 0) 0) cb (r1, d, []) = (Inr (), r1, d, [cb])"
    using d(2) by (auto simp: l safe_call_def lotid_exec_def catchable_def)
  then have "run_step sample_env (\<lambda>_. 0) 0 (r, d, []) (r1, d, [cb])" by (rule run_step.timer [OF p])
  then have "count (armed_timers r1) cb = 0" "daemon_runs ref_ed sample_env (\<lambda>_. 0) 0 (r1, d, [cb])"
    using timers_armed_unless_failed [OF d(1), of r1 d "[cb]" cb] daemon_runs.step [OF d(1)] by auto
  then show ?thesis using cb by blast
qed

end
