(* ===== verification/Startup.thy ===== *)
theory Startup
  imports Complex_Main Daemon_Run Lmdb_Store
begin

text \<open>
  How a daemon comes up: the options and \<open>main\<close> of \<open>src/app/lotid/lotid.cpp\<close>, and the listening and connecting ends of the
  control socket in \<open>src/adapters/os/control.hpp\<close>. The floating-point unit is a parameter, and so are the outcomes of the
  system calls; the messages on standard error are values.
\<close>

section \<open>Floating-point options\<close>

text \<open>A \<open>double\<close>: a finite one is a rational number; an infinity has a sign.\<close>

datatype Double = Finite rat | Infinity bool | Not_a_number

record Fpu =
  fp_atof :: "string \<Rightarrow> Double"
  fp_mul :: "Double \<Rightarrow> Double \<Rightarrow> Double"

fun double_gt :: "Double \<Rightarrow> Double \<Rightarrow> bool" where
  "double_gt (Finite a) (Finite b) \<longleftrightarrow> a > b"
| "double_gt (Infinity positive) (Finite b) \<longleftrightarrow> positive"
| "double_gt (Finite a) (Infinity positive) \<longleftrightarrow> \<not> positive"
| "double_gt (Infinity p) (Infinity q) \<longleftrightarrow> p \<and> \<not> q"
| "double_gt _ _ \<longleftrightarrow> False"

definition trunc :: "rat \<Rightarrow> int" where
  "trunc x = (if x < 0 then \<lceil>x\<rceil> else \<lfloor>x\<rfloor>)"

text \<open>\<open>static_cast\<close> to \<open>std::size_t\<close> of the given width and to \<open>std::int64_t\<close>: undefined if the value does not fit.\<close>

definition double_to_size :: "nat \<Rightarrow> Double \<Rightarrow> nat result" where
  "double_to_size bits x =
     (case x of
        Finite r \<Rightarrow> if 0 \<le> trunc r \<and> trunc r < 2 ^ bits then Inr (nat (trunc r)) else Inl Undefined_behaviour
      | _ \<Rightarrow> Inl Undefined_behaviour)"

definition to_ns :: "Fpu \<Rightarrow> Double \<Rightarrow> Duration result" where
  "to_ns fp s =
     (case fp_mul fp s (Finite 1000000000) of
        Finite r \<Rightarrow>
          if - (2 ^ 63) \<le> trunc r \<and> trunc r < 2 ^ 63 then Inr (of_int (trunc r)) else Inl Undefined_behaviour
      | _ \<Rightarrow> Inl Undefined_behaviour)"

text \<open>The largest \<open>std::size_t\<close> as a \<open>double\<close>: with 64 bits it has no exact representation and is rounded up.\<close>

definition max_size_t :: "nat \<Rightarrow> Double" where
  "max_size_t bits = Finite (if bits \<le> 53 then 2 ^ bits - 1 else 2 ^ bits)"

definition kDefaultMapSize :: "nat \<Rightarrow> nat" where
  "kDefaultMapSize bits = (if bits \<ge> 64 then 16 * 2 ^ 30 else 2 ^ 30)"

section \<open>Options\<close>

datatype Message =
    Missing_value string
  | Unknown_argument string
  | Bad_mapsize
  | Mapsize_clamped
  | Usage_text
  | Bad_peer_or_route
  | Loaded nat nat string
  | Listening NodeId "16 word" bool
  | Unsigned_warning
  | Fatal exn
  | Control_socket_at string
  | Cannot_listen string

text \<open>No size stands for the end of the program with code 2; the flag tells that the size was clamped.\<close>

definition parse_mapsize_gib :: "Fpu \<Rightarrow> nat \<Rightarrow> string \<Rightarrow> (nat \<times> bool) option result" where
  "parse_mapsize_gib fp bits s =
     (let gib = fp_atof fp s in
      if \<not> double_gt gib (Finite 0) then Inr None
      else let b = fp_mul fp gib (Finite 1073741824);
               b = (if double_gt b (max_size_t bits) then max_size_t bits else b) in
        bindE (double_to_size bits b) (\<lambda>out.
          Inr (Some (if kMaxMapSize bits \<noteq> 0 \<and> out > kMaxMapSize bits then (kMaxMapSize bits, True) else (out, False)))))"

record LotidOptions =
  opt_id :: "NodeId option"
  opt_port :: "16 word"
  opt_clock_interval :: Double
  opt_expiry :: Double
  opt_verbose :: bool
  opt_store_path :: string
  opt_key_path :: string
  opt_control_path :: string
  opt_store_map_size :: nat
  opt_store_sync_interval :: Double
  opt_peers :: "string list"
  opt_routes :: "string list"
  opt_messages :: "Message list"

definition lotid_defaults :: "nat \<Rightarrow> LotidOptions" where
  "lotid_defaults bits =
     \<lparr>opt_id = None, opt_port = 0, opt_clock_interval = Finite 1, opt_expiry = Finite 5, opt_verbose = False,
      opt_store_path = [], opt_key_path = [], opt_control_path = [], opt_store_map_size = kDefaultMapSize bits,
      opt_store_sync_interval = Finite 0, opt_peers = [], opt_routes = [], opt_messages = []\<rparr>"

definition valued_options :: "string list" where
  "valued_options = [''--id'', ''--port'', ''--peer'', ''--route'', ''--clock-interval'', ''--expiry'', ''--store'',
     ''--store-mapsize'', ''--store-sync-interval'', ''--key'', ''--control'']"

text \<open>An option with its value. The messages are those of an end with code 2.\<close>

definition apply_option :: "Fpu \<Rightarrow> nat \<Rightarrow> string \<Rightarrow> string \<Rightarrow> LotidOptions \<Rightarrow> (Message list + LotidOptions) result" where
  "apply_option fp bits a v opt =
     (if a = ''--id'' then Inr (Inr (opt\<lparr>opt_id := Some (node_id_of_u64 (strtoull v))\<rparr>))
      else if a = ''--port'' then bindE (atoi v) (\<lambda>port. Inr (Inr (opt\<lparr>opt_port := of_int port\<rparr>)))
      else if a = ''--peer'' then Inr (Inr (opt\<lparr>opt_peers := opt_peers opt @ [v]\<rparr>))
      else if a = ''--route'' then Inr (Inr (opt\<lparr>opt_routes := opt_routes opt @ [v]\<rparr>))
      else if a = ''--clock-interval'' then Inr (Inr (opt\<lparr>opt_clock_interval := fp_atof fp v\<rparr>))
      else if a = ''--expiry'' then Inr (Inr (opt\<lparr>opt_expiry := fp_atof fp v\<rparr>))
      else if a = ''--store'' then Inr (Inr (opt\<lparr>opt_store_path := v\<rparr>))
      else if a = ''--store-mapsize''
      then bindE (parse_mapsize_gib fp bits v) (\<lambda>parsed.
        case parsed of
          None \<Rightarrow> Inr (Inl (opt_messages opt @ [Bad_mapsize]))
        | Some (out, clamped) \<Rightarrow> Inr (Inr (opt\<lparr>opt_store_map_size := out,
            opt_messages := opt_messages opt @ (if clamped then [Mapsize_clamped] else [])\<rparr>)))
      else if a = ''--store-sync-interval'' then Inr (Inr (opt\<lparr>opt_store_sync_interval := fp_atof fp v\<rparr>))
      else if a = ''--key'' then Inr (Inr (opt\<lparr>opt_key_path := v\<rparr>))
      else Inr (Inr (opt\<lparr>opt_control_path := v\<rparr>)))"

fun lotid_options :: "Fpu \<Rightarrow> nat \<Rightarrow> string list \<Rightarrow> LotidOptions \<Rightarrow> (Message list + LotidOptions) result" where
  "lotid_options fp bits [] opt = Inr (Inr opt)"
| "lotid_options fp bits (a # args) opt =
     (if a \<in> set valued_options
      then (case args of
          [] \<Rightarrow> Inr (Inl (opt_messages opt @ [Missing_value a]))
        | v # args \<Rightarrow> bindE (apply_option fp bits a v opt) (\<lambda>r.
            case r of Inl ms \<Rightarrow> Inr (Inl ms) | Inr opt \<Rightarrow> lotid_options fp bits args opt))
      else if a = ''--verbose'' \<or> a = ''-v'' then lotid_options fp bits args (opt\<lparr>opt_verbose := True\<rparr>)
      else Inr (Inl (opt_messages opt @ [Unknown_argument a])))"

section \<open>The control socket\<close>

text \<open>The names in the file system are a set; \<open>bind\<close> refuses a name that exists. \<open>sun_path\<close> holds 107 characters and a
  zero.\<close>

record ControlCalls =
  ct_socket :: bool
  ct_bind :: bool
  ct_listen :: bool

definition sun_path :: "string \<Rightarrow> string" where
  "sun_path path = take 107 (c_str path)"

definition control_listen :: "ControlCalls \<Rightarrow> string \<Rightarrow> string set \<Rightarrow> bool \<times> string set" where
  "control_listen c path names =
     (let names = names - {c_str path} in
      if \<not> ct_socket c then (False, names)
      else if sun_path path \<in> names \<or> \<not> ct_bind c then (False, names)
      else (ct_listen c, insert (sun_path path) names))"

text \<open>A client reaches the daemon that listens under the name.\<close>

definition control_connect :: "ControlCalls \<Rightarrow> string \<Rightarrow> string set \<Rightarrow> bool" where
  "control_connect c path listening \<longleftrightarrow> ct_socket c \<and> sun_path path \<in> listening"

definition setup_control :: "ControlCalls \<Rightarrow> string \<Rightarrow> string set \<Rightarrow> Message list \<times> string set" where
  "setup_control c path names =
     (if path = [] then ([], names)
      else let (ok, names) = control_listen c path names
        in ([if ok then Control_socket_at path else Cannot_listen path], names))"

text \<open>The end of \<open>run\<close>.\<close>

definition remove_control :: "string \<Rightarrow> string set \<Rightarrow> string set" where
  "remove_control path names = (if path = [] then names else names - {c_str path})"

section \<open>The program\<close>

text \<open>The world of a start: the word size, the key calls, the store behind a path, whether the UDP socket can be opened,
  the calls of the control socket and the names there are, and the monotonic clock.\<close>

record StartEnv =
  se_bits :: nat
  se_keys :: KeyCalls
  se_open :: "string \<Rightarrow> nat \<Rightarrow> SyncPolicy \<Rightarrow> InMemoryStore result"
  se_udp :: "16 word \<Rightarrow> unit result"
  se_control :: ControlCalls
  se_names :: "string set"
  se_clk :: "nat \<Rightarrow> int"

definition sync_interval :: "Duration \<Rightarrow> Duration" where
  "sync_interval ns = (if sint ns > 0 then ns else 0)"

text \<open>The key is read before the store is opened.\<close>

definition check_key :: "'k Ed25519 \<Rightarrow> KeyCalls \<Rightarrow> string \<Rightarrow> Files \<Rightarrow> unit result" where
  "check_key E calls key_path fs =
     (if key_path = [] then Inr ()
      else bindE (make_keystore E) (\<lambda>ks. case load_or_generate E calls key_path fs ks of (Inl e, _) \<Rightarrow> Inl e | (Inr _, _) \<Rightarrow> Inr ()))"

definition open_store :: "StartEnv \<Rightarrow> string \<Rightarrow> nat \<Rightarrow> Duration \<Rightarrow> (string \<times> InMemoryStore) option result" where
  "open_store se path map_size sync_ns =
     (if path = [] then Inr None
      else bindE (se_open se path map_size (if sync_interval sync_ns \<noteq> 0 then sync_lazy else sync_safe)) (\<lambda>s. Inr (Some (path, s))))"

definition construct_lotid :: "'k Ed25519 \<Rightarrow> StartEnv \<Rightarrow> LotidOptions \<Rightarrow> Duration \<Rightarrow> Duration \<Rightarrow> Duration \<Rightarrow> Files \<Rightarrow>
    (Lotid \<times> 'k KeyStore option) result" where
  "construct_lotid E se opt clock_ns expiry_ns sync_ns fs =
     bindE (se_udp se (opt_port opt)) (\<lambda>_.
     bindE (check_key E (se_keys se) (opt_key_path opt) fs) (\<lambda>_.
     bindE (open_store se (opt_store_path opt) (opt_store_map_size opt) sync_ns) (\<lambda>lmdb.
       make_lotid E (se_keys se) (case opt_id opt of Some i \<Rightarrow> i | None \<Rightarrow> node_id_of_u64 0) (opt_key_path opt) lmdb clock_ns expiry_ns fs)))"

text \<open>What \<open>restore_from_store\<close> and \<open>main\<close> report.\<close>

definition loaded_message :: "Lotid \<Rightarrow> Message list" where
  "loaded_message d =
     (case d_lmdb d of
        None \<Rightarrow> []
      | Some path \<Rightarrow> [Loaded (event_count (nd_store (d_node d))) (clock_event_count (nd_store (d_node d))) path])"

definition start_messages :: "LotidOptions \<Rightarrow> Lotid \<Rightarrow> Message list" where
  "start_messages opt d = Listening (d_node_id d) (opt_port opt) (opt_key_path opt \<noteq> []) #
     (if opt_key_path opt = [] then [Unsigned_warning] else [])"

datatype Outcome =
    Exits int "Message list"
  | Running "LotidTimer Reactor \<times> Lotid \<times> LotidTimer list" "Message list" "string set"

definition fatal :: "Message list \<Rightarrow> exn \<Rightarrow> Outcome result" where
  "fatal ms e = (if catchable e then Inr (Exits 1 (ms @ [Fatal e])) else Inl e)"

text \<open>The guarded part of \<open>main\<close>.\<close>

definition start_daemon :: "'k Ed25519 \<Rightarrow> LotidEnv \<Rightarrow> StartEnv \<Rightarrow> LotidOptions \<Rightarrow> Duration \<Rightarrow> Duration \<Rightarrow> Duration \<Rightarrow> Files \<Rightarrow>
    Outcome result" where
  "start_daemon E env se opt clock_ns expiry_ns sync_ns fs =
     (case construct_lotid E se opt clock_ns expiry_ns sync_ns fs of
        Inl e \<Rightarrow> fatal (opt_messages opt) e
      | Inr (d, key) \<Rightarrow>
          let ms = opt_messages opt @ loaded_message d in
          case configure env (opt_peers opt) (opt_routes opt) d of
            (Inl e, d) \<Rightarrow> fatal ms e
          | (Inr (Some code), d) \<Rightarrow> Inr (Exits code (ms @ [Bad_peer_or_route]))
          | (Inr None, d) \<Rightarrow>
              let ms = ms @ start_messages opt d in
              case run_start env (se_clk se) (sync_interval sync_ns) d of
                Inl e \<Rightarrow> fatal ms e
              | Inr s \<Rightarrow>
                  let (cs, names) = setup_control (se_control se) (opt_control_path opt) (se_names se)
                  in Inr (Running s (ms @ cs) names))"

definition lotid_main :: "'k Ed25519 \<Rightarrow> Fpu \<Rightarrow> LotidEnv \<Rightarrow> StartEnv \<Rightarrow> Files \<Rightarrow> string list \<Rightarrow> Outcome result" where
  "lotid_main E fp env se fs args =
     bindE (lotid_options fp (se_bits se) args (lotid_defaults (se_bits se))) (\<lambda>r.
     case r of
       Inl ms \<Rightarrow> Inr (Exits 2 ms)
     | Inr opt \<Rightarrow>
         if opt_port opt = 0 \<or> opt_id opt = None \<and> opt_key_path opt = []
         then Inr (Exits 2 (opt_messages opt @ [Usage_text]))
         else
           bindE (to_ns fp (opt_clock_interval opt)) (\<lambda>clock_ns.
           bindE (to_ns fp (opt_expiry opt)) (\<lambda>expiry_ns.
           bindE (to_ns fp (opt_store_sync_interval opt)) (\<lambda>sync_ns.
             start_daemon E env se opt clock_ns expiry_ns sync_ns fs))))"

section \<open>Map sizes\<close>

text \<open>\<open>gib\<close> GiB in bytes, as IEEE 754 computes it: a scaling by a power of two is exact as long as it does not
  overflow.\<close>

definition scales :: "Fpu \<Rightarrow> rat \<Rightarrow> bool" where
  "scales fp g \<longleftrightarrow> fp_mul fp (Finite g) (Finite 1073741824) = Finite (g * 1073741824) \<or>
     2 ^ 64 < g * 1073741824 \<and> fp_mul fp (Finite g) (Finite 1073741824) = Infinity True"

lemma trunc_bounds: "0 \<le> x \<Longrightarrow> 0 \<le> trunc x \<and> (trunc x < 2 ^ k \<longleftrightarrow> x < 2 ^ k)"
  by (simp add: trunc_def floor_less_iff)

text \<open>On 64 bits every size below \<open>2 ^ 34\<close> GiB is taken as it is. From there on the clamping does not help: the bound it
  clamps to is itself \<open>2 ^ 64\<close>, and its conversion is undefined.\<close>

lemma mapsize_64:
  assumes "fp_atof fp s = Finite g" "0 < g" "scales fp g"
  shows "parse_mapsize_gib fp 64 s =
    (if g < 2 ^ 34 then Inr (Some (nat \<lfloor>g * 1073741824\<rfloor>, False)) else Inl Undefined_behaviour)"
proof (cases "g < 2 ^ 34")
  case True
  then have lt: "g * 1073741824 < 2 ^ 64" by (simp add: mult.commute)
  then have "fp_mul fp (Finite g) (Finite 1073741824) = Finite (g * 1073741824)" using assms(3) by (auto simp: scales_def)
  then show ?thesis using assms(1,2) True lt trunc_bounds [of "g * 1073741824" 64]
    by (simp add: parse_mapsize_gib_def Let_def max_size_t_def kMaxMapSize_def double_to_size_def trunc_def)
next
  case False
  then have "\<not> g * 1073741824 < 2 ^ 64" by (simp add: mult.commute)
  then show ?thesis using assms(1-3) False
    by (auto simp: parse_mapsize_gib_def Let_def max_size_t_def scales_def double_to_size_def trunc_def floor_less_iff)
qed

text \<open>On 32 bits the clamping works.\<close>

lemma mapsize_32:
  assumes "fp_atof fp s = Finite g" "0 < g" "scales fp g"
  shows "\<exists>out clamped. parse_mapsize_gib fp 32 s = Inr (Some (out, clamped)) \<and> out \<le> kMaxMapSize 32"
proof -
  define b where "b = (if double_gt (fp_mul fp (Finite g) (Finite 1073741824)) (max_size_t 32) then max_size_t 32
    else fp_mul fp (Finite g) (Finite 1073741824))"
  have "\<exists>x. b = Finite x \<and> 0 \<le> x \<and> x < 2 ^ 32"
    using assms(2,3) by (auto simp: b_def max_size_t_def scales_def)
  then obtain out where "double_to_size 32 b = Inr out" using trunc_bounds [of _ 32] by (auto simp: double_to_size_def)
  then show ?thesis using assms(1,2) by (auto simp: parse_mapsize_gib_def Let_def kMaxMapSize_def simp flip: b_def)
qed

section \<open>Control sockets\<close>

text \<open>With a name that fits, the daemon listens whatever an earlier one left behind, and clients with the same path
  reach it.\<close>

lemma control_short_path:
  assumes "length (c_str path) \<le> 107" "ct_socket c" "ct_bind c" "ct_listen c"
  shows "control_listen c path names = (True, insert (c_str path) names) \<and> control_connect c path {c_str path}"
  using assms by (auto simp: control_listen_def control_connect_def sun_path_def)

text \<open>A longer one is cut off when it is bound but not when it is removed: once a daemon has listened under it, the
  next one cannot, even if the first has ended properly.\<close>

lemma control_long_path:
  assumes "107 < length (c_str path)" "control_listen c path names = (True, names')"
  shows "\<not> fst (control_listen c' path (remove_control path names'))"
proof -
  have "sun_path path \<noteq> c_str path" using assms(1) by (metis length_take min_less_iff_conj nat_neq_iff sun_path_def)
  moreover have "sun_path path \<in> names'" using assms(2) by (auto simp: control_listen_def Let_def split: if_splits)
  ultimately show ?thesis by (auto simp: control_listen_def remove_control_def Let_def)
qed

section \<open>Starts\<close>

lemma construct_lotid_makes: "construct_lotid E se opt clock_ns expiry_ns sync_ns fs = Inr (d, key) \<Longrightarrow>
    \<exists>i lmdb. make_lotid E (se_keys se) i (opt_key_path opt) lmdb clock_ns expiry_ns fs = Inr (d, key)"
  by (auto simp: construct_lotid_def)

lemma run_start_failed: "run_start env clk interval d = Inr (r, d', failed) \<Longrightarrow> failed = []"
  by (auto simp: run_start_def split: prod.splits sum.splits)

lemma configure_code: "configure env peers routes d = (Inr (Some code), d') \<Longrightarrow> code = 2"
proof -
  have p: "configure_peers env ps d = (Inr (Some code), d') \<Longrightarrow> code = 2" for ps d d'
    by (induction env ps d rule: configure_peers.induct)
      (auto simp: act_bind_def act_result_def Let_def split: if_splits prod.splits sum.splits)
  have r: "configure_routes env rs d = (Inr (Some code), d') \<Longrightarrow> code = 2" for rs d d'
    by (induction env rs d rule: configure_routes.induct)
      (auto simp: act_bind_def act_result_def Let_def split: if_splits prod.splits sum.splits)
  show "configure env peers routes d = (Inr (Some code), d') \<Longrightarrow> code = 2"
    by (auto simp: configure_def act_bind_def act_return_def split: prod.splits sum.splits option.splits dest: p r)
qed

interpretation pk: lotid_invariant "\<lambda>d. d_public_key d = k" for k
  by unfold_locales
    (simp_all add: respond_def close_client_def purge_pending_for_fd_def set_pending_def Let_def split: Query.split)

lemma keeps_key_configure: "keeps (\<lambda>d. d_public_key d = k) (configure env peers routes)"
  unfolding add_peer_def by (intro keeps_configure pk.keeps_node_call) (unfold add_peer_def, intro keeps_intros, simp)

lemma run_start_key: "run_start env clk interval d = Inr (r, d', failed) \<Longrightarrow> d_public_key d' = d_public_key d"
  using keepsD [OF pk.keeps_node_call [of "d_public_key d" env Start] refl]
  by (auto simp: run_start_def split: prod.splits sum.splits)

lemma make_lotid_key:
  "make_lotid E calls i key_path lmdb clock_ns expiry_ns fs = Inr (d, key) \<Longrightarrow> d_public_key d = None \<longleftrightarrow> key_path = []"
proof (cases "key_path = []")
  case False
  assume "make_lotid E calls i key_path lmdb clock_ns expiry_ns fs = Inr (d, key)"
  then obtain ks fs' where "(case load_or_generate E calls key_path fs ks of (Inl e, _) \<Rightarrow> Inl e | (Inr ks, fs) \<Rightarrow> Inr (Some ks, fs)) = Inr (key, fs')"
    "d_public_key d = map_option ks_public_key key"
    using False by (auto simp: make_lotid_def Let_def)
  then show ?thesis using False by (cases "load_or_generate E calls key_path fs ks") (auto split: sum.splits)
qed (auto simp: make_lotid_def Let_def)

lemma apply_option_messages:
  assumes "apply_option fp bits a v opt = Inr x" "set (opt_messages opt) \<subseteq> {Mapsize_clamped}"
  shows "case x of Inl ms \<Rightarrow> ms \<noteq> [] | Inr opt' \<Rightarrow> set (opt_messages opt') \<subseteq> {Mapsize_clamped}"
proof (cases "a = ''--store-mapsize''")
  case True
  then show ?thesis using assms by (auto simp: apply_option_def split: option.splits)
next
  case False
  then show ?thesis using assms by (simp add: apply_option_def split: if_splits) auto
qed

lemma options_messages:
  "lotid_options fp bits args opt = Inr x \<Longrightarrow> set (opt_messages opt) \<subseteq> {Mapsize_clamped} \<Longrightarrow>
   case x of Inl ms \<Rightarrow> ms \<noteq> [] | Inr opt' \<Rightarrow> set (opt_messages opt') \<subseteq> {Mapsize_clamped}"
proof (induction fp bits args opt rule: lotid_options.induct)
  case (2 fp bits a args opt)
  show ?case
  proof (cases args)
    case (Cons v rest)
    show ?thesis
    proof (cases "a \<in> set valued_options")
      case True
      then obtain y where y: "apply_option fp bits a v opt = Inr y" using 2(3) Cons by auto
      show ?thesis using apply_option_messages [OF y 2(4)] 2(1) [OF True Cons] 2(3) y Cons True
        by (cases y) auto
    qed (use 2 in \<open>auto split: if_splits\<close>)
  qed (use 2 in \<open>auto split: if_splits\<close>)
qed auto

definition proper :: "'k Ed25519 \<Rightarrow> LotidEnv \<Rightarrow> (nat \<Rightarrow> int) \<Rightarrow> Outcome \<Rightarrow> bool" where
  "proper E env clk out \<longleftrightarrow>
     (case out of
        Exits code ms \<Rightarrow> code \<in> {1, 2} \<and> ms \<noteq> []
      | Running (r, d, failed) ms names \<Rightarrow> failed = [] \<and>
          (\<exists>interval. daemon_runs E env clk interval (r, d, failed) \<and> armed_timers r = mset (timers_of interval d)) \<and>
          (Unsigned_warning \<in> set ms \<longleftrightarrow> d_public_key d = None))"

lemma fatal_proper: "fatal ms e = Inr out \<Longrightarrow> proper E env clk out"
  by (auto simp: fatal_def proper_def split: if_splits)

lemma start_daemon_proper:
  assumes "start_daemon E env se opt clock_ns expiry_ns sync_ns fs = Inr out" "set (opt_messages opt) \<subseteq> {Mapsize_clamped}"
  shows "proper E env (se_clk se) out"
proof (cases "construct_lotid E se opt clock_ns expiry_ns sync_ns fs")
  case (Inl e)
  then show ?thesis using assms(1) by (auto simp: start_daemon_def intro: fatal_proper)
next
  case (Inr z)
  obtain d key where z: "z = (d, key)" by (rule prod.exhaust)
  obtain i lmdb where m: "make_lotid E (se_keys se) i (opt_key_path opt) lmdb clock_ns expiry_ns fs = Inr (d, key)"
    using construct_lotid_makes [OF Inr [unfolded z]] by blast
  obtain x d1 where c: "configure env (opt_peers opt) (opt_routes opt) d = (x, d1)" by (rule prod.exhaust)
  show ?thesis
  proof (cases "x = Inr None")
    case True
    let ?i = "sync_interval sync_ns"
    show ?thesis
    proof (cases "run_start env (se_clk se) ?i d1")
      case (Inr s)
      obtain r d2 failed where s: "s = (r, d2, failed)" by (rule prod_cases3)
      note rs = Inr [unfolded s]
      have f: "failed = []" by (rule run_start_failed [OF rs])
      have run: "daemon_runs E env (se_clk se) ?i (r, d2, failed)" by (rule daemon_runs.boot [OF m _ rs]) (use c True in simp)
      have "armed_timers r = mset (timers_of ?i d2)" using daemon_census [OF run] f by (simp add: census_def)
      moreover have "d_public_key d2 = None \<longleftrightarrow> opt_key_path opt = []"
        using run_start_key [OF rs] keepsD [OF keeps_key_configure refl c] make_lotid_key [OF m] by simp
      moreover have "Unsigned_warning \<notin> set (opt_messages opt @ loaded_message d)"
        "Unsigned_warning \<notin> set (fst (setup_control (se_control se) (opt_control_path opt) (se_names se)))"
        using assms(2) by (auto simp: loaded_message_def setup_control_def split: option.splits prod.splits)
      ultimately show ?thesis using assms(1) run f Inr True c \<open>construct_lotid _ _ _ _ _ _ _ = _\<close>
        by (auto simp: start_daemon_def proper_def start_messages_def z s Let_def case_prod_beta)
    qed (use assms(1) True c \<open>construct_lotid _ _ _ _ _ _ _ = _\<close> in \<open>auto simp: start_daemon_def z Let_def intro: fatal_proper\<close>)
  next
    case False
    show ?thesis
    proof (cases x)
      case (Inl e)
      then show ?thesis using assms(1) c \<open>construct_lotid _ _ _ _ _ _ _ = _\<close>
        by (auto simp: start_daemon_def z Let_def intro: fatal_proper)
    next
      case (Inr y)
      then obtain code where "x = Inr (Some code)" using False by (cases y) simp_all
      then show ?thesis using assms(1) c \<open>construct_lotid _ _ _ _ _ _ _ = _\<close> configure_code [of env "opt_peers opt" "opt_routes opt" d code d1]
        by (auto simp: start_daemon_def z Let_def proper_def)
    qed
  qed
qed

text \<open>C38: \<open>main\<close> ends with code 1 or 2 and says why, or it hands over to the event loop a daemon in a proper first state:
  everything shown of running daemons holds from here on, all of its timers are armed, none has failed, and it has
  warned that it is unsigned exactly if it has no key.\<close>

theorem main_starts_run:
  assumes "lotid_main E fp env se fs args = Inr out"
  shows "case out of
      Exits code ms \<Rightarrow> code \<in> {1, 2} \<and> ms \<noteq> []
    | Running (r, d, failed) ms names \<Rightarrow> failed = [] \<and>
        (\<exists>interval. daemon_runs E env (se_clk se) interval (r, d, failed) \<and> armed_timers r = mset (timers_of interval d)) \<and>
        (Unsigned_warning \<in> set ms \<longleftrightarrow> d_public_key d = None)"
proof -
  obtain x where x: "lotid_options fp (se_bits se) args (lotid_defaults (se_bits se)) = Inr x"
    using assms by (auto simp: lotid_main_def)
  have "proper E env (se_clk se) out"
  proof (cases x)
    case (Inl ms)
    then show ?thesis using assms x options_messages [OF x] by (auto simp: lotid_main_def proper_def lotid_defaults_def)
  next
    case (Inr opt)
    have "set (opt_messages opt) \<subseteq> {Mapsize_clamped}" using options_messages [OF x] Inr by (simp add: lotid_defaults_def)
    then show ?thesis using assms x Inr
      by (auto simp: lotid_main_def split: if_splits intro: start_daemon_proper) (simp_all add: proper_def)
  qed
  then show ?thesis by (simp only: proper_def)
qed

text \<open>A floating-point unit that does not round, and a world in which everything succeeds.\<close>

definition exact_fpu :: Fpu where
  "exact_fpu = \<lparr>fp_atof = (\<lambda>_. Finite 1), fp_mul = (\<lambda>x y. case (x, y) of (Finite a, Finite b) \<Rightarrow> Finite (a * b) | _ \<Rightarrow> Not_a_number)\<rparr>"

definition sample_start :: StartEnv where
  "sample_start = \<lparr>se_bits = 64, se_keys = all_succeed, se_open = (\<lambda>_ _ _. Inr empty_store), se_udp = (\<lambda>_. Inr ()),
     se_control = \<lparr>ct_socket = True, ct_bind = True, ct_listen = True\<rparr>, se_names = {}, se_clk = (\<lambda>_. 0)\<rparr>"

lemma sample_main:
  "\<exists>r d ms names. lotid_main ref_ed exact_fpu sample_env sample_start (\<lambda>_. None) [''--port'', ''99'', ''--id'', ''1''] =
     Inr (Running (r, d, []) ms names)"
proof -
  have r: "read_sign ''99'' = (False, ''99'')" "read_digits 10 ''99'' = 99" "read_sign ''1'' = (False, ''1'')" "read_digits 10 ''1'' = 1"
    by code_simp+
  then have n: "atoi ''99'' = Inr 99" "strtoull ''1'' = 1" by (simp_all add: atoi_def read_int_def strtoull_def)
  define opt where "opt = (lotid_defaults 64)\<lparr>opt_port := 99, opt_id := Some (node_id_of_u64 1)\<rparr>"
  have o: "lotid_options exact_fpu 64 [''--port'', ''99'', ''--id'', ''1''] (lotid_defaults 64) = Inr (Inr opt)"
    by (simp add: valued_options_def apply_option_def n opt_def)
  have t: "to_ns exact_fpu (opt_clock_interval opt) = Inr 1000000000" "to_ns exact_fpu (opt_expiry opt) = Inr 5000000000"
    "to_ns exact_fpu (opt_store_sync_interval opt) = Inr 0"
    by (simp_all add: to_ns_def exact_fpu_def opt_def lotid_defaults_def trunc_def)
  have four: "4 = Suc (Suc (Suc (Suc 0)))" by simp
  have "\<exists>cs. default_chain_schedule 1000000000 = Inr cs" unfolding default_chain_schedule_def four by simp
  then obtain cs where cs: "default_chain_schedule 1000000000 = Inr cs" by (rule exE)
  obtain n where n: "make_node (node_id_of_u64 1) empty_store \<lparr>cfg_chains = cs, cfg_discovery_expiry = 5000000000,
      cfg_discovery_hop_limit = 0, cfg_discovery_routing = static_shortest_path, cfg_discovery_fanout = 0,
      cfg_discovery_forward_cap = 0\<rparr> = Inr n"
    using make_node_total [OF store_ok_empty] by blast
  have "\<exists>d key. construct_lotid ref_ed sample_start opt 1000000000 5000000000 0 (\<lambda>_. None) = Inr (d, key)"
    by (simp add: construct_lotid_def sample_start_def check_key_def open_store_def make_lotid_def opt_def lotid_defaults_def cs n)
  then obtain d key where d: "construct_lotid ref_ed sample_start opt 1000000000 5000000000 0 (\<lambda>_. None) = Inr (d, key)" by blast
  have c: "configure sample_env (opt_peers opt) (opt_routes opt) d = (Inr None, d)"
    by (simp add: opt_def lotid_defaults_def configure_def act_bind_def)
  obtain r where r: "run_start sample_env (\<lambda>_. 0) 0 d = Inr (r, d\<lparr>d_node := start (le_ports sample_env) (d_node d)\<rparr>, [])"
    using run_start_at_zero [of sample_env 0 d] by blast
  have k: "se_bits sample_start = 64" "se_clk sample_start = (\<lambda>_. 0)" "sync_interval 0 = 0"
    by (simp_all add: sample_start_def sync_interval_def)
  have p: "\<not> (opt_port opt = 0 \<or> opt_id opt = None \<and> opt_key_path opt = [])" by (simp add: opt_def)
  have "\<exists>d ms names. start_daemon ref_ed sample_env sample_start opt 1000000000 5000000000 0 (\<lambda>_. None) = Inr (Running (r, d, []) ms names)"
    by (simp add: start_daemon_def k d c r case_prod_beta Let_def)
  then show ?thesis unfolding lotid_main_def k(1) o by (auto simp: t if_not_P [OF p])
qed

theorem main_starts_run_witness:
  "\<exists>r d ms names. lotid_main ref_ed exact_fpu sample_env sample_start (\<lambda>_. None) [''--port'', ''99'', ''--id'', ''1''] =
     Inr (Running (r, d, []) ms names) \<and> (\<exists>interval. daemon_runs ref_ed sample_env (\<lambda>_. 0) interval (r, d, []))"
proof -
  obtain r d ms names where m: "lotid_main ref_ed exact_fpu sample_env sample_start (\<lambda>_. None) [''--port'', ''99'', ''--id'', ''1''] =
     Inr (Running (r, d, []) ms names)" using sample_main by blast
  then show ?thesis using main_starts_run [OF m] by (auto simp: sample_start_def)
qed

end
