(* ===== verification/Spec2Isabelle.thy ===== *)
theory Spec2Isabelle
  imports Packets Proof_Format Routing Node_Properties Protocol_Properties Persistence Durable_Store Client_Properties Overlay Sha256_Stream Startup
begin

text \<open>
  This is a verification library for loti, a network of nodes that bound and order events in time without
  trusting each other's clocks. Each node keeps a log of events and of clock events on one or more hash-linked chains,
  exchanges the tips of its chains with its neighbors, and proves the time of an event by a chain of references that
  encloses it between two clock events of a reference node. The program is C++; paths below are relative to
  the directory \<open>src/\<close> of the repository. The model is a shallow embedding: one definition per function, records for classes, state
  passed explicitly. A thrown exception, a failed assertion, undefined behaviour and a loop that does not end are
  errors of the sum type \<open>exn + 'a\<close> (theory \<open>Prelude\<close>), so that every early exit of the code is a branch of its
  definition; \<open>catchable\<close> separates what a \<open>catch\<close> of the code sees. Integers keep their width where the code
  can overflow.

  \<^bold>\<open>Data and formats.\<close> \<open>Domain\<close> has the types of \<open>core/domain/types.hpp\<close>. \<open>Sha256\<close> models
  \<open>core/hash/picosha2.hpp\<close> with its masked 64-bit words and shows that it computes SHA-256 of FIPS 180-4, \<open>Sha256_Stream\<close>
  that it does so for a message cut into chunks, too;
  \<open>Hashing\<close> models \<open>core/hash/hashing.cpp\<close>. \<open>Wire\<close> and \<open>Packets\<close> are the codec and the datagrams of
  \<open>core/wire/\<close>, with a locale for a writer and a reader that invert each other. \<open>Validate\<close> is
  \<open>core/validate/\<close>: its walk accepts exactly the sound chains. \<open>Proof_Format\<close> is \<open>core/proof/proof.cpp\<close>: the
  portable proof and its offline verification.

  \<^bold>\<open>The node.\<close> \<open>Node_State\<close>, \<open>Chain_Building\<close>, \<open>Discovery\<close> and \<open>Node_Protocol\<close> model \<open>core/node.cpp\<close>
  handler by handler, \<open>Routing\<close> the policies of \<open>core/routing/\<close>, \<open>Persistence\<close> the snapshots. The ports
  of the node (clock, random numbers, signer) are arbitrary functions; what it sends, schedules and reports is
  the log \<open>nd_out\<close>. \<open>handle\<close> is one step and \<open>reachable\<close> its closure. \<open>Node_Invariant\<close> and \<open>Recovery\<close> carry the
  invariant of the log through every handler; \<open>Result_Safety\<close>, \<open>Own_Discovery\<close>, \<open>Discovery_Lifecycle\<close> and
  \<open>Forwarding\<close> prepare the properties of \<open>Node_Properties\<close> (what is reported is proved, the log stays sound, a
  node can bound its own events, restarts) and \<open>Protocol_Properties\<close> (every datagram is handled to its end but for
  named exceptions, forwarding is free of loops and bounded). The invariant needs that a new clock event's hash is
  fresh, which a salted collision-resistant hash gives; it is a hypothesis where it is used.

  \<^bold>\<open>Stores.\<close> \<open>Store_Spec\<close> is the abstract log as a locale, \<open>Memory_Store\<close> the in-memory store of
  \<open>adapters/sim/in_memory_store.hpp\<close> that implements it. \<open>Lmdb_Store\<close> models \<open>adapters/os/lmdb_store.cpp\<close>
  over a record of the LMDB functions it calls, with the records of \<open>Record_Codec\<close>; \<open>lmdb_reads\<close> and \<open>lmdb_writes\<close>
  state the documented behaviour of LMDB and hold of a reference environment; \<open>Lmdb_Refinement\<close>,
  \<open>Lmdb_Properties\<close> and \<open>Durable_Store\<close> show that it represents an in-memory store, that its reads and writes
  agree with it, that reopening restores it and that the loop that grows the map ends.

  \<^bold>\<open>Operating system.\<close> \<open>Timers\<close> models the reactor of \<open>adapters/os/reactor.hpp\<close> and the
  simulation's scheduler as two implementations of one locale. \<open>Udp_Transport\<close> is \<open>adapters/os/transport.hpp\<close>
  over the queue of arrived datagrams, \<open>Keystore\<close> is \<open>adapters/os/keystore.cpp\<close> over a record for
  OpenSSL with its documented laws, \<open>File_Store\<close> is \<open>adapters/os/store.hpp\<close> with the states of the file system it goes
  through, \<open>Control\<close> is the line protocol of \<open>adapters/os/control.hpp\<close>, and \<open>Text\<close> the number and
  hexadecimal conversions that the two programs share. \<open>Adapters\<close> has the remaining ports: clock, random numbers and log
  of the daemon, and random numbers, transport and statistics of the simulation. The outcomes of system calls are parameters.

  \<^bold>\<open>Simulation.\<close> \<open>Simulation\<close> models the modules of \<open>app/sim/\<close> (\<open>Daemon\<close>, \<open>NetworkConfigurator\<close>, \<open>Publisher\<close>,
  \<open>Browser\<close>) as a network of the same nodes on the in-memory store, the scheduler and the adapters of \<open>adapters/sim/\<close>;
  \<open>world_step\<close> is the handling of any message by any module. OMNeT++ and INET are parameters: the messages, the
  module parameters, the random draws and the shortest paths. \<open>Output_Frame\<close> shows which handlers of the node leave the timers, the
  clock chains and the overlay alone, \<open>Simulation_Properties\<close> that the one purge timer of every node stays
  armed and that the clock chains tick in their ratio, and \<open>Overlay\<close> that the routes the configurator
  installs lead requests to their destination at every later time.

  \<^bold>\<open>Programs.\<close> \<open>Daemon_Replies\<close> and \<open>Daemon\<close> model \<open>app/lotid/lotid.cpp\<close>: the tables of waiting clients with the
  addresses of their entries, so that the use of an iterator after its entry is erased is an error of the model; the
  callbacks; all commands; the two front ends; the constructor and the configuration. A call of the node runs first
  and what it reports is delivered in order afterwards, which the callbacks cannot tell apart since they do not look
  at the node. \<open>lotid_reachable\<close> closes this under everything the reactor calls. \<open>Daemon_Invariant\<close> has a locale of
  what an invariant must keep and carries it through every callback and command; \<open>Daemon_Properties\<close> draws the
  consequences. \<open>Daemon_Run\<close> puts the object into the reactor of \<open>Timers\<close>: \<open>daemon_runs\<close> are the states of a run, in
  which the timers of the node and the flush of the store are armed and called back. \<open>Startup\<close> has the options and
  \<open>main\<close>, and the names of the control socket. \<open>Client\<close> and \<open>Client_Properties\<close> model \<open>app/loti/loti.cpp\<close>, with the daemon's replies as a
  parameter, up to the end-to-end property that a proof made by the one is accepted by the other. This theory
  holds what spans the node and the production store.

  \<^bold>\<open>Bounds.\<close> Loops over data are structural or have a termination proof. The loops that wait for the world take its
  answers as lists. The loops that need not end on every state are \<open>partial_function (option)\<close>: the two walks that build a chain, the
  retry loop of the store, the loop over the due timers and the loop over an input iterator; each has lemmas that it returns where the code
  relies on it. No fuel is used.

  \<^bold>\<open>Not modelled.\<close> The node of the daemon runs on the in-memory store, which the production store refines. A handler
  of the node that throws leaves the node of the model as it was, while the code may have changed a part of it;
  on a sound log the handlers do not throw but for the named exceptions. The
  stage of the simulation that binds the sockets, the destructors of its modules and the texts it shows are left to OMNeT++. The
  floating-point unit is a parameter. The options of sockets, file modes, the scrubbing of key material, the times in front of log lines
  and the text of the help have no behaviour that could be stated and are left out.
\<close>

section \<open>Node and production store\<close>

text \<open>C20: A neighbor can stop the clock of a node that runs on the production store: a tip it advertises with
  more than 511 bytes is referenced by every clock event the node makes on that chain, and LMDB refuses the
  tip as a key of the reverse index, so that no such clock event is ever stored.\<close>

theorem oversized_tip_stops_clock:
  assumes "lmdb_writes L tbl dup" "node_ok p n" "om_find i (nd_neighbors n) = Some nb"
    and "unat l < length (nb_last_hashes nb)" "511 < length (nb_last_hashes nb ! unat l)"
    and "insert_clock_event p l n = Inr (c, n')" "lmdb_append_clock_event L bits c s = Some (r, s')"
    and "represents tbl dup s (nd_store n)"
  shows "\<exists>e. r = Inl e \<and> represents tbl dup s' (nd_store n)"
proof -
  let ?r = "\<lparr>ref_creator = nb_node_id nb, ref_hash = nb_last_hashes nb ! unat l\<rparr>"
  have "?r \<in> set (neighbor_tips l (nd_neighbors n))"
    using om_find_in [OF assms(3)] assms(4,5) by (force simp: neighbor_tips_def)
  then have "?r \<in> set (ce_refs c)" using insert_clock_spec(6) [OF assms(2,6)] by simp
  moreover have "\<not> valid_key (ref_hash ?r)" using assms(5) by (simp add: valid_key_def)
  ultimately have "foldE (\<lambda>r. put_checked L db_referencing (ref_hash r) v) (ce_refs c) db \<noteq> Inr db'" for v db db'
    using put_referencesD [OF assms(1), of v "ce_refs c" db db'] by blast
  then have "attempt L (batch_append_clock_event L c) t \<noteq> (Inr x, s')" for t x
    using attempt_done [of L "batch_append_clock_event L c" t x s'] by (auto simp: batch_append_clock_event_def Let_def)
  then show ?thesis
    using durable_cases [OF assms(1,8), of bits "batch_append_clock_event L c"] assms(7)
    by (auto simp: lmdb_append_clock_event_def durable_result_def)
qed

theorem oversized_tip_stops_clock_witness:
  "\<exists>n c n' e s'. insert_clock_event sample_ports 0 n = Inr (c, n') \<and>
     lmdb_append_clock_event ref_lmdb 32 c (ref_store 4096) = Some (Inl e, s')"
proof -
  let ?nb = "\<lparr>nb_node_id = node_id_of_u64 2, nb_last_hashes = [replicate 512 0]\<rparr>"
  obtain n0 where n0: "make_node (node_id_of_u64 1) empty_store sample_config = Inr n0"
    using make_node_total [OF store_ok_empty] by blast
  let ?n = "n0\<lparr>nd_neighbors := [(node_id_of_u64 2, ?nb)]\<rparr>"
  note b = make_node_ok [OF log_ok_empty n0]
  have ok: "node_ok sample_ports ?n" using b(1) by (simp add: node_ok_def om_ok_def)
  have "unat (0 :: u32) < nd_num_chains ?n" unfolding node_okD(6) [OF ok] by (simp add: less_max_iff_disj)
  then obtain c n' where c: "insert_clock_event sample_ports 0 ?n = Inr (c, n')"
    using insert_clock_total [OF ok] by blast
  obtain r s' where r: "lmdb_append_clock_event ref_lmdb 32 c (ref_store 4096) = Some (r, s')"
    using durable_ends_32 [of "ref_store 4096" ref_lmdb "batch_append_clock_event ref_lmdb c"]
    by (auto simp: lmdb_append_clock_event_def ref_store_def)
  have "represents rd_table rd_dups (ref_store 4096) (nd_store ?n)" using ref_represents b(3) by simp
  moreover have "om_find (node_id_of_u64 2) (nd_neighbors ?n) = Some ?nb" "unat (0 :: u32) < length (nb_last_hashes ?nb)"
    "511 < length (nb_last_hashes ?nb ! unat (0 :: u32))" by simp_all
  ultimately obtain e where "r = Inl e" using oversized_tip_stops_clock [OF ref_laws(2) ok _ _ _ c r] by blast
  then show ?thesis using c r by blast
qed

end
